(* ===== verification/Prelude.thy ===== *)
theory Prelude
  imports Main "HOL-Library.Word" "HOL-Library.Monad_Syntax"
begin

text \<open>
  Shared base of the development: C memory objects as byte lists with checked
  accesses, the C library routines the sources call on memory, and the generic
  lemmas about them.

  A C object is modelled from a pointer to the end of its allocation, as the
  list of its bytes. A read or write outside the object is undefined behaviour
  in C and is the value \<open>None\<close> here, so that a result \<open>Some r\<close> says
  that every access the code made was inside its object.
\<close>

named_theorems mem_safe \<open>accesses that are inside the object\<close>

type_synonym byte = "8 word"
type_synonym mem = "byte list"

section \<open>Checked loads and stores\<close>

definition ld :: "mem \<Rightarrow> nat \<Rightarrow> byte option" where
  "ld m i = (if i < length m then Some (m ! i) else None)"

definition st :: "mem \<Rightarrow> nat \<Rightarrow> byte \<Rightarrow> mem option" where
  "st m i b = (if i < length m then Some (m[i := b]) else None)"

text \<open>A pointer that moves downwards can leave the object at its start.\<close>

definition ldz :: "mem \<Rightarrow> int \<Rightarrow> byte option" where
  "ldz m i = (if i < 0 then None else ld m (nat i))"

definition stz :: "mem \<Rightarrow> int \<Rightarrow> byte \<Rightarrow> mem option" where
  "stz m i b = (if i < 0 then None else st m (nat i) b)"

text \<open>The value of a cast to \<open>uint16_t\<close>, and the big-endian pair of bytes of it.\<close>

definition u16 :: "int \<Rightarrow> int" where
  "u16 x = x mod 65536"

definition u16_bytes :: "nat \<Rightarrow> byte list" where
  "u16_bytes x = [of_nat (x div 256), of_nat x]"

definition be16 :: "byte \<Rightarrow> byte \<Rightarrow> nat" where
  "be16 h l = unat h * 256 + unat l"

text \<open>The macro ANTOHS of packets.h: two bytes in network order.\<close>

definition ANTOHS :: "mem \<Rightarrow> nat \<Rightarrow> nat option" where
  "ANTOHS m i = do { h \<leftarrow> ld m i; l \<leftarrow> ld m (i + 1); Some (be16 h l) }"

text \<open>The macro SHTONA of packets.h: store the low 16 bits in network order.\<close>

definition SHTONA :: "mem \<Rightarrow> nat \<Rightarrow> int \<Rightarrow> mem option" where
  "SHTONA m i x =
     do { m1 \<leftarrow> st m i (word_of_int (u16 x div 256)); st m1 (i + 1) (word_of_int (u16 x mod 256)) }"

section \<open>C library routines on memory\<close>

definition memmove :: "mem \<Rightarrow> nat \<Rightarrow> nat \<Rightarrow> nat \<Rightarrow> mem option" where
  "memmove m dst src n =
     (if dst + n \<le> length m \<and> src + n \<le> length m
      then Some (take dst m @ take n (drop src m) @ drop (dst + n) m) else None)"

text \<open>Bytes from another object (no overlap), and a fill.\<close>

definition memcpy :: "mem \<Rightarrow> nat \<Rightarrow> byte list \<Rightarrow> mem option" where
  "memcpy m dst bs =
     (if dst + length bs \<le> length m
      then Some (take dst m @ bs @ drop (dst + length bs) m) else None)"

definition memset :: "mem \<Rightarrow> nat \<Rightarrow> byte \<Rightarrow> nat \<Rightarrow> mem option" where
  "memset m dst c n = memcpy m dst (replicate n c)"

text \<open>\<open>memchr\<close> reads in order and stops at the first match; the result is an index.\<close>

fun memchr :: "mem \<Rightarrow> nat \<Rightarrow> byte \<Rightarrow> nat \<Rightarrow> nat option option" where
  "memchr m p c 0 = Some None"
| "memchr m p c (Suc n) =
     do { b \<leftarrow> ld m p; if b = c then Some (Some p) else memchr m (p + 1) c n }"

fun bytes_cmp :: "byte list \<Rightarrow> byte list \<Rightarrow> int" where
  "bytes_cmp (a # as) (b # bs) = (if a = b then bytes_cmp as bs else if a < b then - 1 else 1)"
| "bytes_cmp _ _ = 0"

definition slice :: "mem \<Rightarrow> nat \<Rightarrow> nat \<Rightarrow> byte list option" where
  "slice m p n = (if p + n \<le> length m then Some (take n (drop p m)) else None)"

definition memcmp :: "mem \<Rightarrow> nat \<Rightarrow> mem \<Rightarrow> nat \<Rightarrow> nat \<Rightarrow> int option" where
  "memcmp a p b q n = do { x \<leftarrow> slice a p n; y \<leftarrow> slice b q n; Some (bytes_cmp x y) }"

text \<open>
  \<open>strncmp(s, lit, strlen(lit)) == 0\<close> for a literal without NUL: the bytes are
  compared in order and the comparison stops at the first difference.
\<close>

fun has_prefix :: "mem \<Rightarrow> nat \<Rightarrow> byte list \<Rightarrow> bool option" where
  "has_prefix m p [] = Some True"
| "has_prefix m p (c # cs) =
     do { b \<leftarrow> ld m p; if b = c then has_prefix m (p + 1) cs else Some False }"

text \<open>The same without regard to case, as \<open>strncasecmp\<close> compares.\<close>

definition tolower :: "byte \<Rightarrow> byte" where
  "tolower c = (if 65 \<le> c \<and> c \<le> 90 then c + 32 else c)"

definition toupper :: "byte \<Rightarrow> byte" where
  "toupper c = (if 97 \<le> c \<and> c \<le> 122 then c - 32 else c)"

fun has_prefix_ci :: "mem \<Rightarrow> nat \<Rightarrow> byte list \<Rightarrow> bool option" where
  "has_prefix_ci m p [] = Some True"
| "has_prefix_ci m p (c # cs) =
     do { b \<leftarrow> ld m p; if tolower b = tolower c then has_prefix_ci m (p + 1) cs else Some False }"

definition bytes_of :: "string \<Rightarrow> byte list" where
  "bytes_of s = map (\<lambda>c. word_of_nat (of_char c)) s"

section \<open>Character classes of ctype.h in the C locale\<close>

definition isdigit :: "byte \<Rightarrow> bool" where
  "isdigit c \<longleftrightarrow> 48 \<le> c \<and> c \<le> 57"

definition isspace :: "byte \<Rightarrow> bool" where
  "isspace c \<longleftrightarrow> c = 32 \<or> (9 \<le> c \<and> c \<le> 13)"

section \<open>strtol\<close>

text \<open>
  \<open>strtol(s, &end, 10)\<close> on memory: leading white space and one sign are skipped, the
  digits are read up to the first other byte, the value is clamped to the range of a
  64-bit \<open>long\<close>; without digits the value is 0 and \<open>end\<close> is the start.
\<close>

function skip_spaces :: "mem \<Rightarrow> nat \<Rightarrow> nat option" where
  "skip_spaces m p =
     (if p < length m then (if isspace (m ! p) then skip_spaces m (p + 1) else Some p) else None)"
  by pat_completeness auto
termination
  by (relation "measure (\<lambda>(m, p). length m - p)") auto

function read_digits :: "mem \<Rightarrow> nat \<Rightarrow> nat \<Rightarrow> (nat \<times> nat) option" where
  "read_digits m p acc =
     (if p < length m
      then (if isdigit (m ! p) then read_digits m (p + 1) (acc * 10 + (unat (m ! p) - 48)) else Some (acc, p))
      else None)"
  by pat_completeness auto
termination
  by (relation "measure (\<lambda>(m, p, acc). length m - p)") auto

declare skip_spaces.simps [simp del] read_digits.simps [simp del]

definition clamp_long :: "int \<Rightarrow> int" where
  "clamp_long v = max (- (2 ^ 63)) (min (2 ^ 63 - 1) v)"

definition strtol10 :: "mem \<Rightarrow> nat \<Rightarrow> (int \<times> nat) option" where
  "strtol10 m s = do {
     p \<leftarrow> skip_spaces m s;
     c \<leftarrow> ld m p;
     let q = (if c = 43 \<or> c = 45 then p + 1 else p);
     (v, e) \<leftarrow> read_digits m q 0;
     Some (if e = q then (0, s) else (clamp_long (if c = 45 then - int v else int v), e)) }"

text \<open>The same with base 0: a prefix \<open>0x\<close> or \<open>0\<close> chooses the base.\<close>

definition digit_value :: "byte \<Rightarrow> nat option" where
  "digit_value c =
     (if isdigit c then Some (unat c - 48)
      else if 97 \<le> tolower c \<and> tolower c \<le> 102 then Some (unat (tolower c) - 87) else None)"

definition has_digit :: "mem \<Rightarrow> nat \<Rightarrow> nat \<Rightarrow> bool" where
  "has_digit m base p \<longleftrightarrow> p < length m \<and> (case digit_value (m ! p) of None \<Rightarrow> False | Some d \<Rightarrow> d < base)"

function read_base :: "mem \<Rightarrow> nat \<Rightarrow> nat \<Rightarrow> nat \<Rightarrow> (nat \<times> nat) option" where
  "read_base m base p acc =
     (if has_digit m base p then read_base m base (p + 1) (acc * base + the (digit_value (m ! p)))
      else if p < length m then Some (acc, p) else None)"
  by pat_completeness auto
termination
  by (relation "measure (\<lambda>(m, base, p, acc). length m - p)") (auto simp: has_digit_def)

declare read_base.simps [simp del]

definition strtol0 :: "mem \<Rightarrow> nat \<Rightarrow> (int \<times> nat) option" where
  "strtol0 m s = do {
     p \<leftarrow> skip_spaces m s;
     c \<leftarrow> ld m p;
     let q = (if c = 43 \<or> c = 45 then p + 1 else p);
     z \<leftarrow> ld m q;
     x \<leftarrow> (if z = 48 then ld m (q + 1) else Some 0);
     let hex = (z = 48 \<and> tolower x = 120 \<and> has_digit m 16 (q + 2));
     let q = (if hex then q + 2 else q);
     (v, e) \<leftarrow> read_base m (if hex then 16 else if z = 48 then 8 else 10) q 0;
     Some (if e = q then (0, s) else (clamp_long (if c = 45 then - int v else int v), e)) }"

section \<open>Lemmas\<close>

lemma ld_eq_Some [simp]: "ld m i = Some b \<longleftrightarrow> i < length m \<and> b = m ! i"
  by (auto simp: ld_def)

lemma ld_eq_None [simp]: "ld m i = None \<longleftrightarrow> length m \<le> i"
  by (auto simp: ld_def)

lemma ld_inside [mem_safe]: "i < length m \<Longrightarrow> ld m i = Some (m ! i)"
  by simp

lemma st_eq_Some [simp]: "st m i b = Some m' \<longleftrightarrow> i < length m \<and> m' = m[i := b]"
  by (auto simp: st_def)

lemma st_inside [mem_safe]: "i < length m \<Longrightarrow> st m i b = Some (m[i := b])"
  by simp

lemma ldz_nat [simp]: "ldz m (int i) = ld m i"
  by (simp add: ldz_def)

lemma ldz_inside [mem_safe]: "0 \<le> i \<Longrightarrow> nat i < length m \<Longrightarrow> ldz m i = Some (m ! nat i)"
  by (simp add: ldz_def)

lemma unat_byte_less [simp]: "unat (b :: byte) < 256"
  using unsigned_less [of b] by simp

lemma be16_less: "be16 h l < 65536"
  unfolding be16_def using unat_byte_less [of h] unat_byte_less [of l] by linarith

lemma ANTOHS_inside [mem_safe]:
  "i + 1 < length m \<Longrightarrow> ANTOHS m i = Some (be16 (m ! i) (m ! (i + 1)))"
  by (simp add: ANTOHS_def ld_def)

lemma ANTOHS_eq_Some:
  "ANTOHS m i = Some x \<longleftrightarrow> i + 1 < length m \<and> x = be16 (m ! i) (m ! (i + 1))"
  by (auto simp: ANTOHS_def bind_eq_Some_conv)

lemma ANTOHS_less: "ANTOHS m i = Some x \<Longrightarrow> x < 65536"
  by (auto simp: ANTOHS_eq_Some be16_less)

lemma SHTONA_eq_Some:
  "SHTONA m i x = Some m' \<longleftrightarrow> i + 1 < length m \<and>
     m' = m[i := word_of_int (u16 x div 256), i + 1 := word_of_int (u16 x mod 256)]"
  by (auto simp: SHTONA_def bind_eq_Some_conv)

lemma SHTONA_inside [mem_safe]:
  "i + 1 < length m \<Longrightarrow>
     SHTONA m i x = Some (m[i := word_of_int (u16 x div 256), i + 1 := word_of_int (u16 x mod 256)])"
  by (simp add: SHTONA_eq_Some)

lemma SHTONA_length: "SHTONA m i x = Some m' \<Longrightarrow> length m' = length m"
  by (auto simp: SHTONA_eq_Some)


lemma be16_split: "x < 65536 \<Longrightarrow> be16 (of_nat (x div 256)) (of_nat x) = x"
  by (simp add: be16_def unsigned_of_nat take_bit_eq_mod)

lemma be16_word_of_int:
  "be16 (word_of_int (u16 x div 256)) (word_of_int (u16 x mod 256)) = nat (u16 x)"
proof -
  have "unat (word_of_int (u16 x div 256) :: byte) = nat (u16 x div 256)"
    and "unat (word_of_int (u16 x mod 256) :: byte) = nat (u16 x mod 256)"
    by (simp_all add: unsigned_of_int take_bit_eq_mod u16_def)
  moreover have "nat (u16 x div 256) * 256 + nat (u16 x mod 256) = nat (u16 x)"
    by (simp add: nat_div_distrib nat_mod_distrib u16_def)
  ultimately show ?thesis unfolding be16_def by (simp only:)
qed

lemma ANTOHS_SHTONA: "SHTONA m i x = Some m' \<Longrightarrow> ANTOHS m' i = Some (nat (u16 x))"
  by (auto simp: SHTONA_eq_Some ANTOHS_eq_Some be16_word_of_int)

lemma ANTOHS_u16_bytes:
  "x < 65536 \<Longrightarrow> i = length a \<Longrightarrow> ANTOHS (a @ u16_bytes x @ c) i = Some x"
  by (simp add: ANTOHS_eq_Some u16_bytes_def nth_append be16_split)

lemma length_u16_bytes [simp]: "length (u16_bytes x) = 2"
  by (simp add: u16_bytes_def)

lemma memmove_length: "memmove m d s n = Some m' \<Longrightarrow> length m' = length m"
  by (auto simp: memmove_def split: if_splits)

lemma memcpy_length: "memcpy m d bs = Some m' \<Longrightarrow> length m' = length m"
  by (auto simp: memcpy_def split: if_splits)

lemma memmove_inside [mem_safe]:
  "d + n \<le> length m \<Longrightarrow> s + n \<le> length m \<Longrightarrow>
     memmove m d s n = Some (take d m @ take n (drop s m) @ drop (d + n) m)"
  by (simp add: memmove_def)

lemma memcpy_inside [mem_safe]:
  "d + length bs \<le> length m \<Longrightarrow> memcpy m d bs = Some (take d m @ bs @ drop (d + length bs) m)"
  by (simp add: memcpy_def)

lemma slice_inside [mem_safe]: "p + n \<le> length m \<Longrightarrow> slice m p n = Some (take n (drop p m))"
  by (simp add: slice_def)

text \<open>\<open>memchr\<close>: the first occurrence, or none in the range.\<close>

lemma memchr_inside:
  "p + n \<le> length m \<Longrightarrow>
     (\<exists>q. memchr m p c n = Some (Some q) \<and> p \<le> q \<and> q < p + n \<and> m ! q = c
          \<and> (\<forall>j. p \<le> j \<and> j < q \<longrightarrow> m ! j \<noteq> c))
     \<or> (memchr m p c n = Some None \<and> (\<forall>j. p \<le> j \<and> j < p + n \<longrightarrow> m ! j \<noteq> c))"
proof (induction n arbitrary: p)
  case 0
  then show ?case by auto
next
  case (Suc n)
  show ?case
  proof (cases "m ! p = c")
    case True
    with Suc.prems show ?thesis by (auto simp: ld_inside intro!: exI [of _ p])
  next
    case False
    have step: "memchr m p c (Suc n) = memchr m (p + 1) c n"
      using Suc.prems False by (simp add: ld_inside)
    have more: "\<forall>j. p \<le> j \<and> j < q \<longrightarrow> m ! j \<noteq> c" if "\<forall>j. p + 1 \<le> j \<and> j < q \<longrightarrow> m ! j \<noteq> c" for q
      using that False by (metis Suc_eq_plus1 Suc_leI le_neq_implies_less)
    from Suc.IH [of "p + 1"] Suc.prems show ?thesis
      unfolding step using more by (auto intro: le_trans [of p "Suc p"])
  qed
qed

lemma memchr_Some:
  assumes "memchr m p c n = Some (Some q)"
  shows "p \<le> q \<and> q < p + n \<and> q < length m \<and> m ! q = c"
  using assms
proof (induction n arbitrary: p)
  case 0
  then show ?case by simp
next
  case (Suc n)
  then show ?case by (fastforce simp: bind_eq_Some_conv split: if_splits)
qed

text \<open>A prefix test stops at the first difference, so it reads at most the literal's length.\<close>

lemma has_prefix_inside:
  "p + length cs \<le> length m \<Longrightarrow> has_prefix m p cs = Some (take (length cs) (drop p m) = cs)"
proof (induction cs arbitrary: p)
  case Nil
  then show ?case by simp
next
  case (Cons c cs)
  then have "drop p m = m ! p # drop (Suc p) m"
    by (simp add: Cons_nth_drop_Suc)
  with Cons show ?case by (auto simp: ld_inside)
qed

lemma bytes_cmp_eq_0: "length a = length b \<Longrightarrow> bytes_cmp a b = 0 \<longleftrightarrow> a = b"
  by (induction a b rule: bytes_cmp.induct) auto

lemma has_prefix_ci_inside:
  "p + length cs \<le> length m \<Longrightarrow>
     has_prefix_ci m p cs = Some (map tolower (take (length cs) (drop p m)) = map tolower cs)"
proof (induction cs arbitrary: p)
  case Nil
  then show ?case by simp
next
  case (Cons c cs)
  then have "drop p m = m ! p # drop (Suc p) m"
    by (simp add: Cons_nth_drop_Suc)
  with Cons show ?case by (auto simp: ld_inside)
qed

text \<open>A search that runs past the end of the object without a match is undefined.\<close>

lemma memchr_runs_out:
  "\<forall>j. p \<le> j \<and> j < length m \<longrightarrow> m ! j \<noteq> c \<Longrightarrow> length m < p + n \<Longrightarrow> p \<le> length m \<Longrightarrow>
     memchr m p c n = None"
proof (induction n arbitrary: p)
  case 0
  then show ?case by simp
next
  case (Suc n)
  then show ?case by (cases "p < length m") (auto simp: ld_def)
qed

text \<open>White space and digits end before the first byte that is neither.\<close>

lemma skip_spaces_stop:
  "p \<le> e \<Longrightarrow> e < length m \<Longrightarrow> \<not> isspace (m ! e) \<Longrightarrow> \<exists>q. skip_spaces m p = Some q \<and> p \<le> q \<and> q \<le> e"
proof (induction m p rule: skip_spaces.induct)
  case (1 m p)
  show ?case
  proof (cases "isspace (m ! p)")
    case True
    with "1.prems" have "p \<noteq> e" by auto
    with "1.prems" True "1.IH" have "\<exists>q. skip_spaces m (p + 1) = Some q \<and> p + 1 \<le> q \<and> q \<le> e"
      by simp
    with True "1.prems" show ?thesis by (subst skip_spaces.simps) auto
  next
    case False
    with "1.prems" show ?thesis by (subst skip_spaces.simps) auto
  qed
qed

lemma read_digits_stop:
  "p \<le> e \<Longrightarrow> e < length m \<Longrightarrow> \<not> isdigit (m ! e) \<Longrightarrow>
     \<exists>v q. read_digits m p acc = Some (v, q) \<and> p \<le> q \<and> q \<le> e"
proof (induction m p acc rule: read_digits.induct)
  case (1 m p acc)
  show ?case
  proof (cases "isdigit (m ! p)")
    case True
    with "1.prems" have "p \<noteq> e" by auto
    with "1.prems" True "1.IH"
    have "\<exists>v q. read_digits m (p + 1) (acc * 10 + (unat (m ! p) - 48)) = Some (v, q) \<and> p + 1 \<le> q \<and> q \<le> e"
      by simp
    with True "1.prems" show ?thesis by (subst read_digits.simps) auto
  next
    case False
    with "1.prems" show ?thesis by (subst read_digits.simps) auto
  qed
qed

section \<open>Stores at the end of a known part\<close>

lemma SHTONA_at:
  "i = length a \<Longrightarrow> SHTONA (a @ x # y # c) i v = Some (a @ u16_bytes (nat (u16 v)) @ c)"
proof -
  assume i: "i = length a"
  obtain w where w: "u16 v = int w" by (metis pos_mod_sign u16_def zero_less_numeral nonneg_int_cases)
  have "word_of_int (u16 v div 256) = (of_nat (w div 256) :: byte)" using zdiv_int [of w 256] by (simp add: w word_of_int_nat nat_div_distrib)
  moreover have "word_of_int (u16 v mod 256) = (of_nat w :: byte)"
    by (simp add: w word_unat_eq_iff unsigned_of_nat unsigned_of_int take_bit_eq_mod nat_mod_distrib)
  ultimately show ?thesis using i
    by (simp add: SHTONA_inside u16_bytes_def list_update_append w)
qed

lemma memcpy_at: "i = length a \<Longrightarrow> length b = length d \<Longrightarrow> memcpy (a @ b @ c) i d = Some (a @ d @ c)"
  by (simp add: memcpy_inside)

lemma memmove_down_at:
  "i = length a \<Longrightarrow> j = length a + length b \<Longrightarrow> n = length c \<Longrightarrow>
     memmove (a @ b @ c @ d) i j n = Some (a @ c @ drop (length c) (b @ c) @ d)"
  by (simp add: memmove_inside)

lemma memmove_up_at:
  "i = length a + k \<Longrightarrow> j = length a \<Longrightarrow> n = length b \<Longrightarrow> k \<le> length c \<Longrightarrow>
   memmove (a @ b @ c) i j n = Some (a @ take k (b @ c) @ b @ drop k c)"
  by (simp add: memmove_inside)

end
