(* ===== verification/Packets_Tls.thy ===== *)
theory Packets_Tls
  imports Prelude
begin

text \<open>
  The TLS half of byedpi/packets.c: finding the server name of a ClientHello
  (\<open>find_ext_block\<close>, \<open>find_tls_ext_offset\<close>, \<open>parse_tls\<close>), splitting a record
  (\<open>part_tls\<close>), and rewriting a ClientHello in place (\<open>change_tls_sni\<close> with
  its helpers, \<open>randomize_tls\<close>).

  \<open>size_t\<close> values are \<open>nat\<close>, \<open>ssize_t\<close>, \<open>long\<close> and \<open>int\<close> values are
  \<open>int\<close>; every cast to \<open>uint16_t\<close> is written out. The outer \<open>None\<close> of a
  result is an access outside the buffer object. \<open>rand()\<close> is a stream of
  non-negative numbers \<open>rnd\<close> with the index of the next one.
\<close>

section \<open>Reading\<close>

function find_tls_ext_loop :: "nat \<Rightarrow> mem \<Rightarrow> nat \<Rightarrow> nat \<Rightarrow> nat option" where
  "find_tls_ext_loop ty data sz skip =
     (if skip + 4 < sz
      then do {
        epyt \<leftarrow> ANTOHS data skip;
        if ty = epyt then Some skip
        else do {
          len \<leftarrow> ANTOHS data (skip + 2);
          find_tls_ext_loop ty data sz (skip + (len + 4)) } }
      else Some 0)"
  by pat_completeness auto
termination
  by (relation "measure (\<lambda>(ty, data, sz, skip). sz - skip)") auto

declare find_tls_ext_loop.simps [simp del]

definition find_tls_ext_offset :: "nat \<Rightarrow> mem \<Rightarrow> nat \<Rightarrow> nat \<Rightarrow> nat option" where
  "find_tls_ext_offset ty data sz skip =
     (if sz \<le> skip + 2 then Some 0
      else do {
        ext_len \<leftarrow> ANTOHS data skip;
        let skip' = skip + 2;
        let sz' = (if ext_len < sz - skip' then ext_len + skip' else sz);
        find_tls_ext_loop ty data sz' skip' })"

definition find_ext_block :: "mem \<Rightarrow> nat \<Rightarrow> nat option" where
  "find_ext_block data sz =
     (if sz < 44 then Some 0
      else do {
        b \<leftarrow> ld data 43;
        let sid_len = unat b;
        if sz < 44 + sid_len + 2 then Some 0
        else do {
          cip_len \<leftarrow> ANTOHS data (44 + sid_len);
          let skip = 44 + sid_len + 2 + cip_len + 2;
          Some (if skip > sz then 0 else skip) } })"

definition is_tls_chello :: "mem \<Rightarrow> nat \<Rightarrow> bool option" where
  "is_tls_chello buffer bsize =
     (if bsize > 5
      then do {
        t \<leftarrow> ANTOHS buffer 0;
        if t = 0x1603 then do { b \<leftarrow> ld buffer 5; Some (b = 1) } else Some False }
      else Some False)"

definition is_tls_shello :: "mem \<Rightarrow> nat \<Rightarrow> bool option" where
  "is_tls_shello buffer bsize =
     (if bsize > 5
      then do {
        t \<leftarrow> ANTOHS buffer 0;
        if t = 0x1603 then do { b \<leftarrow> ld buffer 5; Some (b = 2) } else Some False }
      else Some False)"

text \<open>The returned length and, when it was set, the offset stored in \<open>*hs\<close>.\<close>

definition parse_tls :: "mem \<Rightarrow> nat \<Rightarrow> (nat \<times> nat option) option" where
  "parse_tls buffer bsize = do {
     hello \<leftarrow> is_tls_chello buffer bsize;
     if \<not> hello then Some (0, None)
     else do {
       skip \<leftarrow> find_ext_block buffer bsize;
       if skip = 0 then Some (0, None)
       else do {
         sni_offs \<leftarrow> find_tls_ext_offset 0 buffer bsize skip;
         if sni_offs = 0 \<or> bsize \<le> sni_offs + 12 then Some (0, None)
         else do {
           len \<leftarrow> ANTOHS buffer (sni_offs + 7);
           if sni_offs + 9 + len > bsize then Some (0, None)
           else Some (len, Some (sni_offs + 9)) } } } }"

definition neq_tls_sid :: "mem \<Rightarrow> nat \<Rightarrow> mem \<Rightarrow> nat \<Rightarrow> bool option" where
  "neq_tls_sid req qn resp sn =
     (if qn < 75 \<or> sn < 75 then Some False
      else do {
        hello \<leftarrow> is_tls_chello req qn;
        if \<not> hello then Some False
        else do {
          t \<leftarrow> ANTOHS resp 0;
          if t \<noteq> 0x1603 then Some False
          else do {
            q \<leftarrow> ld req 43;
            let sid_len = unat q;
            if sid_len = 0 then Some False
            else do {
              off \<leftarrow> find_tls_ext_offset 0x2b resp sn (44 + sid_len + 3);
              if off = 0 then Some False
              else do {
                r \<leftarrow> ld resp 43;
                if q \<noteq> r then Some True
                else do { c \<leftarrow> memcmp req 44 resp 44 sid_len; Some (c \<noteq> 0) } } } } } })"

section \<open>Splitting a record\<close>

text \<open>The subtraction \<open>bsize - n\<close> is one of \<open>size_t\<close>: it wraps when \<open>n\<close> is larger.\<close>

definition part_tls :: "mem \<Rightarrow> nat \<Rightarrow> int \<Rightarrow> int \<Rightarrow> (mem \<times> int) option" where
  "part_tls buffer bsize n pos =
     (if n < 3 \<or> (int bsize - n) mod 2 ^ 64 < 5 \<or> pos < 0 \<or> pos + 5 > n then Some (buffer, 0)
      else do {
        r_sz \<leftarrow> ANTOHS buffer 3;
        if int r_sz < pos then Some (buffer, n)
        else do {
          buffer \<leftarrow> memmove buffer (nat (5 + pos + 5)) (nat (5 + pos)) (nat (n - (5 + pos)));
          hdr \<leftarrow> slice buffer 0 3;
          buffer \<leftarrow> memcpy buffer (nat (5 + pos)) hdr;
          buffer \<leftarrow> SHTONA buffer 3 pos;
          buffer \<leftarrow> SHTONA buffer (nat (5 + pos + 3)) (int r_sz - pos);
          Some (buffer, 5) } })"

section \<open>Merging records\<close>

text \<open>
  The loop of \<open>merge_tls_records\<close> has no bound in the source, so it is run with
  fuel: the inner \<open>None\<close> says that the fuel ran out before the loop left.
\<close>

fun merge_loop :: "nat \<Rightarrow> mem \<Rightarrow> int \<Rightarrow> nat \<Rightarrow> nat \<Rightarrow> int \<Rightarrow> (mem \<times> nat \<times> int) option option" where
  "merge_loop 0 buffer n full_sz r_sz i = Some None"
| "merge_loop (Suc fuel) buffer n full_sz r_sz i =
     (let full_sz = (full_sz + r_sz) mod 65536 in
      if 5 + int full_sz > n - 5 then Some (Some (buffer, full_sz, i))
      else do {
        b \<leftarrow> ld buffer (5 + full_sz);
        b0 \<leftarrow> ld buffer 0;
        if b \<noteq> b0 then Some (Some (buffer, full_sz, i))
        else do {
          r_sz \<leftarrow> ANTOHS buffer (5 + full_sz + 3);
          if int full_sz + 10 + int r_sz > n then Some (Some (buffer, full_sz, i))
          else do {
            buffer \<leftarrow> memmove buffer (5 + full_sz) (10 + full_sz) (nat (n - (10 + int full_sz)));
            merge_loop fuel buffer n full_sz r_sz (i + 1) } } })"

definition merge_tls_records :: "nat \<Rightarrow> mem \<Rightarrow> int \<Rightarrow> (mem \<times> int) option option" where
  "merge_tls_records fuel buffer n =
     (if n < 5 then Some (Some (buffer, 0))
      else do {
        r_sz \<leftarrow> ANTOHS buffer 3;
        r \<leftarrow> merge_loop fuel buffer n 0 r_sz 0;
        (case r of None \<Rightarrow> Some None
         | Some (buffer, full_sz, i) \<Rightarrow> do {
             buffer \<leftarrow> SHTONA buffer 3 (int full_sz);
             buffer \<leftarrow> SHTONA buffer 7 (int full_sz - 4);
             Some (Some (buffer, i * 5)) }) })"

section \<open>Rewriting a ClientHello\<close>

text \<open>
  \<open>memmove\<close> and the stores with \<open>ssize_t\<close> arguments: a negative position is
  outside the object and a negative length becomes a \<open>size_t\<close> larger than any object.
\<close>

definition memmove_z :: "mem \<Rightarrow> int \<Rightarrow> int \<Rightarrow> int \<Rightarrow> mem option" where
  "memmove_z m d s n = (if d < 0 \<or> s < 0 \<or> n < 0 then None else memmove m (nat d) (nat s) (nat n))"

definition SHTONA_z :: "mem \<Rightarrow> int \<Rightarrow> int \<Rightarrow> mem option" where
  "SHTONA_z m i x = (if i < 0 then None else SHTONA m (nat i) x)"

definition copy_char :: "(nat \<Rightarrow> nat) \<Rightarrow> nat \<Rightarrow> byte \<Rightarrow> byte \<times> nat" where
  "copy_char rnd k c =
     (if c = 42 then (let r = rnd k mod 36 in (of_nat ((if r < 10 then 48 else 87) + r), k + 1))
      else if c = 63 then (of_nat (97 + rnd k mod 26), k + 1)
      else if c = 35 then (of_nat (48 + rnd k mod 10), k + 1)
      else (c, k))"

fun copy_name :: "(nat \<Rightarrow> nat) \<Rightarrow> nat \<Rightarrow> byte list \<Rightarrow> byte list \<times> nat" where
  "copy_name rnd k [] = ([], k)"
| "copy_name rnd k (c # cs) =
     (let (o1, k1) = copy_char rnd k c; (os, k2) = copy_name rnd k1 cs in (o1 # os, k2))"

function remove_ks_loop :: "mem \<Rightarrow> int \<Rightarrow> nat \<Rightarrow> nat \<Rightarrow> nat \<Rightarrow> nat \<Rightarrow> (mem \<times> int) option" where
  "remove_ks_loop buffer n ks_offs ks_sz grp g_offs =
     (if g_offs + 4 < ks_offs + 4 + ks_sz
      then do {
        g_sz \<leftarrow> ANTOHS buffer (g_offs + 2);
        if int ks_offs + 4 + int g_sz > n then Some (buffer, 0)
        else do {
          g_tp \<leftarrow> ANTOHS buffer g_offs;
          if g_tp = grp
          then do {
            let g_end = g_offs + 4 + g_sz;
            buffer \<leftarrow> memmove_z buffer (int g_offs) (int g_end) (n - int g_end);
            buffer \<leftarrow> SHTONA buffer (ks_offs + 2) (int ks_sz - (4 + int g_sz));
            buffer \<leftarrow> SHTONA buffer (ks_offs + 4) (int ks_sz - (4 + int g_sz) - 2);
            Some (buffer, 4 + int g_sz) }
          else remove_ks_loop buffer n ks_offs ks_sz grp (g_offs + (4 + g_sz)) } }
      else Some (buffer, 0))"
  by pat_completeness auto
termination
  by (relation "measure (\<lambda>(buffer, n, ks_offs, ks_sz, grp, g_offs). ks_offs + 4 + ks_sz - g_offs)") auto

declare remove_ks_loop.simps [simp del]

definition remove_ks_group :: "mem \<Rightarrow> int \<Rightarrow> nat \<Rightarrow> nat \<Rightarrow> (mem \<times> int) option" where
  "remove_ks_group buffer n skip grp = do {
     ks_offs \<leftarrow> find_tls_ext_offset 0x33 buffer (nat n) skip;
     if ks_offs = 0 \<or> int ks_offs + 6 \<ge> n then Some (buffer, 0)
     else do {
       ks_sz \<leftarrow> ANTOHS buffer (ks_offs + 2);
       if int ks_offs + 4 + int ks_sz > n then Some (buffer, 0)
       else remove_ks_loop buffer n ks_offs ks_sz grp (ks_offs + 4 + 2) } }"

definition remove_tls_ext :: "mem \<Rightarrow> int \<Rightarrow> nat \<Rightarrow> nat \<Rightarrow> (mem \<times> int) option" where
  "remove_tls_ext buffer n skip ty = do {
     ext_offs \<leftarrow> find_tls_ext_offset ty buffer (nat n) skip;
     if ext_offs = 0 then Some (buffer, 0)
     else do {
       ext_sz \<leftarrow> ANTOHS buffer (ext_offs + 2);
       let ext_end = ext_offs + 4 + ext_sz;
       if int ext_end > n then Some (buffer, 0)
       else do {
         buffer \<leftarrow> memmove_z buffer (int ext_offs) (int ext_end) (n - int ext_end);
         Some (buffer, int ext_sz + 4) } } }"

definition resize_ech_ext :: "mem \<Rightarrow> int \<Rightarrow> nat \<Rightarrow> int \<Rightarrow> (mem \<times> int) option" where
  "resize_ech_ext buffer n skip inc = do {
     ech_offs \<leftarrow> find_tls_ext_offset 0xfe0d buffer (nat n) skip;
     if ech_offs = 0 then Some (buffer, 0)
     else do {
       ech_sz \<leftarrow> ANTOHS buffer (ech_offs + 2);
       let ech_end = int (ech_offs + 4 + ech_sz);
       if ech_sz < 12 \<or> ech_end > n then Some (buffer, 0)
       else do {
         enc_sz \<leftarrow> ANTOHS buffer (ech_offs + 4 + 6);
         let pay_offs = ech_offs + 4 + 8 + enc_sz;
         let pay_sz = u16 (int ech_sz - (8 + int enc_sz + 2));
         if int pay_offs + 2 > n then Some (buffer, 0)
         else do {
           let inc = (if pay_sz < u16 (- inc) then - pay_sz else inc);
           buffer \<leftarrow> SHTONA buffer (ech_offs + 2) (int ech_sz + inc);
           buffer \<leftarrow> SHTONA buffer pay_offs (pay_sz + inc);
           buffer \<leftarrow> memmove_z buffer (ech_end + inc) ech_end (n - (ech_end + inc));
           Some (buffer, inc) } } } }"

definition resize_sni :: "mem \<Rightarrow> int \<Rightarrow> nat \<Rightarrow> nat \<Rightarrow> nat \<Rightarrow> mem option" where
  "resize_sni buffer n sni_offs sni_sz new_sz = do {
     buffer \<leftarrow> SHTONA buffer (sni_offs + 2) (int new_sz + 5);
     buffer \<leftarrow> SHTONA buffer (sni_offs + 4) (int new_sz + 3);
     buffer \<leftarrow> SHTONA buffer (sni_offs + 7) (int new_sz);
     let sni_end = int (sni_offs + 4 + sni_sz);
     memmove_z buffer (sni_end + int new_sz - (int sni_sz - 5)) sni_end (n - sni_end) }"

text \<open>
  The extensions that may be dropped, in the order of the static array \<open>exts\<close>:
  padding, post_handshake_auth, ALPN, record_size_limit, session_ticket, status_request,
  delegated_credentials, signed_certificate_timestamp, compress_certificate.
\<close>

definition drop_exts :: "nat list" where
  "drop_exts = [0x15, 0x31, 0x10, 0x1c, 0x23, 0x05, 0x22, 0x12, 0x1b]"

text \<open>The loop over \<open>exts\<close>; \<open>Inl\<close> is its \<open>return -1\<close> at the end of the list.\<close>

fun drop_loop :: "nat list \<Rightarrow> mem \<Rightarrow> int \<Rightarrow> nat \<Rightarrow> int \<Rightarrow> (mem + mem \<times> int) option" where
  "drop_loop es buffer n skip avail =
     (if avail \<noteq> 0 \<and> avail < 4
      then (case es of [] \<Rightarrow> Some (Inl buffer)
            | e # es' \<Rightarrow> do {
                (buffer, d) \<leftarrow> remove_tls_ext buffer n skip e;
                drop_loop es' buffer n skip (avail + d) })
      else Some (Inr (buffer, avail)))"

declare drop_loop.simps [simp del]

text \<open>
  \<open>change_tls_sni\<close> in three stages: growing or shrinking the name and the other
  extensions until the space fits (\<open>sni_make_room\<close>), then storing the name
  (\<open>sni_store\<close>) and the padding and lengths (\<open>sni_finish\<close>).
\<close>

definition sni_make_room :: "mem \<Rightarrow> int \<Rightarrow> nat \<Rightarrow> nat \<Rightarrow> nat \<Rightarrow> nat \<Rightarrow> int \<Rightarrow> (mem + mem \<times> int \<times> int) option" where
  "sni_make_room buffer n skip sni_offs sni_sz new_sz avail = do {
     let diff = int new_sz - (int sni_sz - 5);
     let avail = avail - diff;
     (buffer, diff) \<leftarrow>
       (if diff < 0 \<and> avail > 0
        then do { b \<leftarrow> resize_sni buffer n sni_offs sni_sz new_sz; Some (b, 0) }
        else Some (buffer, diff));
     (buffer, avail) \<leftarrow>
       (if avail \<noteq> 0
        then do { (b, d) \<leftarrow> resize_ech_ext buffer n skip avail; Some (b, avail - d) }
        else Some (buffer, avail));
     (buffer, avail) \<leftarrow>
       (if avail < - 50
        then do { (b, d) \<leftarrow> remove_ks_group buffer n skip 0x11ec; Some (b, avail + d) }
        else Some (buffer, avail));
     r \<leftarrow> drop_loop drop_exts buffer n skip avail;
     Some (case r of Inl b \<Rightarrow> Inl b | Inr (b, a) \<Rightarrow> Inr (b, diff, a)) }"

definition sni_finish :: "mem \<Rightarrow> int \<Rightarrow> nat \<Rightarrow> int \<Rightarrow> int \<Rightarrow> mem option" where
  "sni_finish buffer n skip r_sz avail = do {
     (buffer, avail) \<leftarrow>
       (if avail > 0
        then do { (b, d) \<leftarrow> resize_ech_ext buffer n skip avail; Some (b, avail - d) }
        else Some (buffer, avail));
     buffer \<leftarrow>
       (if avail \<ge> 4
        then do {
          b \<leftarrow> SHTONA_z buffer (5 + r_sz - avail) 0x15;
          b \<leftarrow> SHTONA_z b (5 + r_sz - avail + 2) (avail - 4);
          (if 5 + r_sz - avail + 4 < 0 then None
           else memset b (nat (5 + r_sz - avail + 4)) 0 (nat (avail - 4))) }
        else Some buffer);
     buffer \<leftarrow> SHTONA buffer 3 r_sz;
     buffer \<leftarrow> SHTONA buffer 7 (r_sz - 4);
     SHTONA buffer skip (5 + r_sz - int skip - 2) }"

definition sni_store ::
    "(nat \<Rightarrow> nat) \<Rightarrow> nat \<Rightarrow> byte list \<Rightarrow> mem \<Rightarrow> int \<Rightarrow> nat \<Rightarrow> nat \<Rightarrow> nat \<Rightarrow> int \<Rightarrow> (mem + mem \<times> nat) option" where
  "sni_store rnd k host buffer n skip sni_sz new_sz diff = do {
     sni_offs \<leftarrow> find_tls_ext_offset 0 buffer (nat n) skip;
     if sni_offs = 0 then Some (Inl buffer)
     else do {
       buffer \<leftarrow> (if diff \<noteq> 0 then resize_sni buffer n sni_offs sni_sz new_sz else Some buffer);
       let (name, k') = copy_name rnd k (take new_sz host);
       buffer \<leftarrow> memcpy buffer (sni_offs + 9) name;
       Some (Inr (buffer, k')) } }"

text \<open>
  The result: the buffer, the returned \<open>int\<close> and the next random index; the inner
  \<open>None\<close> says that \<open>merge_tls_records\<close> did not leave its loop within the fuel.
\<close>

definition change_tls_sni ::
    "nat \<Rightarrow> (nat \<Rightarrow> nat) \<Rightarrow> nat \<Rightarrow> byte list \<Rightarrow> mem \<Rightarrow> int \<Rightarrow> int \<Rightarrow> (mem \<times> int \<times> nat) option option" where
  "change_tls_sni fuel rnd k host buffer n nn = do {
     m \<leftarrow> merge_tls_records fuel buffer n;
     (case m of None \<Rightarrow> Some None
      | Some (buffer, merged) \<Rightarrow> do {
          let avail = merged + (nn - n);
          r0 \<leftarrow> ANTOHS buffer 3;
          let r_sz = u16 (int r0 + avail);
          skip \<leftarrow> find_ext_block buffer (nat n);
          if skip = 0 then Some (Some (buffer, - 1, k))
          else do {
            sni_offs \<leftarrow> find_tls_ext_offset 0 buffer (nat n) skip;
            if sni_offs = 0 then Some (Some (buffer, - 1, k))
            else do {
              let new_sz = length host mod 65536;
              sni_sz \<leftarrow> ANTOHS buffer (sni_offs + 2);
              if int sni_offs + 4 + int sni_sz > n \<or> sni_sz < 5 then Some (Some (buffer, - 1, k))
              else do {
                room \<leftarrow> sni_make_room buffer n skip sni_offs sni_sz new_sz avail;
                (case room of Inl buffer \<Rightarrow> Some (Some (buffer, - 1, k))
                 | Inr (buffer, diff, avail) \<Rightarrow> do {
                     stored \<leftarrow> sni_store rnd k host buffer n skip sni_sz new_sz diff;
                     (case stored of Inl buffer \<Rightarrow> Some (Some (buffer, - 1, k))
                      | Inr (buffer, k') \<Rightarrow> do {
                          buffer \<leftarrow> sni_finish buffer n skip r_sz avail;
                          Some (Some (buffer, 0, k')) }) }) } } } }) }"

section \<open>Randomizing a ClientHello\<close>

definition gen_rand_array :: "(nat \<Rightarrow> nat) \<Rightarrow> nat \<Rightarrow> mem \<Rightarrow> nat \<Rightarrow> nat \<Rightarrow> (mem \<times> nat) option" where
  "gen_rand_array rnd k buffer p len = do {
     b \<leftarrow> memcpy buffer p (map (\<lambda>j. of_nat (rnd j mod 256)) [k..<k + len]);
     Some (b, k + len) }"

function randomize_loop ::
    "(nat \<Rightarrow> nat) \<Rightarrow> nat \<Rightarrow> mem \<Rightarrow> nat \<Rightarrow> nat \<Rightarrow> nat \<Rightarrow> nat \<Rightarrow> (mem \<times> nat) option" where
  "randomize_loop rnd k buffer n ks_offs ks_sz g_offs =
     (if g_offs + 4 < ks_offs + 4 + ks_sz
      then do {
        g_sz \<leftarrow> ANTOHS buffer (g_offs + 2);
        if ks_offs + 4 + g_sz > n then Some (buffer, k)
        else do {
          (buffer, k) \<leftarrow> gen_rand_array rnd k buffer (g_offs + 4) g_sz;
          randomize_loop rnd k buffer n ks_offs ks_sz (g_offs + (4 + g_sz)) } }
      else Some (buffer, k))"
  by pat_completeness auto
termination
  by (relation "measure (\<lambda>(rnd, k, buffer, n, ks_offs, ks_sz, g_offs). ks_offs + 4 + ks_sz - g_offs)") auto

declare randomize_loop.simps [simp del]

definition randomize_tls :: "(nat \<Rightarrow> nat) \<Rightarrow> nat \<Rightarrow> mem \<Rightarrow> int \<Rightarrow> (mem \<times> nat) option" where
  "randomize_tls rnd k buffer n =
     (if n < 44 then Some (buffer, k)
      else do {
        b \<leftarrow> ld buffer 43;
        let sid_len = unat b;
        if n < int (44 + sid_len + 2) then Some (buffer, k)
        else do {
          (buffer, k) \<leftarrow> gen_rand_array rnd k buffer 11 32;
          (buffer, k) \<leftarrow> gen_rand_array rnd k buffer 44 sid_len;
          skip \<leftarrow> find_ext_block buffer (nat n);
          if skip = 0 then Some (buffer, k)
          else do {
            ks_offs \<leftarrow> find_tls_ext_offset 0x33 buffer (nat n) skip;
            if ks_offs = 0 \<or> int ks_offs + 6 \<ge> n then Some (buffer, k)
            else do {
              ks_sz \<leftarrow> ANTOHS buffer (ks_offs + 2);
              if int ks_offs + 4 + int ks_sz > n then Some (buffer, k)
              else randomize_loop rnd k buffer (nat n) ks_offs ks_sz (ks_offs + 4 + 2) } } } })"

end
