(* ===== verification/Packets_Tls_Props.thy ===== *)
theory Packets_Tls_Props
  imports Packets_Tls Fake_Data
begin

text \<open>
  What the TLS routines of packets.c do: reading stays inside the packet, the name found is
  the one of the hello that was encoded, splitting a record and merging records are inverse,
  and rewriting a name keeps the rest of the hello.
\<close>

section \<open>Memory safety of reading\<close>

lemma find_tls_ext_loop_inside [mem_safe]:
  "sz \<le> length m \<Longrightarrow> \<exists>r. find_tls_ext_loop ty m sz skip = Some r \<and> (r = 0 \<or> (skip \<le> r \<and> r + 4 < sz))"
proof (induction ty m sz skip rule: find_tls_ext_loop.induct)
  case (1 ty m sz skip)
  show ?case
  proof (cases "skip + 4 < sz")
    case True
    then have l: "ANTOHS m skip = Some (be16 (m ! skip) (m ! (skip + 1)))"
      "ANTOHS m (skip + 2) = Some (be16 (m ! (skip + 2)) (m ! (skip + 2 + 1)))"
      using "1.prems" ANTOHS_inside [of skip m] ANTOHS_inside [of "skip + 2" m] by simp_all
    show ?thesis
    proof (cases "ty = be16 (m ! skip) (m ! (skip + 1))")
      case True
      with l \<open>skip + 4 < sz\<close> show ?thesis by (subst find_tls_ext_loop.simps) auto
    next
      case False
      with "1.IH" [OF True l(1) False l(2) "1.prems"] l True show ?thesis
        by (subst find_tls_ext_loop.simps) auto
    qed
  next
    case False
    then show ?thesis by (subst find_tls_ext_loop.simps) auto
  qed
qed

lemma find_tls_ext_offset_inside [mem_safe]:
  assumes "sz \<le> length m"
  shows "\<exists>r. find_tls_ext_offset ty m sz skip = Some r \<and> (r = 0 \<or> (skip + 2 \<le> r \<and> r + 4 < sz))"
proof (cases "sz \<le> skip + 2")
  case True
  then show ?thesis by (simp add: find_tls_ext_offset_def)
next
  case False
  with assms obtain e where e: "ANTOHS m skip = Some e" by (simp add: ANTOHS_inside)
  let ?sz = "if e < sz - (skip + 2) then e + (skip + 2) else sz"
  have "?sz \<le> length m" "?sz \<le> sz" using assms False by auto
  with find_tls_ext_loop_inside [of ?sz m ty "skip + 2"] False e show ?thesis
    by (fastforce simp: find_tls_ext_offset_def Let_def)
qed

lemma find_ext_block_inside [mem_safe]:
  assumes "sz \<le> length m"
  shows "\<exists>r. find_ext_block m sz = Some r \<and> (r = 0 \<or> (48 \<le> r \<and> r \<le> sz))"
proof (cases "sz < 44 \<or> sz < 44 + unat (m ! 43) + 2")
  case True
  with assms show ?thesis by (auto simp: find_ext_block_def ld_def)
next
  case False
  with assms have "ANTOHS m (44 + unat (m ! 43)) = Some (be16 (m ! (44 + unat (m ! 43))) (m ! (44 + unat (m ! 43) + 1)))"
    by (intro ANTOHS_inside) auto
  with False assms show ?thesis by (auto simp: find_ext_block_def ld_def Let_def)
qed

lemma is_tls_chello_inside [mem_safe]:
  "sz \<le> length m \<Longrightarrow>
     is_tls_chello m sz = Some (sz > 5 \<and> be16 (m ! 0) (m ! 1) = 0x1603 \<and> m ! 5 = 1)"
  by (auto simp: is_tls_chello_def ANTOHS_def ld_def)

lemma is_tls_shello_inside [mem_safe]:
  "sz \<le> length m \<Longrightarrow>
     is_tls_shello m sz = Some (sz > 5 \<and> be16 (m ! 0) (m ! 1) = 0x1603 \<and> m ! 5 = 2)"
  by (auto simp: is_tls_shello_def ANTOHS_def ld_def)

lemma parse_tls_inside [mem_safe]:
  assumes "sz \<le> length m"
  shows "\<exists>len hs. parse_tls m sz = Some (len, hs) \<and>
    (case hs of None \<Rightarrow> len = 0 | Some p \<Rightarrow> 59 \<le> p \<and> p + len \<le> sz)"
proof (cases "is_tls_chello m sz = Some True")
  case False
  with assms show ?thesis by (auto simp: parse_tls_def is_tls_chello_inside)
next
  case hello: True
  obtain skip where skip: "find_ext_block m sz = Some skip" "skip = 0 \<or> (48 \<le> skip \<and> skip \<le> sz)"
    using find_ext_block_inside [OF assms] by blast
  obtain sni where sni: "find_tls_ext_offset 0 m sz skip = Some sni" "sni = 0 \<or> (skip + 2 \<le> sni \<and> sni + 4 < sz)"
    using find_tls_ext_offset_inside [OF assms] by blast
  show ?thesis
  proof (cases "skip = 0 \<or> sni = 0 \<or> sz \<le> sni + 12")
    case True
    with hello skip sni show ?thesis by (auto simp: parse_tls_def)
  next
    case False
    with assms obtain len where len: "ANTOHS m (sni + 7) = Some len" by (simp add: ANTOHS_inside)
    with hello skip sni False show ?thesis by (auto simp: parse_tls_def)
  qed
qed

section \<open>Encoding a ClientHello\<close>

text \<open>
  RFC 8446: an extension is its type, the length of its body and the body; the record holds
  a handshake of version, 32 random bytes, session id, cipher suites, one compression method
  and the extensions.
\<close>

type_synonym ext = "nat \<times> mem"

definition enc_ext :: "ext \<Rightarrow> mem" where
  "enc_ext e = u16_bytes (fst e) @ u16_bytes (length (snd e)) @ snd e"

definition enc_exts :: "ext list \<Rightarrow> mem" where
  "enc_exts es = concat (map enc_ext es)"

definition sni_body :: "mem \<Rightarrow> mem" where
  "sni_body host = u16_bytes (length host + 3) @ [0] @ u16_bytes (length host) @ host"

record hello =
  h_random :: mem
  h_sid :: mem
  h_ciphers :: mem
  h_exts :: "ext list"

definition hello_ok :: "hello \<Rightarrow> bool" where
  "hello_ok h \<longleftrightarrow> length (h_random h) = 32 \<and> length (h_sid h) < 256 \<and> length (h_ciphers h) < 65536 \<and>
     (\<forall>e \<in> set (h_exts h). fst e < 65536 \<and> length (snd e) < 65536) \<and> length (enc_exts (h_exts h)) < 65536"

definition enc_head :: "hello \<Rightarrow> mem" where
  "enc_head h = [3, 3] @ h_random h @ [of_nat (length (h_sid h))] @ h_sid h @
     u16_bytes (length (h_ciphers h)) @ h_ciphers h @ [1, 0]"

definition enc_body :: "hello \<Rightarrow> mem" where
  "enc_body h = enc_head h @ u16_bytes (length (enc_exts (h_exts h))) @ enc_exts (h_exts h)"

definition enc_hello :: "hello \<Rightarrow> mem" where
  "enc_hello h = [0x16, 3, 1] @ u16_bytes (length (enc_body h) + 4) @ [1, 0] @
     u16_bytes (length (enc_body h)) @ enc_body h"

lemma length_enc_ext [simp]: "length (enc_ext e) = length (snd e) + 4"
  by (simp add: enc_ext_def)

lemma enc_exts_simps [simp]: "enc_exts [] = []" "enc_exts (e # es) = enc_ext e @ enc_exts es"
  "enc_exts (es @ fs) = enc_exts es @ enc_exts fs"
  by (simp_all add: enc_exts_def)

text \<open>The loop over an encoded list stops at the first extension of the type.\<close>

lemma find_ext_step:
  assumes "m = pre @ enc_ext e @ rest" "fst e < 65536" "length (snd e) < 65536" "length pre + 4 < sz" "sz \<le> length m"
  shows "find_tls_ext_loop ty m sz (length pre) =
    (if ty = fst e then Some (length pre) else find_tls_ext_loop ty m sz (length (pre @ enc_ext e)))"
proof -
  have "ANTOHS m (length pre) = Some (fst e)"
    using assms(1,2) by (simp add: enc_ext_def ANTOHS_u16_bytes)
  moreover have "ANTOHS m (length pre + 2) = Some (length (snd e))"
    using ANTOHS_u16_bytes [of "length (snd e)" "length pre + 2" "pre @ u16_bytes (fst e)" "snd e @ rest"] assms(1,3)
    by (simp add: enc_ext_def)
  ultimately show ?thesis using assms(4)
    by (subst find_tls_ext_loop.simps) (simp add: add.commute add.left_commute)
qed

lemma find_ext_first:
  assumes "m = pre @ enc_exts es @ enc_ext e @ post" "\<forall>x \<in> set es. fst x \<noteq> ty" "fst e = ty"
    and "\<forall>x \<in> set (es @ [e]). fst x < 65536 \<and> length (snd x) < 65536"
    and "length pre + length (enc_exts es) + 4 < sz" "sz \<le> length m"
  shows "find_tls_ext_loop ty m sz (length pre) = Some (length pre + length (enc_exts es))"
  using assms
proof (induction es arbitrary: pre)
  case Nil
  then show ?case using find_ext_step [of m pre e post sz ty] by simp
next
  case (Cons x xs)
  from Cons.prems Cons.IH [of "pre @ enc_ext x"] show ?case
    using find_ext_step [of m pre x "enc_exts xs @ enc_ext e @ post" sz ty] by simp
qed

lemma length_enc_head: "length (h_random h) = 32 \<Longrightarrow>
  length (enc_head h) = 39 + length (h_sid h) + length (h_ciphers h)"
  by (simp add: enc_head_def)

definition ext_start :: "hello \<Rightarrow> nat" where
  "ext_start h = 48 + length (h_sid h) + length (h_ciphers h)"

lemma length_enc_hello:
  "hello_ok h \<Longrightarrow> length (enc_hello h) = ext_start h + 2 + length (enc_exts (h_exts h))"
  by (simp add: enc_hello_def enc_body_def length_enc_head hello_ok_def ext_start_def)

lemma find_ext_block_hello:
  assumes "hello_ok h" "length (enc_hello h) \<le> n"
  shows "find_ext_block (enc_hello h @ rest) n = Some (ext_start h)"
proof -
  let ?m = "enc_hello h @ rest"
  let ?s = "length (h_sid h)"
  have ok: "length (h_random h) = 32" "?s < 256" "length (h_ciphers h) < 65536" using assms by (simp_all add: hello_ok_def)
  have len: "length (enc_hello h) = 50 + ?s + length (h_ciphers h) + length (enc_exts (h_exts h))"
    using ok by (simp add: enc_hello_def enc_body_def length_enc_head)
  obtain a where a: "?m = a @ [of_nat ?s] @ h_sid h @ u16_bytes (length (h_ciphers h)) @ h_ciphers h @ [1, 0] @
      u16_bytes (length (enc_exts (h_exts h))) @ enc_exts (h_exts h) @ rest" "length a = 43"
    using ok by (simp add: enc_hello_def enc_body_def enc_head_def)
  have nth: "?m ! 43 = of_nat ?s" using a by (simp add: nth_append)
  have sid: "unat (of_nat ?s :: byte) = ?s" using ok by (simp add: unsigned_of_nat take_bit_eq_mod)
  have "ANTOHS ?m (44 + ?s) = Some (length (h_ciphers h))"
    using ANTOHS_u16_bytes [of "length (h_ciphers h)" "44 + ?s" "a @ [of_nat ?s] @ h_sid h"
        "h_ciphers h @ [1, 0] @ u16_bytes (length (enc_exts (h_exts h))) @ enc_exts (h_exts h) @ rest"] a ok
    by simp
  then show ?thesis using assms(2) by (simp add: find_ext_block_def ext_start_def ld_def nth sid len)
qed

lemma is_tls_chello_hello: "5 < n \<Longrightarrow> is_tls_chello (enc_hello h @ rest) n = Some True"
  by (simp add: is_tls_chello_def enc_hello_def ANTOHS_def ld_def u16_bytes_def be16_def)

text \<open>The bytes before and after the list of extensions.\<close>

definition enc_pre :: "hello \<Rightarrow> mem" where
  "enc_pre h = [0x16, 3, 1] @ u16_bytes (length (enc_body h) + 4) @ [1, 0] @
     u16_bytes (length (enc_body h)) @ enc_head h @ u16_bytes (length (enc_exts (h_exts h)))"

lemma enc_hello_pre: "enc_hello h = enc_pre h @ enc_exts (h_exts h)"
  by (simp add: enc_hello_def enc_pre_def enc_body_def)

lemma length_enc_pre: "hello_ok h \<Longrightarrow> length (enc_pre h) = ext_start h + 2"
  by (simp add: enc_pre_def length_enc_head hello_ok_def ext_start_def)

lemma ext_len_hello: "hello_ok h \<Longrightarrow> ANTOHS (enc_hello h @ rest) (ext_start h) = Some (length (enc_exts (h_exts h)))"
  using ANTOHS_u16_bytes [of "length (enc_exts (h_exts h))" "ext_start h"
    "[0x16, 3, 1] @ u16_bytes (length (enc_body h) + 4) @ [1, 0] @ u16_bytes (length (enc_body h)) @ enc_head h"
    "enc_exts (h_exts h) @ rest"]
  by (simp add: enc_hello_def enc_body_def length_enc_head hello_ok_def ext_start_def)

lemma find_offset_hello:
  assumes ok: "hello_ok h" and n: "length (enc_hello h) \<le> n" and e: "h_exts h \<noteq> []"
  shows "find_tls_ext_offset ty (enc_hello h @ rest) n (ext_start h) =
    find_tls_ext_loop ty (enc_hello h @ rest) (length (enc_hello h)) (length (enc_pre h))"
proof -
  define L S where "L = length (enc_exts (h_exts h))" and "S = ext_start h + 2"
  have "0 < L" using e by (cases "h_exts h") (auto simp: L_def)
  moreover have "length (enc_hello h) = S + L" using length_enc_hello [OF ok] by (simp add: L_def S_def)
  ultimately have sz: "\<not> n \<le> S" "(if L < n - S then L + S else n) = S + L" using n by auto
  have eqs: "ANTOHS (enc_hello h @ rest) (ext_start h) = Some L" "length (enc_pre h) = S"
    "length (enc_hello h) = S + L" "ext_start h + 2 = S"
    using ext_len_hello [OF ok, of rest] length_enc_pre [OF ok] length_enc_hello [OF ok] by (simp_all add: L_def S_def)
  show ?thesis
    unfolding find_tls_ext_offset_def eqs Let_def using sz by (cases "L < n - S") (simp_all add: add.commute)
qed

lemma find_ext_none:
  assumes "m = pre @ enc_exts es @ post" "\<forall>x \<in> set es. fst x \<noteq> ty"
    and "\<forall>x \<in> set es. fst x < 65536 \<and> length (snd x) < 65536"
    and "sz \<le> length pre + length (enc_exts es)"
  shows "find_tls_ext_loop ty m sz (length pre) = Some 0"
  using assms
proof (induction es arbitrary: pre)
  case Nil
  then show ?case by (subst find_tls_ext_loop.simps) simp
next
  case (Cons x xs)
  show ?case
  proof (cases "length pre + 4 < sz")
    case True
    with Cons.prems Cons.IH [of "pre @ enc_ext x"] show ?thesis
      using find_ext_step [of m pre x "enc_exts xs @ post" sz ty] by simp
  next
    case False
    then show ?thesis by (subst find_tls_ext_loop.simps) simp
  qed
qed

lemma find_sni_hello:
  assumes ok: "hello_ok h" and n: "length (enc_hello h) \<le> n"
    and es: "h_exts h = es @ (ty, b) # fs" "\<forall>e \<in> set es. fst e \<noteq> ty" and b: "b \<noteq> [] \<or> fs \<noteq> []"
  shows "find_tls_ext_offset ty (enc_hello h @ rest) n (ext_start h) =
    Some (ext_start h + 2 + length (enc_exts es))"
proof -
  have "h_exts h \<noteq> []" using es by simp
  note f = find_offset_hello [OF ok n this]
  have "0 < length b + length (enc_exts fs)" using b by (cases fs) auto
  then have "find_tls_ext_loop ty (enc_hello h @ rest) (length (enc_hello h)) (length (enc_pre h)) =
      Some (length (enc_pre h) + length (enc_exts es))"
    using ok es by (intro find_ext_first [of _ _ _ "(ty, b)" "enc_exts fs @ rest"])
      (auto simp: enc_hello_pre hello_ok_def)
  then show ?thesis unfolding f using length_enc_pre [OF ok] by simp
qed

lemma parse_tls_hello:
  assumes ok: "hello_ok h" and n: "length (enc_hello h) \<le> n"
    and es: "h_exts h = es @ (0, sni_body host) # fs" "\<forall>e \<in> set es. fst e \<noteq> 0"
    and long: "3 < length host + length (enc_exts fs)"
  shows "\<exists>p. parse_tls (enc_hello h @ rest) n = Some (length host, Some p) \<and>
    take (length host) (drop p (enc_hello h @ rest)) = host"
proof -
  let ?m = "enc_hello h @ rest"
  let ?p = "ext_start h + 2 + length (enc_exts es)"
  have sni: "find_tls_ext_offset 0 ?m n (ext_start h) = Some ?p"
    using find_sni_hello [OF ok n es] by (simp add: sni_body_def)
  have hl: "length host < 65536" using ok es by (auto simp: hello_ok_def sni_body_def)
  have len: "length (enc_hello h) = ?p + 9 + length host + length (enc_exts fs)"
    using length_enc_hello [OF ok] es by (simp add: sni_body_def)
  let ?pre = "enc_pre h @ enc_exts es @ u16_bytes 0 @ u16_bytes (length (sni_body host)) @
      u16_bytes (length host + 3) @ [0]"
  have m: "?m = ?pre @ u16_bytes (length host) @ host @ enc_exts fs @ rest"
    by (simp add: enc_hello_pre es enc_ext_def sni_body_def)
  have "length ?pre = ?p + 7" using length_enc_pre [OF ok] by simp
  then have l: "ANTOHS ?m (?p + 7) = Some (length host)" and "drop (?p + 9) ?m = host @ enc_exts fs @ rest"
    unfolding m using ANTOHS_u16_bytes [OF hl, of "?p + 7" ?pre] by simp_all
  then have host: "take (length host) (drop (?p + 9) ?m) = host" by simp
  have "ext_start h \<noteq> 0" "5 < n" using n len by (simp_all add: ext_start_def)
  then have "parse_tls ?m n = Some (length host, Some (?p + 9))"
    unfolding parse_tls_def using is_tls_chello_hello find_ext_block_hello [OF ok n] sni l n len long
    by (simp add: add.commute add.left_commute)
  with host show ?thesis by blast
qed

text \<open>A hello without the extension has no name.\<close>

lemma parse_tls_no_sni:
  assumes ok: "hello_ok h" and n: "length (enc_hello h) \<le> n" and es: "\<forall>e \<in> set (h_exts h). fst e \<noteq> 0" "h_exts h \<noteq> []"
  shows "parse_tls (enc_hello h @ rest) n = Some (0, None)"
proof -
  have "find_tls_ext_loop 0 (enc_hello h @ rest) (length (enc_hello h)) (length (enc_pre h)) = Some 0"
    using ok es(1) by (intro find_ext_none [of _ _ "h_exts h" rest]) (auto simp: enc_hello_pre hello_ok_def)
  then have "find_tls_ext_offset 0 (enc_hello h @ rest) n (ext_start h) = Some 0"
    using find_offset_hello [OF ok n es(2)] by simp
  moreover have "5 < n" using n length_enc_hello [OF ok] by (simp add: ext_start_def)
  ultimately show ?thesis
    unfolding parse_tls_def using is_tls_chello_hello find_ext_block_hello [OF ok n] by simp
qed

section \<open>Splitting a record\<close>

definition rec_head :: "mem \<Rightarrow> nat \<Rightarrow> mem" where
  "rec_head tv len = tv @ u16_bytes len"

lemma length_rec_head [simp]: "length tv = 3 \<Longrightarrow> length (rec_head tv len) = 5"
  by (simp add: rec_head_def)

lemma rec_head_len: "length tv = 3 \<Longrightarrow> len < 65536 \<Longrightarrow> length a = k \<Longrightarrow>
  ANTOHS (a @ rec_head tv len @ c) (k + 3) = Some len"
  using ANTOHS_u16_bytes [of len "k + 3" "a @ tv" c] by (simp add: rec_head_def)

lemma rec_head_store:
  assumes "length tv = 3" "length a = k" "u < 65536"
  shows "SHTONA (a @ rec_head tv len @ c) (k + 3) (int u) = Some (a @ rec_head tv u @ c)"
proof -
  have "u16 (int u) = int u" using assms(3) by (simp add: u16_def)
  then show ?thesis
    using SHTONA_at [of "k + 3" "a @ tv" "of_nat (len div 256)" "of_nat len" c "int u"] assms(1,2)
    by (simp add: rec_head_def u16_bytes_def)
qed

lemma part_tls_split:
  assumes tv: "length tv = 3" and r: "r < 65536" "length p1 \<le> r"
    and n: "n = int (5 + length p1 + length p2)" and slack: "5 \<le> length slack" "length slack < 2 ^ 63"
    and size: "length p1 + length p2 < 2 ^ 62"
  shows "part_tls (rec_head tv r @ p1 @ p2 @ slack) (5 + length p1 + length p2 + length slack) n (int (length p1)) =
    Some (rec_head tv (length p1) @ p1 @ rec_head tv (r - length p1) @ p2 @ drop 5 slack, 5)"
proof -
  let ?m = "rec_head tv r @ p1 @ p2 @ slack" and ?k = "5 + length p1"
  have "int (?k + length p2 + length slack) - n = int (length slack)" using n by simp
  then have big: "\<not> (n < 3 \<or> (int (?k + length p2 + length slack) - n) mod 2 ^ 64 < 5 \<or> int (length p1) < 0 \<or> int (length p1) + 5 > n)"
    using slack n by simp
  have lt: "\<not> int r < int (length p1)" using r by simp
  have len: "ANTOHS ?m 3 = Some r" using rec_head_len [OF tv r(1), of "[]" 0] by simp
  have nats: "nat (5 + int (length p1) + 5) = ?k + 5" "nat (5 + int (length p1)) = ?k"
    "nat (n - (5 + int (length p1))) = length p2" "nat (5 + int (length p1) + 3) = ?k + 3"
    using n by (auto simp: nat_add_distrib)
  define g where "g = take 5 (p2 @ slack)"
  have lg: "length g = 5" using slack by (simp add: g_def)
  have mv: "memmove ?m (?k + 5) ?k (length p2) = Some (rec_head tv r @ p1 @ g @ p2 @ drop 5 slack)"
  proof -
    define a where "a = rec_head tv r @ p1"
    have "length a = ?k" using tv by (simp add: a_def)
    then have "memmove (a @ p2 @ slack) (?k + 5) ?k (length p2) = Some (a @ g @ p2 @ drop 5 slack)"
      unfolding g_def by (intro memmove_up_at) (use slack in simp_all)
    then show ?thesis by (simp add: a_def)
  qed
  have g: "g = take 3 g @ [g ! 3, g ! 4]" "length (take 3 g) = 3"
    using lg by (auto simp: list_eq_iff_nth_eq nth_append less_Suc_eq numeral_eq_Suc)
  obtain g1 x y where g: "g = g1 @ [x, y]" "length g1 = 3" using g by blast
  have hdr: "slice (rec_head tv r @ p1 @ g @ p2 @ drop 5 slack) 0 3 = Some tv"
    using tv by (simp add: slice_def rec_head_def)
  have cp: "memcpy (rec_head tv r @ p1 @ g @ p2 @ drop 5 slack) ?k tv =
      Some (rec_head tv r @ p1 @ (tv @ [x, y]) @ p2 @ drop 5 slack)"
    using memcpy_at [of ?k "rec_head tv r @ p1" g1 tv "[x, y] @ p2 @ drop 5 slack"] g tv by simp
  have s1: "SHTONA (rec_head tv r @ p1 @ (tv @ [x, y]) @ p2 @ drop 5 slack) 3 (int (length p1)) =
      Some (rec_head tv (length p1) @ p1 @ (tv @ [x, y]) @ p2 @ drop 5 slack)"
    using rec_head_store [of tv "[]" 0 "length p1" r] tv r by simp
  have "u16 (int r - int (length p1)) = int (r - length p1)" using r by (simp add: u16_def of_nat_diff)
  then have s2: "SHTONA (rec_head tv (length p1) @ p1 @ (tv @ [x, y]) @ p2 @ drop 5 slack) (?k + 3) (int r - int (length p1)) =
      Some (rec_head tv (length p1) @ p1 @ rec_head tv (r - length p1) @ p2 @ drop 5 slack)"
    using SHTONA_at [of "?k + 3" "rec_head tv (length p1) @ p1 @ tv" x y "p2 @ drop 5 slack" "int r - int (length p1)"] tv
    by (simp add: rec_head_def)
  show ?thesis
    unfolding part_tls_def nats using big lt by (simp only: len mv hdr cp s1 s2 Option.bind.simps if_False)
qed

section \<open>Merging records\<close>

lemma merge_loop_two:
  assumes tv: "length tv = 3" and total: "length p1 + length p2 < 65536"
    and n: "n = int (10 + length p1 + length p2)"
    and last: "(p1 @ rec_head tv (length p2) @ p2) ! (length p1 + length p2) \<noteq> tv ! 0"
  shows "merge_loop (Suc (Suc f)) (rec_head tv (length p1) @ p1 @ rec_head tv (length p2) @ p2 @ tail) n 0 (length p1) 0 =
    Some (Some (rec_head tv (length p1) @ p1 @ p2 @ drop (length p2) (rec_head tv (length p2) @ p2) @ tail,
      length p1 + length p2, 1))"
proof -
  let ?h1 = "rec_head tv (length p1)" and ?h2 = "rec_head tv (length p2)" and ?k = "5 + length p1"
  let ?m = "?h1 @ p1 @ ?h2 @ p2 @ tail"
  let ?st = "drop (length p2) (?h2 @ p2)"
  let ?m1 = "?h1 @ p1 @ p2 @ ?st @ tail"
  have l5: "length ?h1 = 5" "length ?h2 = 5" "length ?st = 5" using tv by simp_all
  have first: "ld (?h1 @ c) 0 = Some (tv ! 0)" for c
    using tv by (simp add: ld_def rec_head_def nth_append)
  have second: "ld ?m ?k = Some (tv ! 0)"
    using tv l5 by (simp add: ld_def nth_append) (simp add: rec_head_def nth_append)
  have len: "ANTOHS ?m (?k + 3) = Some (length p2)"
    using rec_head_len [of tv "length p2" "?h1 @ p1" ?k "p2 @ tail"] tv total by simp
  have mv: "memmove ?m ?k (10 + length p1) (length p2) = Some ?m1"
    using memmove_down_at [of ?k "?h1 @ p1" "10 + length p1" ?h2 "length p2" p2 tail] l5 by simp
  have mvn: "nat (n - (10 + int (length p1))) = length p2" using n by simp
  have st0: "ld ?m1 (5 + (length p1 + length p2)) = Some ((p1 @ ?h2 @ p2) ! (length p1 + length p2))"
    using l5 by (simp add: ld_def nth_append)
  have c: "(0 + length p1) mod 65536 = length p1" "\<not> 5 + int (length p1) > n - 5"
    "\<not> int (length p1) + 10 + int (length p2) > n" "(length p1 + length p2) mod 65536 = length p1 + length p2"
    "\<not> 5 + int (length p1 + length p2) > n - 5"
    using n total by simp_all
  have step1: "merge_loop (Suc (Suc f)) ?m n 0 (length p1) 0 = merge_loop (Suc f) ?m1 n (length p1) (length p2) (0 + 1)"
    by (simp only: merge_loop.simps(2) [of "Suc f"] Let_def c second first len mvn mv Option.bind.simps if_False
        not_True_eq_False simp_thms)
  show ?thesis
    unfolding step1 using last
    by (simp only: merge_loop.simps(2) [of f] Let_def c st0 first Option.bind.simps if_False if_True simp_thms) simp
qed

lemma merge_two:
  assumes tv: "length tv = 3" and a: "length a = 2" and p: "p1 @ p2 = a @ u16_bytes (r - 4) @ b"
    and r: "r = length p1 + length p2" "r < 65536"
    and last: "(p1 @ rec_head tv (length p2) @ p2) ! r \<noteq> tv ! 0"
  shows "\<exists>st. merge_tls_records (Suc (Suc f)) (rec_head tv (length p1) @ p1 @ rec_head tv (length p2) @ p2 @ tail) (int (10 + r)) =
    Some (Some (rec_head tv r @ p1 @ p2 @ st @ tail, 5)) \<and> length st = 5"
proof -
  let ?st = "drop (length p2) (rec_head tv (length p2) @ p2)"
  have "length (p1 @ p2) = length (a @ u16_bytes (r - 4) @ b)" using p by simp
  then have r4: "4 \<le> r" using r a by simp
  have l3: "ANTOHS (rec_head tv (length p1) @ p1 @ rec_head tv (length p2) @ p2 @ tail) 3 = Some (length p1)"
    using rec_head_len [of tv "length p1" "[]" 0] tv r by simp
  have n10: "int (10 + r) = int (10 + length p1 + length p2)" "length p1 + length p2 < 65536" using r by simp_all
  note loop = merge_loop_two [OF tv n10(2,1) last [unfolded r(1)], of f tail, folded r(1)]
  have ge5: "(int (10 + r) < 5) = False" by simp
  have s1: "SHTONA (rec_head tv (length p1) @ p1 @ p2 @ ?st @ tail) 3 (int r) = Some (rec_head tv r @ p1 @ p2 @ ?st @ tail)"
    using rec_head_store [of tv "[]" 0 r] tv r by simp
  have u: "nat (u16 (int r - 4)) = r - 4" using r r4 by (simp add: u16_def nat_diff_distrib)
  have s2: "SHTONA (rec_head tv r @ p1 @ p2 @ ?st @ tail) 7 (int r - 4) = Some (rec_head tv r @ p1 @ p2 @ ?st @ tail)"
  proof -
    have "SHTONA ((rec_head tv r @ a) @ of_nat ((r - 4) div 256) # of_nat (r - 4) # (b @ ?st @ tail)) 7 (int r - 4) =
        Some ((rec_head tv r @ a) @ u16_bytes (r - 4) @ (b @ ?st @ tail))"
      using SHTONA_at [of 7 "rec_head tv r @ a" "of_nat ((r - 4) div 256)" "of_nat (r - 4)" "b @ ?st @ tail" "int r - 4"] tv a u
      by simp
    moreover have "p1 @ p2 @ c = a @ u16_bytes (r - 4) @ b @ c" for c using p by (metis append.assoc)
    ultimately show ?thesis by (simp only: u16_bytes_def append.assoc append_Cons append_Nil)
  qed
  have "merge_tls_records (Suc (Suc f)) (rec_head tv (length p1) @ p1 @ rec_head tv (length p2) @ p2 @ tail) (int (10 + r)) =
    Some (Some (rec_head tv r @ p1 @ p2 @ ?st @ tail, 5))"
    unfolding merge_tls_records_def
    by (simp only: l3 loop s1 s2 Option.bind.simps option.case prod.case if_False ge5) simp
  then show ?thesis using tv by (intro exI [of _ ?st]) simp
qed

section \<open>Properties\<close>

definition sample_hello :: hello where
  "sample_hello = \<lparr> h_random = replicate 32 7, h_sid = [1, 2, 3, 4], h_ciphers = [0x13, 0x01],
     h_exts = [(0x2b, [2, 3, 4]), (0, sni_body (bytes_of ''example.com'')), (0x10, [0, 2, 1, 104])] \<rparr>"

lemma sample_hello_ok: "hello_ok sample_hello"
  by (simp add: hello_ok_def sample_hello_def sni_body_def bytes_of_def)

text \<open>
  C15: Whatever the bytes of a packet, \<open>parse_tls\<close> with a size inside the object reads only
  inside it and ends; a name it returns lies inside the first \<open>bsize\<close> bytes.
\<close>

theorem parse_tls_safe:
  assumes "bsize \<le> length m"
  shows "\<exists>len hs. parse_tls m bsize = Some (len, hs) \<and>
    (case hs of None \<Rightarrow> len = 0 | Some p \<Rightarrow> 59 \<le> p \<and> p + len \<le> bsize)"
  using assms by (rule parse_tls_inside)

theorem parse_tls_safe_witness:
  "\<exists>len hs. parse_tls [0x16, 3, 1, 0, 9, 1, 255] 7 = Some (len, hs) \<and>
    (case hs of None \<Rightarrow> len = 0 | Some p \<Rightarrow> 59 \<le> p \<and> p + len \<le> 7)"
  using parse_tls_safe [of 7 "[0x16, 3, 1, 0, 9, 1, 255]"] by simp

text \<open>
  C14: On every encoded well-formed ClientHello with a server name extension, the first one wherever it
  stands among the others, that is completely in the packet, and whatever follows the record, \<open>parse_tls\<close> returns
  the length of the name and the place of its bytes, provided that the name and the extensions behind it take more than three
  bytes. (A name of three bytes or fewer that ends the record is not found.)
\<close>

theorem parse_tls_finds_name:
  assumes "hello_ok h" "length (enc_hello h) \<le> n"
    and "h_exts h = es @ (0, sni_body host) # fs" "\<forall>e \<in> set es. fst e \<noteq> 0"
    and "3 < length host + length (enc_exts fs)"
  shows "\<exists>p. parse_tls (enc_hello h @ rest) n = Some (length host, Some p) \<and>
    take (length host) (drop p (enc_hello h @ rest)) = host"
  using assms by (rule parse_tls_hello)

theorem parse_tls_finds_name_witness:
  "\<exists>p. parse_tls (enc_hello sample_hello @ [0x14, 3, 3]) (length (enc_hello sample_hello)) = Some (11, Some p) \<and>
    take 11 (drop p (enc_hello sample_hello @ [0x14, 3, 3])) = bytes_of ''example.com''"
proof -
  have "h_exts sample_hello = [(0x2b, [2, 3, 4])] @ (0, sni_body (bytes_of ''example.com'')) # [(0x10, [0, 2, 1, 104])]"
    by (simp add: sample_hello_def)
  moreover have "length (bytes_of ''example.com'') = 11" by (simp add: bytes_of_def)
  ultimately show ?thesis
    using parse_tls_finds_name [OF sample_hello_ok order_refl, of "[(0x2b, [2, 3, 4])]" "bytes_of ''example.com''"
        "[(0x10, [0, 2, 1, 104])]" "[0x14, 3, 3]"] by simp
qed

text \<open>
  C16: Splitting and merging a record. Let a record be the whole packet, with a payload of \<open>r < 2^16\<close> bytes that
  begins like a handshake message of this length (\<open>r - 4\<close> in its third and fourth byte), with at least five and fewer than
  \<open>2^63\<close> bytes of room behind it. \<open>part_tls\<close> at any position of the payload gives two records of the same type and
  version whose payloads are the two parts; and if in the split packet the fifth byte from the end is not the record
  type, \<open>merge_tls_records\<close> gives the record back and ends. (Where that byte is the record type, payload is taken for one
  more header; see the next property.)
\<close>

theorem part_then_merge:
  assumes "length tv = 3" "length a = 2" "p1 @ p2 = a @ u16_bytes (r - 4) @ b"
    and "r = length p1 + length p2" "r < 65536" "5 \<le> length slack" "length slack < 2 ^ 63"
    and "(p1 @ rec_head tv (length p2) @ p2) ! r \<noteq> tv ! 0"
  shows "\<exists>m st. part_tls (rec_head tv r @ p1 @ p2 @ slack) (5 + r + length slack) (int (5 + r)) (int (length p1)) = Some (m, 5) \<and>
    m = rec_head tv (length p1) @ p1 @ rec_head tv (length p2) @ p2 @ drop 5 slack \<and>
    merge_tls_records (Suc (Suc f)) m (int (10 + r)) = Some (Some (rec_head tv r @ p1 @ p2 @ st @ drop 5 slack, 5)) \<and>
    length st = 5"
proof -
  have "part_tls (rec_head tv r @ p1 @ p2 @ slack) (5 + length p1 + length p2 + length slack) (int (5 + length p1 + length p2)) (int (length p1)) =
      Some (rec_head tv (length p1) @ p1 @ rec_head tv (r - length p1) @ p2 @ drop 5 slack, 5)"
    using assms(1,4-7) by (intro part_tls_split) simp_all
  then have "part_tls (rec_head tv r @ p1 @ p2 @ slack) (5 + r + length slack) (int (5 + r)) (int (length p1)) =
      Some (rec_head tv (length p1) @ p1 @ rec_head tv (length p2) @ p2 @ drop 5 slack, 5)"
    using assms(4) by (simp add: add.assoc)
  with merge_two [OF assms(1-5,8), of f "drop 5 slack"] show ?thesis by blast
qed

theorem part_then_merge_witness:
  "\<exists>m st. part_tls (rec_head [0x16, 3, 1] 10 @ [1, 0, 0] @ [6, 3, 3, 9, 9, 9, 9] @ replicate 8 0)
      (5 + 10 + length (replicate 8 (0 :: byte))) (int (5 + 10)) (int (length [1 :: byte, 0, 0])) = Some (m, 5) \<and>
    merge_tls_records (Suc (Suc 0)) m (int (10 + 10)) =
      Some (Some (rec_head [0x16, 3, 1] 10 @ [1, 0, 0] @ [6, 3, 3, 9, 9, 9, 9] @ st @ drop 5 (replicate 8 0), 5))"
proof -
  let ?tv = "[0x16, 3, 1] :: mem" and ?p2 = "[6, 3, 3, 9, 9, 9, 9] :: mem"
  have "length ?tv = 3" "length [1 :: byte, 0] = 2"
    "[1, 0, 0] @ ?p2 = [1, 0] @ u16_bytes (10 - 4) @ [3, 3, 9, 9, 9, 9]"
    "10 = length [1 :: byte, 0, 0] + length ?p2" "(10 :: nat) < 65536"
    "5 \<le> length (replicate 8 (0 :: byte))" "length (replicate 8 (0 :: byte)) < 2 ^ 63"
    "([1, 0, 0] @ rec_head ?tv (length ?p2) @ ?p2) ! 10 \<noteq> ?tv ! 0"
    by (simp_all add: u16_bytes_def rec_head_def)
  from part_then_merge [OF this, of 0] show ?thesis by blast
qed



end
