(* ===== verification/Tls_Rewrite.thy ===== *)
theory Tls_Rewrite
  imports Packets_Tls_Props
begin

text \<open>
  Replacing the server name of a ClientHello: \<open>change_tls_sni\<close> on an encoded hello
  gives the encoding of the same hello with the other name, padded to the size asked for.
\<close>

section \<open>Replacing the name\<close>

text \<open>The list of extensions in memory, whatever its length field says.\<close>

lemma find_offset_field:
  assumes "ANTOHS m skip = Some L" "skip + 2 < n"
  shows "find_tls_ext_offset ty m n skip = find_tls_ext_loop ty m (min n (skip + 2 + L)) (skip + 2)"
proof -
  have "(if L < n - (skip + 2) then L + (skip + 2) else n) = min n (skip + 2 + L)" using assms(2) by auto
  then show ?thesis
    by (simp only: find_tls_ext_offset_def Let_def assms(1) Option.bind.simps) (use assms(2) in simp)
qed

lemma copy_name_plain: "\<forall>c \<in> set h. c \<notin> {42, 63, 35} \<Longrightarrow> copy_name rnd k h = (h, k)"
  by (induction h arbitrary: k) (auto simp: copy_char_def)

definition sni_ext_head :: "nat \<Rightarrow> mem" where
  "sni_ext_head len = u16_bytes 0 @ u16_bytes (len + 5) @ u16_bytes (len + 3) @ [0] @ u16_bytes len"

lemma enc_sni_ext: "enc_ext (0, sni_body host) = sni_ext_head (length host) @ host"
  by (simp add: enc_ext_def sni_body_def sni_ext_head_def eval_nat_numeral)

lemma length_sni_ext_head [simp]: "length (sni_ext_head len) = 9"
  by (simp add: sni_ext_head_def)

lemma store_u16:
  assumes "i = length a" "x < 65536"
  shows "SHTONA (a @ u16_bytes y @ c) i (int x) = Some (a @ u16_bytes x @ c)"
proof -
  have "nat (u16 (int x)) = x" using assms(2) by (simp add: u16_def)
  then show ?thesis using SHTONA_at [OF assms(1), of "of_nat (y div 256)" "of_nat y" c "int x"]
    by (simp add: u16_bytes_def)
qed

lemma resize_sni_enc:
  assumes o: "sni_offs = length a" and new: "new + 5 < 65536" and n: "n = int (length a + 9 + length old + length fs)"
    and room: "length a + 9 + new + length fs \<le> length a + 9 + length old + length fs + length tail"
  shows "\<exists>x y. resize_sni (a @ sni_ext_head (length old) @ old @ fs @ tail) n sni_offs (length old + 5) new =
      Some (a @ sni_ext_head new @ x @ fs @ y) \<and> length x = new \<and> new + length y = length old + length tail"
proof -
  let ?l = "length old" and ?r = "old @ fs @ tail"
  have s1: "SHTONA (a @ sni_ext_head ?l @ ?r) (sni_offs + 2) (int new + 5) =
      Some (a @ u16_bytes 0 @ u16_bytes (new + 5) @ u16_bytes (?l + 3) @ [0] @ u16_bytes ?l @ ?r)"
    using store_u16 [of "sni_offs + 2" "a @ u16_bytes 0" "new + 5" "?l + 5"
        "u16_bytes (?l + 3) @ [0] @ u16_bytes ?l @ ?r"] o new by (simp add: sni_ext_head_def add.commute)
  have s2: "SHTONA (a @ u16_bytes 0 @ u16_bytes (new + 5) @ u16_bytes (?l + 3) @ [0] @ u16_bytes ?l @ ?r) (sni_offs + 4) (int new + 3) =
      Some (a @ u16_bytes 0 @ u16_bytes (new + 5) @ u16_bytes (new + 3) @ [0] @ u16_bytes ?l @ ?r)"
    using store_u16 [of "sni_offs + 4" "a @ u16_bytes 0 @ u16_bytes (new + 5)" "new + 3" "?l + 3"
        "[0] @ u16_bytes ?l @ ?r"] o new by (simp add: add.commute)
  have s3: "SHTONA (a @ u16_bytes 0 @ u16_bytes (new + 5) @ u16_bytes (new + 3) @ [0] @ u16_bytes ?l @ ?r) (sni_offs + 7) (int new) =
      Some (a @ sni_ext_head new @ ?r)"
    using store_u16 [of "sni_offs + 7" "a @ u16_bytes 0 @ u16_bytes (new + 5) @ u16_bytes (new + 3) @ [0]" new ?l ?r] o new
    by (simp add: sni_ext_head_def)
  define m where "m = a @ sni_ext_head new @ ?r"
  define d where "d = length a + 9 + new"
  have lm: "length m = length a + 9 + ?l + length fs + length tail" by (simp add: m_def)
  have pos: "nat (int (sni_offs + 4 + (?l + 5)) + int new - (int (?l + 5) - 5)) = d"
    "nat (int (sni_offs + 4 + (?l + 5))) = length a + 9 + ?l" "nat (n - int (sni_offs + 4 + (?l + 5))) = length fs"
    using o n by (simp_all add: d_def)
  have mv: "memmove m d (length a + 9 + ?l) (length fs) = Some (take d m @ fs @ drop (d + length fs) m)"
    using room lm by (simp add: memmove_inside d_def) (simp add: m_def)
  have "resize_sni (a @ sni_ext_head ?l @ ?r) n sni_offs (?l + 5) new =
      memmove_z m (int (sni_offs + 4 + (?l + 5)) + int new - (int (?l + 5) - 5)) (int (sni_offs + 4 + (?l + 5)))
        (n - int (sni_offs + 4 + (?l + 5)))"
    unfolding resize_sni_def m_def Let_def by (simp only: s1 s2 s3 Option.bind.simps)
  also have "\<dots> = memmove m d (length a + 9 + ?l) (length fs)"
    unfolding memmove_z_def pos using o n by simp
  finally have run: "resize_sni (a @ sni_ext_head ?l @ ?r) n sni_offs (?l + 5) new =
      Some (take d m @ fs @ drop (d + length fs) m)" using mv by simp
  have "take d m = a @ sni_ext_head new @ take new ?r" by (simp add: m_def d_def)
  moreover have "length (take new ?r) = new" "length (drop (d + length fs) m) = length a + 9 + ?l + length tail - d"
    using room lm by (auto simp: d_def)
  ultimately show ?thesis
    using run room by (intro exI [of _ "take new ?r"] exI [of _ "drop (d + length fs) m"]) (simp add: d_def)
qed

text \<open>
  Merging a single record changes nothing: the first length already reaches past the last
  place where another record could start.
\<close>

lemma enc_hello_split:
  assumes "hello_ok h"
  shows "enc_hello h = rec_head [0x16, 3, 1] (length (enc_hello h) - 5) @ [1, 0] @ u16_bytes (length (enc_hello h) - 9) @ enc_body h"
    "9 \<le> length (enc_hello h)"
  by (simp_all add: enc_hello_def rec_head_def eval_nat_numeral)

lemma rec_len_hello:
  assumes "hello_ok h" "length (enc_hello h) < 65536"
  shows "ANTOHS (enc_hello h @ tail) 3 = Some (length (enc_hello h) - 5)"
proof -
  define r q where "r = length (enc_hello h) - 5" and "q = [1, 0] @ u16_bytes (length (enc_hello h) - 9) @ enc_body h @ tail"
  have "enc_hello h @ tail = [] @ rec_head [0x16, 3, 1] r @ q"
    unfolding r_def q_def by (subst enc_hello_split(1) [OF assms(1)]) simp
  moreover have "ANTOHS ([] @ rec_head [0x16, 3, 1] r @ q) (0 + 3) = Some r"
    by (rule rec_head_len) (use assms(2) in \<open>simp_all add: r_def\<close>)
  ultimately show ?thesis by (simp only: r_def add_0)
qed

lemma merge_single:
  assumes ok: "hello_ok h" and small: "length (enc_hello h) < 65536"
  shows "merge_tls_records (Suc f) (enc_hello h @ tail) (int (length (enc_hello h))) = Some (Some (enc_hello h @ tail, 0))"
proof -
  define N where "N = length (enc_hello h)"
  let ?tv = "[0x16, 3, 1] :: mem"
  note split = enc_hello_split [OF ok, folded N_def]
  let ?r = "[1, 0] @ u16_bytes (N - 9) @ enc_body h @ tail"
  have m: "enc_hello h @ tail = rec_head ?tv (N - 5) @ ?r" by (subst split(1)) simp
  have N: "9 \<le> N" "N < 65536" using split(2) small by (simp_all add: N_def)
  have l: "ANTOHS (enc_hello h @ tail) 3 = Some (N - 5)"
    using rec_head_len [of ?tv "N - 5" "[]" 0 ?r] N m by simp
  have loop: "merge_loop (Suc f) (enc_hello h @ tail) (int N) 0 (N - 5) 0 = Some (Some (enc_hello h @ tail, N - 5, 0))"
    using N by (simp add: Let_def)
  have s1: "SHTONA (enc_hello h @ tail) 3 (int (N - 5)) = Some (enc_hello h @ tail)"
    using rec_head_store [of ?tv "[]" 0 "N - 5" "N - 5" ?r] N m by simp
  have "int (N - 5) - 4 = int (N - 9)" using N by simp
  then have s2: "SHTONA (enc_hello h @ tail) 7 (int (N - 5) - 4) = Some (enc_hello h @ tail)"
    using store_u16 [of 7 "rec_head ?tv (N - 5) @ [1, 0]" "N - 9" "N - 9" "enc_body h @ tail"] N m
    by (simp add: rec_head_def)
  have ge: "(int N < 5) = False" using N by simp
  show ?thesis
    unfolding merge_tls_records_def N_def [symmetric]
    by (simp only: ge l loop s1 s2 Option.bind.simps option.case prod.case if_False) simp
qed

text \<open>Without an encrypted hello among the extensions there is none to resize.\<close>

lemma no_ech:
  assumes "m = pre @ enc_exts xs @ post" "length pre = skip + 2" "ANTOHS m skip = Some L" "skip + 2 < nat n"
    and "\<forall>x \<in> set xs. fst x \<noteq> 0xfe0d \<and> fst x < 65536 \<and> length (snd x) < 65536"
    and "min (nat n) (skip + 2 + L) \<le> length pre + length (enc_exts xs)"
  shows "resize_ech_ext m n skip inc = Some (m, 0)"
proof -
  have "find_tls_ext_loop 0xfe0d m (min (nat n) (skip + 2 + L)) (length pre) = Some 0"
    using assms by (intro find_ext_none [of m pre xs post]) auto
  with find_offset_field [OF assms(3,4)] assms(2) show ?thesis by (simp add: resize_ech_ext_def)
qed

lemma drop_loop_done: "avail = 0 \<or> 4 \<le> avail \<Longrightarrow> drop_loop es m n skip avail = Some (Inr (m, avail))"
  by (subst drop_loop.simps) auto

lemma room_untouched:
  assumes ech: "\<And>inc. resize_ech_ext m n skip inc = Some (m, 0)"
    and v: "v = 0 \<or> 4 \<le> v" and d: "0 \<le> int new_sz - (int sni_sz - 5) \<or> v = 0"
    and avail: "avail = v + (int new_sz - (int sni_sz - 5))"
  shows "sni_make_room m n skip sni_offs sni_sz new_sz avail = Some (Inr (m, int new_sz - (int sni_sz - 5), v))"
proof -
  let ?d = "int new_sz - (int sni_sz - 5)"
  have c: "avail - ?d = v" "\<not> (?d < 0 \<and> v > 0)" "\<not> v < - 50" using v d avail by auto
  show ?thesis
  proof (cases "v = 0")
    case True
    then show ?thesis
      unfolding sni_make_room_def Let_def c by (simp add: drop_loop_done)
  next
    case False
    then show ?thesis
      unfolding sni_make_room_def Let_def c using c(2,3) v by (simp add: ech drop_loop_done)
  qed
qed

lemma store_name:
  assumes a: "length a = sni_offs" "sni_offs \<noteq> 0" and new: "length new + 5 < 65536" "\<forall>c \<in> set new. c \<notin> {42, 63, 35}"
    and n: "n = int (length a + 9 + length old + length fs)"
    and room: "length new \<le> length old + length tail"
    and found: "find_tls_ext_offset 0 (a @ sni_ext_head (length old) @ old @ fs @ tail) (nat n) skip = Some sni_offs"
  shows "\<exists>y. sni_store rnd k new (a @ sni_ext_head (length old) @ old @ fs @ tail) n skip (length old + 5) (length new)
        (int (length new) - (int (length old + 5) - 5)) =
      Some (Inr (a @ sni_ext_head (length new) @ new @ fs @ y, k)) \<and> length new + length y = length old + length tail"
proof -
  let ?m = "a @ sni_ext_head (length old) @ old @ fs @ tail"
  have "\<exists>x y. (if int (length new) - (int (length old + 5) - 5) \<noteq> 0
      then resize_sni ?m n sni_offs (length old + 5) (length new) else Some ?m) =
      Some (a @ sni_ext_head (length new) @ x @ fs @ y) \<and> length x = length new \<and>
      length new + length y = length old + length tail"
  proof (cases "length new = length old")
    case True
    then show ?thesis by (intro exI [of _ old] exI [of _ tail]) simp
  next
    case False
    then show ?thesis
      using resize_sni_enc [of sni_offs a "length new" n old fs tail] a new(1) n room by auto
  qed
  then obtain x y where r: "(if int (length new) - (int (length old + 5) - 5) \<noteq> 0
      then resize_sni ?m n sni_offs (length old + 5) (length new) else Some ?m) =
      Some (a @ sni_ext_head (length new) @ x @ fs @ y)" "length x = length new"
      "length new + length y = length old + length tail" by blast
  have cp: "memcpy (a @ sni_ext_head (length new) @ x @ fs @ y) (sni_offs + 9) new =
      Some (a @ sni_ext_head (length new) @ new @ fs @ y)"
    using memcpy_at [of "sni_offs + 9" "a @ sni_ext_head (length new)" x new "fs @ y"] a r(2) by simp
  have "(sni_offs = 0) = False" using a by simp
  then have "sni_store rnd k new ?m n skip (length old + 5) (length new) (int (length new) - (int (length old + 5) - 5)) =
      Some (Inr (a @ sni_ext_head (length new) @ new @ fs @ y, k))"
    unfolding sni_store_def using copy_name_plain [OF new(2)]
    by (simp only: found r(1) Option.bind.simps if_False Let_def take_all order_refl prod.case cp)
  with r(3) show ?thesis by blast
qed

definition pad_exts :: "nat \<Rightarrow> ext list" where
  "pad_exts v = (if v = 0 then [] else [(0x15, replicate (v - 4) 0)])"

lemma enc_pad: "v = 0 \<or> 4 \<le> v \<Longrightarrow> length (enc_exts (pad_exts v)) = v"
  by (auto simp: pad_exts_def)

lemma four_cells: "4 \<le> length y \<Longrightarrow> \<exists>a b c d ws. y = a # b # c # d # ws"
  by (auto simp: numeral_eq_Suc Suc_le_length_iff)

lemma finish_pad:
  assumes v: "v = 0 \<or> 4 \<le> v" "v < 65536" and p: "int (length p) = 5 + r_sz - int v" and y: "v \<le> length y"
    and ech: "0 < v \<Longrightarrow> resize_ech_ext (p @ y) n skip (int v) = Some (p @ y, 0)"
  shows "sni_finish (p @ y) n skip r_sz (int v) = do {
     b \<leftarrow> SHTONA (p @ enc_exts (pad_exts v) @ drop v y) 3 r_sz;
     b \<leftarrow> SHTONA b 7 (r_sz - 4);
     SHTONA b skip (5 + r_sz - int skip - 2) }"
proof (cases "v = 0")
  case True
  then show ?thesis by (simp add: sni_finish_def pad_exts_def)
next
  case False
  then have v4: "4 \<le> v" using v by simp
  let ?e = "5 + r_sz - int v"
  obtain x1 x2 x3 x4 ws where ws: "y = x1 # x2 # x3 # x4 # ws"
    using four_cells [of y] y v4 by auto
  define y1 y2 where "y1 = take (v - 4) ws" and "y2 = drop (v - 4) ws"
  have "v = Suc (Suc (Suc (Suc (v - 4))))" using v4 by simp
  then have "drop v y = y2" unfolding ws y2_def by (metis drop_Suc_Cons)
  moreover have "length y1 = v - 4" using ws y by (simp add: y1_def)
  ultimately have y': "y = x1 # x2 # x3 # x4 # y1 @ y2" "length y1 = v - 4" "y2 = drop v y"
    using ws by (simp_all add: y1_def y2_def)
  have e: "\<not> ?e < 0" "nat ?e = length p" "\<not> ?e + 2 < 0" "nat (?e + 2) = length p + 2" "\<not> ?e + 4 < 0" "nat (?e + 4) = length p + 4"
    using p by auto
  have s1: "SHTONA_z (p @ y) ?e 0x15 = Some (p @ u16_bytes 0x15 @ x3 # x4 # y1 @ y2)"
    using SHTONA_at [of "length p" p x1 x2 "x3 # x4 # y1 @ y2" "0x15"] e y'(1) by (simp add: SHTONA_z_def u16_def)
  have "nat (u16 (int v - 4)) = v - 4" using v v4 by (simp add: u16_def nat_diff_distrib)
  then have s2: "SHTONA_z (p @ u16_bytes 0x15 @ x3 # x4 # y1 @ y2) (?e + 2) (int v - 4) =
      Some (p @ u16_bytes 0x15 @ u16_bytes (v - 4) @ y1 @ y2)"
    using SHTONA_at [of "length p + 2" "p @ u16_bytes 0x15" x3 x4 "y1 @ y2" "int v - 4"] e by (simp add: SHTONA_z_def)
  have "nat (int v - 4) = v - 4" using v4 by simp
  then have s3: "memset (p @ u16_bytes 0x15 @ u16_bytes (v - 4) @ y1 @ y2) (nat (?e + 4)) 0 (nat (int v - 4)) =
      Some (p @ enc_exts (pad_exts v) @ y2)"
    using memcpy_at [of "length p + 4" "p @ u16_bytes 0x15 @ u16_bytes (v - 4)" y1 "replicate (v - 4) 0" y2] e y'(2) False
    by (simp add: memset_def pad_exts_def enc_ext_def)
  have c: "(int v > 0) = True" "(int v \<ge> 4) = True" "(?e + 4 < 0) = False" using v4 e by auto
  have ech0: "resize_ech_ext (p @ y) n skip (int v) = Some (p @ y, 0)" using ech False by simp
  show ?thesis
    unfolding sni_finish_def
    by (simp only: c ech0 if_True if_False Option.bind.simps prod.case diff_0_right s1 s2 s3) (simp only: y'(3))
qed

lemma enc_hello_stores:
  assumes ok: "hello_ok h" and N: "N = length (enc_hello h)" "N < 65536"
    and l: "l1 < 65536" "l2 < 65536" "l3 < 65536"
  shows "do {
     b \<leftarrow> SHTONA ([0x16, 3, 1] @ u16_bytes l1 @ [1, 0] @ u16_bytes l2 @ enc_head h @ u16_bytes l3 @ enc_exts (h_exts h) @ y) 3 (int N - 5);
     b \<leftarrow> SHTONA b 7 (int N - 5 - 4);
     SHTONA b (ext_start h) (5 + (int N - 5) - int (ext_start h) - 2) } = Some (enc_hello h @ y)"
proof -
  let ?L = "length (enc_exts (h_exts h))"
  have len: "N = ext_start h + 2 + ?L" "length (enc_body h) + 9 = N" "length (enc_head h) + 9 = ext_start h"
    using ok N length_enc_hello [OF ok] length_enc_hello [OF ok] ok
    by (simp_all add: enc_hello_def hello_ok_def length_enc_head ext_start_def)
  have ints: "int N - 5 = int (N - 5)" "int (N - 5) - 4 = int (N - 9)" "5 + int (N - 5) - int (ext_start h) - 2 = int ?L"
    using len by auto
  have s1: "SHTONA ([0x16, 3, 1] @ u16_bytes l1 @ c) 3 (int (N - 5)) = Some ([0x16, 3, 1] @ u16_bytes (N - 5) @ c)" for c
    using store_u16 [of 3 "[0x16, 3, 1]" "N - 5" l1 c] N by simp
  have s2: "SHTONA ([0x16, 3, 1] @ u16_bytes (N - 5) @ [1, 0] @ u16_bytes l2 @ c) 7 (int (N - 9)) =
      Some ([0x16, 3, 1] @ u16_bytes (N - 5) @ [1, 0] @ u16_bytes (N - 9) @ c)" for c
    using store_u16 [of 7 "[0x16, 3, 1] @ u16_bytes (N - 5) @ [1, 0]" "N - 9" l2 c] N by simp
  have s3: "SHTONA ([0x16, 3, 1] @ u16_bytes (N - 5) @ [1, 0] @ u16_bytes (N - 9) @ enc_head h @ u16_bytes l3 @ c) (ext_start h) (int ?L) =
      Some ([0x16, 3, 1] @ u16_bytes (N - 5) @ [1, 0] @ u16_bytes (N - 9) @ enc_head h @ u16_bytes ?L @ c)" for c
    using store_u16 [of "ext_start h" "[0x16, 3, 1] @ u16_bytes (N - 5) @ [1, 0] @ u16_bytes (N - 9) @ enc_head h" ?L l3 c] N len by simp
  have "N - 5 = length (enc_body h) + 4" "N - 9 = length (enc_body h)" using len by auto
  then have e: "enc_hello h @ y = [0x16, 3, 1] @ u16_bytes (N - 5) @ [1, 0] @ u16_bytes (N - 9) @ enc_head h @ u16_bytes ?L @ enc_exts (h_exts h) @ y"
    by (simp only: enc_hello_def enc_body_def append.assoc)
  show ?thesis unfolding ints e by (simp only: s1 s2 s3 Option.bind.simps)
qed

section \<open>The hello after the change\<close>

text \<open>
  The case covered: a single record without encrypted hello, a name without wildcards, and
  a size \<open>nn\<close> that leaves no space or at least the four bytes of an extension header,
  the latter for a name that is not shorter than the old one.
\<close>

definition sni_job :: "hello \<Rightarrow> ext list \<Rightarrow> mem \<Rightarrow> ext list \<Rightarrow> mem \<Rightarrow> nat \<Rightarrow> nat \<Rightarrow> bool" where
  "sni_job h es old fs new v nn \<longleftrightarrow>
     hello_ok h \<and> h_exts h = es @ (0, sni_body old) # fs \<and> length (enc_hello h) < 65536 \<and> nn < 65536 \<and>
     (\<forall>e \<in> set es. fst e \<noteq> 0) \<and> (\<forall>e \<in> set (es @ fs). fst e \<noteq> 0xfe0d) \<and>
     (\<forall>c \<in> set new. c \<notin> {42, 63, 35}) \<and> (v = 0 \<or> 4 \<le> v \<and> length old \<le> length new) \<and>
     nn + length old = length (enc_hello h) + length new + v"

definition renamed :: "hello \<Rightarrow> ext list \<Rightarrow> mem \<Rightarrow> ext list \<Rightarrow> nat \<Rightarrow> hello" where
  "renamed h es new fs v = h\<lparr>h_exts := es @ (0, sni_body new) # fs @ pad_exts v\<rparr>"

lemma job_sizes:
  assumes "sni_job h es old fs new v nn"
  shows "length (enc_hello h) = ext_start h + 11 + length (enc_exts es) + length old + length (enc_exts fs)"
    and "length (enc_exts (h_exts h)) = 9 + length (enc_exts es) + length old + length (enc_exts fs)"
    and "length old + 5 < 65536" "length new + 5 < 65536" "v < 65536" "11 \<le> nn" "v = 0 \<or> 4 \<le> v" "hello_ok h"
proof -
  have ok: "hello_ok h" and es: "h_exts h = es @ (0, sni_body old) # fs" using assms by (auto simp: sni_job_def)
  show len: "length (enc_exts (h_exts h)) = 9 + length (enc_exts es) + length old + length (enc_exts fs)"
    by (simp add: es sni_body_def)
  show "length (enc_hello h) = ext_start h + 11 + length (enc_exts es) + length old + length (enc_exts fs)"
    using length_enc_hello [OF ok] len by simp
  then show "length old + 5 < 65536" "length new + 5 < 65536" "v < 65536" "11 \<le> nn" "v = 0 \<or> 4 \<le> v" "hello_ok h"
    using assms by (auto simp: sni_job_def)
qed

lemma job_memory:
  assumes "sni_job h es old fs new v nn"
  shows "enc_hello h @ tail = (enc_pre h @ enc_exts es) @ sni_ext_head (length old) @ old @ enc_exts fs @ tail"
    and "length (enc_pre h @ enc_exts es) = ext_start h + 2 + length (enc_exts es)"
  using assms length_enc_pre [of h] by (auto simp: sni_job_def enc_hello_pre enc_sni_ext)

lemma job_found:
  assumes "sni_job h es old fs new v nn"
  shows "find_tls_ext_offset 0 (enc_hello h @ tail) (length (enc_hello h)) (ext_start h) =
    Some (ext_start h + 2 + length (enc_exts es))"
  using assms find_sni_hello [of h "length (enc_hello h)" es 0 "sni_body old" fs tail]
  by (auto simp: sni_job_def sni_body_def)

lemma job_sni_size:
  assumes job: "sni_job h es old fs new v nn"
  shows "ANTOHS (enc_hello h @ tail) (ext_start h + 2 + length (enc_exts es) + 2) = Some (length old + 5)"
  using ANTOHS_u16_bytes [of "length old + 5" "ext_start h + 2 + length (enc_exts es) + 2"
      "(enc_pre h @ enc_exts es) @ u16_bytes 0"
      "u16_bytes (length old + 3) @ [0] @ u16_bytes (length old) @ old @ enc_exts fs @ tail"]
    job_sizes(3) [OF job] job_memory(2) [OF job]
  unfolding job_memory(1) [OF job] by (simp add: sni_ext_head_def)

lemma job_no_ech:
  assumes job: "sni_job h es old fs new v nn"
  shows "resize_ech_ext (enc_hello h @ tail) (int (length (enc_hello h))) (ext_start h) inc = Some (enc_hello h @ tail, 0)"
proof -
  have ok: "hello_ok h" and es: "h_exts h = es @ (0, sni_body old) # fs" "\<forall>e \<in> set (es @ fs). fst e \<noteq> 0xfe0d"
    using job by (auto simp: sni_job_def)
  then have "\<forall>x \<in> set (h_exts h). fst x \<noteq> 0xfe0d \<and> fst x < 65536 \<and> length (snd x) < 65536"
    by (auto simp: hello_ok_def)
  then show ?thesis
    using length_enc_pre [OF ok] job_sizes(1,2) [OF job] ext_len_hello [OF ok]
    by (intro no_ech [of _ "enc_pre h" "h_exts h" tail _ "length (enc_exts (h_exts h))"]) (simp_all add: enc_hello_pre)
qed

lemma job_room:
  assumes job: "sni_job h es old fs new v nn"
  shows "sni_make_room (enc_hello h @ tail) (int (length (enc_hello h))) (ext_start h) so (length old + 5) (length new)
      (0 + (int nn - int (length (enc_hello h)))) =
    Some (Inr (enc_hello h @ tail, int (length new) - (int (length old + 5) - 5), int v))"
  by (rule room_untouched [OF job_no_ech [OF job]]) (use job in \<open>auto simp: sni_job_def\<close>)

lemma job_store:
  assumes job: "sni_job h es old fs new v nn" and room: "nn \<le> length (enc_hello h) + length tail"
  shows "\<exists>y. sni_store rnd k new (enc_hello h @ tail) (int (length (enc_hello h))) (ext_start h) (length old + 5)
      (length new) (int (length new) - (int (length old + 5) - 5)) =
    Some (Inr ((enc_pre h @ enc_exts es) @ sni_ext_head (length new) @ new @ enc_exts fs @ y, k)) \<and>
    length new + length y = length old + length tail"
proof -
  let ?a = "enc_pre h @ enc_exts es" and ?n = "int (length (enc_hello h))"
  have n: "?n = int (length ?a + 9 + length old + length (enc_exts fs))" and so: "length ?a = ext_start h + 2 + length (enc_exts es)"
    using job_sizes(1) [OF job] job_memory(2) [OF job] by simp_all
  have rm: "length new \<le> length old + length tail" using job room by (auto simp: sni_job_def)
  have plain: "\<forall>c \<in> set new. c \<notin> {42, 63, 35}" using job by (auto simp: sni_job_def)
  have "find_tls_ext_offset 0 (?a @ sni_ext_head (length old) @ old @ enc_exts fs @ tail) (nat ?n) (ext_start h) =
      Some (ext_start h + 2 + length (enc_exts es))"
    using job_found [OF job, of tail] by (simp only: job_memory(1) [OF job] nat_int)
  then show ?thesis
    using store_name [OF so _ job_sizes(4) [OF job] plain n rm, of "ext_start h" rnd k] unfolding job_memory(1) [OF job]
    by auto
qed

lemma job_renamed:
  assumes job: "sni_job h es old fs new v nn"
  shows "hello_ok (renamed h es new fs v)" "length (enc_hello (renamed h es new fs v)) = nn"
    "enc_head (renamed h es new fs v) = enc_head h" "ext_start (renamed h es new fs v) = ext_start h"
proof -
  note sizes = job_sizes [OF job]
  have j: "h_exts h = es @ (0, sni_body old) # fs" "nn < 65536" "nn + length old = length (enc_hello h) + length new + v"
    using job by (simp_all add: sni_job_def)
  show "enc_head (renamed h es new fs v) = enc_head h" "ext_start (renamed h es new fs v) = ext_start h"
    by (simp_all add: renamed_def enc_head_def ext_start_def)
  show ok': "hello_ok (renamed h es new fs v)"
    using j sizes by (auto simp: hello_ok_def renamed_def sni_body_def enc_pad pad_exts_def)
  show "length (enc_hello (renamed h es new fs v)) = nn"
    using length_enc_hello [OF ok'] j sizes by (simp add: renamed_def ext_start_def sni_body_def enc_pad)
qed

lemma job_finish:
  assumes job: "sni_job h es old fs new v nn" and y: "v \<le> length y"
  defines "m \<equiv> (enc_pre h @ enc_exts es) @ sni_ext_head (length new) @ new @ enc_exts fs @ y"
  shows "sni_finish m (int (length (enc_hello h))) (ext_start h) (int nn - 5) (int v) =
    Some (enc_hello (renamed h es new fs v) @ drop v y)"
proof -
  let ?p = "enc_pre h @ enc_exts (es @ (0, sni_body new) # fs)" and ?L = "length (enc_exts (h_exts h))"
  have ok: "hello_ok h" and es: "h_exts h = es @ (0, sni_body old) # fs" "\<forall>e \<in> set (es @ fs). fst e \<noteq> 0xfe0d"
    and nn: "nn < 65536" "nn + length old = length (enc_hello h) + length new + v" "0 < v \<Longrightarrow> length old \<le> length new"
    using job by (auto simp: sni_job_def)
  note sizes = job_sizes [OF job] and same = job_renamed [OF job]
  have m: "m = ?p @ y" by (simp add: m_def enc_sni_ext)
  have lens: "length (enc_body h) + 4 < 65536" "length (enc_body h) < 65536" "?L < 65536"
    using job sizes(1,2) by (auto simp: sni_job_def enc_hello_def)
  have field: "ANTOHS (?p @ y) (ext_start h) = Some ?L"
    using ANTOHS_u16_bytes [of ?L "ext_start h" "[0x16, 3, 1] @ u16_bytes (length (enc_body h) + 4) @ [1, 0] @
        u16_bytes (length (enc_body h)) @ enc_head h" "enc_exts (es @ (0, sni_body new) # fs) @ y"] ok lens
    by (simp add: enc_pre_def hello_ok_def length_enc_head ext_start_def)
  have types: "\<forall>x \<in> set (es @ (0, sni_body new) # fs). fst x \<noteq> 0xfe0d \<and> fst x < 65536 \<and> length (snd x) < 65536"
    using ok es sizes(4) by (auto simp: hello_ok_def sni_body_def)
  have ech: "resize_ech_ext (?p @ y) (int (length (enc_hello h))) (ext_start h) (int v) = Some (?p @ y, 0)" if "0 < v"
    by (rule no_ech [of _ "enc_pre h" "es @ (0, sni_body new) # fs" y _ ?L])
      (use field types length_enc_pre [OF ok] sizes that nn(3) in \<open>auto simp: sni_body_def\<close>)
  have "int (length ?p) = 5 + (int nn - 5) - int v"
    using length_enc_pre [OF ok] nn sizes(1) by (simp add: sni_body_def)
  from finish_pad [OF sizes(7,5) this y] ech
  have fin: "sni_finish (?p @ y) (int (length (enc_hello h))) (ext_start h) (int nn - 5) (int v) = do {
      b \<leftarrow> SHTONA (?p @ enc_exts (pad_exts v) @ drop v y) 3 (int nn - 5);
      b \<leftarrow> SHTONA b 7 (int nn - 5 - 4);
      SHTONA b (ext_start h) (5 + (int nn - 5) - int (ext_start h) - 2) }" by blast
  have store: "?p @ enc_exts (pad_exts v) @ drop v y = [0x16, 3, 1] @ u16_bytes (length (enc_body h) + 4) @ [1, 0] @
      u16_bytes (length (enc_body h)) @ enc_head (renamed h es new fs v) @ u16_bytes ?L @
      enc_exts (h_exts (renamed h es new fs v)) @ drop v y"
    unfolding same by (simp add: renamed_def enc_pre_def)
  show ?thesis
    unfolding m fin store unfolding same(4) [symmetric]
    by (rule enc_hello_stores [OF same(1) same(2) [symmetric] nn(1) lens])
qed

lemma change_tls_sni_hello:
  assumes job: "sni_job h es old fs new v nn" and room: "nn \<le> length (enc_hello h) + length tail"
  shows "\<exists>y. change_tls_sni (Suc f) rnd k new (enc_hello h @ tail) (int (length (enc_hello h))) (int nn) =
      Some (Some (enc_hello (renamed h es new fs v) @ y, 0, k)) \<and>
    nn + length y = length (enc_hello h) + length tail"
proof -
  let ?N = "length (enc_hello h)" and ?m = "enc_hello h @ tail" and ?so = "ext_start h + 2 + length (enc_exts es)"
  have ok: "hello_ok h" and N: "?N < 65536" and nn: "nn < 65536" "nn + length old = ?N + length new + v"
    using job by (auto simp: sni_job_def)
  note sizes = job_sizes [OF job]
  have r_sz: "u16 (int (?N - 5) + (0 + (int nn - int ?N))) = int nn - 5"
    using enc_hello_split(2) [OF ok] nn(1) sizes(6) by (auto simp: u16_def of_nat_diff)
  have fit: "\<not> (int ?so + 4 + int (length old + 5) > int ?N \<or> length old + 5 < 5)" using sizes(1) by simp
  have sk: "find_ext_block ?m ?N = Some (ext_start h)" using find_ext_block_hello [OF ok] by simp
  obtain y where st: "sni_store rnd k new ?m (int ?N) (ext_start h) (length old + 5) (length new)
        (int (length new) - (int (length old + 5) - 5)) =
      Some (Inr ((enc_pre h @ enc_exts es) @ sni_ext_head (length new) @ new @ enc_exts fs @ y, k))"
    and y: "length new + length y = length old + length tail"
    using job_store [OF job room] by blast
  have vy: "v \<le> length y" using y nn room by simp
  have c: "(ext_start h = 0) = False" "(?so = 0) = False" "nat (int ?N) = ?N" "length new mod 65536 = length new"
    using sizes(4) by (auto simp: ext_start_def)
  have "change_tls_sni (Suc f) rnd k new ?m (int ?N) (int nn) =
      Some (Some (enc_hello (renamed h es new fs v) @ drop v y, 0, k))"
    unfolding change_tls_sni_def
    by (simp only: merge_single [OF ok N] Option.bind.simps option.case prod.case Let_def rec_len_hello [OF ok N] c sk
        job_found [OF job] job_sni_size [OF job] fit if_False job_room [OF job] sum.case st r_sz job_finish [OF job vy])
  moreover have "nn + length (drop v y) = ?N + length tail" using y nn room by simp
  ultimately show ?thesis by blast
qed

section \<open>Properties\<close>

text \<open>
  C1: Renaming in the common case (\<open>sni_job\<close>): a well-formed ClientHello in a single record, with a
  server name extension and without the extension of an encrypted hello, in a packet below \<open>2^16\<close> bytes that ends with it; a new name
  without the wildcards \<open>*\<close>, \<open>?\<close> and \<open>#\<close>; and a size \<open>nn\<close> below \<open>2^16\<close>, inside the object, that is exactly the length of the
  renamed hello (\<open>v = 0\<close>) or \<open>v \<ge> 4\<close> bytes more with a new name not shorter than the old one. Then \<open>change_tls_sni\<close>
  stays inside the buffer, returns 0 and leaves the encoding of the same hello with the new name, followed for
  \<open>v \<ge> 4\<close> by a padding extension of zeros that brings it to exactly \<open>nn\<close> bytes: all the nested lengths are right. (Where the
  room has to be made by shrinking an encrypted hello or by removing other extensions, and where the call
  fails, nothing is claimed.)
\<close>

theorem change_tls_sni_renames:
  assumes "sni_job h es old fs new v nn" "nn \<le> length (enc_hello h) + length tail"
  shows "\<exists>y. change_tls_sni (Suc f) rnd k new (enc_hello h @ tail) (int (length (enc_hello h))) (int nn) =
      Some (Some (enc_hello (renamed h es new fs v) @ y, 0, k)) \<and>
    length (enc_hello (renamed h es new fs v)) = nn \<and> hello_ok (renamed h es new fs v)"
  using change_tls_sni_hello [OF assms] job_renamed [OF assms(1)] by blast

theorem change_tls_sni_renames_witness:
  "\<exists>y. change_tls_sni (Suc 0) (\<lambda>_. 0) 0 (bytes_of ''a.longer.name.org'') (enc_hello sample_hello @ replicate 30 0)
      (int (length (enc_hello sample_hello))) (int (length (enc_hello sample_hello) + 20)) =
      Some (Some (enc_hello (renamed sample_hello [(0x2b, [2, 3, 4])] (bytes_of ''a.longer.name.org'') [(0x10, [0, 2, 1, 104])] 14) @ y, 0, 0)) \<and>
    length (enc_hello (renamed sample_hello [(0x2b, [2, 3, 4])] (bytes_of ''a.longer.name.org'') [(0x10, [0, 2, 1, 104])] 14)) =
      length (enc_hello sample_hello) + 20"
proof -
  have "length (enc_hello sample_hello) < 1000"
    using length_enc_hello [OF sample_hello_ok] by (simp add: sample_hello_def ext_start_def sni_body_def bytes_of_def)
  then have "sni_job sample_hello [(0x2b, [2, 3, 4])] (bytes_of ''example.com'') [(0x10, [0, 2, 1, 104])]
      (bytes_of ''a.longer.name.org'') 14 (length (enc_hello sample_hello) + 20)"
    using sample_hello_ok unfolding sni_job_def by (simp add: sample_hello_def bytes_of_def)
  from change_tls_sni_renames [OF this, of "replicate 30 0" 0 "\<lambda>_. 0" 0] show ?thesis by auto
qed

end
