(* ===== verification/Packets_Http.thy ===== *)
theory Packets_Http
  imports Prelude
begin

unbundle bit_operations_syntax

text \<open>
  The HTTP half of byedpi/packets.c: recognizing a request (\<open>is_http\<close>), finding its
  Host (\<open>parse_http\<close>), rewriting the header (\<open>mod_http\<close>) and deciding whether a
  response redirects to another site (\<open>is_http_redirect\<close>). Pointers into the buffer
  are indices; the outer \<open>None\<close> is an access outside the buffer object.
\<close>

definition MH_HMIX :: nat where "MH_HMIX = 1"
definition MH_SPACE :: nat where "MH_SPACE = 2"
definition MH_DMIX :: nat where "MH_DMIX = 4"

section \<open>Searching\<close>

function strncasestr_from :: "mem \<Rightarrow> nat \<Rightarrow> byte list \<Rightarrow> nat \<Rightarrow> nat option option" where
  "strncasestr_from a as b p =
     (case memchr a p (hd b) (as - p) of
        None \<Rightarrow> None
      | Some None \<Rightarrow> Some None
      | Some (Some q) \<Rightarrow>
          if q + length b > as then Some None
          else do {
            eq \<leftarrow> has_prefix_ci a q b;
            if eq then Some (Some q) else strncasestr_from a as b (q + 1) })"
  by pat_completeness auto
termination
  by (relation "measure (\<lambda>(a, as, b, p). as - p)") (auto dest!: memchr_Some)

declare strncasestr_from.simps [simp del]

definition strncasestr :: "mem \<Rightarrow> nat \<Rightarrow> byte list \<Rightarrow> nat option option" where
  "strncasestr a as b = strncasestr_from a as b 0"

fun any_prefix :: "mem \<Rightarrow> byte list list \<Rightarrow> bool option" where
  "any_prefix m [] = Some False"
| "any_prefix m (l # ls) = do { e \<leftarrow> has_prefix m 0 l; if e then Some True else any_prefix m ls }"

definition http_methods :: "byte list list" where
  "http_methods = map bytes_of
     [''HEAD'', ''GET'', ''POST'', ''PUT'', ''DELETE'', ''OPTIONS'', ''CONNECT'', ''TRACE'', ''PATCH'']"

text \<open>
  The comparisons of the first byte with \<open>'T'\<close> and \<open>'C'\<close> reject every byte above 127
  whether \<open>char\<close> is signed or not, so they are on the unsigned value here.
\<close>

definition is_http :: "mem \<Rightarrow> nat \<Rightarrow> bool option" where
  "is_http buffer bsize =
     (if bsize < 16 then Some False
      else do {
        c \<leftarrow> ld buffer 0;
        if c > 84 \<or> c < 67 then Some False else any_prefix buffer http_methods })"

section \<open>The Host header\<close>

text \<open>\<open>for (; host < buff_end && *host == ' '; host++)\<close>\<close>

fun skip_blanks :: "mem \<Rightarrow> nat \<Rightarrow> nat \<Rightarrow> nat option" where
  "skip_blanks m p 0 = Some p"
| "skip_blanks m p (Suc n) = do { b \<leftarrow> ld m p; if b = 32 then skip_blanks m (p + 1) n else Some p }"

text \<open>\<open>for (; isspace(*(p - 1)); p--)\<close>\<close>

fun back_spaces :: "mem \<Rightarrow> nat \<Rightarrow> nat option" where
  "back_spaces m 0 = None"
| "back_spaces m (Suc k) = do { b \<leftarrow> ld m k; if isspace b then back_spaces m k else Some (Suc k) }"

text \<open>\<open>while (isdigit(*--h))\<close>\<close>

fun back_digits :: "mem \<Rightarrow> nat \<Rightarrow> nat option" where
  "back_digits m 0 = None"
| "back_digits m (Suc k) = do { b \<leftarrow> ld m k; if isdigit b then back_digits m k else Some k }"

definition host_header :: "byte list" where
  "host_header = [10] @ bytes_of ''Host:''"

text \<open>
  The part of \<open>parse_http\<close> after the line is delimited: \<open>host\<close> is its first byte,
  \<open>l_end\<close> its trimmed end. \<open>Inl\<close> is \<open>return 0\<close>; \<open>Inr (h_end, port)\<close> goes on.
\<close>

definition http_port :: "mem \<Rightarrow> nat \<Rightarrow> bool \<Rightarrow> (unit + nat \<times> nat option) option" where
  "http_port buffer l_end want_port = do {
     h_end \<leftarrow> back_digits buffer (l_end - 1);
     c \<leftarrow> ld buffer h_end;
     if c \<noteq> 58 then Some (Inr (l_end, if want_port then Some 80 else None))
     else if want_port then do {
       (i, e) \<leftarrow> strtol10 buffer (h_end + 1);
       if i \<le> 0 \<or> e \<noteq> l_end \<or> i > 0xffff then Some (Inl ())
       else Some (Inr (h_end, Some (nat i))) }
     else Some (Inr (h_end, None)) }"

text \<open>
  The result of \<open>parse_http\<close>: the returned length, the offset stored in \<open>*hs\<close> and
  the value stored in \<open>*port\<close>, when they are stored. \<open>want_port\<close> says that the
  caller passed a non-null \<open>port\<close>. The length can be negative.
\<close>

record http_host =
  hh_len :: int
  hh_pos :: "nat option"
  hh_port :: "nat option"

definition no_host :: http_host where
  "no_host = \<lparr>hh_len = 0, hh_pos = None, hh_port = None\<rparr>"

definition http_host_at :: "mem \<Rightarrow> nat \<Rightarrow> nat \<Rightarrow> bool \<Rightarrow> http_host option" where
  "http_host_at buffer host l_end want_port = do {
     r \<leftarrow> http_port buffer l_end want_port;
     (case r of
        Inl _ \<Rightarrow> Some no_host
      | Inr (h_end, port) \<Rightarrow> do {
          c \<leftarrow> ld buffer host;
          if c = 91
          then do {
            d \<leftarrow> ldz buffer (int h_end - 1);
            if d \<noteq> 93 then Some (no_host\<lparr>hh_port := port\<rparr>)
            else Some \<lparr>hh_len = (int h_end - 1) - (int host + 1), hh_pos = Some (host + 1), hh_port = port\<rparr> }
          else Some \<lparr>hh_len = int h_end - int host, hh_pos = Some host, hh_port = port\<rparr> }) }"

definition parse_http :: "mem \<Rightarrow> nat \<Rightarrow> bool \<Rightarrow> http_host option" where
  "parse_http buffer bsize want_port = do {
     h \<leftarrow> is_http buffer bsize;
     if \<not> h then Some no_host
     else do {
       f \<leftarrow> strncasestr buffer bsize host_header;
       (case f of
          None \<Rightarrow> Some no_host
        | Some q \<Rightarrow> do {
            host \<leftarrow> skip_blanks buffer (q + 6) (bsize - (q + 6));
            l \<leftarrow> memchr buffer host 10 (bsize - host);
            (case l of
               None \<Rightarrow> Some no_host
             | Some l_end \<Rightarrow> do {
                 l_end \<leftarrow> back_spaces buffer l_end;
                 http_host_at buffer host l_end want_port }) }) } }"

section \<open>Responses\<close>

definition get_http_code :: "mem \<Rightarrow> nat \<Rightarrow> int option" where
  "get_http_code b n =
     (if n < 13 then Some 0
      else do {
        v \<leftarrow> has_prefix b 0 (bytes_of ''HTTP/1.'');
        if \<not> v then Some 0
        else do {
          l \<leftarrow> memchr b 12 10 (n - 12);
          if l = None then Some 0
          else do {
            (num, e) \<leftarrow> strtol10 b 9;
            if num < 100 \<or> num > 511 then Some 0
            else do { c \<leftarrow> ld b e; Some (if isspace c then num else 0) } } } })"

definition location_header :: "byte list" where
  "location_header = [10] @ bytes_of ''Location:''"

text \<open>\<open>while (h != host && *(--h - 1) != '.')\<close>\<close>

function back_label :: "mem \<Rightarrow> nat \<Rightarrow> nat \<Rightarrow> nat option" where
  "back_label m host h =
     (if h = host then Some h
      else if h = 0 then None
      else do {
        c \<leftarrow> ldz m (int (h - 1) - 1);
        if c \<noteq> 46 then back_label m host (h - 1) else Some (h - 1) })"
  by pat_completeness auto
termination
  by (relation "measure (\<lambda>(m, host, h). h)") auto

declare back_label.simps [simp del]

text \<open>
  The part after the location's end is known. The casts to \<open>size_t\<close> make a
  negative difference huge.
\<close>

definition to_size :: "int \<Rightarrow> nat" where
  "to_size x = nat (x mod 2 ^ 64)"

definition skip_scheme :: "mem \<Rightarrow> nat \<Rightarrow> nat \<Rightarrow> nat option" where
  "skip_scheme resp location l_end =
     (if to_size (int l_end - int location) > 7
      then do {
        e \<leftarrow> has_prefix resp location (bytes_of ''http://'');
        if e then Some (location + 7)
        else do {
          s \<leftarrow> has_prefix resp location (bytes_of ''https://'');
          Some (if s then location + 8 else location) } }
      else Some location)"

definition other_site :: "mem \<Rightarrow> nat \<Rightarrow> nat \<Rightarrow> mem \<Rightarrow> nat \<Rightarrow> nat \<Rightarrow> bool option" where
  "other_site req host he resp location l_end = do {
     f \<leftarrow> memchr resp location 47 (to_size (int l_end - int location));
     let le = (case f of None \<Rightarrow> l_end | Some q \<Rightarrow> q);
     h1 \<leftarrow> back_label req host he;
     h \<leftarrow> back_label req host h1;
     if to_size (int le - int location) < he - h then Some True
     else if le < he - h then None
     else do { c \<leftarrow> memcmp resp (le - (he - h)) req h (he - h); Some (c \<noteq> 0) } }"

definition is_http_redirect :: "mem \<Rightarrow> nat \<Rightarrow> mem \<Rightarrow> nat \<Rightarrow> bool option" where
  "is_http_redirect req qn resp sn = do {
     r \<leftarrow> parse_http req qn False;
     if hh_len r \<le> 0 \<or> sn < 29 then Some False
     else do {
       code \<leftarrow> get_http_code resp sn;
       if code > 308 \<or> code < 300 then Some False
       else do {
         f \<leftarrow> strncasestr resp sn location_header;
         (case (f, hh_pos r) of
            (Some q, Some host) \<Rightarrow>
              if q + 11 + 8 \<ge> sn then Some False
              else do {
                l \<leftarrow> memchr resp (q + 11) 10 (sn - (q + 11));
                (case l of
                   None \<Rightarrow> Some False
                 | Some l_end \<Rightarrow> do {
                     l_end \<leftarrow> back_spaces resp l_end;
                     location \<leftarrow> skip_scheme resp (q + 11) l_end;
                     other_site req host (host + nat (hh_len r)) resp location l_end }) }
          | _ \<Rightarrow> Some False) } } }"

section \<open>Rewriting a request\<close>

text \<open>\<open>for (par = host - 1; *par != ':'; par--)\<close>\<close>

fun back_colon :: "mem \<Rightarrow> nat \<Rightarrow> nat option" where
  "back_colon m 0 = None"
| "back_colon m (Suc k) = do { b \<leftarrow> ld m k; if b = 58 then Some k else back_colon m k }"

definition map_at :: "(byte \<Rightarrow> byte) \<Rightarrow> mem \<Rightarrow> int \<Rightarrow> mem option" where
  "map_at f m i = do { b \<leftarrow> ldz m i; stz m i (f b) }"

text \<open>\<open>for (i = 0; i < hlen; i += 2) host[i] = toupper(host[i])\<close>\<close>

fun upper_even :: "mem \<Rightarrow> nat \<Rightarrow> nat \<Rightarrow> mem option" where
  "upper_even m p 0 = Some m"
| "upper_even m p (Suc 0) = map_at toupper m (int p)"
| "upper_even m p (Suc (Suc n)) = do { m \<leftarrow> map_at toupper m (int p); upper_even m (p + 2) n }"

text \<open>\<open>for (; !isspace(*(host + hlen)); hlen++)\<close>, from the position \<open>p\<close> of \<open>host + hlen\<close>.\<close>

function find_space :: "mem \<Rightarrow> nat \<Rightarrow> nat option" where
  "find_space m p =
     (if p < length m then (if isspace (m ! p) then Some p else find_space m (p + 1)) else None)"
  by pat_completeness auto
termination
  by (relation "measure (\<lambda>(m, p). length m - p)") auto

declare find_space.simps [simp del]

definition rm_space :: "mem \<Rightarrow> nat \<Rightarrow> int \<Rightarrow> int \<Rightarrow> mem option" where
  "rm_space buffer host hlen par =
     (if int host + hlen < 0 then None
      else do {
        e \<leftarrow> find_space buffer (nat (int host + hlen));
        let hlen = int e - int host;
        let sc = int host - (par + 5);
        if par + 5 < 0 \<or> hlen < 0 \<or> sc < 0 then None
        else do {
          buffer \<leftarrow> memmove buffer (nat (par + 5)) host (nat hlen);
          memset buffer (nat (par + 5 + hlen)) 9 (nat sc) } })"

definition mod_http :: "mem \<Rightarrow> nat \<Rightarrow> nat \<Rightarrow> (mem \<times> int) option" where
  "mod_http buffer bsize m = do {
     r \<leftarrow> parse_http buffer bsize False;
     (case hh_pos r of
        None \<Rightarrow> Some (buffer, - 1)
      | Some host \<Rightarrow>
          if hh_len r = 0 then Some (buffer, - 1)
          else do {
            colon \<leftarrow> back_colon buffer host;
            let par = int colon - 4;
            buffer \<leftarrow>
              (if m AND MH_HMIX \<noteq> 0
               then do {
                 b \<leftarrow> map_at tolower buffer par;
                 b \<leftarrow> map_at toupper b (par + 1);
                 map_at toupper b (par + 3) }
               else Some buffer);
            buffer \<leftarrow> (if m AND MH_DMIX \<noteq> 0 then upper_even buffer host (nat (hh_len r)) else Some buffer);
            buffer \<leftarrow> (if m AND MH_SPACE \<noteq> 0 then rm_space buffer host (hh_len r) par else Some buffer);
            Some (buffer, 0) }) }"

end
