(* ===== verification/Packets_Http_Props.thy ===== *)
theory Packets_Http_Props
  imports Packets_Http Fake_Data
begin

text \<open>
  What the HTTP routines of packets.c do: parsing never leaves the packet, the host and
  port found are those of the request, and the tricks of \<open>mod_http\<close> change what they say and nothing else.
\<close>

section \<open>Memory safety of parsing\<close>

lemma strncasestr_from_inside [mem_safe]:
  "as \<le> length a \<Longrightarrow> p \<le> as \<Longrightarrow> b \<noteq> [] \<Longrightarrow>
     \<exists>r. strncasestr_from a as b p = Some r \<and>
       (case r of None \<Rightarrow> True
        | Some q \<Rightarrow> p \<le> q \<and> q + length b \<le> as \<and> map tolower (take (length b) (drop q a)) = map tolower b)"
proof (induction a as b p rule: strncasestr_from.induct)
  case (1 a as b p)
  show ?case
  proof (cases "memchr a p (hd b) (as - p)")
    case None
    then show ?thesis using memchr_inside [of p "as - p" a "hd b"] "1.prems" by auto
  next
    case (Some r)
    show ?thesis
    proof (cases r)
      case None
      with Some show ?thesis by (subst strncasestr_from.simps) simp
    next
      case (Some q)
      note r = \<open>memchr a p (hd b) (as - p) = Some r\<close> [unfolded Some]
      from memchr_Some [OF r] "1.prems" have q: "p \<le> q" "q < as" by auto
      show ?thesis
      proof (cases "q + length b > as")
        case True
        with r show ?thesis by (subst strncasestr_from.simps) simp
      next
        case False
        then have e: "has_prefix_ci a q b = Some (map tolower (take (length b) (drop q a)) = map tolower b)"
          using "1.prems" by (intro has_prefix_ci_inside) simp
        show ?thesis
        proof (cases "map tolower (take (length b) (drop q a)) = map tolower b")
          case True
          with r e False q show ?thesis by (subst strncasestr_from.simps) simp
        next
          case no: False
          with "1.IH" [OF r refl False e no] q "1.prems"
          have "\<exists>r. strncasestr_from a as b (q + 1) = Some r \<and>
             (case r of None \<Rightarrow> True
              | Some q' \<Rightarrow> q + 1 \<le> q' \<and> q' + length b \<le> as \<and> map tolower (take (length b) (drop q' a)) = map tolower b)"
            by auto
          with r e no False q show ?thesis
            by (subst strncasestr_from.simps) (auto split: option.splits)
        qed
      qed
    qed
  qed
qed

lemma any_prefix_inside [mem_safe]:
  "\<forall>l \<in> set ls. length l \<le> length m \<Longrightarrow> any_prefix m ls = Some (\<exists>l \<in> set ls. take (length l) m = l)"
  by (induction ls) (auto simp: has_prefix_inside)

lemma http_methods_short: "\<forall>l \<in> set http_methods. length l \<le> 7"
  by (simp add: http_methods_def bytes_of_def)

lemma is_http_inside [mem_safe]:
  "bsize \<le> length m \<Longrightarrow> is_http m bsize =
     Some (16 \<le> bsize \<and> 67 \<le> m ! 0 \<and> m ! 0 \<le> 84 \<and> (\<exists>l \<in> set http_methods. take (length l) m = l))"
proof -
  assume b: "bsize \<le> length m"
  have "any_prefix m http_methods = Some (\<exists>l \<in> set http_methods. take (length l) m = l)" if "16 \<le> bsize"
    using that b http_methods_short by (intro any_prefix_inside) force
  with b show ?thesis by (auto simp: is_http_def ld_def not_less)
qed

lemma skip_blanks_inside [mem_safe]:
  "p + n \<le> length m \<Longrightarrow> \<exists>q. skip_blanks m p n = Some q \<and> p \<le> q \<and> q \<le> p + n"
proof (induction n arbitrary: p)
  case (Suc n)
  then show ?case using Suc.IH [of "p + 1"] by (auto simp: ld_def)
qed simp

lemma back_spaces_inside [mem_safe]:
  "l < length m \<Longrightarrow> k < l \<Longrightarrow> \<not> isspace (m ! k) \<Longrightarrow> isspace (m ! l) \<Longrightarrow>
     \<exists>e. back_spaces m l = Some e \<and> k < e \<and> e \<le> l \<and> \<not> isspace (m ! (e - 1)) \<and> isspace (m ! e)"
proof (induction l)
  case (Suc l)
  show ?case
  proof (cases "isspace (m ! l)")
    case True
    with Suc.prems have "k < l" by (metis less_Suc_eq)
    with Suc True show ?thesis by (auto simp: ld_def)
  next
    case False
    with Suc.prems show ?thesis by (auto simp: ld_def)
  qed
qed simp

lemma back_digits_inside [mem_safe]:
  "l \<le> length m \<Longrightarrow> k < l \<Longrightarrow> \<not> isdigit (m ! k) \<Longrightarrow>
     \<exists>e. back_digits m l = Some e \<and> k \<le> e \<and> e < l \<and> \<not> isdigit (m ! e)"
proof (induction l)
  case (Suc l)
  then show ?case by (cases "k = l") (auto simp: ld_def less_Suc_eq)
qed simp

lemma space_no_digit: "isspace c \<Longrightarrow> \<not> isdigit c"
  unfolding isspace_def isdigit_def word_le_nat_alt word_unat_eq_iff by auto

lemma strtol10_inside [mem_safe]:
  assumes "s < e" "e < length m" "\<not> isspace (m ! (e - 1))" "isspace (m ! e)"
  shows "\<exists>v q. strtol10 m s = Some (v, q) \<and> s \<le> q \<and> q \<le> e"
proof -
  have "s \<le> e - 1" "e - 1 < length m" using assms(1,2) by auto
  from skip_spaces_stop [OF this assms(3)] obtain p where p: "skip_spaces m s = Some p" "s \<le> p" "p \<le> e - 1" by blast
  have nd: "\<not> isdigit (m ! e)" using assms(4) by (rule space_no_digit)
  let ?q = "if m ! p = 43 \<or> m ! p = 45 then p + 1 else p"
  have "?q \<le> e" "s \<le> ?q" using p assms(1) by auto
  with read_digits_stop [of ?q e m 0] assms(2) nd obtain v q where "read_digits m ?q 0 = Some (v, q)" "?q \<le> q" "q \<le> e"
    by blast
  with p assms \<open>s \<le> ?q\<close> show ?thesis by (auto simp: strtol10_def ld_def Let_def)
qed

lemma http_port_inside [mem_safe]:
  assumes "e < length m" "isspace (m ! e)" "\<not> isspace (m ! (e - 1))" "k + 1 < e" "\<not> isdigit (m ! k)"
  shows "\<exists>r. http_port m e w = Some r \<and> (case r of Inl _ \<Rightarrow> True | Inr (h, port) \<Rightarrow> k \<le> h \<and> h \<le> e)"
proof -
  have "e - 1 \<le> length m" "k < e - 1" using assms(1,4) by auto
  from back_digits_inside [OF this assms(5)] obtain h where h: "back_digits m (e - 1) = Some h" "k \<le> h" "h < e - 1"
    by blast
  obtain v q where v: "strtol10 m (h + 1) = Some (v, q)"
  proof -
    have "h + 1 < e" using h(3) by linarith
    from strtol10_inside [OF this assms(1,3,2)] that show thesis by blast
  qed
  show ?thesis using h v assms(1) by (auto simp: http_port_def ld_def)
qed

lemma http_host_at_inside [mem_safe]:
  assumes "e < length m" "isspace (m ! e)" "\<not> isspace (m ! (e - 1))" "k + 1 < e" "\<not> isdigit (m ! k)" "1 \<le> k"
    and "host < bsize" "e \<le> bsize" "bsize \<le> length m"
  shows "\<exists>r. http_host_at m host e w = Some r \<and>
    (case hh_pos r of None \<Rightarrow> hh_len r = 0 | Some p \<Rightarrow> p \<le> bsize \<and> int p + hh_len r \<le> int bsize)"
proof -
  obtain r where r: "http_port m e w = Some r" "case r of Inl _ \<Rightarrow> True | Inr (h, port) \<Rightarrow> k \<le> h \<and> h \<le> e"
    using http_port_inside [OF assms(1-5)] by blast
  show ?thesis
  proof (cases r)
    case (Inl u)
    with r show ?thesis by (simp add: http_host_at_def no_host_def)
  next
    case (Inr hp)
    obtain h port where hp: "hp = (h, port)" by (cases hp)
    with r Inr have h: "k \<le> h" "h \<le> e" by auto
    have d: "ldz m (int h - 1) = Some (m ! (h - 1))"
      using h assms by (simp add: ldz_def ld_def nat_diff_distrib)
    show ?thesis using r Inr hp h d assms by (simp add: http_host_at_def ld_def no_host_def)
  qed
qed

lemma parse_http_inside [mem_safe]:
  assumes b: "bsize \<le> length m"
  shows "\<exists>r. parse_http m bsize w = Some r \<and>
    (case hh_pos r of None \<Rightarrow> hh_len r = 0 | Some p \<Rightarrow> p \<le> bsize \<and> int p + hh_len r \<le> int bsize)"
proof (cases "is_http m bsize = Some True")
  case False
  with is_http_inside [OF b] show ?thesis by (auto simp: parse_http_def no_host_def)
next
  case http: True
  obtain f where f: "strncasestr m bsize host_header = Some f" and fs: "\<And>q. f = Some q \<Longrightarrow> q + 6 \<le> bsize \<and>
      map tolower (take 6 (drop q m)) = map tolower host_header"
    using strncasestr_from_inside [OF b, of 0 host_header]
    by (auto simp: strncasestr_def host_header_def bytes_of_def eval_nat_numeral split: option.splits)
  show ?thesis
  proof (cases f)
    case None
    with http f show ?thesis by (auto simp: parse_http_def no_host_def)
  next
    case (Some q)
    have q: "q + 6 \<le> bsize" using fs [OF Some] by simp
    have "map tolower (take 6 (drop q m)) = map tolower host_header" using fs [OF Some] by simp
    then have "tolower (m ! (q + 4)) = tolower 116" "tolower (m ! (q + 5)) = tolower 58"
      using q b by (auto simp: host_header_def bytes_of_def list_eq_iff_nth_eq nth_Cons' dest!: spec [of _ 4] spec [of _ 5])
    then have colon: "\<not> isspace (m ! (q + 5))" and tee: "\<not> isdigit (m ! (q + 4))"
      by (auto simp: tolower_def isspace_def isdigit_def split: if_splits)
    obtain host where host: "skip_blanks m (q + 6) (bsize - (q + 6)) = Some host" "q + 6 \<le> host" "host \<le> bsize"
      using skip_blanks_inside [of "q + 6" "bsize - (q + 6)" m] q b by auto
    show ?thesis
    proof (cases "memchr m host 10 (bsize - host)")
      case None
      then show ?thesis using memchr_inside [of host "bsize - host" m 10] host b by auto
    next
      case l: (Some r)
      show ?thesis
      proof (cases r)
        case None
        with http f Some host l show ?thesis by (auto simp: parse_http_def no_host_def)
      next
        case lend: (Some le)
        have le: "host \<le> le" "le < bsize" "m ! le = 10" using memchr_Some [OF l [unfolded lend]] host by auto
        obtain e where e: "back_spaces m le = Some e" "q + 5 < e" "e \<le> le" "\<not> isspace (m ! (e - 1))" "isspace (m ! e)"
          using back_spaces_inside [of le m "q + 5"] le host b colon by (auto simp: isspace_def)
        have "\<exists>r. http_host_at m host e w = Some r \<and>
            (case hh_pos r of None \<Rightarrow> hh_len r = 0 | Some p \<Rightarrow> p \<le> bsize \<and> int p + hh_len r \<le> int bsize)"
          by (rule http_host_at_inside [where k = "q + 4"]) (use e le b tee in auto)
        with http f Some host l lend e(1) show ?thesis by (simp add: parse_http_def)
      qed
    qed
  qed
qed

section \<open>Parsing a request\<close>

definition ci_match :: "mem \<Rightarrow> nat \<Rightarrow> byte list \<Rightarrow> bool" where
  "ci_match m q b \<longleftrightarrow> map tolower (take (length b) (drop q m)) = map tolower b"

lemma memchr_first:
  assumes "p \<le> q" "q < p + n" "p + n \<le> length m" "m ! q = c" "\<forall>j. p \<le> j \<and> j < q \<longrightarrow> m ! j \<noteq> c"
  shows "memchr m p c n = Some (Some q)"
proof -
  from memchr_inside [OF assms(3), of c] assms obtain q' where
    "memchr m p c n = Some (Some q')" "p \<le> q'" "m ! q' = c" "\<forall>j. p \<le> j \<and> j < q' \<longrightarrow> m ! j \<noteq> c" by auto
  moreover from this assms have "q' = q" by (metis linorder_neqE_nat)
  ultimately show ?thesis by simp
qed

lemma strncasestr_from_first:
  "as \<le> length a \<Longrightarrow> p \<le> q0 \<Longrightarrow> q0 + length b \<le> as \<Longrightarrow> b \<noteq> [] \<Longrightarrow> a ! q0 = hd b \<Longrightarrow> ci_match a q0 b \<Longrightarrow>
     \<forall>q. p \<le> q \<and> q < q0 \<longrightarrow> \<not> ci_match a q b \<Longrightarrow> strncasestr_from a as b p = Some (Some q0)"
proof (induction a as b p rule: strncasestr_from.induct)
  case (1 a as b p)
  have "0 < length b" using "1.prems" by simp
  then have "q0 < as" using "1.prems"(3) by linarith
  then have "q0 < p + (as - p)" "p + (as - p) \<le> length a" using "1.prems"(1,2) by auto
  with memchr_inside [of p "as - p" a "hd b"] "1.prems" obtain q where
    q: "memchr a p (hd b) (as - p) = Some (Some q)" "p \<le> q" "\<forall>j. p \<le> j \<and> j < q \<longrightarrow> a ! j \<noteq> hd b" by auto
  have qq: "q \<le> q0" using q(3) "1.prems"(2,5) by (metis not_less)
  then have fit: "\<not> q + length b > as" using "1.prems" by simp
  have e: "has_prefix_ci a q b = Some (ci_match a q b)"
    unfolding ci_match_def using fit "1.prems" by (intro has_prefix_ci_inside) simp
  show ?case
  proof (cases "q = q0")
    case True
    with q e fit "1.prems" show ?thesis by (subst strncasestr_from.simps) simp
  next
    case False
    then have "\<not> ci_match a q b" using qq q(2) "1.prems"(7) by simp
    moreover have "strncasestr_from a as b (q + 1) = Some (Some q0)"
      using "1.IH" [OF q(1) refl fit e \<open>\<not> ci_match a q b\<close>] "1.prems" False qq q(2) by auto
    ultimately show ?thesis using q e fit by (subst strncasestr_from.simps) simp
  qed
qed

lemma skip_blanks_run:
  "\<forall>j < k. m ! (p + j) = 32 \<Longrightarrow> m ! (p + k) \<noteq> 32 \<Longrightarrow> p + k < length m \<Longrightarrow> k < n \<Longrightarrow> skip_blanks m p n = Some (p + k)"
proof (induction n arbitrary: p k)
  case (Suc n)
  show ?case
  proof (cases k)
    case 0
    with Suc.prems show ?thesis by (simp add: ld_def)
  next
    case (Suc k')
    have "m ! p = 32" using Suc.prems(1) Suc by force
    moreover have "skip_blanks m (p + 1) n = Some (p + 1 + k')"
    proof (rule Suc.IH)
      show "\<forall>j < k'. m ! (p + 1 + j) = 32"
      proof (intro allI impI)
        fix j assume "j < k'"
        then have "m ! (p + Suc j) = 32" using Suc.prems(1) Suc by blast
        then show "m ! (p + 1 + j) = 32" by simp
      qed
    qed (use Suc.prems Suc in auto)
    ultimately show ?thesis using Suc Suc.prems by (simp add: ld_def)
  qed
qed simp

lemma back_digits_run:
  assumes "l \<le> length m" "k < l" "\<not> isdigit (m ! k)" "\<forall>j. k < j \<and> j < l \<longrightarrow> isdigit (m ! j)"
  shows "back_digits m l = Some k"
  using back_digits_inside [OF assms(1-3)] assms(4) by (metis le_neq_implies_less)

fun dec_value :: "nat \<Rightarrow> byte list \<Rightarrow> nat" where
  "dec_value acc [] = acc"
| "dec_value acc (d # ds) = dec_value (acc * 10 + (unat d - 48)) ds"

lemma read_digits_run:
  "\<forall>d \<in> set ds. isdigit d \<Longrightarrow> \<not> isdigit c \<Longrightarrow> p = length a \<Longrightarrow>
     read_digits (a @ ds @ c # r) p acc = Some (dec_value acc ds, p + length ds)"
proof (induction ds arbitrary: a p acc)
  case Nil
  then show ?case by (subst read_digits.simps) (simp add: nth_append)
next
  case (Cons d ds)
  then have "read_digits ((a @ [d]) @ ds @ c # r) (p + 1) (acc * 10 + (unat d - 48)) =
      Some (dec_value (acc * 10 + (unat d - 48)) ds, p + 1 + length ds)" by (intro Cons.IH) auto
  with Cons.prems show ?case by (subst read_digits.simps) (simp add: nth_append)
qed

lemma strtol10_run:
  assumes ds: "\<forall>d \<in> set ds. isdigit d" "ds \<noteq> []" and c: "\<not> isdigit c" and small: "dec_value 0 ds < 65536"
  shows "strtol10 (a @ ds @ c # r) (length a) = Some (int (dec_value 0 ds), length a + length ds)"
proof -
  obtain d ds' where d: "ds = d # ds'" "isdigit d" using ds by (cases ds) auto
  have "\<not> isspace d" using d(2) space_no_digit by blast
  then have sk: "skip_spaces (a @ ds @ c # r) (length a) = Some (length a)"
    using d by (subst skip_spaces.simps) (simp add: nth_append)
  have "d \<noteq> 43" "d \<noteq> 45" using d(2) by (auto simp: isdigit_def)
  then show ?thesis
    using d(1) small read_digits_run [OF ds(1) c refl, of a r 0] sk
    by (simp add: strtol10_def ld_def nth_append clamp_long_def)
qed

text \<open>
  A request: what comes before the header, the header's name in any case, blanks, the host,
  and the port if there is one.
\<close>

definition port_part :: "byte list option \<Rightarrow> mem" where
  "port_part pt = (case pt of None \<Rightarrow> [] | Some ds \<Rightarrow> 58 # ds)"

definition http_request :: "mem \<Rightarrow> mem \<Rightarrow> nat \<Rightarrow> mem \<Rightarrow> byte list option \<Rightarrow> mem \<Rightarrow> mem" where
  "http_request pre hdr k name pt rest = pre @ [10] @ hdr @ replicate k 32 @ name @ port_part pt @ [13, 10] @ rest"

definition port_ok :: "byte list option \<Rightarrow> bool" where
  "port_ok pt \<longleftrightarrow> (case pt of None \<Rightarrow> True
     | Some ds \<Rightarrow> (\<forall>d \<in> set ds. isdigit d) \<and> ds \<noteq> [] \<and> 0 < dec_value 0 ds \<and> dec_value 0 ds < 65536)"

definition request_ok :: "mem \<Rightarrow> mem \<Rightarrow> nat \<Rightarrow> mem \<Rightarrow> byte list option \<Rightarrow> mem \<Rightarrow> bool" where
  "request_ok pre hdr k name pt rest \<longleftrightarrow>
     (\<exists>l \<in> set http_methods. take (length l) pre = l) \<and> map tolower hdr = map tolower (bytes_of ''Host:'') \<and>
     (\<forall>q < length pre. \<not> ci_match (http_request pre hdr k name pt rest) q host_header) \<and>
     1 \<le> k \<and> name \<noteq> [] \<and> hd name \<noteq> 91 \<and> (\<forall>c \<in> set name. c \<noteq> 58 \<and> \<not> isspace c) \<and> port_ok pt"

definition host_at :: "mem \<Rightarrow> nat \<Rightarrow> nat" where
  "host_at pre k = length pre + 6 + k"

definition line_end :: "mem \<Rightarrow> nat \<Rightarrow> mem \<Rightarrow> byte list option \<Rightarrow> nat" where
  "line_end pre k name pt = host_at pre k + length name + length (port_part pt)"

lemma length_bytes_of [simp]: "length (bytes_of s) = length s"
  by (simp add: bytes_of_def)

lemma request_hdr: "request_ok pre hdr k name pt rest \<Longrightarrow> length hdr = 5"
  by (auto simp: request_ok_def dest!: map_eq_imp_length_eq)

lemma request_no_space: "request_ok pre hdr k name pt rest \<Longrightarrow> c \<in> set name \<union> set (port_part pt) \<Longrightarrow> \<not> isspace c"
  using space_no_digit by (auto simp: request_ok_def port_ok_def port_part_def isspace_def split: option.splits)

text \<open>Where the parts are in memory.\<close>

lemma request_nth:
  assumes ok: "request_ok pre hdr k name pt rest"
  defines "m \<equiv> http_request pre hdr k name pt rest"
  shows "m ! length pre = 10" "j < k \<Longrightarrow> m ! (length pre + 6 + j) = 32"
    "j < length name + length (port_part pt) \<Longrightarrow> m ! (host_at pre k + j) = (name @ port_part pt) ! j"
    "m ! line_end pre k name pt = 13" "m ! (line_end pre k name pt + 1) = 10"
    "line_end pre k name pt + 2 \<le> length m"
proof -
  have h: "length hdr = 5" using request_hdr [OF ok] .
  let ?a = "pre @ [10] @ hdr @ replicate k 32" and ?np = "name @ port_part pt"
  have la: "length ?a = host_at pre k" using h by (simp add: host_at_def)
  have m: "m = ?a @ ?np @ [13, 10] @ rest" by (simp add: m_def http_request_def)
  have le: "line_end pre k name pt = length (?a @ ?np)" using la by (simp add: line_end_def)
  show "m ! length pre = 10" by (simp add: m nth_append)
  show "m ! (length pre + 6 + j) = 32" if "j < k" using h that by (simp add: m nth_append)
  show "m ! (host_at pre k + j) = ?np ! j" if "j < length name + length (port_part pt)"
    using that unfolding m la [symmetric] by (metis nth_append_length_plus length_append nth_append)
  show "m ! line_end pre k name pt = 13" unfolding m le by (metis append.assoc append_Cons nth_append_length)
  have "m = ((?a @ ?np) @ [13]) @ 10 # rest" by (simp add: m)
  moreover have "line_end pre k name pt + 1 = length ((?a @ ?np) @ [13])" by (simp add: le)
  ultimately show "m ! (line_end pre k name pt + 1) = 10" by (simp only: nth_append_length)
  show "line_end pre k name pt + 2 \<le> length m" unfolding m le by simp
qed

lemma request_line:
  fixes pre hdr name rest :: mem and k :: nat and pt :: "byte list option"
  defines "m \<equiv> http_request pre hdr k name pt rest"
  assumes ok: "request_ok pre hdr k name pt rest" and n: "line_end pre k name pt + 2 \<le> n" "n \<le> length m"
  shows "skip_blanks m (length pre + 6) (n - (length pre + 6)) = Some (host_at pre k)"
    and "memchr m (host_at pre k) 10 (n - host_at pre k) = Some (Some (line_end pre k name pt + 1))"
    and "back_spaces m (line_end pre k name pt + 1) = Some (line_end pre k name pt)"
proof -
  note nth = request_nth [OF ok, folded m_def]
  let ?h = "host_at pre k" and ?e = "line_end pre k name pt" and ?np = "name @ port_part pt"
  have len: "?e = ?h + length ?np" "name \<noteq> []" using ok by (simp_all add: line_end_def request_ok_def)
  then have pos: "0 < length ?np" by simp
  have mem: "m ! (?h + j) = ?np ! j" "\<not> isspace (m ! (?h + j))" if "j < length ?np" for j
  proof -
    show "m ! (?h + j) = ?np ! j" using nth(3) that by simp
    then show "\<not> isspace (m ! (?h + j))" using request_no_space [OF ok, of "?np ! j"] that
      by (metis nth_mem set_append)
  qed
  have "m ! (length pre + 6 + k) \<noteq> 32" using mem(2) [of 0] pos by (auto simp: host_at_def isspace_def)
  then show "skip_blanks m (length pre + 6) (n - (length pre + 6)) = Some ?h"
    using nth(2) n len unfolding host_at_def by (intro skip_blanks_run) (auto simp: host_at_def)
  have noLF: "m ! j \<noteq> 10" if "?h \<le> j" "j < ?e + 1" for j
  proof (cases "j = ?e")
    case True
    then show ?thesis using nth(4) by simp
  next
    case False
    then have "j = ?h + (j - ?h)" "j - ?h < length ?np" using that len by auto
    then show ?thesis using mem(2) [of "j - ?h"] by (auto simp: isspace_def)
  qed
  show "memchr m ?h 10 (n - ?h) = Some (Some (?e + 1))"
    using nth(5) n len noLF by (intro memchr_first) auto
  have "?e - 1 = ?h + (length ?np - 1)" using pos len by linarith
  then have last: "\<not> isspace (m ! (?e - 1))" "?e \<noteq> 0" using mem(2) [of "length ?np - 1"] pos len by simp_all
  then obtain e' where e': "?e = Suc e'" by (cases ?e) auto
  have "isspace (m ! ?e)" using nth(4) by (simp add: isspace_def)
  then show "back_spaces m (?e + 1) = Some ?e"
    using last n nth(6) e' by (simp add: ld_def)
qed

lemma request_port:
  assumes ok: "request_ok pre hdr k name pt rest"
  defines "m \<equiv> http_request pre hdr k name pt rest"
  shows "http_port m (line_end pre k name pt) w = Some (Inr (host_at pre k + length name,
    if w then Some (case pt of None \<Rightarrow> 80 | Some ds \<Rightarrow> dec_value 0 ds) else None))"
proof -
  note nth = request_nth [OF ok, folded m_def]
  let ?h = "host_at pre k" and ?e = "line_end pre k name pt"
  have name: "name \<noteq> []" "\<forall>c \<in> set name. c \<noteq> 58" "1 \<le> k" "port_ok pt" using ok by (auto simp: request_ok_def)
  have blank: "m ! (?h - 1) = 32" "?h - 1 < ?h" using nth(2) [of "k - 1"] name(3) by (simp_all add: host_at_def)
  show ?thesis
  proof (cases pt)
    case None
    then have e: "?e = ?h + length name" by (simp add: line_end_def port_part_def)
    have "0 < length name" using name(1) by simp
    then have "?e - 1 \<le> length m" "?h - 1 < ?e - 1" "\<not> isdigit (m ! (?h - 1))"
      using nth(6) e blank by (linarith, linarith, simp add: isdigit_def)
    from back_digits_inside [OF this] obtain q where q: "back_digits m (?e - 1) = Some q" "?h - 1 \<le> q" "q < ?e - 1" by blast
    have "m ! q \<noteq> 58"
    proof (cases "q < ?h")
      case True
      then have "q = ?h - 1" using q(2) by linarith
      then show ?thesis using blank by simp
    next
      case False
      then have "m ! q = name ! (q - ?h)" "q - ?h < length name"
        using nth(3) [of "q - ?h"] q(3) e None by (auto simp: port_part_def)
      then show ?thesis using name(2) by (metis nth_mem)
    qed
    with q nth(6) e None show ?thesis by (simp add: http_port_def ld_def)
  next
    case (Some ds)
    then have e: "?e = ?h + length name + 1 + length ds" by (simp add: line_end_def port_part_def)
    have ds: "\<forall>d \<in> set ds. isdigit d" "ds \<noteq> []" "0 < dec_value 0 ds" "dec_value 0 ds < 65536"
      using name(4) Some by (auto simp: port_ok_def)
    let ?c = "?h + length name"
    have colon: "m ! ?c = 58" using nth(3) [of "length name"] Some by (simp add: port_part_def)
    have dig: "isdigit (m ! j)" if "?c < j" "j < ?e - 1" for j
    proof -
      have "m ! (?h + (j - ?h)) = (name @ port_part pt) ! (j - ?h)" "j - ?c - 1 < length ds"
        using nth(3) [of "j - ?h"] that e Some by (auto simp: port_part_def)
      moreover have "(name @ port_part pt) ! (j - ?h) = ds ! (j - ?c - 1)"
      proof -
        have "\<not> j - ?h < length name" "j - ?h - length name = Suc (j - ?c - 1)" using that by linarith+
        then show ?thesis using Some by (simp add: port_part_def nth_append)
      qed
      ultimately show ?thesis using ds(1) that by simp
    qed
    have bd: "back_digits m (?e - 1) = Some ?c"
      using nth(6) e ds(2) colon dig by (intro back_digits_run) (auto simp: isdigit_def Suc_le_eq)
    have cr: "\<not> isdigit 13" by (simp add: isdigit_def)
    have "length (pre @ [10] @ hdr @ replicate k 32 @ name @ [58]) = ?c + 1"
      using request_hdr [OF ok] by (simp add: host_at_def)
    moreover have "m = (pre @ [10] @ hdr @ replicate k 32 @ name @ [58]) @ ds @ 13 # 10 # rest"
      by (simp add: m_def http_request_def Some port_part_def)
    ultimately have "strtol10 m (?c + 1) = Some (int (dec_value 0 ds), ?c + 1 + length ds)"
      using strtol10_run [OF ds(1,2) cr ds(4), of "pre @ [10] @ hdr @ replicate k 32 @ name @ [58]" "10 # rest"] by (simp only:)
    with bd colon e nth(6) ds Some show ?thesis by (simp add: http_port_def ld_def)
  qed
qed

lemma request_is_http:
  assumes ok: "request_ok pre hdr k name pt rest" and n: "16 \<le> n" "n \<le> length (http_request pre hdr k name pt rest)"
  shows "is_http (http_request pre hdr k name pt rest) n = Some True"
proof -
  let ?m = "http_request pre hdr k name pt rest"
  obtain l where l: "l \<in> set http_methods" "take (length l) pre = l" using ok by (auto simp: request_ok_def)
  then have "length l \<le> length pre" by (metis length_take min.cobounded1)
  then have pm: "take (length l) ?m = l" using l by (simp add: http_request_def)
  have ne: "l \<noteq> []" "67 \<le> l ! 0 \<and> l ! 0 \<le> 84" using l(1) by (auto simp: http_methods_def bytes_of_def)
  have "?m ! 0 = l ! 0" using pm ne(1) by (metis length_greater_0_conv nth_take)
  with l pm ne n show ?thesis by (auto simp: is_http_inside)
qed

lemma request_host_header:
  assumes ok: "request_ok pre hdr k name pt rest" and n: "line_end pre k name pt + 2 \<le> n" "n \<le> length (http_request pre hdr k name pt rest)"
  shows "strncasestr (http_request pre hdr k name pt rest) n host_header = Some (Some (length pre))"
proof -
  let ?m = "http_request pre hdr k name pt rest"
  have hl: "length host_header = 6" "host_header \<noteq> []" "hd host_header = 10" by (simp_all add: host_header_def)
  have "take 6 (drop (length pre) ?m) = 10 # hdr" using request_hdr [OF ok] by (simp add: http_request_def eval_nat_numeral)
  then have "ci_match ?m (length pre) host_header"
    using ok by (simp add: ci_match_def hl request_ok_def) (simp add: host_header_def)
  then show ?thesis
    using ok n hl request_nth(1) [OF ok] unfolding strncasestr_def
    by (intro strncasestr_from_first) (auto simp: request_ok_def line_end_def host_at_def)
qed

lemma parse_http_request:
  assumes ok: "request_ok pre hdr k name pt rest" and n: "16 \<le> n" "line_end pre k name pt + 2 \<le> n"
    "n \<le> length (http_request pre hdr k name pt rest)"
  shows "parse_http (http_request pre hdr k name pt rest) n w =
    Some \<lparr>hh_len = int (length name), hh_pos = Some (host_at pre k),
      hh_port = (if w then Some (case pt of None \<Rightarrow> 80 | Some ds \<Rightarrow> dec_value 0 ds) else None)\<rparr>"
proof -
  let ?m = "http_request pre hdr k name pt rest"
  note nth = request_nth [OF ok]
  have name: "name \<noteq> []" "hd name \<noteq> 91" using ok by (auto simp: request_ok_def)
  have first: "?m ! host_at pre k = hd name" "host_at pre k < length ?m"
    using nth(3) [of 0] nth(6) name(1) by (auto simp: nth_append hd_conv_nth line_end_def)
  have "http_host_at ?m (host_at pre k) (line_end pre k name pt) w =
    Some \<lparr>hh_len = int (length name), hh_pos = Some (host_at pre k),
      hh_port = (if w then Some (case pt of None \<Rightarrow> 80 | Some ds \<Rightarrow> dec_value 0 ds) else None)\<rparr>"
    using first name(2) by (simp add: http_host_at_def request_port [OF ok] ld_def)
  then show ?thesis
    unfolding parse_http_def using request_is_http [OF ok n(1,3)] request_host_header [OF ok n(2,3)] request_line [OF ok n(2,3)]
    by (simp add: add.commute)
qed

section \<open>Rewriting a request\<close>

lemma tolower_toupper [simp]: "tolower (toupper c) = tolower c"
proof (cases "97 \<le> c \<and> c \<le> 122")
  case True
  then have "97 \<le> unat c" "unat c \<le> 122" by (simp_all add: word_le_nat_alt)
  then have "unat (c - 32) = unat c - 32" by (subst unat_sub) (simp_all add: word_le_nat_alt)
  with True show ?thesis by (auto simp: tolower_def toupper_def word_le_nat_alt)
qed (auto simp: toupper_def)

lemma tolower_idem [simp]: "tolower (tolower c) = tolower c"
proof (cases "65 \<le> c \<and> c \<le> 90")
  case True
  then have "65 \<le> unat c" "unat c \<le> 90" by (simp_all add: word_le_nat_alt)
  then have "unat (c + 32) = unat c + 32" by (subst unat_add_lem [THEN iffD1]) simp_all
  with True show ?thesis by (auto simp: tolower_def word_le_nat_alt)
qed (simp add: tolower_def)

text \<open>Letters aside, bytes that are equal without regard to case are equal.\<close>

lemma tolower_same:
  assumes "tolower c = tolower d" and "d < 65 \<or> d = 91"
  shows "c = d"
proof (cases "65 \<le> c \<and> c \<le> 90")
  case True
  then have u: "65 \<le> unat c" "unat c \<le> 90" by (simp_all add: word_le_nat_alt)
  then have "unat (c + 32) = unat c + 32" by (subst unat_add_lem [THEN iffD1]) simp_all
  moreover have "tolower d = d" using assms(2) by (auto simp: tolower_def word_less_nat_alt word_le_nat_alt)
  ultimately have "unat d = unat c + 32" using assms(1) True by (simp add: tolower_def)
  with u assms(2) show ?thesis by (auto simp: word_less_nat_alt)
next
  case False
  then show ?thesis using assms by (auto simp: tolower_def word_less_nat_alt word_le_nat_alt)
qed

lemma tolower_colon: "tolower c = 58 \<Longrightarrow> c = 58"
proof (rule ccontr)
  assume c: "tolower c = 58" "c \<noteq> 58"
  then have u: "65 \<le> c \<and> c \<le> 90" "c + 32 = 58" by (auto simp: tolower_def split: if_splits)
  then have "65 \<le> unat c" "unat c \<le> 90" by (simp_all add: word_le_nat_alt)
  then have "unat (c + 32) = unat c + 32" by (subst unat_add_lem [THEN iffD1]) simp_all
  with u(2) \<open>65 \<le> unat c\<close> show False by simp
qed

lemma back_colon_run:
  "\<forall>j. c < j \<and> j < p \<longrightarrow> m ! j \<noteq> 58 \<Longrightarrow> m ! c = 58 \<Longrightarrow> c < p \<Longrightarrow> p \<le> length m \<Longrightarrow> back_colon m p = Some c"
proof (induction p)
  case (Suc p)
  then show ?case by (cases "c = p") (auto simp: ld_def)
qed simp

lemma find_space_run:
  "\<forall>j. p \<le> j \<and> j < e \<longrightarrow> \<not> isspace (m ! j) \<Longrightarrow> p \<le> e \<Longrightarrow> e < length m \<Longrightarrow> isspace (m ! e) \<Longrightarrow> find_space m p = Some e"
proof (induction m p rule: find_space.induct)
  case (1 m p)
  show ?case
  proof (cases "p = e")
    case True
    with "1.prems" show ?thesis by (subst find_space.simps) simp
  next
    case False
    with "1.prems" have "find_space m (p + 1) = Some e" by (intro "1.IH") auto
    with False "1.prems" show ?thesis by (subst find_space.simps) auto
  qed
qed

text \<open>The steps of \<open>mod_http\<close> on a request: where its loop finds the colon, and the blank trick.\<close>

lemma host_colon:
  assumes ok: "request_ok pre hdr k name pt rest"
  shows "hdr ! 4 = 58" "back_colon (http_request pre hdr k name pt rest) (host_at pre k) = Some (length pre + 5)"
proof -
  let ?m = "http_request pre hdr k name pt rest" and ?h = "host_at pre k"
  note nth = request_nth [OF ok]
  have hdr: "length hdr = 5" using request_hdr [OF ok] .
  have "map tolower hdr ! 4 = map tolower (bytes_of ''Host:'') ! 4" using ok by (simp add: request_ok_def)
  then have "tolower (hdr ! 4) = 58" using hdr by (simp add: bytes_of_def tolower_def)
  then show h4: "hdr ! 4 = 58" by (rule tolower_colon)
  have colon: "?m ! (length pre + 5) = 58" using h4 hdr by (simp add: http_request_def nth_append nth_Cons')
  have "?m ! j \<noteq> 58" if "length pre + 5 < j" "j < ?h" for j
    using nth(2) [of "j - (length pre + 6)"] that by (auto simp: host_at_def)
  then show "back_colon ?m ?h = Some (length pre + 5)"
    using colon nth(6) by (intro back_colon_run) (auto simp: host_at_def line_end_def)
qed

lemma space_moved:
  assumes ok: "request_ok pre hdr k name pt rest"
  shows "rm_space (http_request pre hdr k name pt rest) (host_at pre k) (int (length name)) (int (length pre + 5) - 4) =
    Some (pre @ [10] @ hdr @ name @ port_part pt @ replicate k 9 @ [13, 10] @ rest)"
proof -
  let ?m = "http_request pre hdr k name pt rest" and ?h = "host_at pre k" and ?e = "line_end pre k name pt"
  let ?np = "name @ port_part pt"
  note nth = request_nth [OF ok]
  have hdr: "length hdr = 5" using request_hdr [OF ok] .
  have le: "?e = ?h + length ?np" by (simp add: line_end_def)
  have nsp: "\<not> isspace (?m ! j)" if "?h \<le> j" "j < ?e" for j
  proof -
    have "?m ! j = ?np ! (j - ?h)" "j - ?h < length ?np" using nth(3) [of "j - ?h"] that le by auto
    then show ?thesis using request_no_space [OF ok] by (metis nth_mem set_append)
  qed
  have fs: "find_space ?m (?h + length name) = Some ?e"
    using nth(4,6) nsp le by (intro find_space_run) (auto simp: isspace_def)
  let ?a = "pre @ [10] @ hdr"
  have la: "length ?a = length pre + 6" using hdr by simp
  have m: "?m = ?a @ replicate k 32 @ ?np @ [13, 10] @ rest" by (simp add: http_request_def)
  have mv: "memmove ?m (length pre + 6) ?h (length ?np) =
      Some ((?a @ ?np) @ drop (length ?np) (replicate k 32 @ ?np) @ [13, 10] @ rest)"
    using memmove_down_at [of "length pre + 6" ?a ?h "replicate k 32" "length ?np" ?np "[13, 10] @ rest"] la
    unfolding m by (simp add: host_at_def)
  have ms: "memset ((?a @ ?np) @ drop (length ?np) (replicate k 32 @ ?np) @ [13, 10] @ rest) (length pre + 6 + length ?np) 9 k =
      Some ((?a @ ?np) @ replicate k 9 @ [13, 10] @ rest)"
    unfolding memset_def by (rule memcpy_at) (use la in simp_all)
  have ints: "nat (int ?h + int (length name)) = ?h + length name" "int (length pre + 5) - 4 + 5 = int (length pre + 6)"
    "int ?e - int ?h = int (length ?np)" "int ?h - int (length pre + 6) = int k"
    "nat (int (length pre + 6) + int (length ?np)) = length pre + 6 + length ?np"
    using le by (simp_all add: host_at_def nat_add_distrib)
  have c: "(int ?h + int (length name) < 0) = False"
    "(int (length pre + 6) < 0 \<or> int (length ?np) < 0 \<or> int k < 0) = False" by simp_all
  have "rm_space ?m ?h (int (length name)) (int (length pre + 5) - 4) = Some ((?a @ ?np) @ replicate k 9 @ [13, 10] @ rest)"
    unfolding rm_space_def ints c
    by (simp only: if_False fs Option.bind.simps Let_def ints c nat_int mv ms)
  then show ?thesis by simp
qed

text \<open>The two tricks with letters.\<close>

definition mixed_header :: "mem \<Rightarrow> mem" where
  "mixed_header hdr = [tolower (hdr ! 0), toupper (hdr ! 1), hdr ! 2, toupper (hdr ! 3), hdr ! 4]"

fun upper_alternate :: "mem \<Rightarrow> mem" where
  "upper_alternate [] = []"
| "upper_alternate [c] = [toupper c]"
| "upper_alternate (c # d # cs) = toupper c # d # upper_alternate cs"

lemma map_at_mid: "map_at f (a @ c # b) (int (length a)) = Some (a @ f c # b)"
  by (simp add: map_at_def ldz_def stz_def ld_def st_def)

lemma upper_even_mid: "upper_even (a @ cs @ b) (length a) (length cs) = Some (a @ upper_alternate cs @ b)"
proof (induction cs arbitrary: a rule: upper_alternate.induct)
  case (2 c)
  show ?case using map_at_mid [of toupper a c b] by simp
next
  case (3 c d cs)
  have "map_at toupper (a @ (c # d # cs) @ b) (int (length a)) = Some (a @ toupper c # d # cs @ b)"
    using map_at_mid [of toupper a c "d # cs @ b"] by simp
  moreover have "upper_even (a @ toupper c # d # cs @ b) (length a + 2) (length cs) = Some (a @ toupper c # d # upper_alternate cs @ b)"
    using 3 [of "a @ [toupper c, d]"] by simp
  ultimately show ?case by simp
qed simp

lemma length_upper_alternate [simp]: "length (upper_alternate cs) = length cs"
  by (induction cs rule: upper_alternate.induct) simp_all

lemma upper_alternate_ci: "map tolower (upper_alternate cs) = map tolower cs"
  by (induction cs rule: upper_alternate.induct) simp_all

lemma header_mixed:
  assumes "length hdr = 5"
  shows "do { b \<leftarrow> map_at tolower (http_request pre hdr k name pt rest) (int (length pre + 5) - 4);
      b \<leftarrow> map_at toupper b (int (length pre + 5) - 4 + 1);
      map_at toupper b (int (length pre + 5) - 4 + 3) } = Some (http_request pre (mixed_header hdr) k name pt rest)"
proof -
  obtain h0 h1 h2 h3 h4 where h: "hdr = [h0, h1, h2, h3, h4]"
    using assms by (auto simp: length_Suc_conv numeral_eq_Suc)
  have i: "int (length pre + 5) - 4 = int (length (pre @ [10 :: byte]))"
    "int (length pre + 5) - 4 + 1 = int (length (pre @ [10, tolower h0]))"
    "int (length pre + 5) - 4 + 3 = int (length (pre @ [10, tolower h0, toupper h1, h2]))" by simp_all
  define z where "z = replicate k 32 @ name @ port_part pt @ [13, 10] @ rest"
  have m: "http_request pre hdr k name pt rest = (pre @ [10]) @ h0 # h1 # h2 # h3 # h4 # z"
    by (simp add: http_request_def h z_def)
  have 1: "map_at tolower ((pre @ [10]) @ h0 # h1 # h2 # h3 # h4 # z) (int (length pre + 5) - 4) =
      Some ((pre @ [10, tolower h0]) @ h1 # h2 # h3 # h4 # z)" unfolding i(1) map_at_mid by simp
  have 2: "map_at toupper ((pre @ [10, tolower h0]) @ h1 # h2 # h3 # h4 # z) (int (length pre + 5) - 4 + 1) =
      Some ((pre @ [10, tolower h0, toupper h1, h2]) @ h3 # h4 # z)" unfolding i(2) map_at_mid by simp
  have 3: "map_at toupper ((pre @ [10, tolower h0, toupper h1, h2]) @ h3 # h4 # z) (int (length pre + 5) - 4 + 3) =
      Some ((pre @ [10, tolower h0, toupper h1, h2, toupper h3]) @ h4 # z)" unfolding i(3) map_at_mid by simp
  show ?thesis
    unfolding m 1 Option.bind.simps 2 3 by (simp add: http_request_def mixed_header_def h z_def)
qed

text \<open>A request stays one when the case of its header and host changes.\<close>

lemma ci_match_map: "map tolower m = map tolower m' \<Longrightarrow> ci_match m q hs \<longleftrightarrow> ci_match m' q hs"
  unfolding ci_match_def by (simp only: take_map [symmetric] drop_map [symmetric])

lemma request_ok_ci:
  assumes ok: "request_ok pre hdr k name pt rest"
    and hdr: "map tolower hdr' = map tolower hdr" and name: "map tolower name' = map tolower name"
  shows "request_ok pre hdr' k name' pt rest"
proof -
  have "map tolower (http_request pre hdr' k name' pt rest) = map tolower (http_request pre hdr k name pt rest)"
    using hdr name by (simp add: http_request_def)
  then have ci: "ci_match (http_request pre hdr' k name' pt rest) q hs = ci_match (http_request pre hdr k name pt rest) q hs"
    for q hs by (rule ci_match_map)
  have chars: "c \<noteq> 58 \<and> \<not> isspace c" if "c \<in> set name'" for c
  proof -
    have "tolower c \<in> set (map tolower name)" using that name by (metis image_eqI list.set_map)
    then obtain d where d: "d \<in> set name" "tolower d = tolower c" by auto
    then have "d \<noteq> 58" "\<not> isspace d" using ok by (auto simp: request_ok_def)
    moreover have "d = c" if "c = 58 \<or> isspace c"
    proof (rule tolower_same [OF d(2)])
      show "c < 65 \<or> c = 91" using that order.strict_trans1 [of c 13 65] by (auto simp: isspace_def)
    qed
    ultimately show ?thesis by blast
  qed
  have ne: "name \<noteq> []" "hd name \<noteq> 91" using ok by (auto simp: request_ok_def)
  then have ne': "name' \<noteq> []" using name by auto
  then have "tolower (hd name) = tolower (hd name')" using name ne(1) by (metis list.map_sel(1))
  then have "hd name' \<noteq> 91" using ne(2) tolower_same by metis
  then show ?thesis using ok hdr ci chars ne' unfolding request_ok_def by simp
qed

text \<open>What the tricks make of the line of the header, and of the request.\<close>

definition tricked :: "mem \<Rightarrow> mem \<Rightarrow> nat \<Rightarrow> mem \<Rightarrow> byte list option \<Rightarrow> mem \<Rightarrow> nat \<Rightarrow> mem" where
  "tricked pre hdr k name pt rest flags =
     (let hdr = (if flags AND MH_HMIX \<noteq> 0 then mixed_header hdr else hdr);
          host = (if flags AND MH_DMIX \<noteq> 0 then upper_alternate name else name) @ port_part pt in
      pre @ [10] @ hdr @
      (if flags AND MH_SPACE \<noteq> 0 then host @ replicate k 9 else replicate k 32 @ host) @ [13, 10] @ rest)"

lemma host_uppered:
  assumes "length hdr = 5"
  shows "upper_even (http_request pre hdr k name pt rest) (host_at pre k) (length name) =
    Some (http_request pre hdr k (upper_alternate name) pt rest)"
  using upper_even_mid [of "pre @ [10] @ hdr @ replicate k 32" name "port_part pt @ [13, 10] @ rest"] assms
  by (simp add: http_request_def host_at_def add.assoc)

lemma mixed_header_ci:
  assumes "length hdr = 5"
  shows "map tolower (mixed_header hdr) = map tolower hdr"
proof -
  obtain h0 h1 h2 h3 h4 where "hdr = [h0, h1, h2, h3, h4]"
    using assms by (auto simp: length_Suc_conv numeral_eq_Suc)
  then show ?thesis by (simp add: mixed_header_def)
qed

lemma mod_http_tricks:
  assumes ok: "request_ok pre hdr k name pt rest" and n: "16 \<le> n" "line_end pre k name pt + 2 \<le> n"
    "n \<le> length (http_request pre hdr k name pt rest)"
  shows "mod_http (http_request pre hdr k name pt rest) n flags = Some (tricked pre hdr k name pt rest flags, 0)"
proof -
  define hdr1 where "hdr1 = (if flags AND MH_HMIX \<noteq> 0 then mixed_header hdr else hdr)"
  define name1 where "name1 = (if flags AND MH_DMIX \<noteq> 0 then upper_alternate name else name)"
  have len: "length hdr = 5" "length hdr1 = 5" "length name1 = length name"
    using request_hdr [OF ok] by (simp_all add: hdr1_def name1_def mixed_header_def)
  have "map tolower hdr1 = map tolower hdr" "map tolower name1 = map tolower name"
    unfolding hdr1_def name1_def using mixed_header_ci [OF len(1)] upper_alternate_ci [of name] by simp_all
  then have "request_ok pre hdr1 k name1 pt rest" by (rule request_ok_ci [OF ok])
  from space_moved [OF this] have sp: "rm_space (http_request pre hdr1 k name1 pt rest) (host_at pre k) (int (length name))
      (int (length pre + 5) - 4) = Some (pre @ [10] @ hdr1 @ name1 @ port_part pt @ replicate k 9 @ [13, 10] @ rest)"
    by (simp only: len(3))
  have hm: "(if flags AND MH_HMIX \<noteq> 0 then do { b \<leftarrow> map_at tolower (http_request pre hdr k name pt rest) (int (length pre + 5) - 4);
      b \<leftarrow> map_at toupper b (int (length pre + 5) - 4 + 1); map_at toupper b (int (length pre + 5) - 4 + 3) }
      else Some (http_request pre hdr k name pt rest)) = Some (http_request pre hdr1 k name pt rest)"
    unfolding header_mixed [OF len(1)] by (simp add: hdr1_def)
  have dm: "(if flags AND MH_DMIX \<noteq> 0 then upper_even (http_request pre hdr1 k name pt rest) (host_at pre k) (nat (int (length name)))
      else Some (http_request pre hdr1 k name pt rest)) = Some (http_request pre hdr1 k name1 pt rest)"
    using host_uppered [OF len(2)] by (simp add: name1_def)
  have "name \<noteq> []" using ok by (simp add: request_ok_def)
  then have "mod_http (http_request pre hdr k name pt rest) n flags =
      do { b \<leftarrow> (if flags AND MH_SPACE \<noteq> 0 then rm_space (http_request pre hdr1 k name1 pt rest) (host_at pre k) (int (length name))
          (int (length pre + 5) - 4) else Some (http_request pre hdr1 k name1 pt rest)); Some (b, 0) }"
    unfolding mod_http_def parse_http_request [OF ok n, of False] Option.bind.simps http_host.simps option.case
      host_colon(2) [OF ok] Let_def hm dm by simp
  moreover have "tricked pre hdr k name pt rest flags = pre @ [10] @ hdr1 @ (if flags AND MH_SPACE \<noteq> 0
      then (name1 @ port_part pt) @ replicate k 9 else replicate k 32 @ name1 @ port_part pt) @ [13, 10] @ rest"
    by (simp only: tricked_def hdr1_def name1_def Let_def)
  ultimately show ?thesis using sp by (simp add: http_request_def [of pre hdr1])
qed

section \<open>Properties\<close>

text \<open>
  C35: Whatever the bytes of a packet, \<open>parse_http\<close> with a size inside the object reads
  only inside it; a host it returns begins inside the packet and does not reach past its end.
\<close>

theorem parse_http_safe:
  assumes "bsize \<le> length m"
  shows "\<exists>r. parse_http m bsize want = Some r \<and>
    (case hh_pos r of None \<Rightarrow> hh_len r = 0 | Some p \<Rightarrow> p \<le> bsize \<and> int p + hh_len r \<le> int bsize)"
  using assms by (rule parse_http_inside)

theorem parse_http_safe_witness:
  "\<exists>r. parse_http (bytes_of ''GET / HTTP/1.1 Host: '') 21 True = Some r \<and>
    (case hh_pos r of None \<Rightarrow> hh_len r = 0 | Some p \<Rightarrow> p \<le> 21 \<and> int p + hh_len r \<le> int 21)"
  using parse_http_safe [of 21 "bytes_of ''GET / HTTP/1.1 Host: ''" True] by simp

text \<open>
  C36: On a request whose first \<open>Host\<close> header, in any case, has at least one blank
  before the host, \<open>parse_http\<close> returns exactly the host and its port, 80 when none is
  given, whatever follows.
\<close>

theorem parse_http_finds_host:
  assumes "request_ok pre hdr k name pt rest" "16 \<le> n" "line_end pre k name pt + 2 \<le> n"
    and "n \<le> length (http_request pre hdr k name pt rest)"
  shows "parse_http (http_request pre hdr k name pt rest) n want =
    Some \<lparr>hh_len = int (length name), hh_pos = Some (host_at pre k),
      hh_port = (if want then Some (case pt of None \<Rightarrow> 80 | Some ds \<Rightarrow> dec_value 0 ds) else None)\<rparr>"
  using assms by (rule parse_http_request)

definition sample_pre :: mem where
  "sample_pre = bytes_of ''GET / HTTP/1.1'' @ [13]"

lemma all_below: "\<forall>q \<in> set [0..<n]. P q \<Longrightarrow> \<forall>q < n. P q"
  by simp

lemma sample_request_ok:
  "request_ok sample_pre (bytes_of ''hOST:'') 1 (bytes_of ''a.org'') (Some (bytes_of ''8080'')) [13, 10]"
proof -
  have len: "length sample_pre = 15" by (simp add: sample_pre_def)
  have "\<forall>q \<in> set [0..<15]. \<not> ci_match
      (http_request sample_pre (bytes_of ''hOST:'') 1 (bytes_of ''a.org'') (Some (bytes_of ''8080'')) [13, 10]) q host_header"
    by code_simp
  then have "\<forall>q < length sample_pre. \<not> ci_match
      (http_request sample_pre (bytes_of ''hOST:'') 1 (bytes_of ''a.org'') (Some (bytes_of ''8080'')) [13, 10]) q host_header"
    unfolding len by (rule all_below)
  moreover have "\<exists>l \<in> set http_methods. take (length l) sample_pre = l" by code_simp
  moreover have "port_ok (Some (bytes_of ''8080''))"
  proof -
    have "dec_value 0 (bytes_of ''8080'') = 8080" "\<forall>d \<in> set (bytes_of ''8080''). isdigit d" "bytes_of ''8080'' \<noteq> []"
      by code_simp+
    then show ?thesis by (simp only: port_ok_def option.case) simp
  qed
  moreover have "\<forall>c \<in> set (bytes_of ''a.org''). c \<noteq> 58 \<and> \<not> isspace c" by code_simp
  moreover have "map tolower (bytes_of ''hOST:'') = map tolower (bytes_of ''Host:'')" by code_simp
  ultimately show ?thesis unfolding request_ok_def by (simp add: bytes_of_def)
qed

theorem parse_http_finds_host_witness:
  "parse_http (http_request sample_pre (bytes_of ''hOST:'') 1 (bytes_of ''a.org'') (Some (bytes_of ''8080'')) [13, 10]) 36 True =
    Some \<lparr>hh_len = 5, hh_pos = Some 22, hh_port = Some 8080\<rparr>"
proof -
  have "line_end sample_pre 1 (bytes_of ''a.org'') (Some (bytes_of ''8080'')) + 2 \<le> 36"
    "36 \<le> length (http_request sample_pre (bytes_of ''hOST:'') 1 (bytes_of ''a.org'') (Some (bytes_of ''8080'')) [13, 10])"
    by (simp_all add: line_end_def host_at_def sample_pre_def port_part_def http_request_def)
  moreover have "dec_value 0 (bytes_of ''8080'') = 8080" by code_simp
  ultimately show ?thesis
    using parse_http_finds_host [OF sample_request_ok, of 36 True] by (simp add: host_at_def sample_pre_def)
qed

text \<open>
  C37: On a request in a packet of at least 16 bytes whose first \<open>Host\<close> header, in any case, has at least one blank and no other
  white space before a host that is not in brackets, with an optional port, and whose header line is complete within
  the packet, \<open>mod_http\<close> with any flags succeeds and changes exactly this: \<open>MH_HMIX\<close> makes the first letter of the
  header's name small and its second and fourth capital, \<open>MH_DMIX\<close> makes every other letter of the host
  capital, beginning with the first, \<open>MH_SPACE\<close> moves host and port up to the colon and fills the space left with tabs. Every
  other byte and the size stay.
\<close>

theorem mod_http_rewrites:
  assumes "request_ok pre hdr k name pt rest" "16 \<le> n" "line_end pre k name pt + 2 \<le> n"
    and "n \<le> length (http_request pre hdr k name pt rest)"
  shows "mod_http (http_request pre hdr k name pt rest) n flags = Some (tricked pre hdr k name pt rest flags, 0)"
  using assms by (rule mod_http_tricks)

theorem mod_http_rewrites_witness:
  "mod_http (http_request sample_pre (bytes_of ''hOST:'') 1 (bytes_of ''a.org'') (Some (bytes_of ''8080'')) [13, 10]) 36 7 =
    Some (sample_pre @ [10] @ bytes_of ''hOST:A.OrG:8080'' @ [9, 13, 10, 13, 10], 0)"
proof -
  have "line_end sample_pre 1 (bytes_of ''a.org'') (Some (bytes_of ''8080'')) + 2 \<le> 36"
    "36 \<le> length (http_request sample_pre (bytes_of ''hOST:'') 1 (bytes_of ''a.org'') (Some (bytes_of ''8080'')) [13, 10])"
    by (simp_all add: line_end_def host_at_def sample_pre_def port_part_def http_request_def)
  moreover have "tricked sample_pre (bytes_of ''hOST:'') 1 (bytes_of ''a.org'') (Some (bytes_of ''8080'')) [13, 10] 7 =
      sample_pre @ [10] @ bytes_of ''hOST:A.OrG:8080'' @ [9, 13, 10, 13, 10]" by code_simp
  ultimately show ?thesis using mod_http_rewrites [OF sample_request_ok, of 36 7] by simp
qed

text \<open>
  A redirect with an empty \<open>Location\<close> makes \<open>is_http_redirect\<close> search for a
  slash with a length that wrapped around: with no slash in the rest of the object it reads
  outside.
\<close>

theorem empty_location_reads_outside:
  "is_http_redirect (bytes_of ''GET / HTTP/1.1'' @ [13, 10] @ bytes_of ''Host: www.a.org'' @ [13, 10]) 33
     (bytes_of ''HTTP/1.1 302 Found'' @ [13, 10] @ bytes_of ''Location: '' @ [10] @ bytes_of ''Server: none'' @ [13, 10]) 45 = None"
proof -
  let ?q = "bytes_of ''GET / HTTP/1.1'' @ [13, 10] @ bytes_of ''Host: www.a.org'' @ [13, 10]"
  let ?r = "bytes_of ''HTTP/1.1 302 Found'' @ [13, 10] @ bytes_of ''Location: '' @ [10] @ bytes_of ''Server: none'' @ [13, 10]"
  have q: "parse_http ?q 33 False = Some \<lparr>hh_len = 9, hh_pos = Some 22, hh_port = None\<rparr>" by code_simp
  have c: "get_http_code ?r 45 = Some 302" by code_simp
  have f: "strncasestr ?r 45 location_header = Some (Some 19)" by code_simp
  have l: "memchr ?r 30 10 15 = Some (Some 30)" by code_simp
  have e: "back_spaces ?r 30 = Some 29" by code_simp
  have sz: "to_size (int 29 - int 30) = 18446744073709551615" by (simp add: to_size_def)
  have s: "skip_scheme ?r 30 29 = Some 30"
  proof -
    have "has_prefix ?r 30 (bytes_of ''http://'') = Some False" "has_prefix ?r 30 (bytes_of ''https://'') = Some False"
      by code_simp+
    then show ?thesis by (simp add: skip_scheme_def sz [simplified])
  qed
  have len: "length ?r = 45" by code_simp
  have "\<forall>j \<in> set [30..<45]. ?r ! j \<noteq> 47" by code_simp
  then have slash: "\<forall>j. 30 \<le> j \<and> j < length ?r \<longrightarrow> ?r ! j \<noteq> 47"
    unfolding len set_upt atLeastLessThan_iff Ball_def .
  have "memchr ?r 30 47 18446744073709551615 = None"
  proof (rule memchr_runs_out [OF slash])
    show "length ?r < 30 + 18446744073709551615" unfolding len by simp
    show "30 \<le> length ?r" unfolding len by simp
  qed
  then have o: "other_site ?q 22 31 ?r 30 29 = None" by (simp add: other_site_def sz [simplified])
  show ?thesis
    unfolding is_http_redirect_def q c f Option.bind.simps by (simp add: l [simplified] e [simplified] s [simplified] o [simplified])
qed

end
