(* ===== verification/Kavl.thy ===== *)
theory Kavl
  imports Prelude
begin

text \<open>
  The intrusive AVL tree of byedpi/kavl.h (the macros instantiated by \<open>KAVL_INIT\<close> in
  mpool.c). A node is its element, its balance factor, the 32-bit size of its subtree and
  its two children; \<open>p[0]\<close> is the left child, \<open>p[1]\<close> the right one. The arrays
  \<open>path\<close> and \<open>dir\<close> that the code fills on its way down are a list of frames,
  innermost first: a frame is a node with the hole where the search went on.

  \<open>None\<close> is a dereference of NULL or a write past the 64 entries of these arrays;
  Kavl_Correct shows that neither happens on a tree built by these operations.
\<close>

section \<open>Nodes and frames\<close>

type_synonym u32 = "32 word"

datatype dir = D0 | D1

datatype 'a kt = Null | Node (left: "'a kt") (key: 'a) (bal: int) (sz: u32) (right: "'a kt")

datatype 'a frame = Frame (fdir: dir) (fkey: 'a) (fbal: int) (fsz: u32) (fsib: "'a kt")

definition KAVL_MAX_DEPTH :: nat where
  "KAVL_MAX_DEPTH = 64"

fun opp :: "dir \<Rightarrow> dir" where
  "opp D0 = D1"
| "opp D1 = D0"

text \<open>The macro \<open>kavl_size\<close>.\<close>

fun kavl_size :: "'a kt \<Rightarrow> u32" where
  "kavl_size Null = 0"
| "kavl_size (Node l e b s r) = s"

fun child :: "dir \<Rightarrow> 'a kt \<Rightarrow> 'a kt" where
  "child d Null = Null"
| "child D0 (Node l e b s r) = l"
| "child D1 (Node l e b s r) = r"

text \<open>A node whose child on side \<open>d\<close> is \<open>a\<close> and on the other side \<open>c\<close>.\<close>

fun node_at :: "dir \<Rightarrow> 'a kt \<Rightarrow> 'a \<Rightarrow> int \<Rightarrow> u32 \<Rightarrow> 'a kt \<Rightarrow> 'a kt" where
  "node_at D0 a e b s c = Node a e b s c"
| "node_at D1 a e b s c = Node c e b s a"

fun plug1 :: "'a frame \<Rightarrow> 'a kt \<Rightarrow> 'a kt" where
  "plug1 (Frame d e b s sib) t = node_at d t e b s sib"

fun plug :: "'a frame list \<Rightarrow> 'a kt \<Rightarrow> 'a kt" where
  "plug [] t = t"
| "plug (f # fs) t = plug fs (plug1 f t)"

section \<open>Find\<close>

fun kavl_find :: "('a \<Rightarrow> 'a \<Rightarrow> int) \<Rightarrow> 'a kt \<Rightarrow> 'a \<Rightarrow> 'a option" where
  "kavl_find cmp Null x = None"
| "kavl_find cmp (Node l e b s r) x =
     (let c = cmp x e in
      if c < 0 then kavl_find cmp l x else if c > 0 then kavl_find cmp r x else Some e)"

section \<open>Rotations\<close>

text \<open>\<open>(a,(b,c)q)p => ((a,b)p,c)q\<close>; \<open>dir = D0\<close> rotates to the left.\<close>

definition kavl_rotate1 :: "'a kt \<Rightarrow> dir \<Rightarrow> 'a kt option" where
  "kavl_rotate1 p d =
     (let q = child (opp d) p in
      if p = Null \<or> q = Null then None
      else let size_p = sz p;
               p' = node_at d (child d p) (key p) (bal p) (sz p - (sz q - kavl_size (child d q))) (child d q)
           in Some (node_at d p' (key q) (bal q) size_p (child (opp d) q)))"

text \<open>\<open>(a,((b,c)r,d)q)p => ((a,b)p,(c,d)q)r\<close>\<close>

definition kavl_rotate2 :: "'a kt \<Rightarrow> dir \<Rightarrow> 'a kt option" where
  "kavl_rotate2 p d =
     (let q = child (opp d) p; r = child d q in
      if p = Null \<or> q = Null \<or> r = Null then None
      else let size_x_dir = kavl_size (child d r);
               b1 = (if d = D0 then 1 else - 1);
               (qb, pb) = (if bal r = b1 then (0, - b1) else if bal r = 0 then (0, 0) else (b1, 0));
               p' = node_at d (child d p) (key p) pb (sz p - (sz q - size_x_dir)) (child d r);
               q' = node_at d (child (opp d) r) (key q) qb (sz q - (size_x_dir + 1)) (child (opp d) q)
           in Some (node_at d p' (key r) 0 (sz p) q'))"

fun set_bal :: "int \<Rightarrow> 'a kt \<Rightarrow> 'a kt" where
  "set_bal b Null = Null"
| "set_bal b (Node l e b' s r) = Node l e b s r"

fun set_child_bal :: "dir \<Rightarrow> int \<Rightarrow> 'a kt \<Rightarrow> 'a kt" where
  "set_child_bal d b Null = Null"
| "set_child_bal D0 b (Node l e b' s r) = Node (set_bal b l) e b' s r"
| "set_child_bal D1 b (Node l e b' s r) = Node l e b' s (set_bal b r)"

section \<open>Insert\<close>

text \<open>
  The way down: \<open>Inl\<close> is an element equal to \<open>x\<close>, \<open>Inr\<close> the frames to the
  empty place. A store to \<open>path[64]\<close> is outside the array.
\<close>

fun descend :: "('a \<Rightarrow> 'a \<Rightarrow> int) \<Rightarrow> 'a \<Rightarrow> 'a kt \<Rightarrow> 'a frame list \<Rightarrow> ('a + 'a frame list) option" where
  "descend cmp x Null path = Some (Inr path)"
| "descend cmp x (Node l e b s r) path =
     (let c = cmp x e in
      if c = 0 then Some (Inl e)
      else if length path \<ge> KAVL_MAX_DEPTH then None
      else if c > 0 then descend cmp x r (Frame D1 e b s l # path)
      else descend cmp x l (Frame D0 e b s r # path))"

text \<open>
  The frames from the new leaf up to \<open>bp\<close>, the deepest node whose balance was not 0
  (the root if there is none), and the frames above it.
\<close>

fun split_bp :: "'a frame list \<Rightarrow> 'a frame list \<times> 'a frame list" where
  "split_bp [] = ([], [])"
| "split_bp (f # fs) =
     (if fbal f \<noteq> 0 then ([f], fs) else (let (inner, outer) = split_bp fs in (f # inner, outer)))"

fun bump_size :: "'a frame \<Rightarrow> 'a frame" where
  "bump_size (Frame d e b s sib) = Frame d e b (s + 1) sib"

fun bump_bal :: "'a frame \<Rightarrow> 'a frame" where
  "bump_bal (Frame d e b s sib) = Frame d e (if d = D0 then b - 1 else b + 1) s sib"

definition rebalance_ins :: "'a kt \<Rightarrow> 'a kt option" where
  "rebalance_ins bp =
     (if - 2 < bal bp \<and> bal bp < 2 then Some bp
      else let which = (if bal bp < 0 then D1 else D0);
               b1 = (if which = D0 then 1 else - 1);
               q = child (opp which) bp
           in if q = Null then None
              else if bal q = b1
              then do { r \<leftarrow> kavl_rotate1 bp which; Some (set_bal 0 (set_child_bal which 0 r)) }
              else kavl_rotate2 bp which)"

text \<open>The new tree and the element the function returns: \<open>x\<close>, or the one found.\<close>

definition kavl_insert :: "('a \<Rightarrow> 'a \<Rightarrow> int) \<Rightarrow> 'a kt \<Rightarrow> 'a \<Rightarrow> ('a kt \<times> 'a) option" where
  "kavl_insert cmp root x = do {
     r \<leftarrow> descend cmp x root [];
     (case r of
        Inl e \<Rightarrow> Some (root, e)
      | Inr path \<Rightarrow>
          let leaf = Node Null x 0 1 Null in
          if path = [] then Some (leaf, x)
          else do {
            let (inner, outer) = split_bp (map bump_size path);
            bp \<leftarrow> rebalance_ins (plug (map bump_bal inner) leaf);
            Some (plug outer bp, x) }) }"

section \<open>Erase\<close>

text \<open>
  The way down of \<open>kavl_erase\<close>: the node and the frames above it, \<open>Inl\<close> if there is
  none. The first of the 64 entries of \<open>path\<close> is the address of \<open>fake\<close>.
\<close>

fun locate :: "('a \<Rightarrow> 'a \<Rightarrow> int) \<Rightarrow> 'a \<Rightarrow> 'a kt \<Rightarrow> 'a frame list \<Rightarrow> (unit + 'a kt \<times> 'a frame list) option" where
  "locate cmp x Null path = Some (Inl ())"
| "locate cmp x (Node l e b s r) path =
     (let c = cmp x e in
      if c = 0 then Some (Inr (Node l e b s r, path))
      else if length path + 1 \<ge> KAVL_MAX_DEPTH then None
      else if c > 0 then locate cmp x r (Frame D1 e b s l # path)
      else locate cmp x l (Frame D0 e b s r # path))"

text \<open>The other way down, to the first node: every node is stored before the step back.\<close>

fun locate_first :: "'a kt \<Rightarrow> 'a frame list \<Rightarrow> ('a kt \<times> 'a frame list) option" where
  "locate_first Null path = None"
| "locate_first (Node l e b s r) path =
     (if length path + 1 \<ge> KAVL_MAX_DEPTH then None
      else if l = Null then Some (Node l e b s r, path)
      else locate_first l (Frame D0 e b s r # path))"

fun drop_size :: "'a frame \<Rightarrow> 'a frame" where
  "drop_size (Frame d e b s sib) = Frame d e b (s - 1) sib"

text \<open>
  The loop \<open>for (;;)\<close> that looks for the successor \<open>r\<close> below \<open>q\<close>, pushing the nodes
  it leaves to the left; \<open>k\<close> is the number of entries of \<open>path\<close> in use.
\<close>

fun leftmost :: "'a kt \<Rightarrow> nat \<Rightarrow> 'a frame list \<Rightarrow> ('a kt \<times> 'a frame list) option" where
  "leftmost Null k acc = None"
| "leftmost (Node l e b s r) k acc =
     (if l = Null then Some (Node l e b s r, acc)
      else if k \<ge> KAVL_MAX_DEPTH then None
      else leftmost l (k + 1) (Frame D0 e b s r # acc))"

text \<open>
  Unlinking: the subtree that takes the hole and the frames from which the balance is
  restored. \<open>path\<close> already has its sizes decremented.
\<close>

definition unlink :: "'a kt \<Rightarrow> 'a frame list \<Rightarrow> ('a kt \<times> 'a frame list) option" where
  "unlink p path =
     (if right p = Null then Some (left p, path)
      else let q = right p in
        if length path + 1 \<ge> KAVL_MAX_DEPTH then None
        else if left q = Null
        then Some (right q, Frame D1 (key q) (bal p) (sz p - 1) (left p) # path)
        else do {
          (r, below) \<leftarrow> leftmost q (length path + 2) [];
          Some (right r, map drop_size below @ Frame D1 (key r) (bal p) (sz p - 1) (left p) # path) })"

text \<open>The loop \<open>while (--d > 0)\<close>: \<open>fdir\<close> of a frame is the side that lost height.\<close>

fun retrace :: "'a frame list \<Rightarrow> 'a kt \<Rightarrow> 'a kt option" where
  "retrace [] t = Some t"
| "retrace (Frame d e b s sib # fs) t =
     (let b1 = (if d = D1 then - 1 else 1); b2 = (if d = D1 then - 2 else 2);
          q = node_at d t e (b + b1) s sib in
      if b + b1 = b1 then Some (plug fs q)
      else if b + b1 = b2 then
        (if sib = Null then None
         else if bal sib = - b1 then do { q \<leftarrow> kavl_rotate2 q d; retrace fs q }
         else do {
           r \<leftarrow> kavl_rotate1 q d;
           if bal sib = 0 then Some (plug fs (set_bal (- b1) (set_child_bal d b1 r)))
           else retrace fs (set_bal 0 (set_child_bal d 0 r)) })
      else retrace fs q)"

definition erase_at :: "'a kt \<Rightarrow> 'a frame list \<Rightarrow> ('a kt \<times> 'a) option" where
  "erase_at p path = do {
     (t, fs) \<leftarrow> unlink p (map drop_size path);
     root \<leftarrow> retrace fs t;
     Some (root, key p) }"

text \<open>The new tree and the erased element, if there was one.\<close>

definition kavl_erase :: "('a \<Rightarrow> 'a \<Rightarrow> int) \<Rightarrow> 'a kt \<Rightarrow> 'a \<Rightarrow> ('a kt \<times> 'a option) option" where
  "kavl_erase cmp root x = do {
     r \<leftarrow> locate cmp x root [];
     (case r of
        Inl _ \<Rightarrow> Some (root, None)
      | Inr (p, path) \<Rightarrow> do { (t, e) \<leftarrow> erase_at p path; Some (t, Some e) }) }"

definition kavl_erase_first :: "'a kt \<Rightarrow> ('a kt \<times> 'a) option" where
  "kavl_erase_first root = do { (p, path) \<leftarrow> locate_first root []; erase_at p path }"

section \<open>Iteration\<close>

text \<open>
  The iterator is its stack (top first), an array of \<open>KAVL_MAX_DEPTH\<close> pointers, and the right child of the
  top; \<open>kavl_at\<close> is the top of the stack. \<open>None\<close> is a push past the end of the array.
\<close>

definition push_itr :: "'a kt \<Rightarrow> 'a kt list \<Rightarrow> 'a kt list option" where
  "push_itr p stack = (if length stack < KAVL_MAX_DEPTH then Some (p # stack) else None)"

fun push_left :: "'a kt \<Rightarrow> 'a kt list \<Rightarrow> 'a kt list option" where
  "push_left Null stack = Some stack"
| "push_left (Node l e b s r) stack = do { stack \<leftarrow> push_itr (Node l e b s r) stack; push_left l stack }"

text \<open>On the empty tree \<open>*itr->top\<close> is read before the start of the array: that is \<open>None\<close> too.\<close>

definition kavl_itr_first :: "'a kt \<Rightarrow> ('a kt list \<times> 'a kt) option" where
  "kavl_itr_first root = do {
     stack \<leftarrow> push_left root [];
     (case stack of [] \<Rightarrow> None | p # _ \<Rightarrow> Some (stack, right p)) }"

text \<open>\<open>Some None\<close> is the return of 0: there is no next element.\<close>

definition kavl_itr_next :: "'a kt list \<times> 'a kt \<Rightarrow> ('a kt list \<times> 'a kt) option option" where
  "kavl_itr_next itr =
     (case fst itr of
        [] \<Rightarrow> None
      | _ # stack \<Rightarrow> do {
          stack \<leftarrow> push_left (snd itr) stack;
          (case stack of [] \<Rightarrow> Some None | p # _ \<Rightarrow> Some (Some (stack, right p))) })"

text \<open>
  Positioning the iterator at an element: \<open>p\<close> is where the search ends. When every element is smaller the
  stack is empty and the iterator has no position.
\<close>

fun itr_descend :: "('a \<Rightarrow> 'a \<Rightarrow> int) \<Rightarrow> 'a \<Rightarrow> 'a kt \<Rightarrow> 'a kt list \<Rightarrow> ('a kt \<times> 'a kt list) option" where
  "itr_descend cmp x Null stack = Some (Null, stack)"
| "itr_descend cmp x (Node l e b s r) stack =
     (let c = cmp x e in
      if c < 0 then do { stack \<leftarrow> push_itr (Node l e b s r) stack; itr_descend cmp x l stack }
      else if c > 0 then itr_descend cmp x r stack
      else Some (Node l e b s r, stack))"

definition kavl_itr_find ::
    "('a \<Rightarrow> 'a \<Rightarrow> int) \<Rightarrow> 'a kt \<Rightarrow> 'a \<Rightarrow> (bool \<times> ('a kt list \<times> 'a kt) option) option" where
  "kavl_itr_find cmp root x = do {
     (p, stack) \<leftarrow> itr_descend cmp x root [];
     if p \<noteq> Null then do { stack \<leftarrow> push_itr p stack; Some (True, Some (stack, right p)) }
     else (case stack of [] \<Rightarrow> Some (False, None) | q # _ \<Rightarrow> Some (False, Some (stack, right q))) }"

section \<open>Freeing\<close>

text \<open>
  \<open>kavl_free\<close> needs no stack: while a node has a left child it is hung below it on the right. The result are
  the elements in the order in which they are freed.
\<close>

function kavl_free :: "'a kt \<Rightarrow> 'a list" where
  "kavl_free Null = []"
| "kavl_free (Node Null e b s q) = e # kavl_free q"
| "kavl_free (Node (Node l e' b' s' r) e b s q) = kavl_free (Node l e' b' s' (Node r e b s q))"
  by pat_completeness auto
termination
  by (relation "measures [size, \<lambda>t. size (left t)]") auto

end
