(* ===== verification/Mpool.thy ===== *)
theory Mpool
  imports Kavl
begin

text \<open>
  The pools of byedpi/mpool.c: a header with an AVL tree of keys. A key is \<open>len\<close>
  units (bits, bytes or characters, by \<open>cmp_type\<close>) of the object \<open>data\<close>; an element
  is also an address, because the code compares and returns pointers. The fields of
  \<open>struct elem_i\<close> that change after the insertion are kept per address by the callers.

  The result \<open>None\<close> stands for an access outside an object and for a loop that does
  not end; Mpool_Correct shows where neither happens (the comparison inside the tree, \<open>scmp\<close>, has an
  unspecified value there instead). \<open>sg\<close> says whether \<open>char\<close> is
  signed (x86) or not (ARM).
\<close>

section \<open>Elements\<close>

definition CMP_BYTES :: nat where "CMP_BYTES = 0"
definition CMP_BITS :: nat where "CMP_BITS = 1"
definition CMP_HOST :: nat where "CMP_HOST = 2"

record elem =
  el_addr :: nat
  el_len :: int
  el_data :: mem
  el_cmp :: nat

text \<open>The value of a plain \<open>char\<close>.\<close>

definition cval :: "bool \<Rightarrow> byte \<Rightarrow> int" where
  "cval sg b = (if sg then sint b else uint b)"

section \<open>Comparison\<close>

text \<open>The cast of \<open>data[bytes] >> (8 - df)\<close> to \<open>uint8_t\<close>.\<close>

definition top_bits :: "bool \<Rightarrow> int \<Rightarrow> byte \<Rightarrow> int" where
  "top_bits sg df b = (cval sg b div 2 ^ nat (8 - df)) mod 256"

text \<open>
  The division of C truncates towards zero. A negative number of bytes is converted to a \<open>size_t\<close> of
  nearly \<open>2^64\<close>, which no object has.
\<close>

definition bit_cmp :: "bool \<Rightarrow> elem \<Rightarrow> elem \<Rightarrow> int option" where
  "bit_cmp sg p q =
     (let len = min (el_len p) (el_len q);
          bytes = (if len < 0 then - (- len div 8) else len div 8);
          df = len - 8 * bytes in do {
        c \<leftarrow> (if bytes < 0 then None else memcmp (el_data p) 0 (el_data q) 0 (nat bytes));
        if c \<noteq> 0 \<or> df = 0 then Some c
        else do {
          b1 \<leftarrow> ld (el_data p) (nat bytes);
          b2 \<leftarrow> ld (el_data q) (nat bytes);
          let c1 = top_bits sg df b1;
          let c2 = top_bits sg df b2;
          Some (if c1 \<noteq> c2 then (if c1 < c2 then - 1 else 1) else 0) } })"

definition byte_cmp :: "elem \<Rightarrow> elem \<Rightarrow> int option" where
  "byte_cmp p q =
     (if el_len p \<noteq> el_len q then Some (if el_len p < el_len q then - 1 else 1)
      else if el_len p < 0 then None
      else memcmp (el_data p) 0 (el_data q) 0 (nat (el_len p)))"

text \<open>The loop \<open>while (len-- > 0)\<close>; \<open>Inr\<close> holds \<open>pd\<close> and \<open>qd\<close> when it ends.\<close>

fun host_loop :: "bool \<Rightarrow> mem \<Rightarrow> mem \<Rightarrow> int \<Rightarrow> int \<Rightarrow> nat \<Rightarrow> (int + int \<times> int) option" where
  "host_loop sg p q pd qd 0 = Some (Inr (pd, qd))"
| "host_loop sg p q pd qd (Suc n) = do {
     a \<leftarrow> ldz p (pd - 1);
     b \<leftarrow> ldz q (qd - 1);
     if a \<noteq> b then Some (Inl (if cval sg a < cval sg b then - 1 else 1))
     else host_loop sg p q (pd - 1) (qd - 1) n }"

definition host_cmp :: "bool \<Rightarrow> elem \<Rightarrow> elem \<Rightarrow> int option" where
  "host_cmp sg p q = do {
     r \<leftarrow> host_loop sg (el_data p) (el_data q) (el_len p) (el_len q) (nat (min (el_len p) (el_len q)));
     (case r of
        Inl c \<Rightarrow> Some c
      | Inr (pd, qd) \<Rightarrow>
          if el_len p = el_len q then Some 0
          else do {
            c \<leftarrow> (if el_len p > el_len q then ldz (el_data p) (pd - 1) else ldz (el_data q) (qd - 1));
            Some (if c = 46 then 0 else if el_len p > el_len q then 1 else - 1) }) }"

definition scmp_m :: "bool \<Rightarrow> elem \<Rightarrow> elem \<Rightarrow> int option" where
  "scmp_m sg p q =
     (if el_cmp p = CMP_BITS then bit_cmp sg p q
      else if el_cmp p = CMP_HOST then host_cmp sg p q
      else byte_cmp p q)"

text \<open>
  The comparison the tree is instantiated with (\<open>KAVL_INIT(my, struct elem, head, scmp)\<close>). What a
  comparison gives that reads outside an object is not specified (\<open>undefined\<close> is an integer of which nothing
  is known): nothing can be proved of a pool whose keys are longer than their objects, and the pool theorems ask
  for keys that are inside (\<open>ok_bytes\<close>, \<open>ok_bits\<close>, \<open>ok_host\<close> of Mpool_Correct).
\<close>

definition scmp :: "bool \<Rightarrow> elem \<Rightarrow> elem \<Rightarrow> int" where
  "scmp sg p q = (case scmp_m sg p q of Some c \<Rightarrow> c | None \<Rightarrow> undefined)"

section \<open>Pools\<close>

record mphdr =
  mp_static :: bool
  mp_extra :: bool
  mp_cmp :: nat
  mp_count :: nat
  mp_root :: "elem kt"

text \<open>What \<open>free\<close> is called on.\<close>

datatype freed = FreeData nat | FreeExtra nat | FreeElem nat

definition mem_pool :: "bool \<Rightarrow> bool \<Rightarrow> nat \<Rightarrow> mphdr" where
  "mem_pool static extra cmp =
     \<lparr> mp_static = static, mp_extra = extra, mp_cmp = cmp, mp_count = 0, mp_root = Null \<rparr>"

definition temp_elem :: "mphdr \<Rightarrow> mem \<Rightarrow> int \<Rightarrow> elem" where
  "temp_elem hdr str len = \<lparr> el_addr = 0, el_len = len, el_data = str, el_cmp = mp_cmp hdr \<rparr>"

definition mem_get :: "bool \<Rightarrow> mphdr \<Rightarrow> mem \<Rightarrow> int \<Rightarrow> elem option" where
  "mem_get sg hdr str len = kavl_find (scmp sg) (mp_root hdr) (temp_elem hdr str len)"

definition destroy_elem :: "mphdr \<Rightarrow> elem \<Rightarrow> freed list" where
  "destroy_elem hdr e =
     (if mp_static hdr then [] else [FreeData (el_addr e)]) @
     (if mp_extra hdr then [FreeExtra (el_addr e)] else []) @ [FreeElem (el_addr e)]"

definition mem_delete :: "bool \<Rightarrow> mphdr \<Rightarrow> mem \<Rightarrow> int \<Rightarrow> (mphdr \<times> freed list) option" where
  "mem_delete sg hdr str len = do {
     (root, e) \<leftarrow> kavl_erase (scmp sg) (mp_root hdr) (temp_elem hdr str len);
     (case e of
        None \<Rightarrow> Some (hdr\<lparr>mp_root := root\<rparr>, [])
      | Some e \<Rightarrow> Some (hdr\<lparr>mp_root := root, mp_count := mp_count hdr - 1\<rparr>, destroy_elem hdr e)) }"

text \<open>
  The loop of \<open>mem_add\<close>: \<open>v\<close> is what the last \<open>kavl_insert\<close> returned. The pointers
  \<open>e\<close> and \<open>v\<close> are compared by address.
\<close>

partial_function (option) mem_add_loop ::
    "bool \<Rightarrow> elem \<Rightarrow> mphdr \<Rightarrow> elem \<Rightarrow> freed list \<Rightarrow> (mphdr \<times> elem \<times> freed list) option" where
  [code]: "mem_add_loop sg e hdr v tr =
     (if el_addr e \<noteq> el_addr v \<and> el_len e < el_len v
      then do {
        (hdr1, fr) \<leftarrow> mem_delete sg hdr (el_data v) (el_len v);
        (root, v') \<leftarrow> kavl_insert (scmp sg) (mp_root hdr1) e;
        mem_add_loop sg e (hdr1\<lparr>mp_root := root\<rparr>) v' (tr @ fr) }
      else Some (hdr, v, tr))"

text \<open>
  \<open>calloc\<close> gives the address \<open>new\<close> or fails. The result is the pool, the element
  returned (the new one or the one that was there) and what was freed on the way.
\<close>

definition mem_add :: "bool \<Rightarrow> mphdr \<Rightarrow> nat option \<Rightarrow> mem \<Rightarrow> int \<Rightarrow> (mphdr \<times> elem option \<times> freed list) option" where
  "mem_add sg hdr new str len =
     (case new of
        None \<Rightarrow> Some (hdr, None, [])
      | Some a \<Rightarrow> do {
          let e = \<lparr> el_addr = a, el_len = len, el_data = str, el_cmp = mp_cmp hdr \<rparr>;
          (root, v) \<leftarrow> kavl_insert (scmp sg) (mp_root hdr) e;
          (hdr, v, tr) \<leftarrow> mem_add_loop sg e (hdr\<lparr>mp_root := root\<rparr>) v [];
          if el_addr e \<noteq> el_addr v then Some (hdr, Some v, tr @ destroy_elem hdr e)
          else Some (hdr\<lparr>mp_count := mp_count hdr + 1\<rparr>, Some v, tr) })"

text \<open>The loop of \<open>mem_destroy\<close>, and what it frees besides the header.\<close>

partial_function (option) mem_destroy_loop :: "mphdr \<Rightarrow> elem kt \<Rightarrow> freed list \<Rightarrow> freed list option" where
  [code]: "mem_destroy_loop hdr root tr =
     (if root = Null then Some tr
      else do {
        (root', e) \<leftarrow> kavl_erase_first root;
        mem_destroy_loop hdr root' (tr @ destroy_elem hdr e) })"

definition mem_destroy :: "mphdr option \<Rightarrow> freed list option" where
  "mem_destroy hdr = (case hdr of None \<Rightarrow> Some [] | Some h \<Rightarrow> mem_destroy_loop h (mp_root h) [])"

end
