(* ===== verification/Process.thy ===== *)
theory Process
  imports Mpool
begin

unbundle bit_operations_syntax

text \<open>
  The state of the proxy process: the structures of params.h, conev.h, mpool.h and proxy.h,
  the objects they live in, and the system calls.

  Pointers are addresses: a \<open>struct eval\<close> is an index of \<open>pool->items\<close>, a buffer, an
  option group and an element of the cache are addresses in stores of their own; NULL is
  \<open>None\<close>. What the kernel and the C library answer is not under the sources: it is the
  parameter \<open>kernel\<close>, a function of everything asked before and of the call, so a statement
  for every process state is one for every behaviour of the system. The calls are recorded
  in \<open>trace\<close> with their answers.

  A function of the program takes the process and returns its result with the new process, or
  \<open>None\<close> where the C code aborts, reads or writes outside an object, follows NULL or
  does not return.
\<close>

section \<open>Constants\<close>

definition OFFSET_END :: nat where "OFFSET_END = 1"
definition OFFSET_MID :: nat where "OFFSET_MID = 2"
definition OFFSET_RAND :: nat where "OFFSET_RAND = 4"
definition OFFSET_SNI :: nat where "OFFSET_SNI = 8"
definition OFFSET_HOST :: nat where "OFFSET_HOST = 16"
definition OFFSET_START :: nat where "OFFSET_START = 32"

definition DETECT_HTTP_LOCAT :: nat where "DETECT_HTTP_LOCAT = 1"
definition DETECT_TLS_ERR :: nat where "DETECT_TLS_ERR = 2"
definition DETECT_TORST :: nat where "DETECT_TORST = 8"
definition DETECT_CONNECT :: nat where "DETECT_CONNECT = 16"

definition AUTO_ONRECONN :: nat where "AUTO_ONRECONN = 1"
definition AUTO_NORECONN :: nat where "AUTO_NORECONN = 2"
definition AUTO_SORT :: nat where "AUTO_SORT = 4"

definition MODE_SOCKS5 :: nat where "MODE_SOCKS5 = 1"
definition MODE_SOCKS4 :: nat where "MODE_SOCKS4 = 2"
definition MODE_HTTP :: nat where "MODE_HTTP = 4"
definition MODE_TRANSPARENT :: nat where "MODE_TRANSPARENT = 8"
definition MODE_SHADOWSOCKS :: nat where "MODE_SHADOWSOCKS = 16"
definition MODE_RAWTLS :: nat where "MODE_RAWTLS = 32"
definition MODE_TCP :: nat where "MODE_TCP = 64"
definition MODE_SOCKS :: nat where "MODE_SOCKS = MODE_SOCKS4 OR MODE_SOCKS5"
definition OUT_SUPPORT :: nat where "OUT_SUPPORT = MODE_SOCKS5 OR MODE_TCP"

definition FM_RAND :: nat where "FM_RAND = 1"
definition FM_ORIG :: nat where "FM_ORIG = 2"

definition IS_TCP :: nat where "IS_TCP = 1"
definition IS_UDP :: nat where "IS_UDP = 2"
definition IS_HTTP :: nat where "IS_HTTP = 4"
definition IS_HTTPS :: nat where "IS_HTTPS = 8"
definition IS_IPV4 :: nat where "IS_IPV4 = 16"

definition FLAG_S4 :: nat where "FLAG_S4 = 1"
definition FLAG_S5 :: nat where "FLAG_S5 = 2"
definition FLAG_CONN :: nat where "FLAG_CONN = 4"
definition FLAG_HTTP :: nat where "FLAG_HTTP = 8"

definition MAX_BUFF_INP :: int where "MAX_BUFF_INP = 8"

text \<open>Linux's values.\<close>

definition POLLIN :: nat where "POLLIN = 1"
definition POLLOUT :: nat where "POLLOUT = 4"
definition POLLERR :: nat where "POLLERR = 8"
definition POLLHUP :: nat where "POLLHUP = 16"
definition POLLRDHUP :: nat where "POLLRDHUP = 0x2000"
definition POLLTIMEOUT :: nat where "POLLTIMEOUT = 0"

definition AF_UNSPEC :: nat where "AF_UNSPEC = 0"
definition AF_INET :: nat where "AF_INET = 2"
definition AF_INET6 :: nat where "AF_INET6 = 10"
definition SOCK_STREAM :: nat where "SOCK_STREAM = 1"
definition SOCK_DGRAM :: nat where "SOCK_DGRAM = 2"

definition ENOENT :: nat where "ENOENT = 2"
definition EINTR :: nat where "EINTR = 4"
definition EAGAIN :: nat where "EAGAIN = 11"
definition EMSGSIZE :: nat where "EMSGSIZE = 90"
definition ENETUNREACH :: nat where "ENETUNREACH = 101"
definition ECONNRESET :: nat where "ECONNRESET = 104"
definition ETIMEDOUT :: nat where "ETIMEDOUT = 110"
definition ECONNREFUSED :: nat where "ECONNREFUSED = 111"
definition EHOSTUNREACH :: nat where "EHOSTUNREACH = 113"
definition EINPROGRESS :: nat where "EINPROGRESS = 115"

section \<open>Structures\<close>

datatype demode = DESYNC_NONE | DESYNC_SPLIT | DESYNC_DISORDER | DESYNC_OOB | DESYNC_DISOOB | DESYNC_FAKE

text \<open>
  \<open>union sockaddr_u\<close>: the members that the code touches do not overlap, except that the
  first eight bytes of \<open>sin6_addr\<close> are the padding \<open>sin_zero\<close>. A port is the value
  that reading the \<open>uint16_t\<close> gives, so in network order it is a swapped number.
\<close>

record sockaddr_u =
  sa_family :: nat
  sin_port :: nat
  sin_addr :: mem
  sin6_addr :: mem
  sin6_scope :: nat

definition zero_addr :: sockaddr_u where
  "zero_addr = \<lparr>sa_family = 0, sin_port = 0, sin_addr = replicate 4 0, sin6_addr = replicate 16 0, sin6_scope = 0\<rparr>"

definition htons :: "nat \<Rightarrow> nat" where
  "htons x = (x mod 256) * 256 + (x div 256) mod 256"

text \<open>The two bytes in memory of a \<open>uint16_t\<close> on a little-endian machine, and back.\<close>

definition le16_bytes :: "nat \<Rightarrow> mem" where
  "le16_bytes x = [of_nat x, of_nat (x div 256)]"

definition le16 :: "byte \<Rightarrow> byte \<Rightarrow> nat" where
  "le16 a b = unat a + unat b * 256"

record part =
  pt_m :: demode
  pt_flag :: nat
  pt_pos :: int
  pt_r :: int
  pt_s :: int

record packet =
  pk_size :: int
  pk_data :: "mem option"
  pk_off :: int

record desync_params =
  d_ttl :: int
  d_md5sig :: bool
  d_fake_data :: packet
  d_udp_fake_count :: int
  d_fake_offset :: part
  d_fake_sni_list :: "mem list"
  d_fake_mod :: nat
  d_fake_tls_size :: int
  d_drop_sack :: bool
  d_oob_char :: "byte \<times> byte"
  d_parts :: "part list"
  d_mod_http :: nat
  d_tlsrec :: "part list"
  d_tlsminor :: byte
  d_tlsminor_set :: bool
  d_proto :: nat
  d_detect :: nat
  d_auto_level :: nat
  d_hosts :: "mphdr option"
  d_ipset :: "mphdr option"
  d_pf :: "nat \<times> nat"
  d_rounds :: "int \<times> int"
  d_out_type :: nat
  d_out_addr :: sockaddr_u
  d_optind :: int
  d_id :: nat
  d_bit :: "64 word"
  d_fail_count :: int
  d_pri :: int
  d_str :: mem
  d_cache_ttl :: int
  d_cache_file :: "mem option"
  d_prev :: "nat option"
  d_next :: "nat option"

record params =
  p_dp_n :: nat
  p_dp :: "nat option"
  p_dp_full_mask :: "64 word"
  p_await_int :: int
  p_wait_send :: bool
  p_def_ttl :: int
  p_custom_ttl :: bool
  p_tfo :: bool
  p_timeout :: nat
  p_ptimeout :: nat
  p_to_count_lim :: int
  p_to_bytes_lim :: int
  p_cache_pre :: int
  p_mode :: nat
  p_ipv6 :: bool
  p_resolve :: bool
  p_udp :: bool
  p_delay_conn :: bool
  p_auto_reconnect :: bool
  p_max_open :: nat
  p_debug :: int
  p_block_quic :: bool
  p_bfsize :: nat
  p_baddr :: sockaddr_u
  p_laddr :: sockaddr_u
  p_mempool :: "mphdr option"
  p_need_free :: "nat list"
  p_protect_path :: "mem option"
  p_daemonize :: bool
  p_pid_file :: "mem option"
  p_pid_fd :: int

datatype callback =
    On_ctrl | On_accept | On_request | On_connect | On_tunnel | On_udp_tunnel | On_ignore
  | On_socks_conn | On_socks_recv | Recv_and_connect

record buffer =
  b_size :: nat
  b_offset :: int
  b_lock :: int
  b_next :: "nat option"
  b_data :: mem

record eval =
  e_fd :: int
  e_index :: nat
  e_mod_iter :: nat
  e_cb :: "callback option"
  e_tv_ms :: int
  e_tv_next :: "nat option"
  e_tv_prev :: "nat option"
  e_after_conn_cb :: "callback option"
  e_conn_state :: nat
  e_pair :: "nat option"
  e_buff :: "nat option"
  e_sq_buff :: "nat option"
  e_flag :: nat
  e_addr :: sockaddr_u
  e_host :: "mem option"
  e_host_len :: int
  e_recv_count :: int
  e_round_sent :: int
  e_round_count :: nat
  e_dp :: "nat option"
  e_dp_mask :: "64 word"
  e_detect :: nat
  e_mark :: bool
  e_to_count :: int
  e_tls_rec_size :: int
  e_tls_rec_pos :: int
  e_tls_rec :: mem
  e_restore_ttl :: bool
  e_restore_md5 :: bool
  e_restore_fake :: "nat option"
  e_restore_fake_len :: nat
  e_part_sent :: nat

text \<open>What \<open>memset(val, 0, sizeof(*val))\<close> leaves.\<close>

definition zero_eval :: eval where
  "zero_eval = \<lparr>e_fd = 0, e_index = 0, e_mod_iter = 0, e_cb = None, e_tv_ms = 0, e_tv_next = None, e_tv_prev = None,
     e_after_conn_cb = None, e_conn_state = 0, e_pair = None, e_buff = None, e_sq_buff = None, e_flag = 0,
     e_addr = zero_addr, e_host = None, e_host_len = 0, e_recv_count = 0, e_round_sent = 0, e_round_count = 0,
     e_dp = None, e_dp_mask = 0, e_detect = 0, e_mark = False, e_to_count = 0, e_tls_rec_size = 0, e_tls_rec_pos = 0,
     e_tls_rec = replicate 5 0, e_restore_ttl = False, e_restore_md5 = False, e_restore_fake = None,
     e_restore_fake_len = 0, e_part_sent = 0\<rparr>"

text \<open>The members of \<open>struct elem_i\<close> besides its key.\<close>

record cache_ext =
  c_extra :: "mem option"
  c_extra_len :: nat
  c_dp_mask :: "64 word"
  c_dp :: "nat option"
  c_detect :: nat
  c_time :: int

definition zero_cache :: cache_ext where
  "zero_cache = \<lparr>c_extra = None, c_extra_len = 0, c_dp_mask = 0, c_dp = None, c_detect = 0, c_time = 0\<rparr>"

text \<open>Zeroed structures: a new part, a new group of options, the parameters.\<close>

definition no_part :: part where
  "no_part = \<lparr>pt_m = DESYNC_NONE, pt_flag = 0, pt_pos = 0, pt_r = 0, pt_s = 0\<rparr>"

definition zero_dp :: desync_params where
  "zero_dp =
     \<lparr>d_ttl = 0, d_md5sig = False, d_fake_data = \<lparr>pk_size = 0, pk_data = None, pk_off = 0\<rparr>, d_udp_fake_count = 0,
      d_fake_offset = no_part, d_fake_sni_list = [], d_fake_mod = 0, d_fake_tls_size = 0, d_drop_sack = False,
      d_oob_char = (0, 0), d_parts = [], d_mod_http = 0, d_tlsrec = [], d_tlsminor = 0, d_tlsminor_set = False,
      d_proto = 0, d_detect = 0, d_auto_level = 0, d_hosts = None, d_ipset = None, d_pf = (0, 0), d_rounds = (0, 0),
      d_out_type = 0, d_out_addr = zero_addr, d_optind = 0, d_id = 0, d_bit = 0, d_fail_count = 0, d_pri = 0,
      d_str = [], d_cache_ttl = 0, d_cache_file = None, d_prev = None, d_next = None\<rparr>"

definition zero_params :: params where
  "zero_params =
     \<lparr>p_dp_n = 0, p_dp = None, p_dp_full_mask = 0, p_await_int = 0, p_wait_send = False, p_def_ttl = 0,
      p_custom_ttl = False, p_tfo = False, p_timeout = 0, p_ptimeout = 0, p_to_count_lim = 0, p_to_bytes_lim = 0,
      p_cache_pre = 0, p_mode = 0, p_ipv6 = False, p_resolve = False, p_udp = False, p_delay_conn = False,
      p_auto_reconnect = False, p_max_open = 0, p_debug = 0, p_block_quic = False, p_bfsize = 0,
      p_baddr = zero_addr, p_laddr = zero_addr, p_mempool = None, p_need_free = [], p_protect_path = None,
      p_daemonize = False, p_pid_file = None, p_pid_fd = 0\<rparr>"

section \<open>System calls\<close>

datatype sockopt =
    IP_TTL | IPV6_UNICAST_HOPS | SO_ATTACH_FILTER | SO_DETACH_FILTER | TCP_INFO | TCP_MD5SIG | TCP_USER_TIMEOUT
  | SO_LINGER | IPV6_V6ONLY | TCP_SYNCNT | TCP_FASTOPEN_CONNECT | SO_KEEPALIVE | TCP_NODELAY | SO_ERROR
  | SO_REUSEADDR | SO_ORIGINAL_DST | IP6T_SO_ORIGINAL_DST

datatype syscall =
    Epoll_create int
  | Epoll_ctl_add int int nat nat
  | Epoll_ctl_mod int int nat nat
  | Epoll_ctl_del int int
  | Epoll_wait int nat int
  | Pipe
  | Set_nonblock int
  | Read int nat
  | Write int mem
  | Close int
  | Shutdown int
  | Clock
  | Time
  | Malloc nat
  | Free nat
  | Munmap nat nat
  | Socket nat nat
  | Protect int
  | Bind int sockaddr_u
  | Listen int int
  | Connect int sockaddr_u
  | Accept int
  | Getsockname int
  | Getpeername int
  | Setsockopt int sockopt "int list"
  | Getsockopt int sockopt
  | Getaddrinfo mem nat nat bool
  | Send int mem
  | Send_oob int mem
  | Recv int nat
  | Recvfrom int nat
  | Signals
  | Open mem
  | Lock int
  | Unlink mem
  | Daemon
  | Getpid
  | Getenv mem
  | Access mem
  | Read_file mem
  | Write_file mem mem
  | Print mem

text \<open>
  An answer holds the returned value, what \<open>errno\<close> is set to when it is negative, and
  what the call stores: bytes, an address, the events of \<open>epoll_wait\<close> (registered pointer
  and flags).
\<close>

record answer =
  a_ret :: int
  a_errno :: nat
  a_data :: mem
  a_addr :: sockaddr_u
  a_events :: "(nat \<times> nat) list"

type_synonym event_trace = "(syscall \<times> answer) list"
type_synonym kernel = "event_trace \<Rightarrow> syscall \<Rightarrow> answer"

text \<open>
  The parts of the C library with a wide interface are parameters too: the conversion of
  addresses to and from text, \<open>strtof\<close> (the value as an \<open>int\<close>, the value times
  \<open>1000.0f\<close> as an \<open>unsigned\<close>, the end) and \<open>getopt_long\<close> (from \<open>optind\<close>: the option or -1,
  its argument, the next \<open>optind\<close>).
\<close>

record libc =
  inet_pton :: "nat \<Rightarrow> mem \<Rightarrow> mem option"
  inet_ntop :: "nat \<Rightarrow> mem \<Rightarrow> mem"
  strtof :: "mem \<Rightarrow> nat \<Rightarrow> int \<times> nat \<times> nat"
  getopt_long :: "int \<Rightarrow> byte option \<times> mem \<times> int"

text \<open>
  The process. \<open>ndebug\<close> and \<open>char_signed\<close> are the build: the macro \<open>NDEBUG\<close> removes
  the assertions and the log, \<open>char\<close> is signed on x86 and unsigned on ARM. New objects
  get the address \<open>next_addr\<close>; the kernel only says whether there is memory.
\<close>

record proc =
  kernel :: kernel
  libc :: libc
  trace :: event_trace
  errno :: nat
  ndebug :: bool
  char_signed :: bool
  next_addr :: nat
  rand_seq :: "nat \<Rightarrow> nat"
  rand_pos :: nat
  items :: "nat \<Rightarrow> eval"
  bufs :: "nat \<Rightarrow> buffer option"
  groups :: "nat \<Rightarrow> desync_params"
  cache :: "nat \<Rightarrow> cache_ext"
  params :: params
  pl_max :: nat
  pl_count :: nat
  pl_efd :: int
  pl_links :: "nat \<Rightarrow> nat"
  pl_pevents :: "(nat \<times> nat) list"
  pl_iters :: nat
  pl_brk :: bool
  tv_start :: "nat option"
  tv_end :: "nat option"
  root_buff :: "nat option"
  buff_count :: int
  ctrl_fds :: "int \<times> int"
  server_fd :: int
  current_pool :: bool

definition sys :: "syscall \<Rightarrow> proc \<Rightarrow> answer \<times> proc" where
  "sys c w = (let a = kernel w (trace w) c in
     (a, w\<lparr>trace := trace w @ [(c, a)], errno := (if a_ret a < 0 then a_errno a else errno w)\<rparr>))"

text \<open>The same for the calls of which only the returned value counts.\<close>

definition call :: "syscall \<Rightarrow> proc \<Rightarrow> int \<times> proc" where
  "call c w = (let (a, w) = sys c w in (a_ret a, w))"

definition alloc :: "nat \<Rightarrow> proc \<Rightarrow> nat option \<times> proc" where
  "alloc n w = (let (r, w) = call (Malloc n) w in
     if r \<le> 0 then (None, w) else (Some (next_addr w), w\<lparr>next_addr := next_addr w + 1\<rparr>))"

definition free_ptr :: "nat \<Rightarrow> proc \<Rightarrow> proc" where
  "free_ptr a w = snd (call (Free a) w)"

text \<open>The C library's random numbers are the sequence \<open>rand_seq\<close>, read in order.\<close>

definition rand :: "proc \<Rightarrow> nat \<times> proc" where
  "rand w = (rand_seq w (rand_pos w), w\<lparr>rand_pos := rand_pos w + 1\<rparr>)"

definition get_e :: "proc \<Rightarrow> nat" where
  "get_e w = errno w"

definition LOG_ENABLED :: "proc \<Rightarrow> bool" where
  "LOG_ENABLED w \<longleftrightarrow> \<not> ndebug w \<and> 0 \<le> p_debug (params w)"

text \<open>\<open>assert\<close>: the program aborts when it fails, unless it is compiled out.\<close>

definition assert_c :: "bool \<Rightarrow> proc \<Rightarrow> unit option" where
  "assert_c c w = (if ndebug w \<or> c then Some () else None)"

definition upd_ev :: "nat \<Rightarrow> (eval \<Rightarrow> eval) \<Rightarrow> proc \<Rightarrow> proc" where
  "upd_ev v f w = w\<lparr>items := (items w)(v := f (items w v))\<rparr>"

definition upd_dp :: "nat \<Rightarrow> (desync_params \<Rightarrow> desync_params) \<Rightarrow> proc \<Rightarrow> proc" where
  "upd_dp d f w = w\<lparr>groups := (groups w)(d := f (groups w d))\<rparr>"

definition upd_cache :: "nat \<Rightarrow> (cache_ext \<Rightarrow> cache_ext) \<Rightarrow> proc \<Rightarrow> proc" where
  "upd_cache a f w = w\<lparr>cache := (cache w)(a := f (cache w a))\<rparr>"

text \<open>A buffer is freed memory when its address is not mapped.\<close>

definition upd_buf :: "nat \<Rightarrow> (buffer \<Rightarrow> buffer) \<Rightarrow> proc \<Rightarrow> proc option" where
  "upd_buf b f w = (case bufs w b of None \<Rightarrow> None | Some x \<Rightarrow> Some (w\<lparr>bufs := (bufs w)(b \<mapsto> f x)\<rparr>))"

section \<open>Frame lemmas\<close>

named_theorems frame \<open>what a system call or an update leaves alone\<close>

lemma sys_frame [frame]:
  "items (snd (sys c w)) = items w" "bufs (snd (sys c w)) = bufs w" "groups (snd (sys c w)) = groups w"
  "cache (snd (sys c w)) = cache w" "params (snd (sys c w)) = params w" "kernel (snd (sys c w)) = kernel w"
  "next_addr (snd (sys c w)) = next_addr w" "ndebug (snd (sys c w)) = ndebug w"
  by (simp_all add: sys_def Let_def)

end
