(* ===== verification/Conev.thy ===== *)
theory Conev
  imports Process
begin

text \<open>
  The event loop of byedpi/conev.c (built with epoll): the pool of events, the sorted list
  of timers, the list of recycled buffers and the loop. Every function takes the process
  and returns it; a result \<open>None\<close> is an abort, an invalid access or a call that does not
  return. Conev_Props shows where that cannot happen.
\<close>

section \<open>Buffers\<close>

definition buff_pop :: "nat \<Rightarrow> proc \<Rightarrow> (nat option \<times> proc) option" where
  "buff_pop bsz w =
     (case root_buff w of
        Some b \<Rightarrow> do {
          x \<leftarrow> bufs w b;
          Some (Some b, w\<lparr>root_buff := b_next x, buff_count := buff_count w - 1\<rparr>) }
      | None \<Rightarrow>
          (let (a, w) = sys (Malloc (40 + bsz)) w in
           if a_ret a \<le> 0 then Some (None, w)
           else
             (let b = next_addr w;
                  x = \<lparr>b_size = bsz, b_offset = 0, b_lock = 0, b_next = None,
                       b_data = take bsz (a_data a @ replicate bsz 0)\<rparr> in
              Some (Some b, w\<lparr>next_addr := b + 1, bufs := (bufs w)(b \<mapsto> x)\<rparr>))))"

definition buff_push :: "nat option \<Rightarrow> proc \<Rightarrow> proc option" where
  "buff_push buff w =
     (case buff of
        None \<Rightarrow> Some w
      | Some b \<Rightarrow> do {
          x \<leftarrow> bufs w b;
          if buff_count w \<ge> MAX_BUFF_INP then Some (w\<lparr>bufs := (bufs w)(b := None)\<rparr>)
          else Some (w\<lparr>bufs := (bufs w)(b \<mapsto> x\<lparr>b_lock := 0, b_offset := 0, b_next := root_buff w\<rparr>),
                      root_buff := Some b, buff_count := buff_count w + 1\<rparr>) })"

definition buff_ppop :: "nat \<Rightarrow> proc \<Rightarrow> (nat option \<times> proc) option" where
  "buff_ppop bsz w = do {
     (b, w) \<leftarrow> buff_pop bsz w;
     w \<leftarrow> (if b \<noteq> None then buff_push b w else Some w);
     Some (b, w) }"

partial_function (option) buff_destroy :: "nat option \<Rightarrow> proc \<Rightarrow> proc option" where
  [code]: "buff_destroy root w =
     (case root of
        None \<Rightarrow> Some w
      | Some b \<Rightarrow> do {
          x \<leftarrow> bufs w b;
          buff_destroy (b_next x) (w\<lparr>bufs := (bufs w)(b := None)\<rparr>) })"

section \<open>Timers\<close>

text \<open>\<open>clock_gettime\<close> answers in nanoseconds here.\<close>

definition time_ms :: "proc \<Rightarrow> int \<times> proc" where
  "time_ms w = (let (t, w) = call Clock w in (t div 1000000, w))"

partial_function (option) timer_place :: "nat option \<Rightarrow> nat option \<Rightarrow> int \<Rightarrow> (nat \<Rightarrow> eval) \<Rightarrow> (nat option \<times> nat option) option" where
  [code]: "timer_place next prev ms it =
     (case prev of
        None \<Rightarrow> Some (next, None)
      | Some p \<Rightarrow>
          if e_tv_ms (it p) \<ge> ms then timer_place (Some p) (e_tv_prev (it p)) ms it
          else Some (next, Some p))"

text \<open>\<open>if (n) n->tv_prev = x\<close> and the same for \<open>tv_next\<close>, on the array of events.\<close>

definition set_prev :: "nat option \<Rightarrow> nat option \<Rightarrow> (nat \<Rightarrow> eval) \<Rightarrow> nat \<Rightarrow> eval" where
  "set_prev n x it = (case n of None \<Rightarrow> it | Some n \<Rightarrow> it(n := (it n)\<lparr>e_tv_prev := x\<rparr>))"

definition set_next :: "nat option \<Rightarrow> nat option \<Rightarrow> (nat \<Rightarrow> eval) \<Rightarrow> nat \<Rightarrow> eval" where
  "set_next n x it = (case n of None \<Rightarrow> it | Some n \<Rightarrow> it(n := (it n)\<lparr>e_tv_next := x\<rparr>))"

definition set_timer :: "nat \<Rightarrow> int \<Rightarrow> proc \<Rightarrow> proc option" where
  "set_timer v ms w =
     (if e_tv_ms (items w v) \<noteq> 0 then Some w
      else do {
        let (t, w) = time_ms w;
        let w = upd_ev v (\<lambda>e. e\<lparr>e_tv_ms := t + ms\<rparr>) w;
        (next, prev) \<leftarrow> timer_place None (tv_end w) (t + ms) (items w);
        let w = upd_ev v (\<lambda>e. e\<lparr>e_tv_next := next, e_tv_prev := prev\<rparr>) w;
        Some (w\<lparr>items := set_next prev (Some v) (set_prev next (Some v) (items w)),
                tv_start := (if tv_start w = None \<or> next = tv_start w then Some v else tv_start w),
                tv_end := (if tv_end w = None \<or> prev = tv_end w then Some v else tv_end w)\<rparr>) })"

definition remove_timer :: "nat \<Rightarrow> proc \<Rightarrow> proc" where
  "remove_timer v w =
     (let it = set_next (e_tv_prev (items w v)) (e_tv_next (items w v)) (items w);
          it = set_prev (e_tv_next (it v)) (e_tv_prev (it v)) it
      in w\<lparr>tv_start := (if tv_start w = Some v then e_tv_next (it v) else tv_start w),
           tv_end := (if tv_end w = Some v then e_tv_prev (it v) else tv_end w),
           items := it(v := (it v)\<lparr>e_tv_ms := 0, e_tv_next := None, e_tv_prev := None\<rparr>)\<rparr>)"

section \<open>Events\<close>

definition add_event :: "callback \<Rightarrow> int \<Rightarrow> nat \<Rightarrow> proc \<Rightarrow> (nat option \<times> proc) option" where
  "add_event cb fd e w = do {
     assert_c (fd > 0) w;
     if pl_count w \<ge> pl_max w then Some (None, w)
     else do {
       let v = pl_links w (pl_count w);
       let w = upd_ev v (\<lambda>_. zero_eval\<lparr>e_mod_iter := pl_iters w, e_fd := fd, e_index := pl_count w, e_cb := Some cb\<rparr>) w;
       let (r, w) = call (Epoll_ctl_add (pl_efd w) fd e v) w;
       if r \<noteq> 0 then Some (None, w)
       else Some (Some v, w\<lparr>pl_count := pl_count w + 1\<rparr>) } }"

definition mod_etype :: "nat \<Rightarrow> nat \<Rightarrow> proc \<Rightarrow> (int \<times> proc) option" where
  "mod_etype v type w = do {
     assert_c (e_fd (items w v) > 0) w;
     Some (call (Epoll_ctl_mod (pl_efd w) (e_fd (items w v)) type v) w) }"

text \<open>What \<open>del_event\<close> does to one live event before it goes on to the pair.\<close>

definition drop_buffers :: "nat \<Rightarrow> proc \<Rightarrow> proc option" where
  "drop_buffers v w = do {
     w \<leftarrow> (case e_buff (items w v) of None \<Rightarrow> Some w
          | Some b \<Rightarrow> do { w \<leftarrow> buff_push (Some b) w; Some (upd_ev v (\<lambda>e. e\<lparr>e_buff := None\<rparr>) w) });
     (case e_sq_buff (items w v) of None \<Rightarrow> Some w
      | Some b \<Rightarrow> do { w \<leftarrow> buff_push (Some b) w; Some (upd_ev v (\<lambda>e. e\<lparr>e_sq_buff := None\<rparr>) w) }) }"

definition drop_memory :: "nat \<Rightarrow> proc \<Rightarrow> proc" where
  "drop_memory v w =
     (let w = (case e_restore_fake (items w v) of None \<Rightarrow> w
               | Some p \<Rightarrow> upd_ev v (\<lambda>e. e\<lparr>e_restore_fake := None\<rparr>)
                   (snd (call (Munmap p (e_restore_fake_len (items w v))) w)))
      in upd_ev v (\<lambda>e. e\<lparr>e_host := None\<rparr>) w)"

definition close_fd :: "int \<Rightarrow> proc \<Rightarrow> proc" where
  "close_fd fd w = snd (call (Close fd) w)"

definition unlink_event :: "nat \<Rightarrow> proc \<Rightarrow> proc option" where
  "unlink_event v w =
     (if pl_count w = 0 then None
      else
        (let w = w\<lparr>pl_count := pl_count w - 1\<rparr>; ev = pl_links w (pl_count w); i = e_index (items w v) in
         if ev = v then Some w
         else if i \<ge> pl_max w then None
         else Some (upd_ev ev (\<lambda>e. e\<lparr>e_index := i\<rparr>)
                 (w\<lparr>pl_links := (pl_links w)(i := ev, pl_count w := v)\<rparr>))))"

definition close_event :: "nat \<Rightarrow> proc \<Rightarrow> proc option" where
  "close_event v w = do {
     let fd = e_fd (items w v);
     let w = snd (call (Epoll_ctl_del (pl_efd w) fd) w);
     w \<leftarrow> drop_buffers v w;
     let w = drop_memory v w;
     let w = (if fd \<noteq> server_fd w \<and> fd > 0 then close_fd fd w else w);
     let w = upd_ev v (\<lambda>e. e\<lparr>e_fd := - 1, e_mod_iter := pl_iters w\<rparr>) w;
     let w = remove_timer v w;
     unlink_event v w }"

partial_function (option) del_event :: "nat \<Rightarrow> proc \<Rightarrow> proc option" where
  [code]: "del_event v w = do {
     assert_c (e_fd (items w v) \<ge> - 1 \<and> e_mod_iter (items w v) \<le> pl_iters w) w;
     if e_fd (items w v) = - 1 then Some w
     else do {
       w \<leftarrow> close_event v w;
       (case e_pair (items w v) of
          None \<Rightarrow> Some w
        | Some p \<Rightarrow>
            del_event p
              (upd_ev v (\<lambda>e. e\<lparr>e_pair := None\<rparr>)
                (if e_pair (items w p) = Some v then upd_ev p (\<lambda>e. e\<lparr>e_pair := None\<rparr>) w else w))) } }"

section \<open>The pool\<close>

partial_function (option) delete_all :: "proc \<Rightarrow> proc option" where
  [code]: "delete_all w =
     (if pl_count w = 0 then Some w
      else do { w \<leftarrow> del_event (pl_links w 0) w; delete_all w })"

definition destroy_pool :: "proc \<Rightarrow> proc option" where
  "destroy_pool w = do {
     let w = (if fst (ctrl_fds w) \<noteq> - 1
              then (close_fd (snd (ctrl_fds w)) (close_fd (fst (ctrl_fds w)) w))\<lparr>ctrl_fds := (- 1, - 1)\<rparr> else w);
     w \<leftarrow> delete_all w;
     let w = (if pl_efd w \<noteq> 0 then close_fd (pl_efd w) w else w);
     w \<leftarrow> buff_destroy (root_buff w) w;
     Some (w\<lparr>pl_max := 0, pl_efd := 0, pl_pevents := [], pl_iters := 0, pl_brk := False, tv_start := None,
             tv_end := None, root_buff := None, buff_count := 0, ctrl_fds := (0, 0)\<rparr>) }"

definition init_pool :: "nat \<Rightarrow> proc \<Rightarrow> (bool \<times> proc) option" where
  "init_pool n w =
     (let (p, w) = alloc 144 w in
      if p = None then Some (False, w)
      else
        (let w = w\<lparr>pl_max := n, pl_count := 0, pl_iters := 0, pl_brk := False, pl_pevents := [], tv_start := None,
                   tv_end := None, root_buff := None, buff_count := 0, ctrl_fds := (0, 0)\<rparr>;
             (efd, w) = call (Epoll_create (int n)) w in
         if efd < 0 then Some (False, w)
         else
           (let w = w\<lparr>pl_efd := efd\<rparr>;
                (m1, w) = alloc (12 * n) w; (m2, w) = alloc (8 * n) w; (m3, w) = alloc (360 * n) w in
            if m1 = None \<or> m2 = None \<or> m3 = None
            then do { w \<leftarrow> destroy_pool w; Some (False, w) }
            else do {
              let w = w\<lparr>pl_links := (\<lambda>i. i), items := (\<lambda>i. (items w i)\<lparr>e_fd := - 1\<rparr>)\<rparr>;
              let (a, w) = sys Pipe w;
              (if a_ret a = 0
               then do {
                 let fds = (int (fst (hd (a_events a))), int (snd (hd (a_events a))));
                 let w = snd (call (Set_nonblock (fst fds)) w);
                 let w = snd (call (Set_nonblock (snd fds)) w);
                 (_, w) \<leftarrow> add_event On_ctrl (fst fds) POLLIN (w\<lparr>ctrl_fds := fds\<rparr>);
                 Some (True, w) }
               else Some (True, w\<lparr>ctrl_fds := (- 1, - 1)\<rparr>)) })))"

section \<open>Waiting\<close>

text \<open>
  One round of the \<open>while (1)\<close> of \<open>next_event\<close>: the wait when \<open>*offs\<close> is negative.
  \<open>Inl\<close> is the return of NULL, \<open>Inr i\<close> goes on with the event number \<open>i\<close>.
\<close>

definition poll_events :: "int \<Rightarrow> int \<Rightarrow> int \<Rightarrow> proc \<Rightarrow> (int + int) \<times> proc" where
  "poll_events offs type ms w =
     (if offs < 0
      then
        (let (a, w) = sys (Epoll_wait (pl_efd w) (pl_max w) ms) w in
         if a_ret a = 0 then (Inl (int POLLTIMEOUT), w)
         else if a_ret a < 0 then (Inl type, w)
         else (Inr (a_ret a - 1), w\<lparr>pl_pevents := a_events a, pl_iters := pl_iters w + 1\<rparr>))
      else (Inr offs, w))"

partial_function (option) next_event :: "int \<Rightarrow> int \<Rightarrow> int \<Rightarrow> proc \<Rightarrow> (nat option \<times> int \<times> int \<times> proc) option" where
  [code]: "next_event offs type ms w = do {
     assert_c (offs \<ge> - 1 \<and> offs < int (pl_max w)) w;
     let (r, w) = poll_events offs type ms w;
     (case r of
        Inl type \<Rightarrow> Some (None, offs, type, w)
      | Inr i \<Rightarrow>
          if i < 0 \<or> nat i \<ge> length (pl_pevents w) then None
          else
            (let (v, ty) = pl_pevents w ! nat i in
             if e_mod_iter (items w v) = pl_iters w then next_event (i - 1) type ms w
             else Some (Some v, i - 1, int ty, w))) }"

text \<open>The conversion of a \<open>long\<close> to \<open>int\<close>.\<close>

definition to_int :: "int \<Rightarrow> int" where
  "to_int x = (x + 2 ^ 31) mod 2 ^ 32 - 2 ^ 31"

definition next_event_tv :: "int \<Rightarrow> int \<Rightarrow> proc \<Rightarrow> (nat option \<times> int \<times> int \<times> proc) option" where
  "next_event_tv offs type w =
     (case tv_start w of
        None \<Rightarrow> next_event offs type (- 1) w
      | Some s \<Rightarrow> do {
          let (t, w) = time_ms w;
          let ms = to_int (e_tv_ms (items w s) - t);
          (v, offs, type, w) \<leftarrow> (if ms > 0 then next_event offs type ms w else Some (None, offs, int POLLTIMEOUT, w));
          (case (v, tv_start w) of
             (None, Some s') \<Rightarrow>
               if type = int POLLTIMEOUT then Some (Some s', offs, type, remove_timer s' w)
               else Some (v, offs, type, w)
           | _ \<Rightarrow> Some (v, offs, type, w)) })"

text \<open>The loop calls an event's callback through \<open>run_cb\<close>, the function pointer's call.\<close>

type_synonym handler = "callback \<Rightarrow> nat \<Rightarrow> int \<Rightarrow> proc \<Rightarrow> (int \<times> proc) option"

partial_function (option) loop_from :: "handler \<Rightarrow> int \<Rightarrow> int \<Rightarrow> proc \<Rightarrow> proc option" where
  [code]: "loop_from run_cb i etype w =
     (if pl_brk w then Some w
      else do {
        (v, i, etype, w) \<leftarrow> next_event_tv i etype w;
        (case v of
           None \<Rightarrow> if get_e w = EINTR then loop_from run_cb i etype w else Some w
         | Some v \<Rightarrow> do {
             cb \<leftarrow> e_cb (items w v);
             (ret, w) \<leftarrow> run_cb cb v etype w;
             w \<leftarrow> (if ret < 0 then del_event v w else Some w);
             loop_from run_cb i etype w }) })"

definition loop_event :: "handler \<Rightarrow> proc \<Rightarrow> proc option" where
  "loop_event run_cb w = loop_from run_cb (- 1) (- 1) w"

partial_function (option) on_ctrl :: "nat \<Rightarrow> int \<Rightarrow> proc \<Rightarrow> (int \<times> proc) option" where
  [code]: "on_ctrl v et w =
     (let (r, w) = call (Read (e_fd (items w v)) 64) w in
      if r > 0 then on_ctrl v et w else Some (0, w))"

definition byedpi_wakeup :: "proc \<Rightarrow> proc" where
  "byedpi_wakeup w =
     (if current_pool w \<and> snd (ctrl_fds w) \<noteq> - 1 then snd (call (Write (snd (ctrl_fds w)) [119]) w) else w)"

end
