(* ===== verification/Desync.thy ===== *)
theory Desync
  imports Conev Packets_Tls Packets_Http Fake_Data
begin

text \<open>
  byedpi/desync.c: how the first bytes of a connection are sent so that a filter on the path
  does not recognize them. \<open>gen_offset\<close> turns a position of the options into an offset,
  \<open>tamp\<close> rewrites the request, \<open>desync\<close> sends it in parts. A buffer is read and written
  in the store of buffers of the process.
\<close>

definition DEFAULT_TTL :: int where "DEFAULT_TTL = 8"
definition ERR_WAIT :: int where "ERR_WAIT = - 12"

definition fake_tls :: packet where "fake_tls = \<lparr>pk_size = int (length tls_data), pk_data = Some tls_data, pk_off = 0\<rparr>"
definition fake_http :: packet where "fake_http = \<lparr>pk_size = int (length http_data), pk_data = Some http_data, pk_off = 0\<rparr>"
definition fake_udp :: packet where "fake_udp = \<lparr>pk_size = int (length udp_data), pk_data = Some udp_data, pk_off = 0\<rparr>"

section \<open>Socket options\<close>

definition setsockopt :: "int \<Rightarrow> sockopt \<Rightarrow> int list \<Rightarrow> proc \<Rightarrow> int \<times> proc" where
  "setsockopt fd opt v w = call (Setsockopt fd opt v) w"

definition setttl :: "int \<Rightarrow> int \<Rightarrow> proc \<Rightarrow> int \<times> proc" where
  "setttl fd ttl w =
     (let (ret6, w) = setsockopt fd IPV6_UNICAST_HOPS [ttl] w;
          (ret4, w) = setsockopt fd IP_TTL [ttl] w in
      (if ret4 \<noteq> 0 \<and> ret6 \<noteq> 0 then - 1 else 0, w))"

text \<open>The socket filter that drops TCP segments with a SACK option: code, jt, jf, k.\<close>

definition sack_filter :: "(int \<times> int \<times> int \<times> int) list" where
  "sack_filter =
     [(0x30, 0, 0, 0x0c), (0x74, 0, 0, 0x04), (0x35, 0, 3, 0x0b), (0x30, 0, 0, 0x22),
      (0x15, 0, 1, 0x05), (0x06, 0, 0, 0), (0x06, 0, 0, 0x40000)]"

definition drop_sack :: "int \<Rightarrow> proc \<Rightarrow> int \<times> proc" where
  "drop_sack fd w =
     (let (r, w) = setsockopt fd SO_ATTACH_FILTER (concat (map (\<lambda>(c, t, f, k). [c, t, f, k]) sack_filter)) w in
      (if r = - 1 then - 1 else 0, w))"

text \<open>
  \<open>getsockopt(TCP_INFO)\<close> answers the state and the size it filled in, then the number of
  bytes not sent; 144 is the offset of that member in \<open>struct tcp_info\<close>.
\<close>

definition sock_has_notsent :: "int \<Rightarrow> proc \<Rightarrow> bool \<times> proc" where
  "sock_has_notsent fd w =
     (let (a, w) = sys (Getsockopt fd TCP_INFO) w in
      (case a_events a of
         (state, ts) # (notsent, _) # _ \<Rightarrow>
           if a_ret a < 0 \<or> state \<noteq> 1 \<or> ts \<le> 144 then False else notsent \<noteq> 0
       | _ \<Rightarrow> False, w))"

definition set_md5sig :: "int \<Rightarrow> nat \<Rightarrow> proc \<Rightarrow> int \<times> proc" where
  "set_md5sig fd key_len w =
     (let key = map uint (take (min 5 key_len) (bytes_of ''proxy''));
          (p, w) = call (Getpeername fd) w in
      if p < 0 then (- 1, w)
      else
        (let (r, w) = setsockopt fd TCP_MD5SIG (int key_len # key) w in
         (if r < 0 then - 1 else 0, w)))"

definition send :: "int \<Rightarrow> mem \<Rightarrow> proc \<Rightarrow> int \<times> proc" where
  "send fd bs w = call (Send fd bs) w"

section \<open>Positions\<close>

record proto_info =
  pi_init :: bool
  pi_type :: nat
  pi_host_len :: int
  pi_host_pos :: int

definition no_info :: proto_info where
  "no_info = \<lparr>pi_init = False, pi_type = 0, pi_host_len = 0, pi_host_pos = 0\<rparr>"

definition init_proto_info :: "mem \<Rightarrow> nat \<Rightarrow> proto_info \<Rightarrow> proto_info option" where
  "init_proto_info buffer n info =
     (if pi_init info then Some info
      else do {
        (tl, tp) \<leftarrow> parse_tls buffer n;
        (if tl \<noteq> 0
         then Some \<lparr>pi_init = True, pi_type = IS_HTTPS, pi_host_len = int tl,
                    pi_host_pos = (case tp of None \<Rightarrow> 0 | Some p \<Rightarrow> int p)\<rparr>
         else do {
           h \<leftarrow> parse_http buffer n False;
           let hp = (case hh_pos h of Some p \<Rightarrow> Some p | None \<Rightarrow> tp);
           Some \<lparr>pi_init = True, pi_type = (if hh_len h \<noteq> 0 then IS_HTTP else pi_type info), pi_host_len = hh_len h,
                 pi_host_pos = (case hp of None \<Rightarrow> 0 | Some p \<Rightarrow> int p)\<rparr> }) })"

text \<open>\<open>rand() % d\<close> with a divisor converted to \<open>unsigned\<close>; dividing by zero is undefined.\<close>

definition rand_below :: "int \<Rightarrow> proc \<Rightarrow> (int \<times> proc) option" where
  "rand_below d w =
     (let (r, w) = rand w in
      if d mod 2 ^ 32 = 0 then None else Some (int (r mod 2 ^ 32) mod (d mod 2 ^ 32), w))"

definition gen_offset ::
    "int \<Rightarrow> nat \<Rightarrow> mem \<Rightarrow> nat \<Rightarrow> int \<Rightarrow> proto_info \<Rightarrow> proc \<Rightarrow> (int \<times> proto_info \<times> proc) option" where
  "gen_offset pos flag buffer n lp info w =
     (if flag AND (OFFSET_SNI OR OFFSET_HOST) \<noteq> 0
      then do {
        info \<leftarrow> init_proto_info buffer n info;
        if pi_host_pos info = 0 \<or> (flag AND OFFSET_SNI \<noteq> 0 \<and> pi_type info \<noteq> IS_HTTPS) then Some (- 1, info, w)
        else do {
          let pos = pos + pi_host_pos info;
          if flag AND OFFSET_END \<noteq> 0 then Some (pos + pi_host_len info, info, w)
          else if flag AND OFFSET_MID \<noteq> 0
            then Some (pos + sgn (pi_host_len info) * (\<bar>pi_host_len info\<bar> div 2), info, w)
          else if flag AND OFFSET_RAND \<noteq> 0
            then do { (r, w) \<leftarrow> rand_below (pi_host_len info) w; Some (pos + r, info, w) }
          else Some (pos, info, w) } }
      else if flag AND OFFSET_RAND \<noteq> 0
        then do { (r, w) \<leftarrow> rand_below (int n - lp) w; Some (pos + (lp + r), info, w) }
      else if flag AND OFFSET_MID \<noteq> 0 then Some (pos + int (n div 2), info, w)
      else if pos < 0 \<or> flag AND OFFSET_END \<noteq> 0 then Some (pos + int n, info, w)
      else Some (pos, info, w))"

section \<open>Rewriting the request\<close>

text \<open>
  The loop over \<open>tlsrec\<close>: \<open>recs\<close> are the entries still to be taken, \<open>part\<close> the current
  one with \<open>r\<close> repetitions left, \<open>rc\<close> the rounds done. One round is \<open>tlsrec_round\<close>; its
  inner \<open>None\<close> is a break.
\<close>

definition tlsrec_round ::
    "nat \<Rightarrow> part \<Rightarrow> int \<Rightarrow> int \<Rightarrow> int \<Rightarrow> mem \<times> int \<times> proto_info \<times> proc \<Rightarrow>
       ((mem \<times> int \<times> proto_info \<times> proc) \<times> int option) option" where
  "tlsrec_round bfsize part r rc lp = (\<lambda>(buffer, n, info, w). do {
     (o1, info, w) \<leftarrow> gen_offset (pt_pos part) (pt_flag part) buffer (nat (n - rc * 5)) lp info w;
     let pos = rc * 5 + o1;
     let pos = (if pt_pos part < 0 \<or> pt_flag part \<noteq> 0 then pos - 5 else pos);
     let pos = pos + pt_s part * (pt_r part - r);
     if pos < lp then Some ((buffer, n, info, w), None)
     else do {
       (tail, ok) \<leftarrow> part_tls (drop (nat lp) buffer) (bfsize - nat lp) (n - lp) (pos - lp);
       let buffer = take (nat lp) buffer @ tail;
       if ok = 0 then Some ((buffer, n, info, w), None)
       else Some ((buffer, n + 5, info, w), Some (pos + 5)) } })"

function tlsrec_loop ::
    "nat \<Rightarrow> part list \<Rightarrow> part \<Rightarrow> int \<Rightarrow> int \<Rightarrow> int \<Rightarrow> mem \<times> int \<times> proto_info \<times> proc \<Rightarrow>
       (mem \<times> int \<times> proto_info \<times> proc) option" where
  "tlsrec_loop bfsize recs part r rc lp s =
     (if r > 0
      then do {
        (s, next) \<leftarrow> tlsrec_round bfsize part r rc lp s;
        (case next of None \<Rightarrow> Some s | Some lp \<Rightarrow> tlsrec_loop bfsize recs part (r - 1) (rc + 1) lp s) }
      else
        (case recs of
           [] \<Rightarrow> Some s
         | p # recs \<Rightarrow> do {
             (s, next) \<leftarrow> tlsrec_round bfsize p (pt_r p) rc lp s;
             (case next of None \<Rightarrow> Some s | Some lp \<Rightarrow> tlsrec_loop bfsize recs p (pt_r p - 1) (rc + 1) lp s) }))"
  by pat_completeness auto
termination
  by (relation "measures [\<lambda>(bf, recs, p, r, rc, lp, s). length recs, \<lambda>(bf, recs, p, r, rc, lp, s). nat r]") auto

declare tlsrec_loop.simps [simp del]

definition tamp ::
    "mem \<Rightarrow> nat \<Rightarrow> int \<Rightarrow> desync_params \<Rightarrow> proto_info \<Rightarrow> proc \<Rightarrow> (mem \<times> int \<times> proto_info \<times> proc) option" where
  "tamp buffer bfsize n dp info w = do {
     http \<leftarrow> (if d_mod_http dp \<noteq> 0 then is_http buffer (nat n) else Some False);
     (buffer, _) \<leftarrow> (if http then mod_http buffer (nat n) (d_mod_http dp) else Some (buffer, 0));
     minor \<leftarrow> (if d_tlsminor_set dp then is_tls_chello buffer (nat n) else Some False);
     buffer \<leftarrow> (if minor then st buffer 2 (d_tlsminor dp) else Some buffer);
     rec \<leftarrow> (if d_tlsrec dp \<noteq> [] then is_tls_chello buffer (nat n) else Some False);
     if rec then tlsrec_loop bfsize (d_tlsrec dp) no_part 0 0 0 (buffer, n, info, w)
     else Some (buffer, n, info, w) }"

section \<open>Fake packets\<close>

text \<open>
  The buffer \<open>p\<close> is fresh zeroed memory of \<open>ps\<close> bytes. The loop of \<open>merge_tls_records\<close>
  inside \<open>change_tls_sni\<close> gets a fuel that is more than any run that ends needs.
\<close>

definition change_sni :: "mem \<Rightarrow> mem \<Rightarrow> int \<Rightarrow> int \<Rightarrow> proc \<Rightarrow> (mem \<times> int \<times> proc) option" where
  "change_sni sni p n nn w = do {
     r \<leftarrow> change_tls_sni ((nat n + 2) * (nat n + 2)) (rand_seq w) (rand_pos w) sni p n nn;
     (p, ret, k) \<leftarrow> r;
     Some (p, ret, w\<lparr>rand_pos := k\<rparr>) }"

definition fake_size :: "int \<Rightarrow> int \<Rightarrow> int" where
  "fake_size f_size n =
     (let f = (if f_size < 0 then n + f_size else f_size) in if f > n \<or> f \<le> 0 then n else f)"

text \<open>The body of the \<open>do { } while (0)\<close>: what \<open>p\<close> holds after it.\<close>

definition fill_fake ::
    "mem \<Rightarrow> int \<Rightarrow> packet \<Rightarrow> mem option \<Rightarrow> bool \<Rightarrow> int \<Rightarrow> mem \<Rightarrow> proc \<Rightarrow> (mem \<times> proc) option" where
  "fill_fake buffer n pkt sni orig f_size p w = do {
     (p, done, w) \<leftarrow>
       (if orig
        then do {
          src \<leftarrow> slice buffer 0 (nat n);
          p \<leftarrow> memcpy p 0 src;
          (case sni of
             None \<Rightarrow> Some (p, True, w)
           | Some s \<Rightarrow> do { (p, r, w) \<leftarrow> change_sni s p n f_size w; Some (p, r = 0, w) }) }
        else Some (p, False, w));
     if done then Some (p, w)
     else do {
       pd \<leftarrow> pk_data pkt;
       src \<leftarrow> slice pd 0 (nat (pk_size pkt));
       p \<leftarrow> memcpy p 0 src;
       (case sni of
          None \<Rightarrow> Some (p, w)
        | Some s \<Rightarrow> do { (p, r, w) \<leftarrow> change_sni s p (pk_size pkt) f_size w; Some (p, w) }) } }"

definition choose_sni :: "desync_params \<Rightarrow> proc \<Rightarrow> mem option \<times> proc" where
  "choose_sni opt w =
     (if d_fake_sni_list opt = [] then (None, w)
      else (let (r, w) = rand w in (Some (d_fake_sni_list opt ! (r mod length (d_fake_sni_list opt))), w)))"

definition fake_source :: "mem \<Rightarrow> int \<Rightarrow> proto_info \<Rightarrow> desync_params \<Rightarrow> (packet \<times> proto_info) option" where
  "fake_source buffer n info opt =
     (if pk_data (d_fake_data opt) \<noteq> None then Some (d_fake_data opt, info)
      else do {
        info \<leftarrow>
          (if pi_type info \<noteq> 0 then Some info
           else do {
             t \<leftarrow> is_tls_chello buffer (nat n);
             if t then Some (info\<lparr>pi_type := IS_HTTPS\<rparr>)
             else do { h \<leftarrow> is_http buffer (nat n); Some (if h then info\<lparr>pi_type := IS_HTTP\<rparr> else info) } });
        Some (if pi_type info = IS_HTTP then fake_http else fake_tls, info) })"

text \<open>The returned packet and the address of its memory; without memory its data is NULL.\<close>

definition get_tcp_fake ::
    "mem \<Rightarrow> int \<Rightarrow> proto_info \<Rightarrow> desync_params \<Rightarrow> proc \<Rightarrow> (packet \<times> nat option \<times> proto_info \<times> proc) option" where
  "get_tcp_fake buffer n info opt w = do {
     (pkt, info) \<leftarrow> fake_source buffer n info opt;
     let ps = max n (pk_size pkt);
     let (addr, w) = alloc (nat ps) w;
     (case addr of
        None \<Rightarrow> Some (pkt\<lparr>pk_data := None\<rparr>, None, info, w)
      | Some a \<Rightarrow> do {
          let (sni, w) = choose_sni opt w;
          (p, w) \<leftarrow> fill_fake buffer n pkt sni (d_fake_mod opt AND FM_ORIG \<noteq> 0 \<and> pi_type info = IS_HTTPS)
                      (fake_size (d_fake_tls_size opt) n) (replicate (nat ps) 0) w;
          (p, w) \<leftarrow>
            (if d_fake_mod opt AND FM_RAND \<noteq> 0
             then do { (p, k) \<leftarrow> randomize_tls (rand_seq w) (rand_pos w) p ps; Some (p, w\<lparr>rand_pos := k\<rparr>) }
             else Some (p, w));
          (off, info, w) \<leftarrow>
            (if pt_m (d_fake_offset opt) \<noteq> DESYNC_NONE
             then do {
               (off, info, w) \<leftarrow> gen_offset (pt_pos (d_fake_offset opt)) (pt_flag (d_fake_offset opt)) buffer (nat n) 0 info w;
               Some (if off > ps \<or> off < 0 then 0 else off, info, w) }
             else Some (pk_off pkt, info, w));
          Some (\<lparr>pk_size = ps, pk_data = Some p, pk_off = off\<rparr>, Some a, info, w) }) }"

section \<open>Sending a part\<close>

definition send_fake :: "nat \<Rightarrow> int \<Rightarrow> desync_params \<Rightarrow> packet \<Rightarrow> proc \<Rightarrow> (int \<times> proc) option" where
  "send_fake v pos opt pkt w =
     (let ps = pk_size pkt - pk_off pkt in
      if ps < 0 then Some (- 1, w)
      else
        (let fd = e_fd (items w v); send_len = (if ps < pos then ps else pos);
             (r, w) = setttl fd (if d_ttl opt \<noteq> 0 then d_ttl opt else DEFAULT_TTL) w in
         if r < 0 then Some (- 1, w)
         else
           (let w = upd_ev v (\<lambda>e. e\<lparr>e_restore_ttl := True\<rparr>) w;
                (m, w) = (if d_md5sig opt then set_md5sig fd 5 w else (0, w)) in
            if m \<noteq> 0 then Some (- 1, w)
            else do {
              let w = upd_ev v (\<lambda>e. e\<lparr>e_restore_md5 := d_md5sig opt\<rparr>) w;
              p \<leftarrow> pk_data pkt;
              bs \<leftarrow> slice p (nat (pk_off pkt)) (nat send_len);
              Some (send fd bs w) })))"

definition restore_state :: "nat \<Rightarrow> proc \<Rightarrow> proc" where
  "restore_state v w =
     (let fd = e_fd (items w v);
          w = (case e_restore_fake (items w v) of None \<Rightarrow> w
               | Some p \<Rightarrow> upd_ev v (\<lambda>e. e\<lparr>e_restore_fake := None\<rparr>)
                   (snd (call (Munmap p (e_restore_fake_len (items w v))) w)));
          w = (if e_restore_md5 (items w v)
               then upd_ev v (\<lambda>e. e\<lparr>e_restore_md5 := False\<rparr>) (snd (set_md5sig fd 0 w)) else w)
      in (if e_restore_ttl (items w v)
          then upd_ev v (\<lambda>e. e\<lparr>e_restore_ttl := False\<rparr>) (snd (setttl fd (p_def_ttl (params w)) w)) else w))"

text \<open>
  \<open>send_oob\<close> puts the urgent byte behind the \<open>pos\<close> bytes for the time of the call; the
  buffer is as before afterwards.
\<close>

definition send_oob :: "int \<Rightarrow> mem \<Rightarrow> int \<Rightarrow> int \<Rightarrow> byte \<times> byte \<Rightarrow> proc \<Rightarrow> (int \<times> proc) option" where
  "send_oob fd buffer n pos c w =
     (if n \<le> pos then Some (- 1, w)
      else do {
        _ \<leftarrow> ld buffer (nat pos);
        bs \<leftarrow> slice buffer 0 (nat pos);
        let (len, w) = call (Send_oob fd (bs @ [if snd c \<noteq> 0 then fst c else 97])) w;
        Some (if len < 0 then - 1 else len - 1, w) })"

text \<open>What stays the same in all rounds of the loop of \<open>desync\<close>.\<close>

record split_job =
  j_val :: nat
  j_pair :: nat
  j_dp :: desync_params
  j_data :: mem
  j_size :: nat
  j_n :: int
  j_offset :: int
  j_skip :: int
  j_part_skip :: nat

definition is_pair_mode :: "demode \<Rightarrow> bool" where
  "is_pair_mode m \<longleftrightarrow> m = DESYNC_DISORDER \<or> m = DESYNC_DISOOB \<or> m = DESYNC_FAKE"

text \<open>C's remainder: \<open>(part.r - r) % 2\<close> is zero for even differences of either sign.\<close>

definition first_of_pair :: "part \<Rightarrow> int \<Rightarrow> bool" where
  "first_of_pair part r \<longleftrightarrow> is_pair_mode (pt_m part) \<and> (pt_r part - r) mod 2 = 0"

text \<open>The \<open>switch (part.m)\<close>; the inner \<open>None\<close> is its \<open>return -1\<close>.\<close>

definition send_mode ::
    "split_job \<Rightarrow> demode \<Rightarrow> bool \<Rightarrow> int \<Rightarrow> int \<Rightarrow> proto_info \<Rightarrow> proc \<Rightarrow> (int option \<times> proto_info \<times> proc) option" where
  "send_mode j m first lp pos info w = do {
     let v = j_val j;
     let fd = e_fd (items w v);
     let plain = (\<lambda>w. do { bs \<leftarrow> slice (j_data j) (nat lp) (nat (pos - lp)); Some (send fd bs w) });
     let oob = (\<lambda>w. send_oob fd (drop (nat lp) (j_data j)) (int (j_size j) - lp) (pos - lp) (d_oob_char (j_dp j)) w);
     if m = DESYNC_FAKE then
       (if first
        then do {
          (pkt, addr, info, w) \<leftarrow> get_tcp_fake (j_data j) (j_n j) info (j_dp j) w;
          (case addr of
             None \<Rightarrow> Some (None, info, w)
           | Some a \<Rightarrow> do {
               let w = upd_ev v (\<lambda>e. e\<lparr>e_restore_fake := Some a, e_restore_fake_len := nat (pk_size pkt)\<rparr>) w;
               (s, w) \<leftarrow> (if pos \<noteq> lp then send_fake v (pos - lp) (j_dp j) pkt w else Some (0, w));
               Some (Some s, info, w) }) }
        else do { (s, w) \<leftarrow> plain w; Some (Some s, info, w) })
     else if m = DESYNC_OOB then do { (s, w) \<leftarrow> oob w; Some (Some s, info, w) }
     else if m = DESYNC_DISORDER \<or> m = DESYNC_DISOOB then do {
       let (t, w) = (if first then setttl fd 1 w else (0, w));
       if t < 0 then Some (Some (- 1), info, w)
       else do {
         let w = upd_ev v (\<lambda>e. e\<lparr>e_restore_ttl := True\<rparr>) w;
         (s, w) \<leftarrow> (if m = DESYNC_DISOOB then oob w else plain w);
         Some (Some s, info, w) } }
     else do { (s, w) \<leftarrow> plain w; Some (Some s, info, w) } }"

datatype round_end = Go_on int | Leave_loop int | Return_now int bool

text \<open>
  One round of the loop. \<open>Go_on lp\<close> continues with that \<open>lp\<close>, \<open>Leave_loop lp\<close> is a
  break, \<open>Return_now r wait\<close> a return, with \<open>*wait\<close> set or not.
\<close>

definition after_send ::
    "split_job \<Rightarrow> bool \<Rightarrow> nat \<Rightarrow> int \<Rightarrow> int \<Rightarrow> int \<Rightarrow> proc \<Rightarrow> (round_end \<times> proc) option" where
  "after_send j first curr_part lp pos s w = do {
     let v = j_val j;
     let w = (if first then w else upd_ev (j_pair j) (\<lambda>e. e\<lparr>e_part_sent := curr_part\<rparr>) w);
     if s = ERR_WAIT then do {
       w \<leftarrow> set_timer v (p_await_int (params w)) w;
       Some (Return_now (lp - j_offset j) True, w) }
     else if s < 0 then Some (Return_now (if get_e w = EAGAIN then lp - j_offset j else - 1) False, w)
     else if s \<noteq> pos - lp then Some (Return_now (lp + s - j_offset j) False, w)
     else do {
       let lp = (if first then lp else lp + s);
       let (notsent, w) = sock_has_notsent (e_fd (items w v)) w;
       if notsent \<or> (p_wait_send (params w) \<and> curr_part > j_part_skip j) then do {
         w \<leftarrow> set_timer v (p_await_int (params w)) w;
         Some (Return_now ((if first then lp else pos) - j_offset j) True, w) }
       else Some (Go_on (if first then lp else pos), restore_state v w) } }"

definition split_round ::
    "split_job \<Rightarrow> part \<Rightarrow> int \<Rightarrow> nat \<Rightarrow> int \<Rightarrow> proto_info \<Rightarrow> proc \<Rightarrow> (round_end \<times> proto_info \<times> proc) option" where
  "split_round j part r curr_part lp info w = do {
     (pos, info, w) \<leftarrow> gen_offset (pt_pos part) (pt_flag part) (j_data j) (nat (j_n j)) lp info w;
     let pos = pos + pt_s part * (pt_r part - r);
     let first = first_of_pair part r;
     if (((j_skip j \<noteq> 0 \<and> pos < j_skip j) \<or> curr_part < j_part_skip j) \<and> pt_flag part AND OFFSET_START = 0)
        \<or> (j_offset j \<noteq> 0 \<and> pos < j_offset j)
     then Some (Go_on lp, info, w)
     else if pos < 0 \<or> pos < lp then Some (Leave_loop lp, info, w)
     else do {
       let pos = (if pos > j_n j then j_n j else pos);
       (s, info, w) \<leftarrow>
         (if curr_part = j_part_skip j then Some (Some (pos - lp), info, w)
          else send_mode j (pt_m part) first lp pos info w);
       (case s of
          None \<Rightarrow> Some (Return_now (- 1) False, info, w)
        | Some s \<Rightarrow> do { (e, w) \<leftarrow> after_send j first curr_part lp pos s w; Some (e, info, w) }) } }"

text \<open>The rest of the data goes out in one piece.\<close>

definition send_rest :: "split_job \<Rightarrow> int \<Rightarrow> proc \<Rightarrow> (int \<times> proc) option" where
  "send_rest j lp w =
     (if lp < j_n j
      then do {
        bs \<leftarrow> slice (j_data j) (nat lp) (nat (j_n j - lp));
        let (s, w) = send (e_fd (items w (j_val j))) bs w;
        Some (if s < 0 then (if get_e w = EAGAIN then lp - j_offset j else - 1) else j_n j - j_offset j, w) }
      else Some (j_n j - j_offset j, w))"

function split_loop ::
    "split_job \<Rightarrow> part list \<Rightarrow> part \<Rightarrow> int \<Rightarrow> nat \<Rightarrow> int \<Rightarrow> proto_info \<Rightarrow> proc \<Rightarrow> (int \<times> bool \<times> proc) option" where
  "split_loop j parts part r curr_part lp info w =
     (if r \<le> 0 \<and> parts = [] then do { (s, w) \<leftarrow> send_rest j lp w; Some (s, False, w) }
      else do {
        let part' = (if r \<le> 0 then hd parts else part);
        let parts' = (if r \<le> 0 then tl parts else parts);
        let r' = (if r \<le> 0 then pt_r part' else r);
        (e, info, w) \<leftarrow> split_round j part' r' (curr_part + 1) lp info w;
        (case e of
           Go_on lp \<Rightarrow> split_loop j parts' part' (r' - 1) (curr_part + 1) lp info w
         | Leave_loop lp \<Rightarrow> do { (s, w) \<leftarrow> send_rest j lp w; Some (s, False, w) }
         | Return_now s wait \<Rightarrow> Some (s, wait, w)) })"
  by pat_completeness auto
termination
  by (relation "measures [\<lambda>(j, parts, p, r, c, lp, i, w). length parts, \<lambda>(j, parts, p, r, c, lp, i, w). nat r]")
     (auto simp: length_greater_0_conv)

declare split_loop.simps [simp del]

text \<open>
  \<open>desync\<close> on the buffer \<open>b\<close>: the returned count, the new \<open>*np\<close>, whether \<open>*wait\<close>
  was set, and the process.
\<close>

definition desync :: "nat \<Rightarrow> nat \<Rightarrow> int \<Rightarrow> proc \<Rightarrow> (int \<times> int \<times> bool \<times> proc) option" where
  "desync v b np w = do {
     p \<leftarrow> e_pair (items w v);
     d \<leftarrow> e_dp (items w p);
     x \<leftarrow> bufs w b;
     let dp = groups w d;
     let skip = e_round_sent (items w p);
     let part_skip = e_part_sent (items w p);
     info \<leftarrow> (if skip = 0 \<and> LOG_ENABLED w then init_proto_info (b_data x) (nat np) no_info else Some no_info);
     (data, n, info, w) \<leftarrow>
       (if skip = 0 then tamp (b_data x) (b_size x) np dp info w else Some (b_data x, np, info, w));
     w \<leftarrow> upd_buf b (\<lambda>x. x\<lparr>b_data := data\<rparr>) w;
     let j = \<lparr>j_val = v, j_pair = p, j_dp = dp, j_data = data, j_size = b_size x, j_n = n,
              j_offset = b_offset x, j_skip = skip, j_part_skip = part_skip\<rparr>;
     (r, wait, w) \<leftarrow> split_loop j (d_parts dp) no_part 0 0 (b_offset x) info w;
     Some (r, n, wait, w) }"

definition pre_desync :: "int \<Rightarrow> desync_params \<Rightarrow> proc \<Rightarrow> int \<times> proc" where
  "pre_desync fd dp w =
     (if d_drop_sack dp then (let (r, w) = drop_sack fd w in (if r \<noteq> 0 then - 1 else 0, w)) else (0, w))"

definition post_desync :: "int \<Rightarrow> desync_params \<Rightarrow> proc \<Rightarrow> int \<times> proc" where
  "post_desync fd dp w =
     (if d_drop_sack dp
      then (let (r, w) = setsockopt fd SO_DETACH_FILTER [0] w in (if r = - 1 then - 1 else 0, w)) else (0, w))"

section \<open>UDP\<close>

fun send_fakes :: "nat \<Rightarrow> int \<Rightarrow> mem \<Rightarrow> proc \<Rightarrow> bool \<times> proc" where
  "send_fakes 0 fd bs w = (True, w)"
| "send_fakes (Suc k) fd bs w =
     (let (len, w) = send fd bs w in if len < 0 then (False, w) else send_fakes k fd bs w)"

definition udp_fake_data :: "desync_params \<Rightarrow> mem option" where
  "udp_fake_data dp = do {
     let pkt = (if pk_data (d_fake_data dp) \<noteq> None then d_fake_data dp else fake_udp);
     bs \<leftarrow> pk_data pkt;
     let off = pt_pos (d_fake_offset dp);
     if pt_m (d_fake_offset dp) = DESYNC_NONE then slice bs 0 (nat (pk_size pkt))
     else if pk_size pkt > off
       then (if off < 0 then None else slice bs (nat off) (nat (pk_size pkt - off)))
     else Some [] }"

definition desync_udp :: "int \<Rightarrow> mem \<Rightarrow> desync_params \<Rightarrow> proc \<Rightarrow> (int \<times> proc) option" where
  "desync_udp fd bs dp w =
     (if d_udp_fake_count dp \<noteq> 0
      then do {
        fake \<leftarrow> udp_fake_data dp;
        let (r, w) = setttl fd (if d_ttl dp \<noteq> 0 then d_ttl dp else DEFAULT_TTL) w;
        if r < 0 then Some (- 1, w)
        else do {
          let (ok, w) = send_fakes (nat (d_udp_fake_count dp)) fd fake w;
          if \<not> ok then Some (- 1, w)
          else do {
            let (r, w) = setttl fd (p_def_ttl (params w)) w;
            Some (if r < 0 then (- 1, w) else send fd bs w) } } }
      else Some (send fd bs w))"

end
