(* ===== verification/Address.thy ===== *)
theory Address
  imports Desync
begin

text \<open>
  The address formats of byedpi/proxy.c: IPv4-mapped addresses, name resolution, and the
  requests and replies of SOCKS 4, SOCKS 5 and HTTP CONNECT.
\<close>

definition S_AUTH_NONE :: byte where "S_AUTH_NONE = 0"
definition S_AUTH_BAD :: byte where "S_AUTH_BAD = 0xff"
definition S_ATP_I4 :: byte where "S_ATP_I4 = 1"
definition S_ATP_ID :: byte where "S_ATP_ID = 3"
definition S_ATP_I6 :: byte where "S_ATP_I6 = 4"
definition S_CMD_CONN :: byte where "S_CMD_CONN = 1"
definition S_CMD_AUDP :: byte where "S_CMD_AUDP = 3"

definition S_ER_OK :: int where "S_ER_OK = 0"
definition S_ER_GEN :: int where "S_ER_GEN = 1"
definition S_ER_NET :: int where "S_ER_NET = 3"
definition S_ER_HOST :: int where "S_ER_HOST = 4"
definition S_ER_CONN :: int where "S_ER_CONN = 5"
definition S_ER_CMD :: int where "S_ER_CMD = 7"
definition S_ER_ATP :: int where "S_ER_ATP = 8"

definition S_VER5 :: byte where "S_VER5 = 5"
definition S_VER4 :: byte where "S_VER4 = 4"
definition S4_OK :: byte where "S4_OK = 0x5a"
definition S4_ER :: byte where "S4_ER = 0x5b"

definition S_SIZE_MIN :: int where "S_SIZE_MIN = 8"
definition S_SIZE_I4 :: int where "S_SIZE_I4 = 10"
definition S_SIZE_I6 :: int where "S_SIZE_I6 = 22"
definition S_SIZE_ID :: int where "S_SIZE_ID = 7"

section \<open>Addresses\<close>

definition v4_mapped :: "mem \<Rightarrow> bool" where
  "v4_mapped a \<longleftrightarrow> take 12 a = replicate 10 0 @ [255, 255]"

definition map_fix :: "sockaddr_u \<Rightarrow> bool \<Rightarrow> sockaddr_u" where
  "map_fix addr f6 =
     (if sa_family addr = AF_INET \<and> f6
      then addr\<lparr>sa_family := AF_INET6, sin6_addr := replicate 10 0 @ [255, 255] @ sin_addr addr\<rparr>
      else if v4_mapped (sin6_addr addr) \<and> \<not> f6
      then addr\<lparr>sa_family := AF_INET, sin_addr := drop 12 (sin6_addr addr)\<rparr>
      else addr)"

definition addr_equ :: "sockaddr_u \<Rightarrow> sockaddr_u \<Rightarrow> bool" where
  "addr_equ a b \<longleftrightarrow>
     (if sa_family a = AF_INET then sin_addr a = sin_addr b else sin6_addr a = sin6_addr b)"

text \<open>\<open>memcpy\<close> of \<open>SA_SIZE\<close> bytes: an IPv4 address brings its padding along.\<close>

definition copy_sa :: "sockaddr_u \<Rightarrow> sockaddr_u \<Rightarrow> sockaddr_u" where
  "copy_sa dst src =
     (if sa_family src = AF_INET6 then src
      else src\<lparr>sin6_addr := take 8 (sin6_addr src) @ drop 8 (sin6_addr dst), sin6_scope := sin6_scope dst\<rparr>)"

definition resolve :: "mem \<Rightarrow> nat \<Rightarrow> int \<Rightarrow> sockaddr_u \<Rightarrow> nat \<Rightarrow> proc \<Rightarrow> (int \<times> sockaddr_u \<times> proc) option" where
  "resolve m p len addr type w = do {
     host \<leftarrow> slice m p (nat len);
     let (a, w) = sys (Getaddrinfo host (if p_ipv6 (params w) then AF_UNSPEC else AF_INET) type
                        (\<not> p_resolve (params w))) w;
     Some (if a_ret a \<noteq> 0 then (- 1, addr, w) else (0, copy_sa addr (a_addr a), w)) }"

section \<open>SOCKS 5\<close>

text \<open>The method \<open>auth_socks5\<close> answers, when the greeting is well formed.\<close>

definition auth_method :: "mem \<Rightarrow> nat \<Rightarrow> byte" where
  "auth_method buffer n = (if S_AUTH_NONE \<in> set (drop 2 (take n buffer)) then S_AUTH_NONE else S_AUTH_BAD)"

definition auth_socks5 :: "int \<Rightarrow> mem \<Rightarrow> nat \<Rightarrow> proc \<Rightarrow> (int \<times> proc) option" where
  "auth_socks5 fd buffer n w =
     (if n \<le> 2 then Some (- 1, w)
      else do {
        k \<leftarrow> ld buffer 1;
        if unat k \<noteq> (n - 2) mod 256 then Some (- 1, w)
        else if n > length buffer then None
        else
          (let c = auth_method buffer n; (r, w) = send fd [S_VER5, c] w in
           Some (if r < 0 then (- 1, w) else (if c \<noteq> S_AUTH_BAD then 0 else - 1, w))) })"

definition resp_s5_error :: "int \<Rightarrow> int \<Rightarrow> proc \<Rightarrow> int \<times> proc" where
  "resp_s5_error fd e w = send fd ([5, word_of_int e, 0, S_ATP_I4] @ replicate 6 0) w"

definition s5_code :: "nat \<Rightarrow> int" where
  "s5_code e =
     (if e = 0 then S_ER_OK
      else if e = ECONNREFUSED then S_ER_CONN
      else if e = EHOSTUNREACH \<or> e = ETIMEDOUT then S_ER_HOST
      else if e = ENETUNREACH then S_ER_NET
      else S_ER_GEN)"

definition resp_error :: "int \<Rightarrow> nat \<Rightarrow> nat \<Rightarrow> proc \<Rightarrow> int \<times> proc" where
  "resp_error fd e flag w =
     (if flag = FLAG_S4 then send fd ([0, if e \<noteq> 0 then S4_ER else S4_OK] @ replicate 6 0) w
      else if flag = FLAG_S5 then resp_s5_error fd (s5_code e) w
      else if flag = FLAG_HTTP
        then send fd (bytes_of (if e = 0 then ''HTTP/1.1 200 OK'' else ''HTTP/1.1 503 Fail'') @ [13, 10, 13, 10]) w
      else if e \<noteq> 0 then
        (let (r, w) = setsockopt fd SO_LINGER [1, 0] w in (if r < 0 then - 1 else 0, w))
      else (0, w))"

text \<open>
  The request at index \<open>p\<close> of the object \<open>m\<close>; \<open>p\<close> is negative when the caller has no
  room for the first three bytes.
\<close>

definition get_bytes :: "mem \<Rightarrow> int \<Rightarrow> nat \<Rightarrow> mem option" where
  "get_bytes m p n = (if p < 0 then None else slice m (nat p) n)"

definition s5_size :: "byte \<Rightarrow> byte \<Rightarrow> int" where
  "s5_size atp len =
     (if atp = S_ATP_I4 then S_SIZE_I4
      else if atp = S_ATP_ID then int (unat len) + S_SIZE_ID
      else if atp = S_ATP_I6 then S_SIZE_I6 else 0)"

definition s5_get_addr ::
    "mem \<Rightarrow> int \<Rightarrow> int \<Rightarrow> sockaddr_u \<Rightarrow> nat \<Rightarrow> proc \<Rightarrow> (int \<times> sockaddr_u \<times> proc) option" where
  "s5_get_addr m p n addr type w =
     (if n < S_SIZE_MIN then Some (- S_ER_GEN, addr, w)
      else do {
        atp \<leftarrow> ldz m (p + 3);
        len \<leftarrow> (if atp = S_ATP_ID then ldz m (p + 4) else Some 0);
        let off = s5_size atp len;
        if n < off then Some (- S_ER_GEN, addr, w)
        else do {
          (err, addr, w) \<leftarrow>
            (if atp = S_ATP_I4
             then do { ip \<leftarrow> get_bytes m (p + 4) 4; Some (0, addr\<lparr>sa_family := AF_INET, sin_addr := ip\<rparr>, w) }
             else if atp = S_ATP_ID
             then
               (if \<not> p_resolve (params w) then Some (- S_ER_ATP, addr, w)
                else if unat len < 3 then Some (- S_ER_HOST, addr, w)
                else if p + 5 < 0 then None
                else do {
                  (r, addr, w) \<leftarrow> resolve m (nat (p + 5)) (int (unat len)) addr type w;
                  Some (if r \<noteq> 0 then - S_ER_HOST else 0, addr, w) })
             else if atp = S_ATP_I6
             then
               (if \<not> p_ipv6 (params w) then Some (- S_ER_ATP, addr, w)
                else do { ip \<leftarrow> get_bytes m (p + 4) 16; Some (0, addr\<lparr>sa_family := AF_INET6, sin6_addr := ip\<rparr>, w) })
             else Some (0, addr, w));
          if err \<noteq> 0 then Some (err, addr, w)
          else do {
            a \<leftarrow> ldz m (p + off - 2);
            b \<leftarrow> ldz m (p + off - 1);
            Some (off, addr\<lparr>sin_port := le16 a b\<rparr>, w) } } })"

definition put_bytes :: "mem \<Rightarrow> int \<Rightarrow> mem \<Rightarrow> mem option" where
  "put_bytes m p bs = (if p < 0 then None else memcpy m (nat p) bs)"

definition s5_set_addr :: "mem \<Rightarrow> int \<Rightarrow> int \<Rightarrow> sockaddr_u \<Rightarrow> bool \<Rightarrow> (mem \<times> int) option" where
  "s5_set_addr m p n addr at_end =
     (if n < S_SIZE_I4 then Some (m, - 1)
      else if sa_family addr = AF_INET
      then do {
        let r = (if at_end then p - S_SIZE_I4 else p);
        m \<leftarrow> put_bytes m (r + 3) [S_ATP_I4];
        m \<leftarrow> put_bytes m (r + 4) (sin_addr addr);
        m \<leftarrow> put_bytes m (r + 8) (le16_bytes (sin_port addr));
        Some (m, S_SIZE_I4) }
      else if n < S_SIZE_I6 then Some (m, - 1)
      else do {
        let r = (if at_end then p - S_SIZE_I6 else p);
        m \<leftarrow> put_bytes m (r + 3) [S_ATP_I6];
        m \<leftarrow> put_bytes m (r + 4) (sin6_addr addr);
        m \<leftarrow> put_bytes m (r + 20) (le16_bytes (sin_port addr));
        Some (m, S_SIZE_I6) })"

section \<open>SOCKS 4 and HTTP\<close>

function strchr0 :: "mem \<Rightarrow> nat \<Rightarrow> nat option" where
  "strchr0 m p = (if p < length m then (if m ! p = 0 then Some p else strchr0 m (p + 1)) else None)"
  by pat_completeness auto
termination
  by (relation "measure (\<lambda>(m, p). length m - p)") auto

declare strchr0.simps [simp del]

definition s4_get_addr :: "mem \<Rightarrow> nat \<Rightarrow> sockaddr_u \<Rightarrow> proc \<Rightarrow> (int \<times> sockaddr_u \<times> proc) option" where
  "s4_get_addr m n dst w =
     (if n < 9 then Some (- 1, dst, w)
      else do {
        cmd \<leftarrow> ld m 1;
        if cmd \<noteq> S_CMD_CONN then Some (- 1, dst, w)
        else do {
          ip \<leftarrow> slice m 4 4;
          (err, dst, w) \<leftarrow>
            (if take 3 ip = [0, 0, 0]
             then do {
               last \<leftarrow> ld m (n - 1);
               if \<not> p_resolve (params w) \<or> last \<noteq> 0 then Some (- 1, dst, w)
               else do {
                 id_end \<leftarrow> strchr0 m 8;
                 let len = int n - int id_end - 2;
                 if len < 3 \<or> len > 255 then Some (- 1, dst, w)
                 else do {
                   (r, dst, w) \<leftarrow> resolve m (id_end + 1) len dst SOCK_STREAM w;
                   Some (if r \<noteq> 0 then - 1 else 0, dst, w) } } }
             else Some (0, dst\<lparr>sa_family := AF_INET, sin_addr := ip\<rparr>, w));
          if err \<noteq> 0 then Some (err, dst, w)
          else do { a \<leftarrow> ld m 2; b \<leftarrow> ld m 3; Some (0, dst\<lparr>sin_port := le16 a b\<rparr>, w) } } })"

definition http_get_addr :: "mem \<Rightarrow> nat \<Rightarrow> sockaddr_u \<Rightarrow> proc \<Rightarrow> (int \<times> sockaddr_u \<times> proc) option" where
  "http_get_addr m n dst w = do {
     h \<leftarrow> parse_http m n True;
     if hh_len h < 3 \<or> hh_len h > 255 then Some (- 1, dst, w)
     else do {
       p \<leftarrow> hh_pos h;
       (r, dst, w) \<leftarrow> resolve m p (hh_len h) dst SOCK_STREAM w;
       if r \<noteq> 0 then Some (- 1, dst, w)
       else Some (0, dst\<lparr>sin_port := htons (case hh_port h of None \<Rightarrow> 0 | Some q \<Rightarrow> q)\<rparr>, w) } }"

definition tls_get_addr :: "mem \<Rightarrow> nat \<Rightarrow> sockaddr_u \<Rightarrow> proc \<Rightarrow> (int \<times> sockaddr_u \<times> proc) option" where
  "tls_get_addr m n dst w = do {
     (len, pos) \<leftarrow> parse_tls m n;
     if len < 3 \<or> len > 255 then Some (- 1, dst, w)
     else do {
       (r, dst, w) \<leftarrow>
         (if p_resolve (params w)
          then do { p \<leftarrow> pos; resolve m p (int len) dst SOCK_STREAM w }
          else Some (0, dst, w));
       if r \<noteq> 0 then Some (- 1, dst, w) else Some (0, dst\<lparr>sin_port := htons 443\<rparr>, w) } }"

section \<open>Connections\<close>

text \<open>On Android a socket is protected by a call into the VPN service.\<close>

definition android_protect :: "int \<Rightarrow> proc \<Rightarrow> int \<times> proc" where
  "android_protect fd w = call (Protect fd) w"

definition nb_socket :: "nat \<Rightarrow> nat \<Rightarrow> proc \<Rightarrow> int \<times> proc" where
  "nb_socket fam type w =
     (let (fd, w) = call (Socket fam type) w in
      if fd < 0 then (- 1, w) else (fd, snd (android_protect fd w)))"

definition socket_mod :: "int \<Rightarrow> proc \<Rightarrow> int \<times> proc" where
  "socket_mod fd w =
     (let (r, w) = (if p_custom_ttl (params w) then setttl fd (p_def_ttl (params w)) w else (0, w)) in
      if r < 0 then (- 1, w)
      else if p_protect_path (params w) \<noteq> None then android_protect fd w
      else (0, w))"

text \<open>Either a result is negative and the socket is closed, or the socket is returned.\<close>

definition close_on_error :: "int \<Rightarrow> bool \<Rightarrow> proc \<Rightarrow> int \<times> proc" where
  "close_on_error fd bad w = (if bad then (- 1, close_fd fd w) else (fd, w))"

definition remote_sock :: "sockaddr_u \<Rightarrow> nat \<Rightarrow> proc \<Rightarrow> int \<times> sockaddr_u \<times> proc" where
  "remote_sock dst type w =
     (let baddr = p_baddr (params w); dst = map_fix dst (sa_family baddr = AF_INET6) in
      if sa_family dst \<noteq> sa_family baddr then (- 1, dst, w)
      else
        (let (fd, w) = nb_socket (sa_family dst) type w in
         if fd < 0 then (- 1, dst, w)
         else
           (let (r, w) = socket_mod fd w; (fd, w) = close_on_error fd (r < 0) w in
            if fd < 0 then (- 1, dst, w)
            else
              (let (r, w) = (if sa_family dst = AF_INET6 then setsockopt fd IPV6_V6ONLY [0] w else (0, w));
                   (fd, w) = close_on_error fd (r \<noteq> 0) w in
               if fd < 0 then (- 1, dst, w)
               else
                 (let (r, w) = call (Bind fd baddr) w; (fd, w) = close_on_error fd (r < 0) w in (fd, dst, w))))))"

text \<open>The options of a new connection's socket, up to \<open>connect\<close>.\<close>

definition conn_options :: "int \<Rightarrow> proc \<Rightarrow> int \<times> proc" where
  "conn_options fd w =
     (let (r, w) = setsockopt fd TCP_SYNCNT [1] w; (fd, w) = close_on_error fd (r \<noteq> 0) w in
      if fd < 0 then (- 1, w)
      else
        (let (r, w) = (if p_tfo (params w) then setsockopt fd TCP_FASTOPEN_CONNECT [1] w else (0, w));
             (fd, w) = close_on_error fd (r \<noteq> 0) w in
         if fd < 0 then (- 1, w)
         else
           (let w = snd (setsockopt fd SO_KEEPALIVE [1] w); (r, w) = setsockopt fd TCP_NODELAY [1] w in
            close_on_error fd (r \<noteq> 0) w)))"

definition create_conn :: "nat \<Rightarrow> sockaddr_u \<Rightarrow> callback \<Rightarrow> proc \<Rightarrow> (int \<times> proc) option" where
  "create_conn v dst next w =
     (let (fd, addr, w) = remote_sock dst SOCK_STREAM w in
      if fd < 0 then Some (- 1, w)
      else
        (let (fd, w) = conn_options fd w in
         if fd < 0 then Some (- 1, w)
         else
           (let (status, w) = call (Connect fd addr) w in
            if status < 0 \<and> get_e w \<noteq> EINPROGRESS \<and> get_e w \<noteq> EAGAIN then Some (- 1, close_fd fd w)
            else do {
              (pair, w) \<leftarrow> add_event next fd POLLOUT w;
              (case pair of
                 None \<Rightarrow> Some (- 1, close_fd fd w)
               | Some p \<Rightarrow> do {
                   (r, w) \<leftarrow> mod_etype v 0 w;
                   if r < 0 then Some (- 1, w)
                   else
                     Some (0, upd_ev v (\<lambda>e. e\<lparr>e_cb := Some On_ignore\<rparr>)
                                (upd_ev p (\<lambda>e. e\<lparr>e_pair := Some v, e_addr := dst, e_flag := FLAG_CONN\<rparr>)
                                  (upd_ev v (\<lambda>e. e\<lparr>e_pair := Some p\<rparr>) w))) }) })))"

end
