(* ===== verification/Extend.thy ===== *)
theory Extend
  imports Address
begin

text \<open>
  byedpi/extend.c: which group of options a connection uses. The groups form a list of
  strategies; \<open>find_dp\<close> takes the first that fits and was not tried, a failure goes through
  \<open>on_trigger\<close>, which marks the group as tried, remembers the choice for the address in a
  cache and connects again. The hooks are what the tunnel calls to send and to receive.
\<close>

section \<open>The cache of addresses\<close>

definition key_offset :: int where
  "key_offset = 4"

text \<open>The bytes of the packed \<open>struct cache_key\<close>, all twenty, and how many are in use.\<close>

definition serialize_addr :: "sockaddr_u \<Rightarrow> mem \<times> int" where
  "serialize_addr dst =
     (let head = le16_bytes (sa_family dst) @ le16_bytes (sin_port dst) in
      if sa_family dst = AF_INET then (head @ sin_addr dst @ replicate 12 0, key_offset + 4)
      else (head @ sin6_addr dst, key_offset + 16))"

text \<open>\<open>a[by] >> bi\<close> on a plain \<open>char\<close> promoted to \<open>int\<close>.\<close>

fun shift_differs :: "bool \<Rightarrow> byte \<Rightarrow> byte \<Rightarrow> nat \<Rightarrow> nat \<Rightarrow> nat" where
  "shift_differs sg a b bi 0 = bi"
| "shift_differs sg a b bi (Suc k) =
     (if cval sg a div 2 ^ bi \<noteq> cval sg b div 2 ^ bi then shift_differs sg a b (bi + 1) k else bi)"

fun common_bytes :: "mem \<Rightarrow> mem \<Rightarrow> nat \<Rightarrow> nat \<Rightarrow> nat option" where
  "common_bytes a b by 0 = Some by"
| "common_bytes a b by (Suc k) = do {
     x \<leftarrow> ld a by;
     y \<leftarrow> ld b by;
     if x = y then common_bytes a b (by + 1) k else Some by }"

definition eq_bitlen :: "bool \<Rightarrow> mem \<Rightarrow> mem \<Rightarrow> nat \<Rightarrow> int option" where
  "eq_bitlen sg a b n = do {
     by \<leftarrow> common_bytes a b 0 n;
     bi \<leftarrow> (if by \<noteq> n then do { x \<leftarrow> ld a by; y \<leftarrow> ld b by; Some (shift_differs sg x y 0 8) } else Some 0);
     Some (int by * 8 + 8 - int bi) }"

definition set_mempool :: "mphdr \<Rightarrow> proc \<Rightarrow> proc" where
  "set_mempool h w = w\<lparr>params := (params w)\<lparr>p_mempool := Some h\<rparr>\<rparr>"

text \<open>A cached element is given by its address; its data are in the store \<open>cache\<close>.\<close>

definition cache_get :: "sockaddr_u \<Rightarrow> proc \<Rightarrow> (nat option \<times> proc) option" where
  "cache_get dst w = do {
     let (ck, len) = serialize_addr dst;
     pool \<leftarrow> p_mempool (params w);
     (case mem_get (char_signed w) pool ck (len * 8) of
        None \<Rightarrow> Some (None, w)
      | Some e \<Rightarrow> do {
          let x = cache w (el_addr e);
          d \<leftarrow> c_dp x;
          let ttl = d_cache_ttl (groups w d);
          let (t, w) = call Time w;
          if ttl \<noteq> 0 \<and> t > c_time x + ttl
          then do {
            (pool, _) \<leftarrow> mem_delete (char_signed w) pool ck len;
            Some (None, set_mempool pool w) }
          else Some (Some (el_addr e), w) }) }"

text \<open>The number of bits compared for a new entry (option cache-merge).\<close>

definition cache_bits :: "sockaddr_u \<Rightarrow> mem \<Rightarrow> int \<Rightarrow> mphdr \<Rightarrow> proc \<Rightarrow> int option" where
  "cache_bits dst ck bytes pool w =
     (if sa_family dst = AF_INET \<and> p_cache_pre (params w) \<noteq> 0
      then (case mem_get (char_signed w) pool ck (bytes * 8 - p_cache_pre (params w)) of
              None \<Rightarrow> Some (bytes * 8)
            | Some e \<Rightarrow> eq_bitlen (char_signed w) ck (el_data e) (nat bytes))
      else Some (bytes * 8))"

text \<open>The host is that of the client \<open>l\<close>: a new entry takes it over.\<close>

definition cache_add :: "sockaddr_u \<Rightarrow> nat \<Rightarrow> proc \<Rightarrow> (nat option \<times> proc) option" where
  "cache_add dst l w = do {
     let (ck, bytes) = serialize_addr dst;
     let (t, w) = call Time w;
     pool \<leftarrow> p_mempool (params w);
     cmp_len \<leftarrow> cache_bits dst ck bytes pool w;
     let (dat, w) = alloc (nat bytes) w;
     (case dat of
        None \<Rightarrow> Some (None, w)
      | Some _ \<Rightarrow> do {
          let (new, w) = alloc 96 w;
          let w = (case new of None \<Rightarrow> w | Some a \<Rightarrow> upd_cache a (\<lambda>_. zero_cache) w);
          (pool, e, _) \<leftarrow> mem_add (char_signed w) pool new (take (nat bytes) ck) cmp_len;
          (case e of
             None \<Rightarrow> Some (None, w)
           | Some e \<Rightarrow> do {
               let a = el_addr e;
               let w = upd_cache a (\<lambda>x. x\<lparr>c_time := t\<rparr>) (set_mempool pool w);
               let w =
                 (if c_extra (cache w a) = None \<and> e_host (items w l) \<noteq> None
                  then upd_ev l (\<lambda>e. e\<lparr>e_host := None\<rparr>)
                         (upd_cache a (\<lambda>x. x\<lparr>c_extra := e_host (items w l),
                            c_extra_len := nat (e_host_len (items w l) mod 2 ^ 32)\<rparr>) w)
                  else w);
               Some (Some a, w) }) }) }"

section \<open>Filters\<close>

definition check_host :: "mphdr \<Rightarrow> mem \<Rightarrow> nat \<Rightarrow> proc \<Rightarrow> bool option" where
  "check_host hosts buffer n w = do {
     (tl, tp) \<leftarrow> parse_tls buffer n;
     (len, host) \<leftarrow>
       (if tl \<noteq> 0 then Some (int tl, tp)
        else do { h \<leftarrow> parse_http buffer n False; Some (hh_len h, (case hh_pos h of Some p \<Rightarrow> Some p | None \<Rightarrow> tp)) });
     assert_c (len = 0 \<or> host \<noteq> None) w;
     if len \<le> 0 then Some False
     else do {
       p \<leftarrow> host;
       (case mem_get (char_signed w) hosts (drop p buffer) len of
          None \<Rightarrow> Some False
        | Some e \<Rightarrow> Some (el_len e \<le> len)) } }"

definition check_ip :: "mphdr \<Rightarrow> sockaddr_u \<Rightarrow> proc \<Rightarrow> bool" where
  "check_ip ipset dst w =
     (let (bytes, len) = (if sa_family dst = AF_INET6 then (sin6_addr dst, 16) else (sin_addr dst, 4)) in
      mem_get (char_signed w) ipset bytes (len * 8) \<noteq> None)"

definition check_proto_tcp :: "nat \<Rightarrow> mem \<Rightarrow> nat \<Rightarrow> bool option" where
  "check_proto_tcp proto buffer n =
     (if proto AND IS_IPV4 = proto then Some True
      else do {
        http \<leftarrow> (if proto AND IS_HTTP \<noteq> 0 then is_http buffer n else Some False);
        if http then Some True
        else if proto AND IS_HTTPS \<noteq> 0 then is_tls_chello buffer n else Some False })"

definition check_l34 :: "desync_params \<Rightarrow> nat \<Rightarrow> sockaddr_u \<Rightarrow> proc \<Rightarrow> bool" where
  "check_l34 dp type dst w \<longleftrightarrow>
     \<not> (d_proto dp AND IS_UDP \<noteq> 0 \<and> type \<noteq> SOCK_DGRAM) \<and>
     \<not> (d_proto dp AND IS_TCP \<noteq> 0 \<and> type \<noteq> SOCK_STREAM) \<and>
     \<not> (d_proto dp AND IS_IPV4 \<noteq> 0 \<and> sa_family dst \<noteq> AF_INET \<and> \<not> v4_mapped (sin6_addr dst)) \<and>
     \<not> (fst (d_pf dp) \<noteq> 0 \<and> (sin_port dst < fst (d_pf dp) \<or> sin_port dst > snd (d_pf dp))) \<and>
     (case d_ipset dp of None \<Rightarrow> True | Some s \<Rightarrow> check_ip s dst w)"

definition check_round :: "int \<times> int \<Rightarrow> int \<Rightarrow> bool" where
  "check_round nr r \<longleftrightarrow> (snd nr = 0 \<and> r \<le> 1) \<or> (r \<ge> fst nr \<and> r \<le> snd nr)"

text \<open>Whether a group fits a client: the condition inside the loop of \<open>find_dp\<close>.\<close>

definition dp_fits ::
    "nat \<Rightarrow> nat option \<Rightarrow> eval \<Rightarrow> (mem \<times> nat) option \<Rightarrow> sockaddr_u \<Rightarrow> proc \<Rightarrow> bool option" where
  "dp_fits d init_dp client buff dst w =
     (let dp = groups w d in
      if \<not> (d_bit dp AND e_dp_mask client = 0
            \<and> (Some d = init_dp \<or> d_detect dp = 0 \<or> e_detect client AND d_detect dp \<noteq> 0)
            \<and> check_l34 dp SOCK_STREAM dst w)
      then Some False
      else
        (case buff of
           None \<Rightarrow> Some True
         | Some (b, n) \<Rightarrow> do {
             p \<leftarrow> (if d_proto dp = 0 then Some True else check_proto_tcp (d_proto dp) b n);
             if \<not> p then Some False
             else (case d_hosts dp of None \<Rightarrow> Some True | Some h \<Rightarrow> check_host h b n w) }))"

partial_function (option) find_dp_loop ::
    "nat \<Rightarrow> nat option \<Rightarrow> nat option \<Rightarrow> (mem \<times> nat) option \<Rightarrow> sockaddr_u \<Rightarrow> proc \<Rightarrow> (nat option \<times> proc) option" where
  [code]: "find_dp_loop c init_dp dp buff dst w = do {
     let dp = (if dp = None then p_dp (params w) else dp);
     if e_dp_mask (items w c) = p_dp_full_mask (params w) then Some (None, w)
     else do {
       d \<leftarrow> dp;
       ok \<leftarrow> dp_fits d init_dp (items w c) buff dst w;
       if ok then Some (Some d, w)
       else find_dp_loop c init_dp (d_next (groups w d)) buff dst
              (upd_ev c (\<lambda>e. e\<lparr>e_dp_mask := e_dp_mask e OR d_bit (groups w d)\<rparr>) w) } }"

definition find_dp :: "nat \<Rightarrow> (mem \<times> nat) option \<Rightarrow> sockaddr_u \<Rightarrow> proc \<Rightarrow> (nat option \<times> proc) option" where
  "find_dp c buff dst w = do {
     buff \<leftarrow>
       (case (buff, e_buff (items w c)) of
          (None, Some b) \<Rightarrow> do { x \<leftarrow> bufs w b; Some (Some (b_data x, nat (b_lock x))) }
        | _ \<Rightarrow> Some buff);
     find_dp_loop c (e_dp (items w c)) (e_dp (items w c)) buff dst w }"

section \<open>Connecting\<close>

definition connect_hook :: "nat \<Rightarrow> sockaddr_u \<Rightarrow> callback \<Rightarrow> proc \<Rightarrow> (int \<times> proc) option" where
  "connect_hook v dst next w = do {
     w \<leftarrow>
       (if e_dp (items w v) = None
        then do {
          (c, w) \<leftarrow> cache_get dst w;
          Some (case c of None \<Rightarrow> w
                | Some a \<Rightarrow> upd_ev v (\<lambda>e. e\<lparr>e_dp_mask := c_dp_mask (cache w a), e_detect := c_detect (cache w a),
                                           e_dp := c_dp (cache w a)\<rparr>) w) }
        else Some w);
     (dp, w) \<leftarrow> find_dp v None dst w;
     (case dp of
        None \<Rightarrow> Some (- 1, w)
      | Some d \<Rightarrow> do {
          let w = upd_ev v (\<lambda>e. e\<lparr>e_dp := Some d\<rparr>) w;
          let g = groups w d;
          if (d_hosts g \<noteq> None \<or> d_proto g \<noteq> 0) \<and> e_buff (items w v) = None \<and> p_delay_conn (params w)
          then do {
            let (r, w) = resp_error (e_fd (items w v)) 0 (e_flag (items w v)) w;
            if r < 0 then Some (- 1, w)
            else Some (0, upd_ev v (\<lambda>e. e\<lparr>e_cb := Some Recv_and_connect, e_addr := dst\<rparr>) w) }
          else if d_out_type g \<noteq> 0
          then do {
            (r, w) \<leftarrow> create_conn v (d_out_addr g) (if d_out_type g = MODE_SOCKS5 then On_socks_conn else next) w;
            (if r = 0
             then do {
               p \<leftarrow> e_pair (items w v);
               Some (r, upd_ev p (\<lambda>e. e\<lparr>e_after_conn_cb := Some next, e_addr := dst\<rparr>) w) }
             else Some (r, w)) }
          else create_conn v dst next w }) }"

definition set_timeout :: "int \<Rightarrow> nat \<Rightarrow> proc \<Rightarrow> int \<times> proc" where
  "set_timeout fd s w = (let (r, w) = setsockopt fd TCP_USER_TIMEOUT [int s] w in (if r \<noteq> 0 then - 1 else 0, w))"

definition save_hostname :: "nat \<Rightarrow> mem \<Rightarrow> nat \<Rightarrow> proc \<Rightarrow> proc option" where
  "save_hostname c buffer n w =
     (if e_host (items w c) \<noteq> None then Some w
      else do {
        (tl, tp) \<leftarrow> parse_tls buffer n;
        (len, host) \<leftarrow>
          (if tl \<noteq> 0 then Some (int tl, tp)
           else do { h \<leftarrow> parse_http buffer n False; Some (hh_len h, (case hh_pos h of Some p \<Rightarrow> Some p | None \<Rightarrow> tp)) });
        if len = 0 then Some w
        else do {
          let (a, w) = alloc (to_size len) w;
          (case a of
             None \<Rightarrow> Some w
           | Some _ \<Rightarrow> do {
               p \<leftarrow> host;
               name \<leftarrow> slice buffer p (to_size len);
               Some (upd_ev c (\<lambda>e. e\<lparr>e_host := Some name, e_host_len := len\<rparr>) w) }) } })"

definition setup_conn :: "nat \<Rightarrow> mem \<Rightarrow> nat \<Rightarrow> proc \<Rightarrow> (int \<times> proc) option" where
  "setup_conn c buffer n w = do {
     p \<leftarrow> e_pair (items w c);
     (dp, w) \<leftarrow> find_dp c (Some (buffer, n)) (e_addr (items w p)) w;
     (case dp of
        None \<Rightarrow> Some (- 1, w)
      | Some d \<Rightarrow> do {
          w \<leftarrow> save_hostname c buffer n w;
          hello \<leftarrow> is_tls_chello buffer n;
          let w = upd_ev c (\<lambda>e. e\<lparr>e_mark := hello, e_dp := Some d\<rparr>) w;
          let fd = e_fd (items w p);
          let (r, w) = (if p_timeout (params w) \<noteq> 0 then set_timeout fd (p_timeout (params w)) w else (0, w));
          if r \<noteq> 0 then Some (- 1, w)
          else do {
            let (r, w) = pre_desync fd (groups w d) w;
            Some (if r \<noteq> 0 then - 1 else 0, w) } }) }"

definition cancel_setup :: "nat \<Rightarrow> proc \<Rightarrow> (int \<times> proc) option" where
  "cancel_setup r w = do {
     c \<leftarrow> e_pair (items w r);
     d \<leftarrow> e_dp (items w c);
     let (x, w) = post_desync (e_fd (items w r)) (groups w d) w;
     Some (if x \<noteq> 0 then - 1 else 0, w) }"

section \<open>Failures\<close>

text \<open>The client's first request is copied back into its buffer before the new connection.\<close>

definition refill :: "nat \<Rightarrow> proc \<Rightarrow> proc option" where
  "refill c w =
     (case e_sq_buff (items w c) of
        None \<Rightarrow> Some w
      | Some q \<Rightarrow> do {
          x \<leftarrow> bufs w q;
          w \<leftarrow> (if e_buff (items w c) = None
               then do { (b, w) \<leftarrow> buff_pop (b_size x) w; Some (upd_ev c (\<lambda>e. e\<lparr>e_buff := b\<rparr>) w) }
               else Some w);
          b \<leftarrow> e_buff (items w c);
          x \<leftarrow> bufs w q;
          y \<leftarrow> bufs w b;
          bs \<leftarrow> (if b_lock x < 0 then None else slice (b_data x) 0 (nat (b_lock x)));
          new \<leftarrow> memcpy (b_data y) 0 bs;
          upd_buf b (\<lambda>y. y\<lparr>b_lock := b_lock x, b_data := new, b_offset := 0\<rparr>) w })"

definition reconnect :: "nat \<Rightarrow> proc \<Rightarrow> (int \<times> proc) option" where
  "reconnect v w = do {
     assert_c (e_flag (items w v) = FLAG_CONN) w;
     c \<leftarrow> e_pair (items w v);
     w \<leftarrow> refill c w;
     let w = upd_ev c (\<lambda>e. e\<lparr>e_round_sent := 0, e_part_sent := 0\<rparr>) w;
     (r, w) \<leftarrow> connect_hook c (e_addr (items w v)) On_connect w;
     if r \<noteq> 0 then Some (- 1, w)
     else do {
       w \<leftarrow> del_event v (upd_ev v (\<lambda>e. e\<lparr>e_pair := None\<rparr>) w);
       Some (0, w) } }"

text \<open>
  Exchanging two groups of the list. Pointers are followed in the store, in the order of
  the assignments of the source.
\<close>

definition follow :: "nat option \<Rightarrow> (desync_params \<Rightarrow> desync_params) \<Rightarrow> proc \<Rightarrow> proc" where
  "follow p f w = (case p of None \<Rightarrow> w | Some d \<Rightarrow> upd_dp d f w)"

definition swop_groups :: "nat \<Rightarrow> nat \<Rightarrow> proc \<Rightarrow> proc option" where
  "swop_groups c n w =
     (let cp = groups w c;
          w = upd_dp c (\<lambda>x. x\<lparr>d_next := d_next (groups w n), d_prev := d_prev (groups w n)\<rparr>) w;
          w = upd_dp n (\<lambda>x. x\<lparr>d_prev := d_prev cp, d_next := d_next cp\<rparr>) w;
          w = follow (d_prev (groups w n)) (\<lambda>x. x\<lparr>d_next := Some n\<rparr>) w;
          w = follow (d_next (groups w c)) (\<lambda>x. x\<lparr>d_prev := Some c\<rparr>) w
      in do {
        w \<leftarrow>
          (if d_next cp \<noteq> Some n
           then do {
             x \<leftarrow> d_next (groups w n);
             let w = upd_dp x (\<lambda>x. x\<lparr>d_prev := Some n\<rparr>) w;
             y \<leftarrow> d_prev (groups w c);
             Some (upd_dp y (\<lambda>x. x\<lparr>d_next := Some c\<rparr>) w) }
           else Some (upd_dp n (\<lambda>x. x\<lparr>d_next := Some c\<rparr>) (upd_dp c (\<lambda>x. x\<lparr>d_prev := Some n\<rparr>) w)));
        let w = upd_dp c (\<lambda>x. x\<lparr>d_detect := d_detect (groups w n), d_auto_level := d_auto_level (groups w n)\<rparr>) w;
        let w = upd_dp n (\<lambda>x. x\<lparr>d_detect := d_detect cp, d_auto_level := d_auto_level cp\<rparr>) w;
        Some (if p_dp (params w) = Some c then w\<lparr>params := (params w)\<lparr>p_dp := Some n\<rparr>\<rparr> else w) })"

text \<open>
  The loop of \<open>on_trigger\<close>: \<open>unch\<close> is the mask \<open>uncheked\<close>, \<open>msk\<close> that of the client.
  The result is the next group, if there is one, and both masks.
\<close>

partial_function (option) next_group ::
    "nat \<Rightarrow> bool \<Rightarrow> nat option \<Rightarrow> 64 word \<Rightarrow> 64 word \<Rightarrow> proc \<Rightarrow> (nat option \<times> 64 word \<times> 64 word) option" where
  [code]: "next_group type can_reconn dp unch msk w =
     (case dp of
        None \<Rightarrow> Some (None, unch, msk)
      | Some d \<Rightarrow>
          (let g = groups w d in
           if unch = 0 \<and> d_detect g = 0 then Some (None, unch, msk)
           else if d_bit g AND msk = 0 \<and> (d_detect g = 0 \<or> d_detect g AND type \<noteq> 0)
                   \<and> (d_auto_level g AND AUTO_ONRECONN = 0 \<or> can_reconn)
             then Some (Some d, unch, msk)
           else next_group type can_reconn (d_next g) (unch AND NOT (d_bit g)) (msk OR d_bit g) w))"

definition on_trigger :: "nat \<Rightarrow> nat \<Rightarrow> bool \<Rightarrow> proc \<Rightarrow> (int \<times> proc) option" where
  "on_trigger type v client_alive w = do {
     l \<leftarrow> e_pair (items w v);
     let before_req = (e_recv_count (items w l) = 0 \<and> e_recv_count (items w v) = 0);
     let can_reconn = ((e_sq_buff (items w l) \<noteq> None \<or> before_req) \<and> client_alive);
     (c, w) \<leftarrow> cache_add (e_addr (items w v)) l w;
     (case c of
        None \<Rightarrow> Some (- 1, w)
      | Some a \<Rightarrow> do {
          d \<leftarrow> e_dp (items w l);
          let w = upd_dp d (\<lambda>g. g\<lparr>d_fail_count := d_fail_count g + 1\<rparr>) w;
          let w = upd_ev l (\<lambda>e. e\<lparr>e_dp_mask := e_dp_mask e OR d_bit (groups w d), e_detect := type\<rparr>) w;
          (next, unch, msk) \<leftarrow>
            next_group type can_reconn (p_dp (params w)) (e_dp_mask (items w l)) (e_dp_mask (items w l)) w;
          let w = upd_ev l (\<lambda>e. e\<lparr>e_dp_mask := msk\<rparr>) w;
          w \<leftarrow>
            (if d_bit (groups w d) AND c_dp_mask (cache w a) = 0
             then do {
               w \<leftarrow> (case next of
                      None \<Rightarrow> Some w
                    | Some n \<Rightarrow>
                        if d_auto_level (groups w n) AND AUTO_SORT \<noteq> 0
                           \<and> d_pri (groups w d) > d_pri (groups w n) \<and> d_bit (groups w d) AND unch = 0
                        then swop_groups d n w else Some w);
               Some (upd_dp d (\<lambda>g. g\<lparr>d_pri := d_pri g + 1\<rparr>) w) }
             else Some w);
          (case next of
             None \<Rightarrow> Some (- 1, upd_cache a (\<lambda>x. x\<lparr>c_dp_mask := 0, c_detect := 0, c_dp := p_dp (params w)\<rparr>) w)
           | Some n \<Rightarrow> do {
               let w = upd_cache a (\<lambda>x. x\<lparr>c_dp_mask := c_dp_mask x OR e_dp_mask (items w l),
                                          c_detect := e_detect (items w l), c_dp := Some n\<rparr>) w;
               if d_auto_level (groups w n) AND AUTO_NORECONN = 0 \<and> can_reconn then reconnect v w
               else Some (- 1, w) }) }) }"

definition on_torst :: "nat \<Rightarrow> proc \<Rightarrow> (int \<times> proc) option" where
  "on_torst v w = do {
     (r, w) \<leftarrow> on_trigger DETECT_TORST v True w;
     if r = 0 then Some (0, w)
     else do {
       p \<leftarrow> e_pair (items w v);
       Some (- 1, snd (setsockopt (e_fd (items w p)) SO_LINGER [1, 0] w)) } }"

definition on_fin :: "nat \<Rightarrow> proc \<Rightarrow> (int \<times> proc) option" where
  "on_fin v w =
     (let is_client = (e_flag (items w v) \<noteq> FLAG_CONN) in
      case (if is_client then e_pair (items w v) else Some v) of
        None \<Rightarrow> Some (- 1, w)
      | Some v \<Rightarrow> do {
          c \<leftarrow> e_pair (items w v);
          if \<not> (e_mark (items w c) \<and> e_round_count (items w v) \<le> 1) then Some (- 1, w)
          else do {
            (r, w) \<leftarrow> on_trigger DETECT_TLS_ERR v (\<not> is_client) w;
            Some (if r = 0 then 0 else - 1, w) } })"

definition on_timeout :: "nat \<Rightarrow> proc \<Rightarrow> (int \<times> proc) option" where
  "on_timeout v w =
     (let w = upd_ev v (\<lambda>e. e\<lparr>e_to_count := e_to_count e + 1\<rparr>) w in
      if e_to_count (items w v) \<ge> p_to_count_lim (params w) then on_torst v w
      else do { w \<leftarrow> set_timer v (int (p_ptimeout (params w))) w; Some (0, w) })"

definition on_connerr :: "nat \<Rightarrow> proc \<Rightarrow> (int \<times> proc) option" where
  "on_connerr v w = on_trigger DETECT_CONNECT v True w"

text \<open>Whether a response looks like the work of a filter, for a group's triggers.\<close>

definition bad_response :: "nat \<Rightarrow> mem \<Rightarrow> nat \<Rightarrow> mem \<Rightarrow> nat \<Rightarrow> bool option" where
  "bad_response detect req qn resp sn = do {
     redir \<leftarrow> (if detect AND DETECT_HTTP_LOCAT \<noteq> 0 then is_http_redirect req qn resp sn else Some False);
     if redir then Some True
     else if detect AND DETECT_TLS_ERR = 0 then Some False
     else do {
       hello \<leftarrow> is_tls_chello req qn;
       shello \<leftarrow> (if hello then is_tls_shello resp sn else Some True);
       if hello \<and> \<not> shello then Some True else neq_tls_sid req qn resp sn } }"

partial_function (option) find_trigger ::
    "nat option \<Rightarrow> 64 word \<Rightarrow> mem \<Rightarrow> nat \<Rightarrow> mem \<Rightarrow> nat \<Rightarrow> proc \<Rightarrow> nat option option" where
  [code]: "find_trigger dp msk req qn resp sn w =
     (case dp of
        None \<Rightarrow> Some None
      | Some d \<Rightarrow>
          if d_bit (groups w d) AND msk \<noteq> 0 then find_trigger (d_next (groups w d)) msk req qn resp sn w
          else do {
            bad \<leftarrow> bad_response (d_detect (groups w d)) req qn resp sn;
            if bad then Some (Some d) else find_trigger (d_next (groups w d)) msk req qn resp sn w })"

definition on_response :: "nat \<Rightarrow> mem \<Rightarrow> nat \<Rightarrow> proc \<Rightarrow> (int \<times> proc) option" where
  "on_response v resp sn w = do {
     c \<leftarrow> e_pair (items w v);
     q \<leftarrow> e_sq_buff (items w c);
     x \<leftarrow> bufs w q;
     d \<leftarrow> e_dp (items w c);
     let w = upd_ev c (\<lambda>e. e\<lparr>e_dp_mask := e_dp_mask e OR d_bit (groups w d)\<rparr>) w;
     t \<leftarrow> find_trigger (p_dp (params w)) (e_dp_mask (items w c)) (b_data x) (b_size x) resp sn w;
     (case t of
        None \<Rightarrow> Some (- 1, w)
      | Some g \<Rightarrow> on_trigger (d_detect (groups w g)) v True w) }"

section \<open>Timers on TLS records\<close>

text \<open>
  The loop follows the records of the stream: \<open>pos\<close> is the position in the received
  bytes, \<open>rp\<close> the position in the record, \<open>rs\<close> its size with the header, \<open>h\<close> the
  header. The result says whether the loop ran to the end.
\<close>

function tls_records ::
    "mem \<Rightarrow> int \<Rightarrow> int \<Rightarrow> int \<Rightarrow> int \<Rightarrow> mem \<Rightarrow> (bool \<times> int \<times> int \<times> mem) option" where
  "tls_records buff n pos rp rs h =
     (if rp < 5
      then do {
        b \<leftarrow> ldz buff pos;
        h \<leftarrow> stz h rp b;
        if pos + 1 < n then tls_records buff n (pos + 1) (rp + 1) rs h else Some (True, rp + 1, rs, h) }
      else if rp \<noteq> 5 \<and> rp = rs
      then (if pos < n then tls_records buff n pos 0 0 h else Some (True, 0, 0, h))
      else do {
        len \<leftarrow> ANTOHS h 3;
        t \<leftarrow> ld h 0;
        let rs = (if rp = 5 then int len + 5 else rs);
        if rp = 5 \<and> (t < 0x14 \<or> t > 0x18) then Some (False, rp, rs, h)
        else if rs - rp \<le> 0 then Some (False, rp, rs, h)
        else
          (let k = (if pos + (rs - rp) > n then n - pos else rs - rp) in
           if k \<le> 0 then Some (True, rp + k, rs, h)
           else if pos + k < n then tls_records buff n (pos + k) (rp + k) rs h
           else Some (True, rp + k, rs, h)) })"
  by pat_completeness auto
termination
  by (relation "measures [\<lambda>(b, n, pos, rp, rs, h). nat (n - pos), \<lambda>(b, n, pos, rp, rs, h). if rp < 5 then 0 else 1]") auto

declare tls_records.simps [simp del]

definition try_set_tls_timer :: "nat \<Rightarrow> mem \<Rightarrow> int \<Rightarrow> proc \<Rightarrow> (int \<times> proc) option" where
  "try_set_tls_timer v buff n w =
     (if p_to_bytes_lim (params w) \<noteq> 0 \<and> e_recv_count (items w v) > p_to_bytes_lim (params w)
      then Some (- 1, remove_timer v w)
      else do {
        let e = items w v;
        (ok, rp, rs, h) \<leftarrow> tls_records buff n 0 (e_tls_rec_pos e) (e_tls_rec_size e) (e_tls_rec e);
        let w = upd_ev v (\<lambda>e. e\<lparr>e_tls_rec_pos := rp, e_tls_rec_size := rs, e_tls_rec := h\<rparr>) w;
        if \<not> ok then Some (- 1, w)
        else if p_ptimeout (params w) = 0 then Some (0, w)
        else do {
          let w = remove_timer v w;
          w \<leftarrow> (if rp \<noteq> rs then set_timer v (int (p_ptimeout (params w))) w else Some w);
          Some (0, w) } })"

section \<open>Sending and receiving\<close>

definition free_first_req :: "nat \<Rightarrow> proc \<Rightarrow> proc option" where
  "free_first_req c w = do {
     w \<leftarrow> buff_push (e_sq_buff (items w c)) w;
     Some (upd_ev c (\<lambda>e. e\<lparr>e_sq_buff := None\<rparr>) w) }"

definition handle_err :: "nat \<Rightarrow> nat \<Rightarrow> proc \<Rightarrow> (int \<times> proc) option" where
  "handle_err v e w =
     (if e \<in> {ECONNRESET, ECONNREFUSED, ETIMEDOUT, EHOSTUNREACH}
      then (if e_flag (items w v) = FLAG_CONN then on_torst v w else on_fin v w)
      else Some (- 1, w))"

text \<open>
  The result: the count returned, the new \<open>*n\<close>, whether \<open>*wait\<close> was set. \<open>alias\<close>
  says that \<open>n\<close> points to the field \<open>lock\<close> of the buffer itself.
\<close>

definition tcp_send_hook :: "nat \<Rightarrow> nat \<Rightarrow> int \<Rightarrow> bool \<Rightarrow> proc \<Rightarrow> (int \<times> int \<times> bool \<times> proc) option" where
  "tcp_send_hook r b n alias w = do {
     x \<leftarrow> bufs w b;
     let off = b_offset x;
     (skip, failed, w) \<leftarrow>
       (if e_flag (items w r) \<noteq> FLAG_CONN then Some (True, False, w)
        else do {
          c \<leftarrow> e_pair (items w r);
          (s, w) \<leftarrow> (if e_recv_count (items w c) = n then setup_conn c (b_data x) (nat n) w else Some (0, w));
          if s < 0 then Some (False, True, w)
          else do {
            d \<leftarrow> e_dp (items w c);
            Some (\<not> check_round (d_rounds (groups w d)) (int (e_round_count (items w c))), False, w) } });
     if failed then Some (- 1, n, False, w)
     else do {
       (sn, n, wait, again, w) \<leftarrow>
         (if skip
          then do {
            x \<leftarrow> bufs w b;
            bs \<leftarrow> (if n < off then None else get_bytes (b_data x) off (nat (n - off)));
            let (s, w) = send (e_fd (items w r)) bs w;
            Some (s, n, False, s < 0 \<and> get_e w = EAGAIN, w) }
          else do {
            (s, n, wait, w) \<leftarrow> desync r b n w;
            w \<leftarrow> (if alias then upd_buf b (\<lambda>x. x\<lparr>b_lock := n\<rparr>) w else Some w);
            Some (s, n, wait, False, w) });
       if again then Some (0, n, wait, w)
       else if sn < 0 then do { (s, w) \<leftarrow> handle_err r (get_e w) w; Some (s, n, wait, w) }
       else do {
         p \<leftarrow> e_pair (items w r);
         Some (sn, n, wait, upd_ev p (\<lambda>e. e\<lparr>e_round_sent := e_round_sent e + sn\<rparr>) w) } } }"

definition recv :: "int \<Rightarrow> nat \<Rightarrow> proc \<Rightarrow> int \<times> mem \<times> proc" where
  "recv fd n w = (let (a, w) = sys (Recv fd n) w in (a_ret a, take (nat (a_ret a)) (a_data a), w))"

text \<open>What happens to a received round before the data is looked at.\<close>

definition start_round :: "nat \<Rightarrow> int \<Rightarrow> proc \<Rightarrow> proc" where
  "start_round v n w =
     (let w = upd_ev v (\<lambda>e. e\<lparr>e_recv_count := e_recv_count e + n\<rparr>) w in
      if e_round_sent (items w v) = 0
      then
        (let w = upd_ev v (\<lambda>e. e\<lparr>e_round_count := e_round_count e + 1\<rparr>) w in
         case e_pair (items w v) of None \<Rightarrow> w
         | Some p \<Rightarrow> upd_ev p (\<lambda>e. e\<lparr>e_round_sent := 0, e_part_sent := 0\<rparr>) w)
      else w)"

definition last_round :: "nat \<Rightarrow> proc \<Rightarrow> (bool \<times> proc) option" where
  "last_round v w =
     (if e_flag (items w v) = FLAG_CONN \<and> e_round_sent (items w v) = 0
      then do {
        c \<leftarrow> e_pair (items w v);
        d \<leftarrow> e_dp (items w c);
        let nr = d_rounds (groups w d);
        let r = int (e_round_count (items w v));
        if check_round nr r \<and> \<not> check_round nr (r + 1)
        then do { (x, w) \<leftarrow> cancel_setup v w; Some (x \<noteq> 0, w) }
        else Some (False, w) }
      else Some (False, w))"

text \<open>The remote's side of \<open>tcp_recv_hook\<close>: the value returned instead of \<open>n\<close>, if any.\<close>

definition remote_data :: "nat \<Rightarrow> nat \<Rightarrow> int \<Rightarrow> proc \<Rightarrow> (bool \<times> proc) option" where
  "remote_data v b n w = do {
     c \<leftarrow> e_pair (items w v);
     x \<leftarrow> bufs w b;
     w \<leftarrow>
       (if e_mark (items w c)
        then do {
          (t, w) \<leftarrow> try_set_tls_timer v (b_data x) n w;
          Some (if t \<noteq> 0 then upd_ev c (\<lambda>e. e\<lparr>e_mark := False\<rparr>) w else w) }
        else Some w);
     let w =
       (if e_to_count (items w v) \<ge> 0 \<and> p_timeout (params w) \<noteq> 0 \<and> p_to_bytes_lim (params w) \<noteq> 0
           \<and> e_recv_count (items w v) > p_to_bytes_lim (params w)
        then upd_ev v (\<lambda>e. e\<lparr>e_to_count := - 1\<rparr>) (snd (set_timeout (e_fd (items w v)) (p_timeout (params w)) w))
        else w);
     if e_sq_buff (items w c) = None then Some (False, w)
     else do {
       (r, w) \<leftarrow> on_response v (b_data x) (nat n) w;
       if r = 0 then Some (True, w)
       else do {
         c \<leftarrow> e_pair (items w v);
         w \<leftarrow> free_first_req c w;
         Some (False, w) } } }"

text \<open>The client's side: the first request is kept for a new connection.\<close>

definition client_data :: "nat \<Rightarrow> nat \<Rightarrow> int \<Rightarrow> proc \<Rightarrow> (bool \<times> proc) option" where
  "client_data v b n w =
     (if p_auto_reconnect (params w) \<and> (e_sq_buff (items w v) \<noteq> None \<or> e_recv_count (items w v) = n)
      then do {
        x \<leftarrow> bufs w b;
        w \<leftarrow> (if e_sq_buff (items w v) = None
             then do { (q, w) \<leftarrow> buff_pop (b_size x) w; Some (upd_ev v (\<lambda>e. e\<lparr>e_sq_buff := q\<rparr>) w) }
             else Some w);
        (case e_sq_buff (items w v) of
           None \<Rightarrow> Some (True, w)
         | Some q \<Rightarrow> do {
             w \<leftarrow> upd_buf q (\<lambda>y. y\<lparr>b_lock := b_lock y + n\<rparr>) w;
             y \<leftarrow> bufs w q;
             if b_lock y \<ge> int (b_size y) then do { w \<leftarrow> free_first_req v w; Some (False, w) }
             else do {
               bs \<leftarrow> slice (b_data x) 0 (nat n);
               new \<leftarrow> put_bytes (b_data y) (b_lock y - n) bs;
               w \<leftarrow> upd_buf q (\<lambda>y. y\<lparr>b_data := new\<rparr>) w;
               Some (False, w) } }) }
      else Some (False, w))"

definition tcp_recv_hook :: "nat \<Rightarrow> nat \<Rightarrow> proc \<Rightarrow> (int \<times> proc) option" where
  "tcp_recv_hook v b w = do {
     x \<leftarrow> bufs w b;
     let (n, bs, w) = recv (e_fd (items w v)) (b_size x) w;
     if n = 0 then on_fin v w
     else if n < 0 then (if get_e w = EAGAIN then Some (0, w) else handle_err v (get_e w) w)
     else do {
       new \<leftarrow> memcpy (b_data x) 0 bs;
       w \<leftarrow> upd_buf b (\<lambda>x. x\<lparr>b_data := new\<rparr>) w;
       let w = start_round v n w;
       (err, w) \<leftarrow> last_round v w;
       if err then Some (- 1, w)
       else if e_flag (items w v) = FLAG_CONN
       then do { (stop, w) \<leftarrow> remote_data v b n w; Some (if stop then 0 else n, w) }
       else do { (err, w) \<leftarrow> client_data v b n w; Some (if err then - 1 else n, w) } } }"

definition recv_and_connect :: "nat \<Rightarrow> int \<Rightarrow> proc \<Rightarrow> (int \<times> proc) option" where
  "recv_and_connect v t w = do {
     (b, w) \<leftarrow> buff_pop (p_bfsize (params w)) w;
     let w = upd_ev v (\<lambda>e. e\<lparr>e_buff := b\<rparr>) w;
     (case b of
        None \<Rightarrow> Some (- 1, w)
      | Some b \<Rightarrow> do {
          (n, w) \<leftarrow> tcp_recv_hook v b w;
          w \<leftarrow> upd_buf b (\<lambda>x. x\<lparr>b_lock := n\<rparr>) w;
          if n \<le> 0 then Some (- 1, w) else connect_hook v (e_addr (items w v)) On_connect w }) }"

partial_function (option) udp_group :: "nat option \<Rightarrow> sockaddr_u \<Rightarrow> proc \<Rightarrow> nat option option" where
  [code]: "udp_group dp dst w =
     (case dp of
        None \<Rightarrow> Some None
      | Some d \<Rightarrow>
          if d_detect (groups w d) = 0 \<and> check_l34 (groups w d) SOCK_DGRAM dst w then Some (Some d)
          else udp_group (d_next (groups w d)) dst w)"

definition udp_hook :: "nat \<Rightarrow> mem \<Rightarrow> sockaddr_u \<Rightarrow> proc \<Rightarrow> (int \<times> proc) option" where
  "udp_hook v bs dst w = do {
     q \<leftarrow> e_pair (items w v);
     p \<leftarrow> e_pair (items w q);
     let r = int (e_round_count (items w p));
     dp \<leftarrow> (case e_dp (items w p) of Some d \<Rightarrow> Some (Some d) | None \<Rightarrow> udp_group (p_dp (params w)) dst w);
     (case dp of
        None \<Rightarrow> Some (- 1, w)
      | Some d \<Rightarrow> do {
          let w = upd_ev p (\<lambda>e. e\<lparr>e_dp := Some d\<rparr>) w;
          if \<not> check_round (d_rounds (groups w d)) r then Some (send (e_fd (items w v)) bs w)
          else desync_udp (e_fd (items w v)) bs (groups w d) w }) }"

end
