(* ===== verification/Linked.thy ===== *)
theory Linked
  imports Prelude
begin

text \<open>
  Doubly linked lists in a store, as the timers of conev.c and the groups of options use them:
  \<open>nx\<close> and \<open>pv\<close> are the two pointer fields. \<open>linked nx pv p xs q\<close> says that the
  objects \<open>xs\<close> are linked in this order, that the first points back to \<open>p\<close> and the
  last one forward to \<open>q\<close>. The singly linked list of free buffers is a \<open>chain\<close>.
\<close>

definition first_of :: "'a list \<Rightarrow> 'a option \<Rightarrow> 'a option" where
  "first_of xs q = (case xs of [] \<Rightarrow> q | x # _ \<Rightarrow> Some x)"

definition last_of :: "'a list \<Rightarrow> 'a option \<Rightarrow> 'a option" where
  "last_of xs p = (if xs = [] then p else Some (last xs))"

lemma first_of_simps [simp]: "first_of [] q = q" "first_of (x # xs) q = Some x"
  "first_of (xs @ ys) q = first_of xs (first_of ys q)"
  by (simp_all add: first_of_def split: list.splits)

lemma last_of_simps [simp]: "last_of [] p = p" "last_of (xs @ ys) p = last_of ys (last_of xs p)"
  "last_of (x # xs) p = last_of xs (Some x)"
  by (simp_all add: last_of_def)

lemma first_of_None [simp]: "first_of xs None = None \<longleftrightarrow> xs = []" "last_of xs None = None \<longleftrightarrow> xs = []"
  by (simp_all add: first_of_def last_of_def split: list.splits)

lemma first_of_in: "first_of xs q = Some x \<Longrightarrow> q \<noteq> Some x \<Longrightarrow> x \<in> set xs"
  by (auto simp: first_of_def split: list.splits)

lemma last_of_in: "last_of xs p = Some x \<Longrightarrow> p \<noteq> Some x \<Longrightarrow> x \<in> set xs"
  by (auto simp: last_of_def split: if_splits)

fun linked :: "('a \<Rightarrow> 'a option) \<Rightarrow> ('a \<Rightarrow> 'a option) \<Rightarrow> 'a option \<Rightarrow> 'a list \<Rightarrow> 'a option \<Rightarrow> bool" where
  "linked nx pv p [] q \<longleftrightarrow> True"
| "linked nx pv p (x # xs) q \<longleftrightarrow> pv x = p \<and> nx x = first_of xs q \<and> linked nx pv (Some x) xs q"

lemma linked_append [simp]:
  "linked nx pv p (xs @ ys) q \<longleftrightarrow> linked nx pv p xs (first_of ys q) \<and> linked nx pv (last_of xs p) ys q"
  by (induction xs arbitrary: p) auto

lemma linked_cong:
  "(\<And>x. x \<in> set xs \<Longrightarrow> nx x = nx' x) \<Longrightarrow> (\<And>x. x \<in> set xs \<Longrightarrow> pv x = pv' x) \<Longrightarrow>
   linked nx pv p xs q \<longleftrightarrow> linked nx' pv' p xs q"
  by (induction xs arbitrary: p) auto

text \<open>Changing the two ends of a linked segment.\<close>

lemma linked_relast:
  assumes "linked nx pv p xs q" and "distinct xs"
    and "\<And>x. x \<in> set xs \<Longrightarrow> pv' x = pv x"
    and "\<And>x. x \<in> set xs \<Longrightarrow> nx' x = (if last_of xs None = Some x then q' else nx x)"
  shows "linked nx' pv' p xs q'"
proof (cases xs rule: rev_cases)
  case (snoc ys y)
  have "linked nx' pv' p ys (Some y) \<longleftrightarrow> linked nx pv p ys (Some y)"
    by (rule linked_cong) (use assms(2-4) snoc in auto)
  then show ?thesis using assms snoc by simp
qed simp

lemma linked_refirst:
  assumes "linked nx pv p xs q" and "distinct xs"
    and "\<And>x. x \<in> set xs \<Longrightarrow> nx' x = nx x"
    and "\<And>x. x \<in> set xs \<Longrightarrow> pv' x = (if first_of xs None = Some x then p' else pv x)"
  shows "linked nx' pv' p' xs q"
proof (cases xs)
  case (Cons y ys)
  have "linked nx' pv' (Some y) ys q \<longleftrightarrow> linked nx pv (Some y) ys q"
    by (rule linked_cong) (use assms(2-4) Cons in auto)
  then show ?thesis using assms Cons by simp
qed simp

section \<open>Chains\<close>

fun chain :: "('a \<Rightarrow> 'b option) \<Rightarrow> ('b \<Rightarrow> 'a option) \<Rightarrow> 'a option \<Rightarrow> 'a list \<Rightarrow> bool" where
  "chain s nx r [] \<longleftrightarrow> r = None"
| "chain s nx r (b # bs) \<longleftrightarrow> r = Some b \<and> (\<exists>x. s b = Some x \<and> chain s nx (nx x) bs)"

lemma chain_cong:
  "(\<And>b. b \<in> set bs \<Longrightarrow> map_option nx (s b) = map_option nx (s' b)) \<Longrightarrow> chain s nx r bs \<longleftrightarrow> chain s' nx r bs"
proof (induction bs arbitrary: r)
  case (Cons b bs)
  have "map_option nx (s b) = map_option nx (s' b)" using Cons.prems by simp
  then show ?case using Cons.IH Cons.prems
    by (cases "s b"; cases "s' b") auto
qed simp

lemma chain_stored: "chain s nx r bs \<Longrightarrow> b \<in> set bs \<Longrightarrow> s b \<noteq> None"
  by (induction bs arbitrary: r) auto

lemma chain_root: "chain s nx r bs \<Longrightarrow> r = first_of bs None"
  by (cases bs) auto

end
