(* ===== verification/Samples.thy ===== *)
theory Samples
  imports Process
begin

text \<open>
  Concrete processes for the instances of the theorems. \<open>calm\<close> is a kernel that grants
  every request: memory is there, every byte of a send is taken, the clock stands at 50 ms.
\<close>

definition ok_answer :: "int \<Rightarrow> answer" where
  "ok_answer r = \<lparr>a_ret = r, a_errno = 0, a_data = [], a_addr = zero_addr, a_events = []\<rparr>"

definition calm :: kernel where
  "calm tr c = ok_answer (case c of
      Clock \<Rightarrow> 50000000
    | Malloc n \<Rightarrow> 1
    | Send fd bs \<Rightarrow> int (length bs)
    | Send_oob fd bs \<Rightarrow> int (length bs)
    | Socket f t \<Rightarrow> 7
    | Epoll_create n \<Rightarrow> 5
    | _ \<Rightarrow> 0)"

definition no_libc :: libc where
  "no_libc = \<lparr>inet_pton = (\<lambda>f s. None), inet_ntop = (\<lambda>f a. []), strtof = (\<lambda>m p. (0, 0, p)),
     getopt_long = (\<lambda>i. (None, [], i))\<rparr>"

definition fresh :: "kernel \<Rightarrow> proc" where
  "fresh k =
     \<lparr>kernel = k, libc = no_libc, trace = [], errno = 0, ndebug = False, char_signed = True, next_addr = 100,
      rand_seq = (\<lambda>i. i), rand_pos = 0, items = (\<lambda>_. zero_eval\<lparr>e_fd := - 1\<rparr>), bufs = (\<lambda>_. None),
      groups = (\<lambda>_. zero_dp), cache = (\<lambda>_. zero_cache), params = zero_params, pl_max = 4, pl_count = 0, pl_efd = 5,
      pl_links = (\<lambda>i. i), pl_pevents = [], pl_iters = 0, pl_brk = False, tv_start = None, tv_end = None,
      root_buff = None, buff_count = 0, ctrl_fds = (- 1, - 1), server_fd = 3, current_pool = True\<rparr>"

lemmas samples = fresh_def calm_def ok_answer_def no_libc_def

end
