(* ===== verification/Timers.thy ===== *)
theory Timers
  imports Conev Linked Samples
begin

text \<open>
  The timers of conev.c: a doubly linked list of events, sorted by the time they are due.
  \<open>timers w vs\<close> says that the list holds \<open>vs\<close> in this order. \<open>set_timer\<close> inserts in
  front of the first that is not due earlier, \<open>remove_timer\<close> takes an event out, and
  \<open>next_event_tv\<close> delivers the first when it is due. The locale \<open>timer_queue\<close> states
  this interface for an ordered queue.
\<close>

abbreviation due :: "proc \<Rightarrow> nat \<Rightarrow> int" where
  "due w v \<equiv> e_tv_ms (items w v)"

abbreviation tnext :: "proc \<Rightarrow> nat \<Rightarrow> nat option" where
  "tnext w \<equiv> \<lambda>v. e_tv_next (items w v)"

abbreviation tprev :: "proc \<Rightarrow> nat \<Rightarrow> nat option" where
  "tprev w \<equiv> \<lambda>v. e_tv_prev (items w v)"

definition timers :: "proc \<Rightarrow> nat list \<Rightarrow> bool" where
  "timers w vs \<longleftrightarrow>
     distinct vs \<and> linked (tnext w) (tprev w) None vs None \<and>
     tv_start w = first_of vs None \<and> tv_end w = last_of vs None \<and>
     sorted (map (due w) vs) \<and> (\<forall>v. due w v \<noteq> 0 \<longleftrightarrow> v \<in> set vs) \<and>
     (\<forall>v. v \<notin> set vs \<longrightarrow> tnext w v = None \<and> tprev w v = None)"

text \<open>The abstract operations: insert in front of the first that is not due earlier.\<close>

definition place :: "('a \<Rightarrow> int) \<Rightarrow> 'a \<Rightarrow> 'a list \<Rightarrow> 'a list" where
  "place f v vs = takeWhile (\<lambda>u. f u < f v) vs @ v # dropWhile (\<lambda>u. f u < f v) vs"

lemma place_split:
  fixes f :: "'a \<Rightarrow> int"
  assumes "sorted (map f vs)"
  obtains as bs where "vs = as @ bs" and "place f v vs = as @ v # bs"
    and "\<forall>u\<in>set as. f u < f v" and "\<forall>u\<in>set bs. f v \<le> f u"
proof -
  have "\<forall>u\<in>set (dropWhile (\<lambda>u. f u < f v) vs). f v \<le> f u"
    using assms
  proof (induction vs)
    case (Cons u vs)
    then show ?case by (cases "f u < f v") auto
  qed simp
  moreover have "\<forall>u\<in>set (takeWhile (\<lambda>u. f u < f v) vs). f u < f v"
    by (auto dest: set_takeWhileD)
  ultimately show ?thesis
    using that [of "takeWhile (\<lambda>u. f u < f v) vs" "dropWhile (\<lambda>u. f u < f v) vs"] by (simp add: place_def)
qed

lemma sorted_place:
  fixes f :: "'a \<Rightarrow> int"
  assumes "sorted (map f vs)"
  shows "sorted (map f (place f v vs))"
proof (rule place_split [OF assms, of v])
  fix as bs
  assume "vs = as @ bs" "place f v vs = as @ v # bs" "\<forall>u\<in>set as. f u < f v" "\<forall>u\<in>set bs. f v \<le> f u"
  then show ?thesis using assms by (auto simp: sorted_append intro: less_imp_le order_trans)
qed

section \<open>Setting a timer\<close>

text \<open>The walk from the end finds the place between the earlier timers and the others.\<close>

lemma timer_place_walk:
  assumes "linked (\<lambda>v. e_tv_next (it v)) (\<lambda>v. e_tv_prev (it v)) None (as @ bs) q"
    and "\<forall>u\<in>set as. e_tv_ms (it u) < ms" and "\<forall>u\<in>set bs. ms \<le> e_tv_ms (it u)"
  shows "timer_place q (last_of (as @ bs) None) ms it = Some (first_of bs q, last_of as None)"
  using assms
proof (induction bs arbitrary: q rule: rev_induct)
  case Nil
  then show ?case
    by (cases as rule: rev_cases) (simp_all add: timer_place.simps)
next
  case (snoc b bs)
  have "timer_place (Some b) (last_of (as @ bs) None) ms it = Some (first_of bs (Some b), last_of as None)"
    using snoc by auto
  moreover have "e_tv_prev (it b) = last_of (as @ bs) None" "ms \<le> e_tv_ms (it b)"
    using snoc.prems by auto
  ultimately show ?case
    by (subst timer_place.simps) simp
qed

text \<open>Linking a new event between two segments.\<close>

lemma linked_insert:
  assumes "linked nx pv None (as @ bs) None" and "distinct (as @ bs)" and "v \<notin> set (as @ bs)"
    and "nx' v = first_of bs None" and "pv' v = last_of as None"
    and "\<And>u. u \<in> set (as @ bs) \<Longrightarrow> nx' u = (if last_of as None = Some u then Some v else nx u)"
    and "\<And>u. u \<in> set (as @ bs) \<Longrightarrow> pv' u = (if first_of bs None = Some u then Some v else pv u)"
  shows "linked nx' pv' None (as @ v # bs) None"
proof -
  have as: "u \<in> set as \<Longrightarrow> first_of bs None \<noteq> Some u" "u \<in> set bs \<Longrightarrow> last_of as None \<noteq> Some u" for u
    using assms(2) first_of_in [of bs None u] last_of_in [of as None u] by auto
  have "linked nx' pv' None as (Some v)"
    by (rule linked_relast [where nx = nx and pv = pv and q = "first_of bs None"]) (use assms as in auto)
  moreover have "linked nx' pv' (Some v) bs None"
    by (rule linked_refirst [where nx = nx and pv = pv and p = "last_of as None"]) (use assms as in auto)
  ultimately show ?thesis using assms(4,5) by simp
qed

text \<open>A system call changes only the trace and \<open>errno\<close>.\<close>

lemma sys_cases:
  obtains a e where "sys c w = (a, w\<lparr>trace := trace w @ [(c, a)], errno := e\<rparr>)" and "a = kernel w (trace w) c"
  by (auto simp: sys_def Let_def)

lemma call_cases:
  obtains a e where "call c w = (a_ret a, w\<lparr>trace := trace w @ [(c, a)], errno := e\<rparr>)" and "a = kernel w (trace w) c"
  by (auto simp: call_def sys_def Let_def)

lemma time_ms_cases:
  obtains t tr e where "time_ms w = (t, w\<lparr>trace := tr, errno := e\<rparr>)"
  by (rule call_cases [of Clock w]) (auto simp: time_ms_def)

text \<open>What the functions on timers leave alone: everything but the timer fields.\<close>

definition same_event :: "eval \<Rightarrow> eval \<Rightarrow> bool" where
  "same_event x y \<longleftrightarrow> y = x\<lparr>e_tv_ms := e_tv_ms y, e_tv_next := e_tv_next y, e_tv_prev := e_tv_prev y\<rparr>"

lemma same_event_upd [simp]:
  "same_event x x" "same_event x (y\<lparr>e_tv_ms := m\<rparr>) \<longleftrightarrow> same_event x y"
  "same_event x (y\<lparr>e_tv_next := n\<rparr>) \<longleftrightarrow> same_event x y" "same_event x (y\<lparr>e_tv_prev := n\<rparr>) \<longleftrightarrow> same_event x y"
  by (cases x; cases y; simp add: same_event_def)+

definition link_between :: "nat \<Rightarrow> nat option \<Rightarrow> nat option \<Rightarrow> (nat \<Rightarrow> eval) \<Rightarrow> nat \<Rightarrow> eval" where
  "link_between v n p it =
     set_next p (Some v) (set_prev n (Some v) (it(v := (it v)\<lparr>e_tv_next := n, e_tv_prev := p\<rparr>)))"

lemma set_timer_eq:
  assumes "due w v = 0" and "time_ms w = (t, w\<lparr>trace := tr, errno := e\<rparr>)"
    and "it = (items w)(v := (items w v)\<lparr>e_tv_ms := t + ms\<rparr>)"
    and "timer_place None (tv_end w) (t + ms) it = Some (n, p)"
  shows "set_timer v ms w = Some (w\<lparr>trace := tr, errno := e, items := link_between v n p it,
           tv_start := (if tv_start w = None \<or> n = tv_start w then Some v else tv_start w),
           tv_end := (if tv_end w = None \<or> p = tv_end w then Some v else tv_end w)\<rparr>)"
  using assms(1,2,4) unfolding assms(3)
  by (simp add: set_timer_def upd_ev_def link_between_def Let_def split del: if_split cong: if_cong)

lemma set_timer_state:
  assumes "timers w vs" and "v \<notin> set vs" and "time_ms w = (t, w\<lparr>trace := tr, errno := e\<rparr>)" and "t + ms \<noteq> 0"
  obtains it where "set_timer v ms w =
      Some (w\<lparr>trace := tr, errno := e, items := it, tv_start := first_of (place (\<lambda>u. e_tv_ms (it u)) v vs) None,
              tv_end := last_of (place (\<lambda>u. e_tv_ms (it u)) v vs) None\<rparr>)"
    and "\<And>u. same_event (items w u) (it u)"
    and "\<And>u. e_tv_ms (it u) = (if u = v then t + ms else due w u)"
    and "timers (w\<lparr>trace := tr, errno := e, items := it, tv_start := first_of (place (\<lambda>u. e_tv_ms (it u)) v vs) None,
              tv_end := last_of (place (\<lambda>u. e_tv_ms (it u)) v vs) None\<rparr>) (place (\<lambda>u. e_tv_ms (it u)) v vs)"
proof -
  have inv: "distinct vs" "linked (tnext w) (tprev w) None vs None" "tv_start w = first_of vs None"
    "tv_end w = last_of vs None" "sorted (map (due w) vs)" "\<forall>v. due w v \<noteq> 0 \<longleftrightarrow> v \<in> set vs"
    "\<forall>v. v \<notin> set vs \<longrightarrow> tnext w v = None \<and> tprev w v = None"
    using assms(1) by (simp_all add: timers_def)
  define f where "f = (\<lambda>u. if u = v then t + ms else due w u)"
  have f: "map f vs = map (due w) vs" using assms(2) by (auto simp: f_def)
  have "sorted (map f vs)" unfolding f by (rule inv(5))
  then obtain as bs where ab: "vs = as @ bs" "place f v vs = as @ v # bs"
    "\<forall>u\<in>set as. f u < f v" "\<forall>u\<in>set bs. f v \<le> f u"
    by (rule place_split [where v = v])
  define it1 where "it1 = (items w)(v := (items w v)\<lparr>e_tv_ms := t + ms\<rparr>)"
  define it where "it = (\<lambda>u. (it1 u)\<lparr>
      e_tv_next := (if u = v then first_of bs None else if last_of as None = Some u then Some v else tnext w u),
      e_tv_prev := (if u = v then last_of as None else if first_of bs None = Some u then Some v else tprev w u)\<rparr>)"
  have ms: "(\<lambda>u. e_tv_ms (it u)) = f" by (auto simp: it_def it1_def f_def)
  have nv: "v \<notin> set as" "v \<notin> set bs" using assms(2) ab(1) by auto
  have "linked (\<lambda>v. e_tv_next (it1 v)) (\<lambda>v. e_tv_prev (it1 v)) None (as @ bs) None"
    using inv(2) ab(1) by (subst linked_cong [where nx' = "tnext w" and pv' = "tprev w"]) (auto simp: it1_def)
  then have walk: "timer_place None (tv_end w) (t + ms) it1 = Some (first_of bs None, last_of as None)"
    unfolding inv(4) ab(1)
    by (rule timer_place_walk) (use ab nv in \<open>auto simp: it1_def f_def\<close>)
  have nn: "first_of bs None \<noteq> Some v" "last_of as None \<noteq> Some v"
    "first_of bs None = Some u \<Longrightarrow> last_of as None \<noteq> Some u" for u
    using nv inv(1) ab(1) first_of_in [of bs None v] last_of_in [of as None v]
      first_of_in [of bs None u] last_of_in [of as None u] by auto
  have start: "(if tv_start w = None \<or> first_of bs None = tv_start w then Some v else tv_start w) = first_of (as @ v # bs) None"
    using inv(1,3) ab(1) nn by (cases as; cases bs) auto
  have fin: "(if tv_end w = None \<or> last_of as None = tv_end w then Some v else tv_end w) = last_of (as @ v # bs) None"
    using inv(1,4) ab(1) nn by (cases bs rule: rev_cases; cases as rule: rev_cases) auto
  let ?w = "w\<lparr>trace := tr, errno := e, items := it, tv_start := first_of (place (\<lambda>u. e_tv_ms (it u)) v vs) None,
              tv_end := last_of (place (\<lambda>u. e_tv_ms (it u)) v vs) None\<rparr>"
  have "due w v = 0" using inv(6) assms(2) by blast
  have it_next: "link_between v (first_of bs None) (last_of as None) it1 = it"
    by (rule ext, cases "first_of bs None"; cases "last_of as None")
       (use nn in \<open>auto simp: it_def it1_def link_between_def set_next_def set_prev_def\<close>)
  have "set_timer v ms w = Some ?w"
    unfolding set_timer_eq [OF \<open>due w v = 0\<close> assms(3) it1_def walk] it_next start fin ms ab(2) by (rule refl)
  moreover have "timers ?w (place (\<lambda>u. e_tv_ms (it u)) v vs)"
  proof -
    have "linked (\<lambda>u. e_tv_next (it u)) (\<lambda>u. e_tv_prev (it u)) None (as @ v # bs) None"
      by (rule linked_insert [where nx = "tnext w" and pv = "tprev w"]) (use inv ab(1) assms(2) in \<open>auto simp: it_def\<close>)
    moreover have "sorted (map f (as @ v # bs))"
      using sorted_place [OF \<open>sorted (map f vs)\<close>, of v] ab(2) by simp
    moreover have "\<forall>u. f u \<noteq> 0 \<longleftrightarrow> u \<in> set (as @ v # bs)"
      using inv(6) ab(1) assms(4) by (auto simp: f_def)
    moreover have "\<forall>u. u \<notin> set (as @ v # bs) \<longrightarrow> e_tv_next (it u) = None \<and> e_tv_prev (it u) = None"
      using inv(7) ab(1) first_of_in [of bs None] last_of_in [of as None] by (auto simp: it_def)
    ultimately show ?thesis
      using inv(1) ab assms(2) ms by (auto simp: timers_def fun_eq_iff)
  qed
  ultimately show ?thesis
    using that [of it] ms by (simp add: f_def fun_eq_iff it_def it1_def)
qed

text \<open>What a function on timers may change.\<close>

definition timer_step :: "proc \<Rightarrow> proc \<Rightarrow> bool" where
  "timer_step w w' \<longleftrightarrow>
     w' = w\<lparr>trace := trace w', errno := errno w', items := items w', tv_start := tv_start w', tv_end := tv_end w'\<rparr> \<and>
     (\<forall>u. same_event (items w u) (items w' u))"

lemma timer_step_kernel: "timer_step w w' \<Longrightarrow> kernel w' = kernel w"
  unfolding timer_step_def by (erule conjE, erule ssubst, simp)

lemma set_timer_ok:
  assumes "timers w vs" and "v \<notin> set vs" and "time_ms w = (t, w\<lparr>trace := tr, errno := e\<rparr>)" and "t + ms \<noteq> 0"
  obtains w' where "set_timer v ms w = Some w'" and "timers w' (place (due w') v vs)" and "timer_step w w'"
    and "\<And>u. due w' u = (if u = v then t + ms else due w u)"
proof -
  from set_timer_state [OF assms] obtain it where it: "set_timer v ms w =
      Some (w\<lparr>trace := tr, errno := e, items := it, tv_start := first_of (place (\<lambda>u. e_tv_ms (it u)) v vs) None,
              tv_end := last_of (place (\<lambda>u. e_tv_ms (it u)) v vs) None\<rparr>)"
    "\<And>u. same_event (items w u) (it u)" "\<And>u. e_tv_ms (it u) = (if u = v then t + ms else due w u)"
    "timers (w\<lparr>trace := tr, errno := e, items := it, tv_start := first_of (place (\<lambda>u. e_tv_ms (it u)) v vs) None,
              tv_end := last_of (place (\<lambda>u. e_tv_ms (it u)) v vs) None\<rparr>) (place (\<lambda>u. e_tv_ms (it u)) v vs)"
    by blast
  show ?thesis
    by (rule that [OF it(1)]) (use it(2-4) in \<open>simp_all add: timer_step_def\<close>)
qed

section \<open>Removing a timer\<close>

lemma linked_remove:
  assumes "linked nx pv None (as @ v # bs) None" and "distinct (as @ v # bs)"
    and "\<And>u. u \<in> set (as @ bs) \<Longrightarrow> nx' u = (if last_of as None = Some u then first_of bs None else nx u)"
    and "\<And>u. u \<in> set (as @ bs) \<Longrightarrow> pv' u = (if first_of bs None = Some u then last_of as None else pv u)"
  shows "linked nx' pv' None (as @ bs) None"
proof -
  have as: "u \<in> set as \<Longrightarrow> first_of bs None \<noteq> Some u" "u \<in> set bs \<Longrightarrow> last_of as None \<noteq> Some u" for u
    using assms(2) first_of_in [of bs None u] last_of_in [of as None u] by auto
  have "linked nx' pv' None as (first_of bs None)"
    by (rule linked_relast [where nx = nx and pv = pv and q = "Some v"]) (use assms as in auto)
  moreover have "linked nx' pv' (last_of as None) bs None"
    by (rule linked_refirst [where nx = nx and pv = pv and p = "Some v"]) (use assms as in auto)
  ultimately show ?thesis by simp
qed

definition unlinked :: "nat \<Rightarrow> (nat \<Rightarrow> eval) \<Rightarrow> nat \<Rightarrow> eval" where
  "unlinked v it0 =
     (let it = set_next (e_tv_prev (it0 v)) (e_tv_next (it0 v)) it0; it = set_prev (e_tv_next (it v)) (e_tv_prev (it v)) it
      in it(v := (it v)\<lparr>e_tv_ms := 0, e_tv_next := None, e_tv_prev := None\<rparr>))"

definition linked_properly :: "nat \<Rightarrow> (nat \<Rightarrow> eval) \<Rightarrow> bool" where
  "linked_properly v it \<longleftrightarrow> e_tv_next (it v) \<noteq> Some v \<and> e_tv_prev (it v) \<noteq> Some v \<and>
     (e_tv_next (it v) = None \<or> e_tv_next (it v) \<noteq> e_tv_prev (it v))"

lemma unlinked_at:
  assumes "linked_properly v it"
  shows "unlinked v it u = (it u)\<lparr>
      e_tv_ms := (if u = v then 0 else e_tv_ms (it u)),
      e_tv_next := (if u = v then None else if e_tv_prev (it v) = Some u then e_tv_next (it v) else e_tv_next (it u)),
      e_tv_prev := (if u = v then None else if e_tv_next (it v) = Some u then e_tv_prev (it v) else e_tv_prev (it u))\<rparr>"
  using assms unfolding linked_properly_def
  by (cases "e_tv_next (it v)"; cases "e_tv_prev (it v)"; simp add: unlinked_def set_next_def set_prev_def; auto)

lemma same_event_unlinked:
  assumes "linked_properly v it"
  shows "same_event (it u) (unlinked v it u)"
  unfolding unlinked_at [OF assms] by simp

lemma timers_parts:
  assumes "timers w vs"
  shows "distinct vs" "linked (tnext w) (tprev w) None vs None" "tv_start w = first_of vs None"
    "tv_end w = last_of vs None" "sorted (map (due w) vs)" "due w v \<noteq> 0 \<longleftrightarrow> v \<in> set vs"
    "v \<notin> set vs \<Longrightarrow> tnext w v = None \<and> tprev w v = None"
  using assms by (auto simp: timers_def)

lemma timers_cong:
  assumes "due w' = due w" and "tnext w' = tnext w" and "tprev w' = tprev w"
    and "tv_start w' = tv_start w" and "tv_end w' = tv_end w"
  shows "timers w' vs \<longleftrightarrow> timers w vs"
  by (simp only: timers_def assms fun_cong [OF assms(1)] fun_cong [OF assms(2)] fun_cong [OF assms(3)])

lemma remove_timer_out:
  assumes "timers w vs" and "v \<notin> set vs"
  shows "remove_timer v w = w"
proof -
  have v: "tnext w v = None" "tprev w v = None" "due w v = 0"
    using timers_parts(6,7) [OF assms(1), of v] assms(2) by auto
  then have "(items w v)\<lparr>e_tv_ms := 0, e_tv_next := None, e_tv_prev := None\<rparr> = items w v"
    by (cases "items w v") simp
  then have "w\<lparr>items := (items w)(v := (items w v)\<lparr>e_tv_ms := 0, e_tv_next := None, e_tv_prev := None\<rparr>)\<rparr> = w"
    by (simp only: fun_upd_triv) simp
  moreover have "tv_start w \<noteq> Some v" "tv_end w \<noteq> Some v"
    using timers_parts(3,4) [OF assms(1)] assms(2) first_of_in [of vs None v] last_of_in [of vs None v] by auto
  ultimately show ?thesis
    using v by (simp add: remove_timer_def set_next_def set_prev_def Let_def)
qed

lemma remove_timer_in:
  assumes "timers w (as @ v # bs)"
  shows "remove_timer v w = w\<lparr>tv_start := first_of (as @ bs) None, tv_end := last_of (as @ bs) None,
           items := unlinked v (items w)\<rparr>"
    and "timers (w\<lparr>tv_start := first_of (as @ bs) None, tv_end := last_of (as @ bs) None,
           items := unlinked v (items w)\<rparr>) (as @ bs)"
    and "same_event (items w u) (unlinked v (items w) u)"
    and "e_tv_ms (unlinked v (items w) u) = (if u = v then 0 else due w u)"
proof -
  note inv = timers_parts [OF assms]
  have v: "tnext w v = first_of bs None" "tprev w v = last_of as None" using inv(2) by simp_all
  have in_bs: "first_of bs None = Some u \<Longrightarrow> u \<in> set bs" and in_as: "last_of as None = Some u \<Longrightarrow> u \<in> set as" for u
    using first_of_in [of bs None u] last_of_in [of as None u] by auto
  have nn: "tnext w v \<noteq> Some v" "tprev w v \<noteq> Some v"
    using inv(1) in_bs [of v] in_as [of v] v by auto
  have "tnext w v = None \<or> tnext w v \<noteq> tprev w v"
  proof (cases "tnext w v")
    case (Some n)
    then show ?thesis using inv(1) in_bs [of n] in_as [of n] v by auto
  qed simp
  then have "linked_properly v (items w)" using nn by (simp add: linked_properly_def)
  note at = unlinked_at [OF this]
  show "same_event (items w u) (unlinked v (items w) u)" by (rule same_event_unlinked) fact
  show ms: "e_tv_ms (unlinked v (items w) u) = (if u = v then 0 else due w u)" for u unfolding at by simp
  have it: "set_next (tprev w v) (tnext w v) (items w) v = items w v"
    using nn by (auto simp: set_next_def split: option.splits)
  have it2: "set_prev n x it v = it v" if "n \<noteq> Some v" for n x it
    using that by (auto simp: set_prev_def split: option.splits)
  have "(if tv_start w = Some v then tnext w v else tv_start w) = first_of (as @ bs) None"
    using inv(1,3) v by (cases as) auto
  moreover have "(if tv_end w = Some v then tprev w v else tv_end w) = last_of (as @ bs) None"
    using inv(1,4) v by (cases bs rule: rev_cases) auto
  ultimately show "remove_timer v w = w\<lparr>tv_start := first_of (as @ bs) None, tv_end := last_of (as @ bs) None,
           items := unlinked v (items w)\<rparr>"
    using nn(1) by (simp add: remove_timer_def unlinked_def Let_def it it2 split del: if_split cong: if_cong)
  have "linked (\<lambda>u. e_tv_next (unlinked v (items w) u)) (\<lambda>u. e_tv_prev (unlinked v (items w) u)) None (as @ bs) None"
    by (rule linked_remove [OF inv(2,1)]) (use inv(1) v in \<open>auto simp: at\<close>)
  moreover have "sorted (map (\<lambda>u. e_tv_ms (unlinked v (items w) u)) (as @ bs))"
  proof -
    have "map (\<lambda>u. e_tv_ms (unlinked v (items w) u)) (as @ bs) = map (due w) (as @ bs)"
      using inv(1) by (auto simp: ms)
    then show ?thesis using inv(5) by (simp only: map_append list.map sorted_append) simp
  qed
  moreover have "\<forall>u. u \<notin> set (as @ bs) \<longrightarrow>
      e_tv_next (unlinked v (items w) u) = None \<and> e_tv_prev (unlinked v (items w) u) = None"
    using timers_parts(7) [OF assms] in_as in_bs v by (auto simp: at)
  moreover have "\<forall>u. e_tv_ms (unlinked v (items w) u) \<noteq> 0 \<longleftrightarrow> u \<in> set (as @ bs)"
    using timers_parts(6) [OF assms] inv(1) by (auto simp: ms)
  ultimately show "timers (w\<lparr>tv_start := first_of (as @ bs) None, tv_end := last_of (as @ bs) None,
           items := unlinked v (items w)\<rparr>) (as @ bs)"
    using inv(1) by (auto simp: timers_def)
qed

lemma remove_timer_ok:
  assumes "timers w vs"
  shows "timers (remove_timer v w) (remove1 v vs)" and "timer_step w (remove_timer v w)"
proof -
  have "timers (remove_timer v w) (remove1 v vs) \<and> timer_step w (remove_timer v w)"
  proof (cases "v \<in> set vs")
    case True
    then obtain as bs where vs: "vs = as @ v # bs" by (auto simp: in_set_conv_decomp)
    have t: "timers w (as @ v # bs)" using assms vs by simp
    have "remove1 v vs = as @ bs" using timers_parts(1) [OF t] vs by (simp add: remove1_append)
    then show ?thesis using remove_timer_in [OF t] by (simp add: timer_step_def)
  next
    case False
    then show ?thesis using assms remove_timer_out [of w vs v] by (simp add: timer_step_def remove1_idem)
  qed
  then show "timers (remove_timer v w) (remove1 v vs)" "timer_step w (remove_timer v w)" by auto
qed

section \<open>The queue of timers\<close>

text \<open>
  The interface: \<open>queue s es\<close> are the waiting elements in order, \<open>due_at\<close> their times,
  \<open>arm e d\<close> inserts an element with the delay \<open>d\<close>, \<open>disarm e\<close> takes it out.
\<close>

locale timer_queue =
  fixes queue :: "'s \<Rightarrow> 'e list \<Rightarrow> bool" and due_at :: "'s \<Rightarrow> 'e \<Rightarrow> int"
    and arm :: "'e \<Rightarrow> int \<Rightarrow> 's \<Rightarrow> 's option" and disarm :: "'e \<Rightarrow> 's \<Rightarrow> 's"
  assumes in_order: "queue s es \<Longrightarrow> distinct es \<and> sorted (map (due_at s) es)"
    and armed: "queue s es \<Longrightarrow> e \<notin> set es \<Longrightarrow> 0 < d \<Longrightarrow>
      \<exists>s'. arm e d s = Some s' \<and> queue s' (place (due_at s') e es) \<and> (\<forall>u. u \<noteq> e \<longrightarrow> due_at s' u = due_at s u)"
    and disarmed: "queue s es \<Longrightarrow> queue (disarm e s) (remove1 e es) \<and> (\<forall>u. u \<noteq> e \<longrightarrow> due_at (disarm e s) u = due_at s u)"
begin

text \<open>The first element is the one to wait for.\<close>

lemma first_due: "queue s (e # es) \<Longrightarrow> u \<in> set es \<Longrightarrow> due_at s e \<le> due_at s u"
  using in_order [of s "e # es"] by simp

lemma remove_placed: "e \<notin> set es \<Longrightarrow> remove1 e (place f e es) = es"
proof -
  assume "e \<notin> set es"
  then have "e \<notin> set (takeWhile (\<lambda>u. f u < f e) es)" by (auto dest: set_takeWhileD)
  then show ?thesis by (simp add: place_def remove1_append)
qed

lemma arm_disarm:
  assumes "queue s es" and "e \<notin> set es" and "0 < d"
  shows "\<exists>s'. arm e d s = Some s' \<and> queue (disarm e s') es"
proof -
  obtain s' where "arm e d s = Some s'" "queue s' (place (due_at s') e es)"
    using armed [OF assms] by auto
  then show ?thesis using disarmed [of s' "place (due_at s') e es" e] remove_placed [OF assms(2)] by auto
qed

text \<open>A new element goes behind those that are due earlier and in front of all others.\<close>

lemma arm_position:
  assumes "queue s es" and "e \<notin> set es" and "0 < d"
  obtains s' as bs where "arm e d s = Some s'" and "queue s' (as @ e # bs)" and "es = as @ bs"
    and "\<forall>u\<in>set as. due_at s' u < due_at s' e" and "\<forall>u\<in>set bs. due_at s' e \<le> due_at s' u"
proof -
  obtain s' where s': "arm e d s = Some s'" "queue s' (place (due_at s') e es)"
    "\<forall>u. u \<noteq> e \<longrightarrow> due_at s' u = due_at s u"
    using armed [OF assms] by auto
  have same: "map (due_at s') es = map (due_at s) es" using s'(3) assms(2) by auto
  have "sorted (map (due_at s') es)" unfolding same using in_order [OF assms(1)] by simp
  then show ?thesis
    by (rule place_split [where v = e]) (use that s' in auto)
qed

end

text \<open>The clock is monotonic: it counts from the start of the system.\<close>

definition clock_ok :: "kernel \<Rightarrow> bool" where
  "clock_ok k \<longleftrightarrow> (\<forall>tr. 0 \<le> a_ret (k tr Clock))"

lemma time_ms_nonneg: "clock_ok (kernel w) \<Longrightarrow> time_ms w = (t, w') \<Longrightarrow> 0 \<le> t"
  by (auto simp: clock_ok_def time_ms_def call_def sys_def Let_def pos_imp_zdiv_nonneg_iff)

definition timer_list :: "proc \<Rightarrow> nat list \<Rightarrow> bool" where
  "timer_list w vs \<longleftrightarrow> timers w vs \<and> clock_ok (kernel w)"

lemma timer_list_arm:
  assumes "timer_list w vs" and "v \<notin> set vs" and "0 < ms"
  shows "\<exists>w'. set_timer v ms w = Some w' \<and> timer_list w' (place (due w') v vs) \<and> (\<forall>u. u \<noteq> v \<longrightarrow> due w' u = due w u)"
proof -
  obtain t tr e where t: "time_ms w = (t, w\<lparr>trace := tr, errno := e\<rparr>)" by (rule time_ms_cases)
  have "0 \<le> t" using assms(1) time_ms_nonneg [OF _ t] by (simp add: timer_list_def)
  then have nz: "t + ms \<noteq> 0" using assms(3) by simp
  have "timers w vs" using assms(1) by (simp add: timer_list_def)
  from set_timer_ok [OF this assms(2) t nz] show ?thesis
    using assms(1) by (metis timer_list_def timer_step_kernel)
qed

lemma timer_list_disarm:
  assumes "timer_list w vs"
  shows "timer_list (remove_timer v w) (remove1 v vs) \<and> (\<forall>u. u \<noteq> v \<longrightarrow> due (remove_timer v w) u = due w u)"
proof (cases "v \<in> set vs")
  case True
  then obtain as bs where vs: "vs = as @ v # bs" by (auto simp: in_set_conv_decomp)
  have t: "timers w (as @ v # bs)" using assms vs by (simp add: timer_list_def)
  then have "remove1 v vs = as @ bs" using timers_parts(1) [OF t] vs by (simp add: remove1_append)
  then show ?thesis
    using remove_timer_in [OF t] assms by (simp add: timer_list_def)
next
  case False
  then show ?thesis
    using assms remove_timer_out [of w vs v] by (simp add: timer_list_def remove1_idem)
qed

interpretation tq: timer_queue timer_list due set_timer remove_timer
  by unfold_locales
    (simp add: timer_list_def timers_def, rule timer_list_arm, assumption+, rule timer_list_disarm, assumption)

section \<open>Properties\<close>

text \<open>
  C20: A timer is inserted behind the timers that are due earlier and in front of all others; the
  list stays a sorted doubly linked list, and the call always returns.
\<close>

theorem set_timer_sorted:
  assumes "timers w vs" and "clock_ok (kernel w)" and "v \<notin> set vs" and "0 < ms"
  shows "\<exists>w' as bs. set_timer v ms w = Some w' \<and> timers w' (as @ v # bs) \<and> vs = as @ bs \<and>
           (\<forall>u\<in>set as. due w' u < due w' v) \<and> (\<forall>u\<in>set bs. due w' v \<le> due w' u)"
proof -
  have "timer_list w vs" using assms by (simp add: timer_list_def)
  from tq.arm_position [OF this assms(3,4)] show ?thesis by (metis timer_list_def)
qed

text \<open>Event 2 waits for the time 40.\<close>

definition one_timer :: proc where
  "one_timer = (fresh calm)\<lparr>items := (\<lambda>v. zero_eval\<lparr>e_tv_ms := (if v = 2 then 40 else 0)\<rparr>), tv_start := Some 2, tv_end := Some 2\<rparr>"

lemma one_timer_list: "timers one_timer [2]"
  by (simp add: timers_def one_timer_def samples zero_eval_def)

lemma calm_clock: "clock_ok (kernel one_timer)"
  by (simp add: clock_ok_def one_timer_def samples)

theorem set_timer_sorted_witness:
  "\<exists>w' as bs. set_timer 1 7 one_timer = Some w' \<and> timers w' (as @ 1 # bs) \<and> [2] = as @ bs"
  using set_timer_sorted [OF one_timer_list calm_clock, of 1 7] by fastforce

text \<open>
  Setting a timer and removing it again leaves the list of timers as it was.
\<close>

theorem set_remove_timer:
  assumes "timers w vs" and "clock_ok (kernel w)" and "v \<notin> set vs" and "0 < ms"
  shows "\<exists>w'. set_timer v ms w = Some w' \<and> timers (remove_timer v w') vs"
proof -
  have "timer_list w vs" using assms by (simp add: timer_list_def)
  from tq.arm_disarm [OF this assms(3,4)] show ?thesis by (auto simp: timer_list_def)
qed

theorem set_remove_timer_witness:
  "\<exists>w'. set_timer 1 7 one_timer = Some w' \<and> timers (remove_timer 1 w') [2]"
  by (rule set_remove_timer [OF one_timer_list calm_clock]) simp_all

text \<open>
  C32: When the first timer is due, and less than \<open>2^31\<close> milliseconds ago, waiting for an event delivers it at once, as a timeout and
  without polling; it is the one that is due first, and it is no longer in the list.
\<close>

theorem due_timer_fires:
  assumes "timers w (v # vs)" and "time_ms w = (t, w1)" and "due w v \<le> t" and "t < due w v + 2 ^ 31"
  shows "\<exists>w'. next_event_tv offs type w = Some (Some v, offs, int POLLTIMEOUT, w') \<and> timers w' vs \<and>
           trace w' = trace w1 \<and> due w' v = 0 \<and> (\<forall>u\<in>set vs. due w v \<le> due w u)"
proof -
  obtain t' tr e where "time_ms w = (t', w\<lparr>trace := tr, errno := e\<rparr>)" by (rule time_ms_cases)
  then have w1: "w1 = w\<lparr>trace := tr, errno := e\<rparr>" using assms(2) by simp
  have t: "timers w1 ([] @ v # vs)" using assms(1) by (simp add: w1 timers_def)
  have "to_int (due w v - t) = due w v - t"
    using assms(3,4) by (simp add: to_int_def)
  moreover have "tv_start w = Some v" using timers_parts(3) [OF assms(1)] by simp
  ultimately have "next_event_tv offs type w = Some (Some v, offs, int POLLTIMEOUT, remove_timer v w1)"
    using assms(2,3) by (simp add: next_event_tv_def w1)
  moreover have "timers (remove_timer v w1) vs" "trace (remove_timer v w1) = trace w1" "due (remove_timer v w1) v = 0"
    using remove_timer_in [OF t] by simp_all
  moreover have "\<forall>u\<in>set vs. due w v \<le> due w u" using timers_parts(5) [OF assms(1)] by simp
  ultimately show ?thesis by blast
qed

theorem due_timer_fires_witness:
  "\<exists>w'. next_event_tv (- 1) 0 one_timer = Some (Some 2, - 1, int POLLTIMEOUT, w') \<and> timers w' []"
  using due_timer_fires [OF one_timer_list, of 50 "snd (time_ms one_timer)"]
  by (fastforce simp: one_timer_def samples time_ms_def call_def sys_def Let_def)

end
