(* ===== verification/Buffers.thy ===== *)
theory Buffers
  imports Timers
begin

text \<open>
  The recycled buffers of conev.c. \<open>free_bufs w bs\<close> says that the list of free buffers holds
  \<open>bs\<close>: live, distinct, counted, and at most \<open>MAX_BUFF_INP\<close> of them. The locale
  \<open>recycler\<close> states what the users of the list rely on.
\<close>

definition free_bufs :: "proc \<Rightarrow> nat list \<Rightarrow> bool" where
  "free_bufs w bs \<longleftrightarrow>
     chain (bufs w) b_next (root_buff w) bs \<and> distinct bs \<and> buff_count w = int (length bs) \<and> length bs \<le> 8 \<and>
     (\<forall>b. bufs w b \<noteq> None \<longrightarrow> b < next_addr w)"

locale recycler =
  fixes free :: "'s \<Rightarrow> 'b list \<Rightarrow> bool" and live :: "'s \<Rightarrow> 'b \<Rightarrow> bool" and cap :: nat
    and take_one :: "'s \<Rightarrow> ('b option \<times> 's) option" and give :: "'b \<Rightarrow> 's \<Rightarrow> 's option"
  assumes bounded: "free s bs \<Longrightarrow> distinct bs \<and> length bs \<le> cap"
    and alive: "free s bs \<Longrightarrow> b \<in> set bs \<Longrightarrow> live s b"
    and take_free: "free s (b # bs) \<Longrightarrow> \<exists>s'. take_one s = Some (Some b, s') \<and> free s' bs \<and> (\<forall>x. live s' x \<longleftrightarrow> live s x)"
    and take_new: "free s [] \<Longrightarrow> \<exists>r s'. take_one s = Some (r, s') \<and> free s' [] \<and>
      (\<forall>b. r = Some b \<longrightarrow> \<not> live s b) \<and> (\<forall>x. live s' x \<longleftrightarrow> live s x \<or> r = Some x)"
    and give_room: "free s bs \<Longrightarrow> live s b \<Longrightarrow> b \<notin> set bs \<Longrightarrow> length bs < cap \<Longrightarrow>
      \<exists>s'. give b s = Some s' \<and> free s' (b # bs) \<and> (\<forall>x. live s' x \<longleftrightarrow> live s x)"
    and give_full: "free s bs \<Longrightarrow> live s b \<Longrightarrow> b \<notin> set bs \<Longrightarrow> length bs = cap \<Longrightarrow>
      \<exists>s'. give b s = Some s' \<and> free s' bs \<and> (\<forall>x. live s' x \<longleftrightarrow> live s x \<and> x \<noteq> b)"
    and room: "0 < cap"
begin

text \<open>Taking never fails except for want of memory, and what was taken is live and not free.\<close>

lemma take_ok:
  assumes "free s bs"
  shows "\<exists>r s'. take_one s = Some (r, s') \<and> free s' (tl bs) \<and>
    (\<forall>b. r = Some b \<longrightarrow> live s' b \<and> b \<notin> set (tl bs) \<and> (bs = [] \<longrightarrow> \<not> live s b) \<and> (bs \<noteq> [] \<longrightarrow> b = hd bs)) \<and>
    (\<forall>x. live s x \<longrightarrow> live s' x) \<and> (\<forall>x. live s' x \<longrightarrow> live s x \<or> r = Some x)"
proof (cases bs)
  case Nil
  then obtain r s' where "take_one s = Some (r, s')" "free s' []" "\<forall>b. r = Some b \<longrightarrow> \<not> live s b"
    "\<forall>x. live s' x \<longleftrightarrow> live s x \<or> r = Some x"
    using take_new assms by blast
  then show ?thesis using Nil by auto
next
  case (Cons b cs)
  then obtain s' where s': "take_one s = Some (Some b, s')" "free s' cs" "\<forall>x. live s' x \<longleftrightarrow> live s x"
    using take_free assms by blast
  have "b \<notin> set cs" using bounded [OF assms] Cons by simp
  then show ?thesis using s' Cons alive [OF assms, of b] by auto
qed

text \<open>Giving never fails: nothing is lost while there is room, and the list never grows past it.\<close>

lemma give_ok:
  assumes "free s bs" and "live s b" and "b \<notin> set bs"
  obtains s' cs where "give b s = Some s'" and "free s' cs" and "cs = (if length bs < cap then b # bs else bs)"
    and "\<And>x. x \<noteq> b \<Longrightarrow> live s' x \<longleftrightarrow> live s x"
  using give_room [OF assms] give_full [OF assms] bounded [OF assms(1)]
  by (metis (full_types) le_neq_implies_less)

text \<open>A buffer that is taken and given back at once is the next to be taken.\<close>

lemma take_give_take:
  assumes "free s bs" and "take_one s = Some (Some b, s1)"
  shows "\<exists>s2 s3. give b s1 = Some s2 \<and> take_one s2 = Some (Some b, s3) \<and> free s3 (tl bs)"
proof -
  obtain r s' where t: "take_one s = Some (r, s')" "free s' (tl bs)"
    "\<forall>b. r = Some b \<longrightarrow> live s' b \<and> b \<notin> set (tl bs)"
    using take_ok [OF assms(1)] by metis
  have "length (tl bs) < cap" using bounded [OF assms(1)] room by (cases bs) auto
  then obtain s2 where "give b s1 = Some s2" "free s2 (b # tl bs)"
    using give_room [of s1 "tl bs" b] t assms(2) by auto
  then show ?thesis using take_free by metis
qed

end

section \<open>The list of conev.c\<close>

abbreviation live_buf :: "proc \<Rightarrow> nat \<Rightarrow> bool" where
  "live_buf w b \<equiv> bufs w b \<noteq> None"

lemma free_bufs_parts:
  assumes "free_bufs w bs"
  shows "chain (bufs w) b_next (root_buff w) bs" "distinct bs" "buff_count w = int (length bs)" "length bs \<le> 8"
    "live_buf w b \<Longrightarrow> b < next_addr w" "root_buff w = first_of bs None"
  using assms chain_root unfolding free_bufs_def by (auto; fastforce)+

text \<open>What the functions on buffers may change.\<close>

definition buffer_step :: "proc \<Rightarrow> proc \<Rightarrow> bool" where
  "buffer_step w w' \<longleftrightarrow>
     w' = w\<lparr>trace := trace w', errno := errno w', bufs := bufs w', root_buff := root_buff w',
            buff_count := buff_count w', next_addr := next_addr w'\<rparr>"

lemma buff_pop_free:
  assumes "free_bufs w (b # bs)"
  shows "\<exists>w'. buff_pop n w = Some (Some b, w') \<and> free_bufs w' bs \<and> (\<forall>x. live_buf w' x \<longleftrightarrow> live_buf w x)"
proof -
  note f = free_bufs_parts [OF assms]
  obtain x where x: "bufs w b = Some x" "chain (bufs w) b_next (b_next x) bs" using f(1) by auto
  have "root_buff w = Some b" using f(6) by simp
  then have "buff_pop n w = Some (Some b, w\<lparr>root_buff := b_next x, buff_count := buff_count w - 1\<rparr>)"
    using x(1) by (simp add: buff_pop_def)
  moreover have "free_bufs (w\<lparr>root_buff := b_next x, buff_count := buff_count w - 1\<rparr>) bs"
    using f x(2) by (simp add: free_bufs_def)
  ultimately show ?thesis by simp
qed

lemma buff_pop_new:
  assumes "free_bufs w []"
  shows "\<exists>r w'. buff_pop n w = Some (r, w') \<and> free_bufs w' [] \<and> (\<forall>b. r = Some b \<longrightarrow> \<not> live_buf w b) \<and>
    (\<forall>x. live_buf w' x \<longleftrightarrow> live_buf w x \<or> r = Some x)"
proof -
  note f = free_bufs_parts [OF assms]
  obtain a e where s: "sys (Malloc (40 + n)) w = (a, w\<lparr>trace := trace w @ [(Malloc (40 + n), a)], errno := e\<rparr>)"
    by (rule sys_cases)
  have new: "\<not> live_buf w (next_addr w)" using f(5) by blast
  show ?thesis
    using assms new f(6) by (auto simp: buff_pop_def s free_bufs_def less_Suc_eq Let_def)
qed

lemma buff_push_room:
  assumes "free_bufs w bs" and "live_buf w b" and "b \<notin> set bs" and "length bs < 8"
  shows "\<exists>w'. buff_push (Some b) w = Some w' \<and> free_bufs w' (b # bs) \<and> (\<forall>x. live_buf w' x \<longleftrightarrow> live_buf w x)"
proof -
  note f = free_bufs_parts [OF assms(1)]
  obtain x where x: "bufs w b = Some x" using assms(2) by blast
  have "buff_count w < MAX_BUFF_INP" using f(3) assms(4) by (simp add: MAX_BUFF_INP_def)
  moreover have "chain ((bufs w)(b \<mapsto> x\<lparr>b_lock := 0, b_offset := 0, b_next := root_buff w\<rparr>)) b_next (root_buff w) bs"
    using f(1) by (subst chain_cong [where s' = "bufs w"]) (use assms(3) in auto)
  ultimately show ?thesis
    using assms f x by (auto simp: buff_push_def free_bufs_def)
qed

lemma buff_push_full:
  assumes "free_bufs w bs" and "live_buf w b" and "b \<notin> set bs" and "length bs = 8"
  shows "\<exists>w'. buff_push (Some b) w = Some w' \<and> free_bufs w' bs \<and> (\<forall>x. live_buf w' x \<longleftrightarrow> live_buf w x \<and> x \<noteq> b)"
proof -
  note f = free_bufs_parts [OF assms(1)]
  obtain x where x: "bufs w b = Some x" using assms(2) by blast
  have "buff_count w \<ge> MAX_BUFF_INP" using f(3) assms(4) by (simp add: MAX_BUFF_INP_def)
  moreover have "chain ((bufs w)(b := None)) b_next (root_buff w) bs"
    using f(1) by (subst chain_cong [where s' = "bufs w"]) (use assms(3) in auto)
  ultimately show ?thesis
    using assms f x by (auto simp: buff_push_def free_bufs_def)
qed

interpretation rb: recycler free_bufs live_buf 8 "buff_pop n" "\<lambda>b. buff_push (Some b)" for n
proof
  show "free_bufs w bs \<Longrightarrow> distinct bs \<and> length bs \<le> 8" for w bs by (simp add: free_bufs_def)
  show "free_bufs w bs \<Longrightarrow> b \<in> set bs \<Longrightarrow> live_buf w b" for w bs b
    using chain_stored by (fastforce simp: free_bufs_def)
qed (use buff_pop_free buff_pop_new buff_push_room buff_push_full in \<open>blast | simp\<close>)+

end
