(* ===== verification/Events.thy ===== *)
theory Events
  imports Buffers
begin

text \<open>
  The pool of events of conev.c. \<open>events_ok\<close> is its invariant: the array of links is a
  permutation whose first \<open>count\<close> entries are the live events, each knows its index and its
  partner, the timers run on live events, and every buffer is either free or owned by one
  live event. Adding and deleting events keep it, and deleting ends.
\<close>

definition live :: "proc \<Rightarrow> nat \<Rightarrow> bool" where
  "live w v \<longleftrightarrow> (\<exists>i<pl_count w. pl_links w i = v)"

definition owns :: "proc \<Rightarrow> nat \<Rightarrow> nat \<Rightarrow> bool" where
  "owns w v b \<longleftrightarrow> e_buff (items w v) = Some b \<or> e_sq_buff (items w v) = Some b"

definition links_ok :: "proc \<Rightarrow> bool" where
  "links_ok w \<longleftrightarrow>
     pl_count w \<le> pl_max w \<and> inj_on (pl_links w) {..<pl_max w} \<and>
     (\<forall>i<pl_count w. e_index (items w (pl_links w i)) = i \<and> 0 < e_fd (items w (pl_links w i))) \<and>
     (\<forall>v. e_mod_iter (items w v) \<le> pl_iters w)"

definition pairs_ok :: "proc \<Rightarrow> bool" where
  "pairs_ok w \<longleftrightarrow>
     (\<forall>v p. live w v \<longrightarrow> e_pair (items w v) = Some p \<longrightarrow> live w p \<or> e_fd (items w p) = - 1)"

definition bufs_ok :: "proc \<Rightarrow> nat list \<Rightarrow> bool" where
  "bufs_ok w bs \<longleftrightarrow>
     (\<forall>v b. live w v \<longrightarrow> owns w v b \<longrightarrow> live_buf w b \<and> b \<notin> set bs \<and> (\<forall>u. live w u \<longrightarrow> owns w u b \<longrightarrow> u = v)) \<and>
     (\<forall>v b. live w v \<longrightarrow> e_buff (items w v) = Some b \<longrightarrow> e_sq_buff (items w v) \<noteq> Some b)"

definition events_ok :: "proc \<Rightarrow> nat list \<Rightarrow> nat list \<Rightarrow> bool" where
  "events_ok w vs bs \<longleftrightarrow>
     timers w vs \<and> free_bufs w bs \<and> links_ok w \<and> pairs_ok w \<and> bufs_ok w bs \<and> (\<forall>v\<in>set vs. live w v)"

text \<open>The sockets closed in a trace.\<close>

definition closes :: "event_trace \<Rightarrow> int list" where
  "closes tr = concat (map (\<lambda>(c, a). case c of Close fd \<Rightarrow> [fd] | _ \<Rightarrow> []) tr)"

lemma closes_simps [simp]:
  "closes [] = []" "closes (tr @ ts) = closes tr @ closes ts"
  "closes ((c, a) # tr) = (case c of Close fd \<Rightarrow> [fd] | _ \<Rightarrow> []) @ closes tr"
  by (simp_all add: closes_def)

section \<open>Buffers of an event\<close>

lemma buff_push_frame:
  assumes "buff_push r w = Some w'"
  shows "w' = w\<lparr>bufs := bufs w', root_buff := root_buff w', buff_count := buff_count w'\<rparr>"
  using assms by (auto simp: buff_push_def bind_eq_Some_conv split: option.splits if_splits)

lemma buff_push_opt:
  assumes "free_bufs w bs" and "\<And>b. r = Some b \<Longrightarrow> live_buf w b \<and> b \<notin> set bs"
  obtains w' cs where "buff_push r w = Some w'" and "free_bufs w' cs"
    and "\<And>x. r \<noteq> Some x \<Longrightarrow> live_buf w x \<Longrightarrow> x \<notin> set bs \<Longrightarrow> live_buf w' x \<and> x \<notin> set cs"
proof (cases r)
  case None
  then show ?thesis using that [of w bs] assms(1) by (simp add: buff_push_def)
next
  case (Some b)
  then obtain w' cs where "buff_push (Some b) w = Some w'" "free_bufs w' cs" "cs = (if length bs < 8 then b # bs else bs)"
    "\<And>x. x \<noteq> b \<Longrightarrow> live_buf w' x \<longleftrightarrow> live_buf w x"
    using rb.give_ok [OF assms(1), of b] assms(2) [of b] by blast
  then show ?thesis using that [of w' cs] Some by (auto split: if_splits)
qed

lemma upd_ev_id: "f (items w v) = items w v \<Longrightarrow> upd_ev v f w = w"
  by (simp add: upd_ev_def)

lemma drop_buffers_eq:
  "drop_buffers v w = do {
     w \<leftarrow> buff_push (e_buff (items w v)) w;
     w \<leftarrow> buff_push (e_sq_buff (items w v)) (upd_ev v (\<lambda>e. e\<lparr>e_buff := None\<rparr>) w);
     Some (upd_ev v (\<lambda>e. e\<lparr>e_sq_buff := None\<rparr>) w) }"
proof -
  have none: "buff_push None w = Some w" for w by (simp add: buff_push_def)
  have e: "e\<lparr>e_buff := None\<rparr> = e" if "e_buff e = None" for e :: eval using that by (cases e) simp
  have sq: "e\<lparr>e_sq_buff := None\<rparr> = e" if "e_sq_buff e = None" for e :: eval using that by (cases e) simp
  have at: "items (upd_ev v (\<lambda>e. e\<lparr>e_buff := None\<rparr>) w) v = (items w v)\<lparr>e_buff := None\<rparr>" for w
    by (simp add: upd_ev_def)
  have 1: "(case e_sq_buff (items w v) of None \<Rightarrow> Some w
      | Some b \<Rightarrow> do { w \<leftarrow> buff_push (Some b) w; Some (upd_ev v (\<lambda>e. e\<lparr>e_sq_buff := None\<rparr>) w) }) =
      do { w \<leftarrow> buff_push (e_sq_buff (items w v)) w; Some (upd_ev v (\<lambda>e. e\<lparr>e_sq_buff := None\<rparr>) w) }" for w
    by (cases "e_sq_buff (items w v)") (simp_all add: none upd_ev_id sq)
  show ?thesis
    by (cases "e_buff (items w v)") (simp_all add: drop_buffers_def 1 none upd_ev_id e at)
qed

text \<open>What is left of the state: the event without buffers, and a list of free ones.\<close>

definition bare :: "nat \<Rightarrow> (nat \<Rightarrow> eval) \<Rightarrow> nat \<Rightarrow> eval" where
  "bare v it = it(v := (it v)\<lparr>e_buff := None, e_sq_buff := None\<rparr>)"

lemma free_bufs_items [simp]: "free_bufs (w\<lparr>items := it\<rparr>) bs \<longleftrightarrow> free_bufs w bs"
  by (simp add: free_bufs_def)

lemma drop_buffers_ok:
  assumes "free_bufs w bs" and "\<And>b. owns w v b \<Longrightarrow> live_buf w b \<and> b \<notin> set bs"
    and "\<And>b. e_buff (items w v) = Some b \<Longrightarrow> e_sq_buff (items w v) \<noteq> Some b"
  shows "\<exists>bf r n cs. drop_buffers v w = Some (w\<lparr>items := bare v (items w), bufs := bf, root_buff := r, buff_count := n\<rparr>) \<and>
      free_bufs (w\<lparr>bufs := bf, root_buff := r, buff_count := n\<rparr>) cs \<and>
      (\<forall>x. \<not> owns w v x \<longrightarrow> live_buf w x \<longrightarrow> x \<notin> set bs \<longrightarrow> bf x \<noteq> None \<and> x \<notin> set cs)"
proof -
  obtain w1 bs1 where 1: "buff_push (e_buff (items w v)) w = Some w1" "free_bufs w1 bs1"
    "\<And>x. e_buff (items w v) \<noteq> Some x \<Longrightarrow> live_buf w x \<Longrightarrow> x \<notin> set bs \<Longrightarrow> live_buf w1 x \<and> x \<notin> set bs1"
    by (rule buff_push_opt [OF assms(1), of "e_buff (items w v)"]) (use assms(2) in \<open>auto simp: owns_def\<close>)
  note f1 = buff_push_frame [OF 1(1)]
  have it1: "items w1 = items w" by (subst f1) simp
  let ?w = "upd_ev v (\<lambda>e. e\<lparr>e_buff := None\<rparr>) w1"
  have free: "free_bufs ?w bs1" using 1(2) by (simp add: upd_ev_def)
  obtain w2 bs2 where 2: "buff_push (e_sq_buff (items w v)) ?w = Some w2" "free_bufs w2 bs2"
    "\<And>x. e_sq_buff (items w v) \<noteq> Some x \<Longrightarrow> live_buf ?w x \<Longrightarrow> x \<notin> set bs1 \<Longrightarrow> live_buf w2 x \<and> x \<notin> set bs2"
  proof (rule buff_push_opt [OF free, of "e_sq_buff (items w v)"])
    fix b assume b: "e_sq_buff (items w v) = Some b"
    then have "e_buff (items w v) \<noteq> Some b" using assms(3) by auto
    then show "live_buf ?w b \<and> b \<notin> set bs1" using 1(3) [of b] assms(2) [of b] b by (simp add: owns_def upd_ev_def)
  qed blast
  note f2 = buff_push_frame [OF 2(1)]
  have w2: "w2 = w\<lparr>items := (items w)(v := (items w v)\<lparr>e_buff := None\<rparr>), bufs := bufs w2, root_buff := root_buff w2,
      buff_count := buff_count w2\<rparr>"
    by (subst f2, unfold upd_ev_def it1, subst f1) simp
  have "drop_buffers v w = Some (upd_ev v (\<lambda>e. e\<lparr>e_sq_buff := None\<rparr>) w2)"
    using 1(1) 2(1) by (simp add: drop_buffers_eq it1)
  moreover have "upd_ev v (\<lambda>e. e\<lparr>e_sq_buff := None\<rparr>) w2 =
      w\<lparr>items := bare v (items w), bufs := bufs w2, root_buff := root_buff w2, buff_count := buff_count w2\<rparr>"
    by (subst w2) (simp add: upd_ev_def bare_def)
  moreover have "free_bufs (w\<lparr>bufs := bufs w2, root_buff := root_buff w2, buff_count := buff_count w2\<rparr>) bs2"
    using 2(2) by (subst (asm) w2) (simp add: free_bufs_def)
  moreover have "\<forall>x. \<not> owns w v x \<longrightarrow> live_buf w x \<longrightarrow> x \<notin> set bs \<longrightarrow> bufs w2 x \<noteq> None \<and> x \<notin> set bs2"
    using 1(3) 2(3) by (simp add: owns_def upd_ev_def)
  ultimately show ?thesis by metis
qed

section \<open>Unlinking\<close>

lemma unlink_event_ok:
  assumes "pl_count w \<le> pl_max w" and "inj_on (pl_links w) {..<pl_max w}"
    and "i < pl_count w" and "pl_links w i = v" and "e_index (items w v) = i"
    and "\<forall>j<pl_count w. e_index (items w (pl_links w j)) = j"
  shows "\<exists>lk it. unlink_event v w = Some (w\<lparr>pl_count := pl_count w - 1, pl_links := lk, items := it\<rparr>) \<and>
      (\<forall>u. it u = (items w u)\<lparr>e_index := e_index (it u)\<rparr>) \<and> inj_on lk {..<pl_max w} \<and>
      (\<forall>j<pl_count w - 1. e_index (it (lk j)) = j) \<and>
      (\<forall>u. (\<exists>j<pl_count w - 1. lk j = u) \<longleftrightarrow> (\<exists>j<pl_count w. pl_links w j = u) \<and> u \<noteq> v)"
proof -
  define n where "n = pl_count w - 1"
  have n: "pl_count w = Suc n" "n < pl_max w" using assms(1,3) by (auto simp: n_def)
  define l where "l = pl_links w n"
  have inj: "pl_links w j = pl_links w k \<longleftrightarrow> j = k" if "j \<le> n" "k \<le> n" for j k
    using that n(2) by (intro inj_on_eq_iff [OF assms(2)]) auto
  have i: "i \<le> n" using assms(3) n by simp
  show ?thesis
  proof (cases "l = v")
    case True
    then have "i = n" using inj [OF i order_refl] assms(4) by (simp add: l_def)
    have "unlink_event v w = Some (w\<lparr>pl_count := pl_count w - 1, pl_links := pl_links w, items := items w\<rparr>)"
      using n True by (simp add: unlink_event_def l_def)
    moreover have "pl_links w j \<noteq> v" if "j < n" for j
      using that inj [of j n] True by (auto simp: l_def)
    then have "(\<exists>j<n. pl_links w j = u) \<longleftrightarrow> (\<exists>j<pl_count w. pl_links w j = u) \<and> u \<noteq> v" for u
      using True n(1) by (auto simp: less_Suc_eq l_def)
    ultimately show ?thesis
      using assms(2,6) n by (intro exI [of _ "pl_links w"] exI [of _ "items w"]) simp
  next
    case False
    define lk where "lk = (pl_links w)(i := l, n := v)"
    define it where "it = (items w)(l := (items w l)\<lparr>e_index := i\<rparr>)"
    have lt: "i < n" using False i assms(4) by (auto simp: l_def order.order_iff_strict)
    have 1: "inj_on lk {..<pl_max w}"
    proof (rule inj_onI)
      fix j k
      assume jk: "j \<in> {..<pl_max w}" "k \<in> {..<pl_max w}" "lk j = lk k"
      have "i \<in> {..<pl_max w}" "n \<in> {..<pl_max w}" using lt n(2) by auto
      then show "j = k"
        using jk lt assms(4) inj_on_eq_iff [OF assms(2)] by (auto simp: lk_def l_def split: if_splits)
    qed
    have 2: "unlink_event v w = Some (w\<lparr>pl_count := pl_count w - 1, pl_links := lk, items := it\<rparr>)"
      using n False lt assms(5) by (simp add: unlink_event_def l_def lk_def it_def upd_ev_def Let_def)
    have 3: "e_index (it (lk j)) = j" if "j < n" for j
      using that assms(6) n(1) inj [of j n] by (auto simp: it_def lk_def l_def)
    have 4: "(\<exists>j<n. lk j = u) \<longleftrightarrow> (\<exists>j<pl_count w. pl_links w j = u) \<and> u \<noteq> v" for u
    proof
      assume "\<exists>j<n. lk j = u"
      then obtain j where j: "j < n" "lk j = u" by blast
      show "(\<exists>j<pl_count w. pl_links w j = u) \<and> u \<noteq> v"
        using j inj [of j i] lt n(1) assms(4) False by (cases "j = i") (auto simp: lk_def l_def less_Suc_eq)
    next
      assume "(\<exists>j<pl_count w. pl_links w j = u) \<and> u \<noteq> v"
      then obtain j where j: "j \<le> n" "pl_links w j = u" "u \<noteq> v" using n(1) by (auto simp: less_Suc_eq_le)
      then have "j \<noteq> i" using assms(4) by auto
      show "\<exists>j<n. lk j = u"
      proof (cases "j = n")
        case True
        then show ?thesis using lt j by (intro exI [of _ i]) (simp add: lk_def l_def)
      next
        case False
        then show ?thesis using j \<open>j \<noteq> i\<close> by (intro exI [of _ j]) (simp add: lk_def)
      qed
    qed
    show ?thesis
      by (intro exI [of _ lk] exI [of _ it] conjI 1 2) (use 3 4 in \<open>auto simp: it_def n_def\<close>)
  qed
qed

section \<open>Deleting an event\<close>

lemma live_eventD:
  assumes "events_ok w vs bs" and "live w v"
  shows "0 < e_fd (items w v)" "e_index (items w v) < pl_count w" "pl_links w (e_index (items w v)) = v"
    "e_mod_iter (items w u) \<le> pl_iters w"
    "e_pair (items w v) = Some p \<Longrightarrow> live w p \<or> e_fd (items w p) = - 1"
    "owns w v b \<Longrightarrow> live_buf w b \<and> b \<notin> set bs" "owns w v b \<Longrightarrow> live w u \<Longrightarrow> owns w u b \<Longrightarrow> u = v"
    "e_buff (items w v) = Some b \<Longrightarrow> e_sq_buff (items w v) \<noteq> Some b"
proof -
  from assms(2) obtain i where i: "i < pl_count w" "pl_links w i = v" by (auto simp: live_def)
  have "links_ok w" using assms(1) by (simp add: events_ok_def)
  then have "e_index (items w v) = i" "0 < e_fd (items w v)" "e_mod_iter (items w u) \<le> pl_iters w"
    using i by (auto simp: links_ok_def)
  then show "0 < e_fd (items w v)" "e_index (items w v) < pl_count w" "pl_links w (e_index (items w v)) = v"
    "e_mod_iter (items w u) \<le> pl_iters w" using i by simp_all
  show "e_pair (items w v) = Some p \<Longrightarrow> live w p \<or> e_fd (items w p) = - 1"
    using assms by (auto simp: events_ok_def pairs_ok_def)
  show "owns w v b \<Longrightarrow> live_buf w b \<and> b \<notin> set bs" "owns w v b \<Longrightarrow> live w u \<Longrightarrow> owns w u b \<Longrightarrow> u = v"
    "e_buff (items w v) = Some b \<Longrightarrow> e_sq_buff (items w v) \<noteq> Some b"
    using assms unfolding events_ok_def bufs_ok_def by blast+
qed

lemma drop_memory_eq:
  "\<exists>tr e. drop_memory v w = w\<lparr>trace := tr, errno := e, items := (items w)(v := (items w v)\<lparr>e_restore_fake := None, e_host := None\<rparr>)\<rparr> \<and>
     closes tr = closes (trace w)"
proof (cases "e_restore_fake (items w v)")
  case None
  then have "(items w v)\<lparr>e_restore_fake := None, e_host := None\<rparr> = (items w v)\<lparr>e_host := None\<rparr>"
    by (cases "items w v") simp
  then show ?thesis
    by (intro exI [of _ "trace w"] exI [of _ "errno w"]) (simp only: None drop_memory_def upd_ev_def option.case Let_def, simp)
next
  case (Some p)
  obtain a e where c: "call (Munmap p (e_restore_fake_len (items w v))) w =
      (a_ret a, w\<lparr>trace := trace w @ [(Munmap p (e_restore_fake_len (items w v)), a)], errno := e\<rparr>)"
    by (rule call_cases)
  show ?thesis
    by (intro exI [of _ "trace w @ [(Munmap p (e_restore_fake_len (items w v)), a)]"] exI [of _ e])
       (simp add: Some drop_memory_def upd_ev_def c)
qed

text \<open>The event as \<open>close_event\<close> leaves it, up to its timer fields.\<close>

definition closed :: "nat \<Rightarrow> eval \<Rightarrow> eval" where
  "closed it e = e\<lparr>e_buff := None, e_sq_buff := None, e_restore_fake := None, e_host := None, e_fd := - 1, e_mod_iter := it\<rparr>"

lemma close_event_eq:
  assumes "events_ok w vs bs" and "live w v"
  shows "\<exists>tr e bf r n cs. close_event v w = unlink_event v (remove_timer v (w\<lparr>trace := tr, errno := e,
        items := (items w)(v := closed (pl_iters w) (items w v)), bufs := bf, root_buff := r, buff_count := n\<rparr>)) \<and>
      free_bufs (w\<lparr>bufs := bf, root_buff := r, buff_count := n\<rparr>) cs \<and>
      (\<forall>x. \<not> owns w v x \<longrightarrow> live_buf w x \<longrightarrow> x \<notin> set bs \<longrightarrow> bf x \<noteq> None \<and> x \<notin> set cs) \<and>
      closes tr = closes (trace w) @ (if e_fd (items w v) = server_fd w then [] else [e_fd (items w v)])"
proof -
  note d = live_eventD [OF assms]
  have free: "free_bufs w bs" using assms(1) by (simp add: events_ok_def)
  obtain a e where 1: "call (Epoll_ctl_del (pl_efd w) (e_fd (items w v))) w =
      (a_ret a, w\<lparr>trace := trace w @ [(Epoll_ctl_del (pl_efd w) (e_fd (items w v)), a)], errno := e\<rparr>)"
    by (rule call_cases)
  define tr1 where "tr1 = trace w @ [(Epoll_ctl_del (pl_efd w) (e_fd (items w v)), a)]"
  let ?w1 = "w\<lparr>trace := tr1, errno := e\<rparr>"
  have w1: "free_bufs ?w1 bs" "items ?w1 = items w" "owns ?w1 = owns w" "bufs ?w1 = bufs w"
    using free by (simp_all add: free_bufs_def owns_def fun_eq_iff)
  have "\<exists>bf r n cs. drop_buffers v ?w1 = Some (?w1\<lparr>items := bare v (items ?w1), bufs := bf, root_buff := r, buff_count := n\<rparr>) \<and>
      free_bufs (?w1\<lparr>bufs := bf, root_buff := r, buff_count := n\<rparr>) cs \<and>
      (\<forall>x. \<not> owns ?w1 v x \<longrightarrow> live_buf ?w1 x \<longrightarrow> x \<notin> set bs \<longrightarrow> bf x \<noteq> None \<and> x \<notin> set cs)"
    by (rule drop_buffers_ok [OF w1(1)]) (simp_all only: w1 d(6) d(8) not_False_eq_True simp_thms)
  then obtain bf r n cs where 2: "drop_buffers v ?w1 = Some (?w1\<lparr>items := bare v (items w), bufs := bf, root_buff := r, buff_count := n\<rparr>)"
    "free_bufs (?w1\<lparr>bufs := bf, root_buff := r, buff_count := n\<rparr>) cs"
    "\<forall>x. \<not> owns w v x \<longrightarrow> live_buf w x \<longrightarrow> x \<notin> set bs \<longrightarrow> bf x \<noteq> None \<and> x \<notin> set cs"
    unfolding w1 by blast
  define w2 where "w2 = ?w1\<lparr>items := bare v (items w), bufs := bf, root_buff := r, buff_count := n\<rparr>"
  define x where "x = (items w2 v)\<lparr>e_restore_fake := None, e_host := None\<rparr>"
  obtain tr3 e3 where 3: "drop_memory v w2 = w2\<lparr>trace := tr3, errno := e3, items := (items w2)(v := x)\<rparr>"
    "closes tr3 = closes (trace w2)"
    using drop_memory_eq [of v w2] unfolding x_def by blast
  have fin: "closes (trace w2) = closes (trace w)" by (simp add: w2_def tr1_def)
  let ?fd = "e_fd (items w v)"
  define w3 where "w3 = drop_memory v w2"
  have w3: "w3 = w\<lparr>trace := tr3, errno := e3, items := (items w)(v := x), bufs := bf, root_buff := r, buff_count := n\<rparr>"
    by (simp add: w3_def 3(1)) (simp add: w2_def bare_def)
  obtain tr4 e4 where 4: "(if ?fd \<noteq> server_fd w3 \<and> ?fd > 0 then close_fd ?fd w3 else w3) = w3\<lparr>trace := tr4, errno := e4\<rparr>"
    "closes tr4 = closes tr3 @ (if ?fd = server_fd w then [] else [?fd])"
  proof (cases "?fd = server_fd w")
    case True
    show ?thesis by (rule that [where ?tr4.0 = tr3 and ?e4.0 = e3]) (simp_all add: w3 True)
  next
    case False
    obtain a4 e4 where c: "call (Close ?fd) w3 = (a_ret a4, w3\<lparr>trace := trace w3 @ [(Close ?fd, a4)], errno := e4\<rparr>)"
      by (rule call_cases)
    show ?thesis
      by (rule that [where ?tr4.0 = "trace w3 @ [(Close ?fd, a4)]" and ?e4.0 = e4]) (use False d(1) c in \<open>simp_all add: close_fd_def w3\<close>)
  qed
  have x: "x\<lparr>e_fd := - 1, e_mod_iter := pl_iters w\<rparr> = closed (pl_iters w) (items w v)"
    by (simp add: x_def w2_def bare_def closed_def)
  have "close_event v w = unlink_event v (remove_timer v
      (upd_ev v (\<lambda>e. e\<lparr>e_fd := - 1, e_mod_iter := pl_iters w\<rparr>) (w3\<lparr>trace := tr4, errno := e4\<rparr>)))"
    unfolding close_event_def Let_def 1 snd_conv tr1_def [symmetric] 2(1) [folded w2_def] bind.bind_lunit
      w3_def [symmetric] 4(1)
    by (simp add: w3)
  also have "upd_ev v (\<lambda>e. e\<lparr>e_fd := - 1, e_mod_iter := pl_iters w\<rparr>) (w3\<lparr>trace := tr4, errno := e4\<rparr>) =
      w\<lparr>trace := tr4, errno := e4, items := (items w)(v := closed (pl_iters w) (items w v)), bufs := bf, root_buff := r, buff_count := n\<rparr>"
    by (simp add: upd_ev_def w3 x)
  finally have "close_event v w = unlink_event v (remove_timer v (w\<lparr>trace := tr4, errno := e4,
        items := (items w)(v := closed (pl_iters w) (items w v)), bufs := bf, root_buff := r, buff_count := n\<rparr>))" .
  moreover have "free_bufs (w\<lparr>bufs := bf, root_buff := r, buff_count := n\<rparr>) cs"
    using 2(2) by (simp add: free_bufs_def)
  moreover have "closes tr4 = closes (trace w) @ (if ?fd = server_fd w then [] else [?fd])"
    using 3(2) 4(2) fin by simp
  ultimately show ?thesis using 2(3) by blast
qed

text \<open>What deleting events may change; a live event keeps everything but timers, index and partner.\<close>

definition kept :: "eval \<Rightarrow> eval \<Rightarrow> bool" where
  "kept x y \<longleftrightarrow> y = x\<lparr>e_tv_ms := e_tv_ms y, e_tv_next := e_tv_next y, e_tv_prev := e_tv_prev y, e_index := e_index y\<rparr>"

definition same_pool :: "proc \<Rightarrow> proc \<Rightarrow> bool" where
  "same_pool w w' \<longleftrightarrow>
     pl_iters w' = pl_iters w \<and> server_fd w' = server_fd w \<and> pl_efd w' = pl_efd w \<and> pl_max w' = pl_max w \<and>
     pl_pevents w' = pl_pevents w \<and> kernel w' = kernel w \<and> ctrl_fds w' = ctrl_fds w"

lemma kept_trans: "same_event x y \<Longrightarrow> z = y\<lparr>e_index := e_index z\<rparr> \<Longrightarrow> kept x z"
  unfolding same_event_def kept_def by (erule ssubst, erule ssubst, simp)

lemma kept_fields:
  assumes "kept x y"
  shows "e_fd y = e_fd x" "e_buff y = e_buff x" "e_sq_buff y = e_sq_buff x" "e_pair y = e_pair x" "e_mod_iter y = e_mod_iter x"
    "e_cb y = e_cb x"
proof -
  have eq: "y = x\<lparr>e_tv_ms := e_tv_ms y, e_tv_next := e_tv_next y, e_tv_prev := e_tv_prev y, e_index := e_index y\<rparr>"
    using assms by (simp only: kept_def)
  show "e_fd y = e_fd x" using arg_cong [OF eq, of e_fd] by simp
  show "e_buff y = e_buff x" using arg_cong [OF eq, of e_buff] by simp
  show "e_sq_buff y = e_sq_buff x" using arg_cong [OF eq, of e_sq_buff] by simp
  show "e_pair y = e_pair x" using arg_cong [OF eq, of e_pair] by simp
  show "e_mod_iter y = e_mod_iter x" using arg_cong [OF eq, of e_mod_iter] by simp
  show "e_cb y = e_cb x" using arg_cong [OF eq, of e_cb] by simp
qed

lemma same_event_index: "same_event x y \<Longrightarrow> e_index y = e_index x"
  unfolding same_event_def by (drule arg_cong [where f = e_index]) simp

lemma close_event_ok:
  assumes "events_ok w vs bs" and "live w v"
  shows "\<exists>w' cs. close_event v w = Some w' \<and> events_ok w' (remove1 v vs) cs \<and>
      (\<forall>u. live w' u \<longleftrightarrow> live w u \<and> u \<noteq> v) \<and> pl_count w' = pl_count w - 1 \<and>
      kept (closed (pl_iters w) (items w v)) (items w' v) \<and> (\<forall>u. u \<noteq> v \<longrightarrow> kept (items w u) (items w' u)) \<and>
      same_pool w w' \<and>
      closes (trace w') = closes (trace w) @ (if e_fd (items w v) = server_fd w then [] else [e_fd (items w v)])"
proof -
  note d = live_eventD [OF assms]
  obtain tr e bf r n cs where ce: "close_event v w = unlink_event v (remove_timer v (w\<lparr>trace := tr, errno := e,
        items := (items w)(v := closed (pl_iters w) (items w v)), bufs := bf, root_buff := r, buff_count := n\<rparr>))"
    and free: "free_bufs (w\<lparr>bufs := bf, root_buff := r, buff_count := n\<rparr>) cs"
    and others: "\<forall>x. \<not> owns w v x \<longrightarrow> live_buf w x \<longrightarrow> x \<notin> set bs \<longrightarrow> bf x \<noteq> None \<and> x \<notin> set cs"
    and cl: "closes tr = closes (trace w) @ (if e_fd (items w v) = server_fd w then [] else [e_fd (items w v)])"
    using close_event_eq [OF assms] by blast
  define w1 where "w1 = w\<lparr>trace := tr, errno := e, items := (items w)(v := closed (pl_iters w) (items w v)), bufs := bf,
      root_buff := r, buff_count := n\<rparr>"
  have t1: "timers w1 vs"
  proof -
    have "timers w vs" using assms(1) by (simp add: events_ok_def)
    then show ?thesis
      by (subst timers_cong [of _ w]) (auto simp: w1_def closed_def fun_eq_iff)
  qed
  define w2 where "w2 = remove_timer v w1"
  have t2: "timers w2 (remove1 v vs)" and st: "timer_step w1 w2"
    using remove_timer_ok [OF t1] by (simp_all add: w2_def)
  have w2: "w2 = w1\<lparr>trace := trace w2, errno := errno w2, items := items w2, tv_start := tv_start w2, tv_end := tv_end w2\<rparr>"
    and same: "same_event (items w1 u) (items w2 u)" for u
    using st by (simp_all add: timer_step_def)
  have tr2: "trace w2 = tr" by (simp add: w2_def w1_def remove_timer_def Let_def)
  have idx: "e_index (items w2 u) = e_index (items w u)" for u
    using same_event_index [OF same [of u]] by (simp add: w1_def closed_def)
  have pool2: "pl_count w2 = pl_count w" "pl_max w2 = pl_max w" "pl_links w2 = pl_links w" "pl_iters w2 = pl_iters w"
    "server_fd w2 = server_fd w" "bufs w2 = bf"
    by (subst w2, simp add: w1_def)+
  have lk: "links_ok w" using assms(1) by (simp add: events_ok_def)
  then have lkd: "pl_count w \<le> pl_max w" "inj_on (pl_links w) {..<pl_max w}"
    "\<forall>j<pl_count w. e_index (items w (pl_links w j)) = j" by (simp_all add: links_ok_def)
  have "\<exists>lk it. unlink_event v w2 = Some (w2\<lparr>pl_count := pl_count w2 - 1, pl_links := lk, items := it\<rparr>) \<and>
      (\<forall>u. it u = (items w2 u)\<lparr>e_index := e_index (it u)\<rparr>) \<and> inj_on lk {..<pl_max w2} \<and>
      (\<forall>j<pl_count w2 - 1. e_index (it (lk j)) = j) \<and>
      (\<forall>u. (\<exists>j<pl_count w2 - 1. lk j = u) \<longleftrightarrow> (\<exists>j<pl_count w2. pl_links w2 j = u) \<and> u \<noteq> v)"
    by (rule unlink_event_ok [of w2 "e_index (items w v)"]) (use lkd d(2,3) in \<open>simp_all add: pool2 idx\<close>)
  then obtain lk' it where ul: "unlink_event v w2 = Some (w2\<lparr>pl_count := pl_count w2 - 1, pl_links := lk', items := it\<rparr>)"
    "\<And>u. it u = (items w2 u)\<lparr>e_index := e_index (it u)\<rparr>" "inj_on lk' {..<pl_max w2}"
    "\<And>j. j < pl_count w2 - 1 \<Longrightarrow> e_index (it (lk' j)) = j"
    "\<And>u. (\<exists>j<pl_count w2 - 1. lk' j = u) \<longleftrightarrow> (\<exists>j<pl_count w2. pl_links w2 j = u) \<and> u \<noteq> v"
    by blast
  define w3 where "w3 = w2\<lparr>pl_count := pl_count w2 - 1, pl_links := lk', items := it\<rparr>"
  have pool3: "pl_count w3 = pl_count w - 1" "pl_max w3 = pl_max w" "pl_links w3 = lk'" "pl_iters w3 = pl_iters w"
    "server_fd w3 = server_fd w" "bufs w3 = bf" "items w3 = it" "trace w3 = tr"
    by (simp_all add: w3_def pool2 tr2)
  have frame3: "same_pool w w3"
    unfolding w3_def same_pool_def by (simp_all, (subst w2, simp add: w1_def)+)
  have at_v: "kept (closed (pl_iters w) (items w v)) (it v)"
    using kept_trans [OF same [of v] ul(2) [of v]] by (simp add: w1_def)
  have at: "kept (items w u) (it u)" if "u \<noteq> v" for u
    using kept_trans [OF same [of u] ul(2) [of u]] that by (simp add: w1_def)
  have live3: "live w3 u \<longleftrightarrow> live w u \<and> u \<noteq> v" for u
    using ul(5) [of u] by (simp add: live_def pool3 pool2)
  have fd_v: "e_fd (it v) = - 1" "e_mod_iter (it v) = pl_iters w"
    using kept_fields [OF at_v] by (simp_all add: closed_def)
  have "timers w3 (remove1 v vs)"
  proof -
    have "e_tv_ms (it u) = due w2 u" "e_tv_next (it u) = tnext w2 u" "e_tv_prev (it u) = tprev w2 u" for u
      using arg_cong [OF ul(2) [of u], of e_tv_ms] arg_cong [OF ul(2) [of u], of e_tv_next]
        arg_cong [OF ul(2) [of u], of e_tv_prev] by simp_all
    then show ?thesis using t2 by (subst timers_cong [of _ w2]) (auto simp: w3_def fun_eq_iff)
  qed
  moreover have "free_bufs w3 cs"
  proof -
    have "root_buff w3 = r" "buff_count w3 = n" "next_addr w3 = next_addr w"
      unfolding w3_def by (simp_all, (subst w2, simp add: w1_def)+)
    then show ?thesis using free by (simp add: free_bufs_def pool3)
  qed
  moreover have "links_ok w3"
  proof -
    have "0 < e_fd (it (lk' j))" if "j < pl_count w - 1" for j
    proof -
      have "live w3 (lk' j)" using that by (auto simp: live_def pool3)
      then have "live w (lk' j)" "lk' j \<noteq> v" using live3 by auto
      then show ?thesis using live_eventD(1) [OF assms(1)] kept_fields(1) [OF at] by simp
    qed
    moreover have "e_mod_iter (it u) \<le> pl_iters w" for u
      using fd_v(2) kept_fields(5) [OF at] live_eventD(4) [OF assms] by (cases "u = v") simp_all
    ultimately show ?thesis
      using ul(3,4) lkd(1) by (simp add: links_ok_def pool3 pool2)
  qed
  moreover have "pairs_ok w3"
    unfolding pairs_ok_def pool3 live3
    using fd_v(1) at live_eventD(5) [OF assms(1)] kept_fields(1,4) by metis
  moreover have "bufs_ok w3 cs"
  proof -
    have ow: "owns w3 u b \<longleftrightarrow> owns w u b" if "u \<noteq> v" for u b
      using kept_fields(2,3) [OF at [OF that]] by (simp add: owns_def pool3)
    have "bf b \<noteq> None \<and> b \<notin> set cs" if "live w u" "u \<noteq> v" "owns w u b" for u b
    proof -
      have "\<not> owns w v b" using live_eventD(7) [OF assms(1) that(1,3) assms(2)] that(2) by auto
      then show ?thesis using others live_eventD(6) [OF assms(1) that(1,3)] by simp
    qed
    moreover have "e_buff (it u) = Some b \<Longrightarrow> e_sq_buff (it u) \<noteq> Some b" if "live w u" "u \<noteq> v" for u b
      using live_eventD(8) [OF assms(1) that(1)] kept_fields(2,3) [OF at [OF that(2)]] by simp
    moreover have "u = u'" if "live w u" "u \<noteq> v" "owns w u b" "live w u'" "u' \<noteq> v" "owns w u' b" for u u' b
      using live_eventD(7) [OF assms(1) that(1,3,4,6)] by simp
    ultimately show ?thesis
      unfolding bufs_ok_def live3 pool3 by (metis ow)
  qed
  moreover have "\<forall>u\<in>set (remove1 v vs). live w3 u"
    using assms(1) timers_parts(1) [of w vs] by (auto simp: events_ok_def live3)
  ultimately have "events_ok w3 (remove1 v vs) cs" by (simp add: events_ok_def)
  moreover have "close_event v w = Some w3" using ce ul(1) by (simp add: w1_def w2_def w3_def)
  ultimately show ?thesis
    using live3 at_v at cl frame3 by (intro exI [of _ w3] exI [of _ cs]) (simp add: pool3)
qed

text \<open>Forgetting the partner of an event.\<close>

definition unpair :: "nat \<Rightarrow> proc \<Rightarrow> proc" where
  "unpair u w = upd_ev u (\<lambda>e. e\<lparr>e_pair := None\<rparr>) w"

lemma unpair_simps [simp]:
  "pl_count (unpair u w) = pl_count w" "pl_links (unpair u w) = pl_links w" "pl_max (unpair u w) = pl_max w"
  "pl_iters (unpair u w) = pl_iters w" "server_fd (unpair u w) = server_fd w" "trace (unpair u w) = trace w"
  "bufs (unpair u w) = bufs w" "tv_start (unpair u w) = tv_start w" "tv_end (unpair u w) = tv_end w"
  "e_fd (items (unpair u w) v) = e_fd (items w v)" "e_index (items (unpair u w) v) = e_index (items w v)"
  "e_mod_iter (items (unpair u w) v) = e_mod_iter (items w v)" "e_buff (items (unpair u w) v) = e_buff (items w v)"
  "e_sq_buff (items (unpair u w) v) = e_sq_buff (items w v)" "due (unpair u w) v = due w v"
  "tnext (unpair u w) v = tnext w v" "tprev (unpair u w) v = tprev w v"
  "e_pair (items (unpair u w) v) = (if v = u then None else e_pair (items w v))"
  "live (unpair u w) v \<longleftrightarrow> live w v" "owns (unpair u w) v b \<longleftrightarrow> owns w v b" "free_bufs (unpair u w) bs \<longleftrightarrow> free_bufs w bs"
  by (simp_all add: unpair_def upd_ev_def live_def owns_def)

lemma events_ok_unpair:
  assumes "events_ok w vs bs"
  shows "events_ok (unpair u w) vs bs"
proof -
  have "timers (unpair u w) vs" using assms by (subst timers_cong [of _ w]) (simp_all add: fun_eq_iff events_ok_def)
  then show ?thesis
    using assms by (simp add: events_ok_def links_ok_def pairs_ok_def bufs_ok_def)
qed

text \<open>What deleting does: the events \<open>ds\<close> go, and the socket of each of them is closed once.\<close>

definition deleted :: "proc \<Rightarrow> nat list \<Rightarrow> proc \<Rightarrow> bool" where
  "deleted w ds w' \<longleftrightarrow>
     distinct ds \<and> (\<forall>u. live w u \<longleftrightarrow> live w' u \<or> u \<in> set ds) \<and>
     (\<forall>u\<in>set ds. \<not> live w' u \<and> e_fd (items w' u) = - 1 \<and> e_mod_iter (items w' u) = pl_iters w') \<and>
     (\<forall>u. u \<notin> set ds \<longrightarrow> e_fd (items w' u) = e_fd (items w u) \<and> e_mod_iter (items w' u) = e_mod_iter (items w u)) \<and>
     same_pool w w' \<and> pl_count w = pl_count w' + length ds \<and>
     closes (trace w') = closes (trace w) @ filter (\<lambda>fd. fd \<noteq> server_fd w) (map (\<lambda>u. e_fd (items w u)) ds)"

lemma same_pool_simps [simp]: "same_pool w w" "same_pool (unpair u w) w' \<longleftrightarrow> same_pool w w'"
  by (simp_all add: same_pool_def unpair_def upd_ev_def)

lemma same_pool_trans: "same_pool w w1 \<Longrightarrow> same_pool w1 w2 \<Longrightarrow> same_pool w w2"
  by (simp add: same_pool_def)

lemma deleted_Nil [simp]: "deleted w [] w"
  by (simp add: deleted_def)

lemma deleted_unpair [simp]: "deleted (unpair u w) ds w' \<longleftrightarrow> deleted w ds w'"
  by (simp add: deleted_def)

lemma deleted_Cons:
  assumes "live w v" and "\<forall>u. live w1 u \<longleftrightarrow> live w u \<and> u \<noteq> v" and "pl_count w1 = pl_count w - 1" and "0 < pl_count w"
    and "e_fd (items w1 v) = - 1" and "e_mod_iter (items w1 v) = pl_iters w"
    and same: "\<forall>u. u \<noteq> v \<longrightarrow> e_fd (items w1 u) = e_fd (items w u) \<and> e_mod_iter (items w1 u) = e_mod_iter (items w u)"
    and pool: "same_pool w w1"
    and "closes (trace w1) = closes (trace w) @ (if e_fd (items w v) = server_fd w then [] else [e_fd (items w v)])"
    and "deleted w1 ds w'"
  shows "deleted w (v # ds) w'"
proof -
  have "v \<notin> set ds" using assms(2,10) by (auto simp: deleted_def)
  moreover from this have "map (\<lambda>u. e_fd (items w1 u)) ds = map (\<lambda>u. e_fd (items w u)) ds" using same by auto
  then have "filter P (map (\<lambda>u. e_fd (items w1 u)) ds) = filter P (map (\<lambda>u. e_fd (items w u)) ds)" for P by (rule arg_cong)
  ultimately show ?thesis
    using assms pool same_pool_trans [of w w1 w'] unfolding deleted_def by (auto simp: same_pool_def)
qed

text \<open>
  The chain of partners from an event on: from each to the one its \<open>pair\<close> points to, up to one that has no
  partner or whose partner is not in the pool or is in the chain already.
\<close>

fun by_pairs :: "proc \<Rightarrow> nat list \<Rightarrow> bool" where
  "by_pairs w (u # x # ds) \<longleftrightarrow> e_pair (items w u) = Some x \<and> by_pairs w (x # ds)"
| "by_pairs w _ \<longleftrightarrow> True"

definition partner_chain :: "proc \<Rightarrow> nat \<Rightarrow> nat list \<Rightarrow> bool" where
  "partner_chain w v ds \<longleftrightarrow> ds \<noteq> [] \<and> hd ds = v \<and> by_pairs w ds \<and>
     (case e_pair (items w (last ds)) of None \<Rightarrow> True | Some x \<Rightarrow> x \<in> set ds \<or> \<not> live w x)"

lemma by_pairs_cong:
  "(\<And>u. u \<in> set (butlast ds) \<Longrightarrow> e_pair (items w u) = e_pair (items w' u)) \<Longrightarrow> by_pairs w ds = by_pairs w' ds"
  by (induction w ds rule: by_pairs.induct) auto

text \<open>One step of the chain: \<open>w2\<close> is the state after \<open>v\<close> was closed and unpaired.\<close>

lemma partner_chain_step:
  assumes "e_pair (items w v) = Some p" and "partner_chain w2 p ds" and "v \<notin> set ds"
    and "\<forall>u. u \<noteq> v \<longrightarrow> e_pair (items w2 u) = e_pair (items w u) \<or>
           u = p \<and> e_pair (items w p) = Some v \<and> e_pair (items w2 u) = None"
    and "\<forall>u. live w2 u \<longleftrightarrow> live w u \<and> u \<noteq> v"
  shows "partner_chain w v (v # ds)"
proof -
  obtain es where ds: "ds = p # es" using assms(2) by (cases ds) (auto simp: partner_chain_def)
  have p: "by_pairs w2 ds" "case e_pair (items w2 (last ds)) of None \<Rightarrow> True | Some x \<Rightarrow> x \<in> set ds \<or> \<not> live w2 x"
    using assms(2) by (simp_all add: partner_chain_def)
  have "by_pairs w ds \<and> (case e_pair (items w (last ds)) of None \<Rightarrow> True | Some x \<Rightarrow> x \<in> set (v # ds) \<or> \<not> live w x)"
  proof (cases "e_pair (items w2 p) = e_pair (items w p)")
    case True
    then have eq: "e_pair (items w2 u) = e_pair (items w u)" if "u \<in> set ds" for u using assms(3,4) that by metis
    have "by_pairs w ds" using p(1) by_pairs_cong [of ds w w2] eq by (metis in_set_butlastD)
    moreover have "e_pair (items w2 (last ds)) = e_pair (items w (last ds))" using ds by (intro eq) simp
    ultimately show ?thesis using p(2) assms(5) by (auto split: option.splits)
  next
    case False
    then have "p \<noteq> v \<longrightarrow> e_pair (items w p) = Some v \<and> e_pair (items w2 p) = None" using assms(4) by metis
    then have "e_pair (items w p) = Some v" "e_pair (items w2 p) = None" using assms(3) ds by auto
    moreover from this have "es = []" using p(1) ds by (cases es) auto
    ultimately show ?thesis using ds by simp
  qed
  then show ?thesis using assms(1) ds by (auto simp: partner_chain_def split: option.splits)
qed

lemma del_event_ok:
  assumes "events_ok w vs bs" and "live w v \<or> e_fd (items w v) = - 1"
  shows "\<exists>w' vs' bs' ds. del_event v w = Some w' \<and> events_ok w' vs' bs' \<and> deleted w ds w' \<and> (live w v \<longrightarrow> v \<in> set ds) \<and>
    (if live w v then partner_chain w v ds else ds = [])"
  using assms
proof (induction "pl_count w" arbitrary: w v vs bs rule: less_induct)
  case less
  show ?case
  proof (cases "live w v")
    case False
    then have fd: "e_fd (items w v) = - 1" using less.prems(2) by simp
    have "e_mod_iter (items w v) \<le> pl_iters w" using less.prems(1) by (simp add: events_ok_def links_ok_def)
    then have "del_event v w = Some w" using fd by (subst del_event.simps) (simp add: assert_c_def)
    then show ?thesis using less.prems(1) False by (intro exI [of _ w] exI [of _ vs] exI [of _ bs] exI [of _ "[]"]) simp
  next
    case True
    note d = live_eventD [OF less.prems(1) True]
    obtain w1 cs where c: "close_event v w = Some w1" "events_ok w1 (remove1 v vs) cs"
      "\<forall>u. live w1 u \<longleftrightarrow> live w u \<and> u \<noteq> v" "pl_count w1 = pl_count w - 1"
      "kept (closed (pl_iters w) (items w v)) (items w1 v)" "\<forall>u. u \<noteq> v \<longrightarrow> kept (items w u) (items w1 u)"
      "same_pool w w1"
      "closes (trace w1) = closes (trace w) @ (if e_fd (items w v) = server_fd w then [] else [e_fd (items w v)])"
      using close_event_ok [OF less.prems(1) True] by blast
    have v1: "e_fd (items w1 v) = - 1" "e_mod_iter (items w1 v) = pl_iters w" "e_pair (items w1 v) = e_pair (items w v)"
      using kept_fields [OF c(5)] by (simp_all add: closed_def)
    have others: "\<forall>u. u \<noteq> v \<longrightarrow> e_fd (items w1 u) = e_fd (items w u) \<and> e_mod_iter (items w1 u) = e_mod_iter (items w u)"
      using c(6) kept_fields(1,5) by metis
    have step: "deleted w1 ds w' \<Longrightarrow> deleted w (v # ds) w'" for ds w'
      by (rule deleted_Cons) (use True c v1 others d(2) in auto)
    have eq: "del_event v w = (case e_pair (items w1 v) of None \<Rightarrow> Some w1
        | Some p \<Rightarrow> del_event p (unpair v (if e_pair (items w1 p) = Some v then unpair p w1 else w1)))"
      using d(1,4) c(1) by (subst del_event.simps) (simp add: assert_c_def unpair_def split: option.split)
    show ?thesis
    proof (cases "e_pair (items w v)")
      case None
      then show ?thesis
        using eq v1 c(2) step [of "[]" w1] True
        by (intro exI [of _ w1] exI [of _ "remove1 v vs"] exI [of _ cs] exI [of _ "[v]"]) (simp add: partner_chain_def)
    next
      case (Some p)
      define w2 where "w2 = unpair v (if e_pair (items w1 p) = Some v then unpair p w1 else w1)"
      have ok: "events_ok w2 (remove1 v vs) cs" using c(2) by (simp add: w2_def events_ok_unpair)
      have p: "live w2 p \<or> e_fd (items w2 p) = - 1"
        using d(5) [OF Some] c(3) others v1(1) by (cases "p = v") (auto simp: w2_def)
      have "pl_count w2 < pl_count w" using c(4) d(2) by (simp add: w2_def)
      from less.hyps [OF this ok p] obtain w' vs' bs' ds where
        r: "del_event p w2 = Some w'" "events_ok w' vs' bs'" "deleted w2 ds w'"
        "if live w2 p then partner_chain w2 p ds else ds = []" by blast
      have d1: "deleted w1 ds w'" using r(3) by (simp add: w2_def split: if_splits)
      have l2: "\<forall>u. live w2 u \<longleftrightarrow> live w u \<and> u \<noteq> v" using c(3) by (simp add: w2_def)
      have "partner_chain w v (v # ds)"
      proof (cases "live w2 p")
        case True
        have "v \<notin> set ds" using d1 c(3) by (auto simp: deleted_def)
        moreover have "\<forall>u. u \<noteq> v \<longrightarrow> e_pair (items w2 u) = e_pair (items w u) \<or>
            u = p \<and> e_pair (items w p) = Some v \<and> e_pair (items w2 u) = None"
        proof (intro allI impI)
          fix u assume u: "u \<noteq> v"
          have "e_pair (items w1 u) = e_pair (items w u)" using c(6) u kept_fields(4) by metis
          then show "e_pair (items w2 u) = e_pair (items w u) \<or> u = p \<and> e_pair (items w p) = Some v \<and> e_pair (items w2 u) = None"
            using u by (auto simp: w2_def unpair_def upd_ev_def)
        qed
        ultimately show ?thesis using partner_chain_step [OF Some _ _ _ l2] r(4) True by simp
      next
        case False
        then show ?thesis using r(4) Some l2 by (auto simp: partner_chain_def)
      qed
      with d1 show ?thesis
        using eq v1(3) Some r(1,2) step w2_def True
        by (intro exI [of _ w'] exI [of _ vs'] exI [of _ bs'] exI [of _ "v # ds"]) simp
    qed
  qed
qed

section \<open>The whole pool\<close>

lemma deleted_trans:
  assumes "deleted w ds w1" and "deleted w1 es w2"
  shows "deleted w (ds @ es) w2"
proof -
  have "u \<notin> set ds" if "u \<in> set es" for u using assms that unfolding deleted_def by blast
  moreover from this have "map (\<lambda>u. e_fd (items w1 u)) es = map (\<lambda>u. e_fd (items w u)) es"
    using assms(1) by (auto simp: deleted_def)
  then have "filter P (map (\<lambda>u. e_fd (items w1 u)) es) = filter P (map (\<lambda>u. e_fd (items w u)) es)" for P
    by (rule arg_cong)
  ultimately show ?thesis
    using assms same_pool_trans [of w w1 w2] unfolding deleted_def by (auto simp: same_pool_def)
qed

lemma delete_all_ok:
  assumes "events_ok w vs bs"
  shows "\<exists>w' vs' bs' ds. delete_all w = Some w' \<and> events_ok w' vs' bs' \<and> deleted w ds w' \<and> pl_count w' = 0"
  using assms
proof (induction "pl_count w" arbitrary: w vs bs rule: less_induct)
  case less
  show ?case
  proof (cases "pl_count w = 0")
    case True
    then show ?thesis using less.prems
      by (subst delete_all.simps) (intro exI [of _ w] exI [of _ vs] exI [of _ bs] exI [of _ "[]"], simp)
  next
    case False
    then have lv: "live w (pl_links w 0)" by (auto simp: live_def)
    then obtain w1 vs1 bs1 ds where 1: "del_event (pl_links w 0) w = Some w1" "events_ok w1 vs1 bs1" "deleted w ds w1"
      "pl_links w 0 \<in> set ds"
      using del_event_ok [OF less.prems] by blast
    have "length ds \<noteq> 0" using 1(4) by auto
    then have "pl_count w1 < pl_count w" using 1(3) by (simp add: deleted_def)
    from less.hyps [OF this 1(2)] obtain w' vs' bs' es where
      2: "delete_all w1 = Some w'" "events_ok w' vs' bs'" "deleted w1 es w'" "pl_count w' = 0" by blast
    then show ?thesis
      using 1(1) deleted_trans [OF 1(3) 2(3)] False
      by (subst delete_all.simps) (intro exI [of _ w'] exI [of _ vs'] exI [of _ bs'] exI [of _ "ds @ es"], simp)
  qed
qed

lemma buff_destroy_ends:
  assumes "chain (bufs w) b_next r bs" and "distinct bs"
  shows "\<exists>bf. buff_destroy r w = Some (w\<lparr>bufs := bf\<rparr>)"
  using assms
proof (induction bs arbitrary: r w)
  case Nil
  then show ?case by (subst buff_destroy.simps) (auto intro: exI [of _ "bufs w"])
next
  case (Cons b bs)
  then obtain x where x: "r = Some b" "bufs w b = Some x" "chain (bufs w) b_next (b_next x) bs" by auto
  have "chain ((bufs w)(b := None)) b_next (b_next x) bs"
    using x(3) by (subst chain_cong [where s' = "bufs w"]) (use Cons.prems(2) in auto)
  then have "chain (bufs (w\<lparr>bufs := (bufs w)(b := None)\<rparr>)) b_next (b_next x) bs" by simp
  from Cons.IH [OF this] Cons.prems(2)
  obtain bf where "buff_destroy (b_next x) (w\<lparr>bufs := (bufs w)(b := None)\<rparr>) = Some (w\<lparr>bufs := (bufs w)(b := None)\<rparr>\<lparr>bufs := bf\<rparr>)"
    by auto
  then show ?case using x by (subst buff_destroy.simps) auto
qed

text \<open>
  Adding an event. No live event may have kept a free slot as its partner: the slot gets a
  descriptor even when the kernel refuses to watch it.
\<close>

definition new_event :: "callback \<Rightarrow> int \<Rightarrow> proc \<Rightarrow> eval" where
  "new_event cb fd w = zero_eval\<lparr>e_mod_iter := pl_iters w, e_fd := fd, e_index := pl_count w, e_cb := Some cb\<rparr>"

lemma new_event_fields [simp]:
  "e_mod_iter (new_event cb fd w) = pl_iters w" "e_fd (new_event cb fd w) = fd" "e_index (new_event cb fd w) = pl_count w"
  "e_cb (new_event cb fd w) = Some cb" "e_buff (new_event cb fd w) = None" "e_sq_buff (new_event cb fd w) = None"
  "e_pair (new_event cb fd w) = None" "e_tv_ms (new_event cb fd w) = 0" "e_tv_next (new_event cb fd w) = None"
  "e_tv_prev (new_event cb fd w) = None"
  by (simp_all add: new_event_def zero_eval_def)

lemma add_event_ok:
  assumes "events_ok w vs bs" and "0 < fd" and "\<forall>u. live w u \<longrightarrow> e_pair (items w u) \<noteq> Some (pl_links w (pl_count w))"
  shows "\<exists>r w'. add_event cb fd t w = Some (r, w') \<and> events_ok w' vs bs \<and>
      (case r of None \<Rightarrow> (\<forall>u. live w' u \<longleftrightarrow> live w u)
       | Some v \<Rightarrow> \<not> live w v \<and> (\<forall>u. live w' u \<longleftrightarrow> live w u \<or> u = v) \<and> items w' v = new_event cb fd w) \<and>
      (\<forall>u. live w u \<longrightarrow> items w' u = items w u)"
proof (cases "pl_count w < pl_max w")
  case False
  then have "add_event cb fd t w = Some (None, w)" using assms(2) by (simp add: add_event_def assert_c_def)
  then show ?thesis using assms(1) by simp
next
  case True
  define v where "v = pl_links w (pl_count w)"
  define it where "it = (items w)(v := new_event cb fd w)"
  obtain a e where c: "call (Epoll_ctl_add (pl_efd w) fd t v) (w\<lparr>items := it\<rparr>) =
      (a_ret a, w\<lparr>items := it, trace := trace w @ [(Epoll_ctl_add (pl_efd w) fd t v, a)], errno := e\<rparr>)"
    using call_cases [of "Epoll_ctl_add (pl_efd w) fd t v" "w\<lparr>items := it\<rparr>"] by simp metis
  define w1 where "w1 = w\<lparr>items := it, trace := trace w @ [(Epoll_ctl_add (pl_efd w) fd t v, a)], errno := e\<rparr>"
  have add: "add_event cb fd t w = Some (if a_ret a \<noteq> 0 then (None, w1) else (Some v, w1\<lparr>pl_count := pl_count w + 1\<rparr>))"
    using True assms(2) c
    by (simp add: add_event_def assert_c_def v_def [symmetric] new_event_def [symmetric] upd_ev_def it_def [symmetric] w1_def Let_def)
  have ok: "timers w vs" "free_bufs w bs" "links_ok w" "pairs_ok w" "bufs_ok w bs" "\<forall>u\<in>set vs. live w u"
    using assms(1) by (simp_all add: events_ok_def)
  have inj: "inj_on (pl_links w) {..<pl_max w}" using ok(3) by (simp add: links_ok_def)
  have dead: "\<not> live w v"
    using True inj_on_eq_iff [OF inj] by (auto simp: live_def v_def)
  have at: "it u = items w u" if "u \<noteq> v" for u using that by (simp add: it_def)
  have lv: "it u = items w u" if "live w u" for u using at dead that by metis
  have st: "e_tv_ms (it u) = due w u" "e_tv_next (it u) = tnext w u" "e_tv_prev (it u) = tprev w u" for u
    using timers_parts(6,7) [OF ok(1), of v] ok(6) dead by (cases "u = v"; auto simp: it_def)+
  define w2 where "w2 = (\<lambda>k. w1\<lparr>pl_count := (if k then pl_count w + 1 else pl_count w)\<rparr>)"
  have p2: "pl_count (w2 k) = (if k then pl_count w + 1 else pl_count w)" "pl_links (w2 k) = pl_links w"
    "pl_max (w2 k) = pl_max w" "pl_iters (w2 k) = pl_iters w" "items (w2 k) = it" "bufs (w2 k) = bufs w" for k
    by (simp_all add: w2_def w1_def)
  have live2: "live (w2 k) u \<longleftrightarrow> live w u \<or> (k \<and> u = v)" for k u
    by (auto simp: live_def p2 v_def less_Suc_eq)
  have "events_ok (w2 k) vs bs" for k
  proof -
    have "timers (w2 k) vs"
      using ok(1) by (subst timers_cong [of _ w]) (auto simp: p2 st fun_eq_iff, simp_all add: w2_def w1_def)
    moreover have "free_bufs (w2 k) bs" using ok(2) by (simp add: free_bufs_def w2_def w1_def)
    moreover have "links_ok (w2 k)"
    proof -
      have "e_index (it (pl_links w i)) = i \<and> 0 < e_fd (it (pl_links w i))" if "i < pl_count w" for i
      proof -
        have "live w (pl_links w i)" using that by (auto simp: live_def)
        then show ?thesis using ok(3) that lv by (simp add: links_ok_def)
      qed
      moreover have "e_index (it v) = pl_count w \<and> 0 < e_fd (it v)" using assms(2) by (simp add: it_def)
      moreover have "e_mod_iter (it u) \<le> pl_iters w" for u
        using ok(3) by (cases "u = v") (simp_all add: it_def links_ok_def)
      ultimately show ?thesis
        using inj True unfolding links_ok_def p2 by (auto simp: less_Suc_eq v_def)
    qed
    moreover have "pairs_ok (w2 k)"
    proof -
      have "live w p \<or> e_fd (it p) = - 1" if "live w u" "e_pair (it u) = Some p" for u p
      proof -
        have "e_pair (items w u) = Some p" using that lv by simp
        then have "p \<noteq> v" "live w p \<or> e_fd (items w p) = - 1"
          using assms(3) ok(4) that(1) by (auto simp: pairs_ok_def v_def)
        then show ?thesis using at by simp
      qed
      moreover have "e_pair (it v) = None" by (simp add: it_def)
      ultimately show ?thesis unfolding pairs_ok_def p2 live2 by (metis option.distinct(1))
    qed
    moreover have "bufs_ok (w2 k) bs"
    proof -
      have "\<not> owns (w2 k) v b" for b by (simp add: owns_def p2 it_def)
      moreover have "owns (w2 k) u b \<longleftrightarrow> owns w u b" if "live w u" for u b using lv [OF that] by (simp add: owns_def p2)
      moreover have "e_buff (it v) = None" by (simp add: it_def)
      ultimately show ?thesis
        using ok(5) lv unfolding bufs_ok_def p2 live2 by (metis option.distinct(1))
    qed
    ultimately show ?thesis using ok(6) by (simp add: events_ok_def live2)
  qed
  moreover have "add_event cb fd t w = Some (if a_ret a \<noteq> 0 then None else Some v, w2 (a_ret a = 0))"
  proof -
    have "w1\<lparr>pl_count := pl_count w\<rparr> = w1" by (simp add: w1_def)
    then show ?thesis by (simp add: add w2_def)
  qed
  moreover have "it v = new_event cb fd w" by (simp add: it_def)
  ultimately show ?thesis
    using dead live2 lv p2(5)
    by (intro exI [of _ "if a_ret a \<noteq> 0 then None else Some v"] exI [of _ "w2 (a_ret a = 0)"]) auto
qed

end
