(* ===== verification/Conev_Props.thy ===== *)
theory Conev_Props
  imports Events
begin

text \<open>
  What the event loop of conev.c guarantees: its buffers are recycled within a bound, the pool
  of events keeps its invariant, deleting ends and closes every socket once, and an event
  that was deleted is not delivered from the batch it was in.
\<close>

text \<open>
  A process for the instances: event 0 watches the control pipe, the events 1 and 2 are a
  tunnel, event 1 has a timer and event 2 a buffer; one more buffer is free.
\<close>

definition busy :: proc where
  "busy = (fresh calm)\<lparr>
     items := (\<lambda>v. if v = 0 then zero_eval\<lparr>e_fd := 8, e_cb := Some On_ctrl\<rparr>
       else if v = 1 then zero_eval\<lparr>e_fd := 9, e_index := 1, e_pair := Some 2, e_cb := Some On_tunnel, e_tv_ms := 40\<rparr>
       else if v = 2 then zero_eval\<lparr>e_fd := 10, e_index := 2, e_pair := Some 1, e_cb := Some On_tunnel, e_buff := Some 50\<rparr>
       else zero_eval\<lparr>e_fd := - 1\<rparr>),
     bufs := (\<lambda>b. if b = 50 \<or> b = 60 then Some \<lparr>b_size = 4, b_offset = 0, b_lock = 0, b_next = None, b_data = [0, 0, 0, 0]\<rparr> else None),
     pl_count := 3, pl_pevents := [(0, 1), (1, 1)], pl_iters := 4, tv_start := Some 1, tv_end := Some 1,
     root_buff := Some 60, buff_count := 1, ctrl_fds := (8, 11)\<rparr>"

lemma busy_free: "free_bufs busy [60]"
  by (simp add: free_bufs_def busy_def samples)

lemma busy_live: "live busy v \<longleftrightarrow> v < 3"
  by (auto simp: live_def busy_def samples)

lemma busy_ok: "events_ok busy [1] [60]"
proof -
  have "timers busy [1]" by (simp add: timers_def busy_def samples zero_eval_def)
  moreover have "links_ok busy"
    by (auto simp: links_ok_def busy_def samples zero_eval_def inj_on_def less_Suc_eq numeral_3_eq_3)
  moreover have "pairs_ok busy" unfolding pairs_ok_def busy_live by (auto simp: busy_def samples zero_eval_def)
  moreover have "bufs_ok busy [60]"
    unfolding bufs_ok_def busy_live by (auto simp: owns_def busy_def samples zero_eval_def split: if_splits)
  ultimately show ?thesis using busy_free by (simp add: events_ok_def busy_live)
qed

section \<open>Buffers\<close>

text \<open>
  The buffer that \<open>buff_ppop\<close> shows is the one that the next \<open>buff_pop\<close> takes: what a
  handler read into it without owning it is still there when it keeps it.
\<close>

theorem buff_ppop_then_pop:
  assumes "free_bufs w bs" and "buff_ppop n w = Some (Some b, w1)"
  shows "\<exists>w2. buff_pop n w1 = Some (Some b, w2) \<and> free_bufs w2 (tl bs)"
proof -
  from assms(2) obtain w0 where w0: "buff_pop n w = Some (Some b, w0)" "buff_push (Some b) w0 = Some w1"
    by (auto simp: buff_ppop_def bind_eq_Some_conv split: if_splits)
  from rb.take_give_take [OF assms(1) w0(1)] w0(2) show ?thesis by auto
qed

theorem buff_ppop_then_pop_witness:
  "\<exists>w1 w2. buff_ppop 4 busy = Some (Some 60, w1) \<and> buff_pop 4 w1 = Some (Some 60, w2) \<and> free_bufs w2 []"
proof -
  have "\<exists>w1. buff_ppop 4 busy = Some (Some 60, w1)"
    by (simp add: buff_ppop_def buff_pop_def buff_push_def busy_def samples MAX_BUFF_INP_def)
  then obtain w1 where "buff_ppop 4 busy = Some (Some 60, w1)" by blast
  with buff_ppop_then_pop [OF busy_free this] show ?thesis by auto
qed

text \<open>
  C33: Giving a buffer back never fails; the list of free buffers is counted, and past eight
  the buffer is freed instead.
\<close>

theorem buff_push_bounded:
  assumes "free_bufs w bs" and "live_buf w b" and "b \<notin> set bs"
  shows "\<exists>w' cs. buff_push (Some b) w = Some w' \<and> free_bufs w' cs \<and> length cs \<le> 8 \<and> buff_count w' = int (length cs) \<and>
           (live_buf w' b \<longleftrightarrow> length bs < 8) \<and> (length bs < 8 \<longrightarrow> cs = b # bs)"
proof (cases "length bs < 8")
  case True
  then obtain w' where "buff_push (Some b) w = Some w'" "free_bufs w' (b # bs)" "\<forall>x. live_buf w' x \<longleftrightarrow> live_buf w x"
    using buff_push_room [OF assms] by blast
  then show ?thesis using True assms(2) by (intro exI [of _ w'] exI [of _ "b # bs"]) (simp add: free_bufs_def)
next
  case False
  then have "length bs = 8" using assms(1) by (simp add: free_bufs_def)
  then obtain w' where "buff_push (Some b) w = Some w'" "free_bufs w' bs" "\<forall>x. live_buf w' x \<longleftrightarrow> live_buf w x \<and> x \<noteq> b"
    using buff_push_full [OF assms] by blast
  then show ?thesis using False by (intro exI [of _ w'] exI [of _ bs]) (auto simp: free_bufs_def)
qed

theorem buff_push_bounded_witness:
  "\<exists>w'. buff_push (Some 50) busy = Some w' \<and> free_bufs w' [50, 60] \<and> buff_count w' = 2"
proof -
  have "live_buf busy 50" by (simp add: busy_def)
  from buff_push_bounded [OF busy_free this] show ?thesis by auto
qed

section \<open>Events\<close>

text \<open>
  C30: Adding an event with a positive descriptor keeps the invariant of the pool, whatever the kernel
  answers, provided no live event has kept the next free slot as its partner: either
  nothing changes for the live events, or one more is live, with the descriptor and the callback.
\<close>

theorem add_event_invariant:
  assumes "events_ok w vs bs" and "0 < fd" and "\<forall>u. live w u \<longrightarrow> e_pair (items w u) \<noteq> Some (pl_links w (pl_count w))"
  shows "\<exists>r w'. add_event cb fd t w = Some (r, w') \<and> events_ok w' vs bs \<and>
      (case r of None \<Rightarrow> (\<forall>u. live w' u \<longleftrightarrow> live w u)
       | Some v \<Rightarrow> \<not> live w v \<and> (\<forall>u. live w' u \<longleftrightarrow> live w u \<or> u = v) \<and> e_fd (items w' v) = fd \<and> e_cb (items w' v) = Some cb) \<and>
      (\<forall>u. live w u \<longrightarrow> items w' u = items w u)"
  using add_event_ok [OF assms, of cb t] by (fastforce split: option.splits)

theorem add_event_invariant_witness:
  "\<exists>r w'. add_event On_request 12 POLLIN busy = Some (r, w') \<and> events_ok w' [1] [60]"
proof -
  have "\<forall>u. live busy u \<longrightarrow> e_pair (items busy u) \<noteq> Some (pl_links busy (pl_count busy))"
    by (auto simp: busy_live busy_def samples zero_eval_def)
  from add_event_invariant [OF busy_ok _ this, of 12 On_request POLLIN] show ?thesis by auto
qed

text \<open>
  C13: Deleting a live event of a well-formed pool always ends and keeps the invariant. It
  deletes exactly the event and the chain of its partners (the one its \<open>pair\<close> points to, that one's partner, and so on,
  up to one without a live partner that is not in the chain yet), and closes the socket of each of
  them exactly once, in this order; only the listening socket stays open. The assertions of the function hold.
\<close>

theorem del_event_closes_once:
  assumes "events_ok w vs bs" and "live w v"
  shows "\<exists>w' vs' bs' ds. del_event v w = Some w' \<and> events_ok w' vs' bs' \<and> partner_chain w v ds \<and> distinct ds \<and>
      (\<forall>u. live w u \<longleftrightarrow> live w' u \<or> u \<in> set ds) \<and> (\<forall>u\<in>set ds. \<not> live w' u \<and> e_fd (items w' u) = - 1) \<and>
      closes (trace w') = closes (trace w) @ filter (\<lambda>fd. fd \<noteq> server_fd w) (map (\<lambda>u. e_fd (items w u)) ds)"
  using del_event_ok [of w vs bs v] assms unfolding deleted_def by metis

theorem del_event_closes_once_witness:
  "\<exists>w' ds. del_event 1 busy = Some w' \<and> partner_chain busy 1 ds \<and> distinct ds \<and>
     closes (trace w') = filter (\<lambda>fd. fd \<noteq> 3) (map (\<lambda>u. e_fd (items busy u)) ds)"
proof -
  have "live busy 1" by (simp add: busy_live)
  moreover have "trace busy = []" "server_fd busy = 3" by (simp_all add: busy_def samples)
  ultimately show ?thesis using del_event_closes_once [OF busy_ok, of 1] by fastforce
qed

lemma events_ok_trace [simp]:
  "events_ok (w\<lparr>trace := tr, errno := e\<rparr>) vs bs \<longleftrightarrow> events_ok w vs bs"
  "events_ok (w\<lparr>trace := tr, errno := e, ctrl_fds := c\<rparr>) vs bs \<longleftrightarrow> events_ok w vs bs"
  by (simp_all add: events_ok_def timers_def free_bufs_def links_ok_def pairs_ok_def bufs_ok_def live_def owns_def)

lemma close_fd_cases:
  obtains a e where "close_fd fd w = w\<lparr>trace := trace w @ [(Close fd, a)], errno := e\<rparr>"
  by (rule call_cases [of "Close fd" w]) (simp add: close_fd_def)

text \<open>The pool after \<open>destroy_pool\<close> has closed the control descriptors.\<close>

definition ctrl_closed :: "proc \<Rightarrow> proc" where
  "ctrl_closed w =
     (if fst (ctrl_fds w) \<noteq> - 1
      then (close_fd (snd (ctrl_fds w)) (close_fd (fst (ctrl_fds w)) w))\<lparr>ctrl_fds := (- 1, - 1)\<rparr> else w)"

lemma ctrl_closed_state:
  "\<exists>tr e c. ctrl_closed w = w\<lparr>trace := tr, errno := e, ctrl_fds := c\<rparr> \<and>
     closes tr = closes (trace w) @ (if fst (ctrl_fds w) \<noteq> - 1 then [fst (ctrl_fds w), snd (ctrl_fds w)] else [])"
proof (cases "fst (ctrl_fds w) = - 1")
  case True
  then show ?thesis
    by (intro exI [of _ "trace w"] exI [of _ "errno w"] exI [of _ "ctrl_fds w"]) (simp add: ctrl_closed_def)
next
  case False
  obtain a e where 1: "close_fd (fst (ctrl_fds w)) w = w\<lparr>trace := trace w @ [(Close (fst (ctrl_fds w)), a)], errno := e\<rparr>"
    by (rule close_fd_cases)
  define w1 where "w1 = w\<lparr>trace := trace w @ [(Close (fst (ctrl_fds w)), a)], errno := e\<rparr>"
  obtain b f where 2: "close_fd (snd (ctrl_fds w)) w1 = w1\<lparr>trace := trace w1 @ [(Close (snd (ctrl_fds w)), b)], errno := f\<rparr>"
    by (rule close_fd_cases)
  show ?thesis
    using False 1 2
    by (intro exI [of _ "trace w1 @ [(Close (snd (ctrl_fds w)), b)]"] exI [of _ f] exI [of _ "(- 1, - 1)"])
       (simp add: ctrl_closed_def w1_def [symmetric], simp add: w1_def)
qed

lemma destroy_pool_ok:
  assumes "events_ok w vs bs"
  shows "\<exists>w' ds. destroy_pool w = Some w' \<and> distinct ds \<and> (\<forall>u. u \<in> set ds \<longleftrightarrow> live w u) \<and>
      closes (trace w') = closes (trace w) @ (if fst (ctrl_fds w) \<noteq> - 1 then [fst (ctrl_fds w), snd (ctrl_fds w)] else []) @
        filter (\<lambda>fd. fd \<noteq> server_fd w) (map (\<lambda>u. e_fd (items w u)) ds) @ (if pl_efd w \<noteq> 0 then [pl_efd w] else [])"
proof -
  obtain tr e c where c: "ctrl_closed w = w\<lparr>trace := tr, errno := e, ctrl_fds := c\<rparr>"
    "closes tr = closes (trace w) @ (if fst (ctrl_fds w) \<noteq> - 1 then [fst (ctrl_fds w), snd (ctrl_fds w)] else [])"
    using ctrl_closed_state [of w] by blast
  define w1 where "w1 = w\<lparr>trace := tr, errno := e, ctrl_fds := c\<rparr>"
  have "events_ok w1 vs bs" using assms by (simp add: w1_def)
  then obtain w2 vs' bs' ds where d: "delete_all w1 = Some w2" "events_ok w2 vs' bs'" "deleted w1 ds w2" "pl_count w2 = 0"
    using delete_all_ok by blast
  have live: "live w1 u \<longleftrightarrow> live w u" for u by (simp add: w1_def live_def)
  have ds: "u \<in> set ds \<longleftrightarrow> live w u" for u
  proof -
    have "\<not> live w2 u" using d(4) by (simp add: live_def)
    then show ?thesis using d(3) live by (auto simp: deleted_def)
  qed
  have efd: "pl_efd w2 = pl_efd w" using d(3) by (simp add: deleted_def same_pool_def w1_def)
  obtain tr3 e3 where 3: "(if pl_efd w2 \<noteq> 0 then close_fd (pl_efd w2) w2 else w2) = w2\<lparr>trace := tr3, errno := e3\<rparr>"
    "closes tr3 = closes (trace w2) @ (if pl_efd w \<noteq> 0 then [pl_efd w] else [])"
  proof (cases "pl_efd w2 = 0")
    case True
    show ?thesis by (rule that [where ?tr3.0 = "trace w2" and ?e3.0 = "errno w2"]) (use True efd in simp_all)
  next
    case False
    obtain a f where "close_fd (pl_efd w2) w2 = w2\<lparr>trace := trace w2 @ [(Close (pl_efd w2), a)], errno := f\<rparr>"
      by (rule close_fd_cases)
    then show ?thesis
      by (intro that [where ?tr3.0 = "trace w2 @ [(Close (pl_efd w2), a)]" and ?e3.0 = f]) (use False efd in simp_all)
  qed
  define w3 where "w3 = w2\<lparr>trace := tr3, errno := e3\<rparr>"
  have "chain (bufs w3) b_next (root_buff w3) bs'" "distinct bs'"
    using d(2) by (simp_all add: events_ok_def free_bufs_def w3_def)
  then obtain bf where 4: "buff_destroy (root_buff w3) w3 = Some (w3\<lparr>bufs := bf\<rparr>)" using buff_destroy_ends by blast
  have "destroy_pool w = Some (w3\<lparr>bufs := bf, pl_max := 0, pl_efd := 0, pl_pevents := [], pl_iters := 0, pl_brk := False,
      tv_start := None, tv_end := None, root_buff := None, buff_count := 0, ctrl_fds := (0, 0)\<rparr>)"
    unfolding destroy_pool_def Let_def ctrl_closed_def [symmetric] c(1) w1_def [symmetric] d(1) bind.bind_lunit 3(1)
      w3_def [symmetric] 4
    by simp
  moreover have "closes tr3 = closes (trace w) @ (if fst (ctrl_fds w) \<noteq> - 1 then [fst (ctrl_fds w), snd (ctrl_fds w)] else []) @
        filter (\<lambda>fd. fd \<noteq> server_fd w) (map (\<lambda>u. e_fd (items w u)) ds) @ (if pl_efd w \<noteq> 0 then [pl_efd w] else [])"
    using d(3) 3(2) c(2) by (simp add: deleted_def w1_def)
  ultimately show ?thesis
    using ds d(3) by (intro exI [of _ "w3\<lparr>bufs := bf, pl_max := 0, pl_efd := 0, pl_pevents := [], pl_iters := 0, pl_brk := False,
      tv_start := None, tv_end := None, root_buff := None, buff_count := 0, ctrl_fds := (0, 0)\<rparr>"] exI [of _ ds])
      (simp add: deleted_def w3_def)
qed

text \<open>
  The reading end of the control pipe is closed twice: once as a control descriptor and once
  as the descriptor of the live event that watches it. In a process with other threads the second
  close can hit a descriptor that was opened in between.
\<close>

theorem ctrl_fd_closed_twice:
  assumes "events_ok w vs bs" and "live w v" and "e_fd (items w v) = fst (ctrl_fds w)" and "fst (ctrl_fds w) \<noteq> server_fd w"
  shows "\<exists>w'. destroy_pool w = Some w' \<and>
      count_list (closes (trace w')) (fst (ctrl_fds w)) \<ge> count_list (closes (trace w)) (fst (ctrl_fds w)) + 2"
proof -
  let ?fd = "fst (ctrl_fds w)"
  obtain w' ds where d: "destroy_pool w = Some w'" "\<forall>u. u \<in> set ds \<longleftrightarrow> live w u"
    "closes (trace w') = closes (trace w) @ (if ?fd \<noteq> - 1 then [?fd, snd (ctrl_fds w)] else []) @
        filter (\<lambda>fd. fd \<noteq> server_fd w) (map (\<lambda>u. e_fd (items w u)) ds) @ (if pl_efd w \<noteq> 0 then [pl_efd w] else [])"
    using destroy_pool_ok [OF assms(1)] by blast
  define fds where "fds = filter (\<lambda>fd. fd \<noteq> server_fd w) (map (\<lambda>u. e_fd (items w u)) ds)"
  have "0 < ?fd" using live_eventD(1) [OF assms(1,2)] assms(3) by simp
  moreover have "?fd \<in> set fds"
    using d(2) assms(2-4) by (auto simp: fds_def intro!: image_eqI [of _ _ v])
  then have "count_list fds ?fd \<noteq> 0" by (simp add: count_list_0_iff)
  ultimately have "count_list (closes (trace w')) ?fd \<ge> count_list (closes (trace w)) ?fd + 2"
    unfolding d(3) fds_def [symmetric] by simp
  then show ?thesis using d(1) by blast
qed

theorem ctrl_fd_closed_twice_witness:
  "\<exists>w'. destroy_pool busy = Some w' \<and> count_list (closes (trace w')) 8 \<ge> 2"
proof -
  have "live busy 0" by (simp add: busy_live)
  moreover have "e_fd (items busy 0) = fst (ctrl_fds busy)" "fst (ctrl_fds busy) \<noteq> server_fd busy"
    "fst (ctrl_fds busy) = 8" "trace busy = []"
    by (simp_all add: busy_def samples)
  ultimately show ?thesis using ctrl_fd_closed_twice [OF busy_ok, of 0] by (simp add: numeral_2_eq_2)
qed

section \<open>Waiting for events\<close>

text \<open>What epoll_wait promises: as many events as it says, and no more than asked for.\<close>

definition epoll_ok :: "kernel \<Rightarrow> bool" where
  "epoll_ok k \<longleftrightarrow> 
     (\<forall>tr fd n ms. a_ret (k tr (Epoll_wait fd n ms)) \<le> int (length (a_events (k tr (Epoll_wait fd n ms)))) \<and>
        length (a_events (k tr (Epoll_wait fd n ms))) \<le> n)"

lemma next_event_poll:
  assumes "\<forall>v. e_mod_iter (items w v) \<le> pl_iters w" and "epoll_ok (kernel w)" and "0 < pl_max w"
  shows "\<exists>r i ty w'. next_event (- 1) type ms w = Some (r, i, ty, w') \<and> items w' = items w \<and> pl_iters w \<le> pl_iters w' \<and>
      (\<forall>v. r = Some v \<longrightarrow> e_mod_iter (items w v) < pl_iters w' \<and> - 1 \<le> i \<and> i < int (length (pl_pevents w')))"
proof -
  obtain a e where s: "sys (Epoll_wait (pl_efd w) (pl_max w) ms) w =
      (a, w\<lparr>trace := trace w @ [(Epoll_wait (pl_efd w) (pl_max w) ms, a)], errno := e\<rparr>)"
    and a: "a = kernel w (trace w) (Epoll_wait (pl_efd w) (pl_max w) ms)"
    by (rule sys_cases)
  have "a_ret a \<le> int (length (a_events a))" using assms(2) a by (simp add: epoll_ok_def)
  moreover have "e_mod_iter (items w v) \<noteq> Suc (pl_iters w)" for v
    using assms(1) [rule_format, of v] by simp
  moreover have "e_mod_iter (items w v) < Suc (pl_iters w)" for v
    using assms(1) [rule_format, of v] by simp
  ultimately show ?thesis
    using assms(3) by (subst next_event.simps) (auto simp: poll_events_def s assert_c_def Let_def split: prod.split)
qed

lemma next_event_ends:
  assumes "\<forall>v. e_mod_iter (items w v) \<le> pl_iters w" and "epoll_ok (kernel w)" and "0 < pl_max w"
    and "length (pl_pevents w) \<le> pl_max w" and "- 1 \<le> offs" and "offs < int (length (pl_pevents w))"
  shows "\<exists>r i ty w'. next_event offs type ms w = Some (r, i, ty, w') \<and> items w' = items w \<and> pl_iters w \<le> pl_iters w' \<and>
      (\<forall>v. r = Some v \<longrightarrow> e_mod_iter (items w v) < pl_iters w' \<and> - 1 \<le> i \<and> i < int (length (pl_pevents w')))"
  using assms(5,6)
proof (induction "nat (offs + 1)" arbitrary: offs)
  case 0
  then have "offs = - 1" by simp
  then show ?case using next_event_poll [OF assms(1-3)] by simp
next
  case (Suc n)
  then have o: "0 \<le> offs" "offs < int (pl_max w)" using assms(4) by auto
  obtain v ty where v: "pl_pevents w ! nat offs = (v, ty)" by (cases "pl_pevents w ! nat offs")
  have "nat offs < length (pl_pevents w)" using o Suc.prems by auto
  then have eq: "next_event offs type ms w =
      (if e_mod_iter (items w v) = pl_iters w then next_event (offs - 1) type ms w else Some (Some v, offs - 1, int ty, w))"
    using o v by (subst next_event.simps) (simp add: poll_events_def assert_c_def)
  show ?case
  proof (cases "e_mod_iter (items w v) = pl_iters w")
    case True
    then show ?thesis using eq Suc.hyps(1) [of "offs - 1"] Suc.hyps(2) Suc.prems o by simp
  next
    case False
    then have "e_mod_iter (items w v) < pl_iters w" using assms(1) [rule_format, of v] by simp
    then show ?thesis using eq False Suc.prems o by simp
  qed
qed

text \<open>
  What \<open>next_event\<close> does with a batch: the events are taken from the position \<open>offs\<close> downwards, those that were
  touched since the batch arrived are skipped, and only when none is left one wait is made.
\<close>

definition touched :: "proc \<Rightarrow> int \<Rightarrow> bool" where
  "touched w k \<longleftrightarrow> e_mod_iter (items w (fst (pl_pevents w ! nat k))) = pl_iters w"

definition from_batch :: "int \<Rightarrow> proc \<Rightarrow> nat option \<times> int \<times> int \<times> proc \<Rightarrow> bool" where
  "from_batch offs w res \<longleftrightarrow> (\<exists>j v t. 0 \<le> j \<and> j \<le> offs \<and> pl_pevents w ! nat j = (v, t) \<and> \<not> touched w j \<and>
     (\<forall>k. j < k \<and> k \<le> offs \<longrightarrow> touched w k) \<and> res = (Some v, j - 1, int t, w))"

definition after_wait :: "int \<Rightarrow> int \<Rightarrow> int \<Rightarrow> proc \<Rightarrow> nat option \<times> int \<times> int \<times> proc \<Rightarrow> bool" where
  "after_wait offs type ms w res \<longleftrightarrow> (\<forall>k. 0 \<le> k \<and> k \<le> offs \<longrightarrow> touched w k) \<and>
     (\<exists>a w'. sys (Epoll_wait (pl_efd w) (pl_max w) ms) w = (a, w') \<and>
        trace w' = trace w @ [(Epoll_wait (pl_efd w) (pl_max w) ms, a)] \<and>
        res = (if a_ret a = 0 then (None, - 1, int POLLTIMEOUT, w')
               else if a_ret a < 0 then (None, - 1, type, w')
               else (case a_events a ! nat (a_ret a - 1) of (v, t) \<Rightarrow>
                 (Some v, a_ret a - 2, int t, w'\<lparr>pl_pevents := a_events a, pl_iters := pl_iters w + 1\<rparr>))))"

lemma from_batch_step:
  assumes "touched w offs" and "from_batch (offs - 1) w res"
  shows "from_batch offs w res"
proof -
  from assms(2) obtain j v t where j: "0 \<le> j" "j \<le> offs - 1" "pl_pevents w ! nat j = (v, t)" "\<not> touched w j"
    "\<forall>k. j < k \<and> k \<le> offs - 1 \<longrightarrow> touched w k" "res = (Some v, j - 1, int t, w)"
    unfolding from_batch_def by blast
  have "touched w k" if "j < k" "k \<le> offs" for k using j(5) that assms(1) by (cases "k = offs") simp_all
  moreover have "j \<le> offs" using j(2) by simp
  ultimately show ?thesis unfolding from_batch_def using j(1,3,4,6) by blast
qed

lemma after_wait_step:
  assumes "touched w offs" and "after_wait (offs - 1) type ms w res"
  shows "after_wait offs type ms w res"
proof -
  have "touched w k" if "0 \<le> k" "k \<le> offs" for k
    using assms that unfolding after_wait_def by (cases "k = offs") simp_all
  then show ?thesis using assms(2) unfolding after_wait_def by blast
qed

lemma next_event_waits:
  assumes "\<forall>v. e_mod_iter (items w v) \<le> pl_iters w" and "epoll_ok (kernel w)" and "0 < pl_max w"
  shows "\<exists>res. next_event (- 1) type ms w = Some res \<and> after_wait (- 1) type ms w res"
proof -
  obtain a e where s: "sys (Epoll_wait (pl_efd w) (pl_max w) ms) w =
      (a, w\<lparr>trace := trace w @ [(Epoll_wait (pl_efd w) (pl_max w) ms, a)], errno := e\<rparr>)"
    and a: "a = kernel w (trace w) (Epoll_wait (pl_efd w) (pl_max w) ms)"
    by (rule sys_cases)
  have "a_ret a \<le> int (length (a_events a))" using assms(2) a by (simp add: epoll_ok_def)
  moreover have "e_mod_iter (items w v) \<noteq> Suc (pl_iters w)" for v
    using assms(1) [rule_format, of v] by simp
  ultimately show ?thesis
    using assms(3) by (subst next_event.simps) (auto simp: after_wait_def poll_events_def s assert_c_def Let_def split: prod.split)
qed

lemma next_event_result:
  assumes "\<forall>v. e_mod_iter (items w v) \<le> pl_iters w" and "epoll_ok (kernel w)" and "0 < pl_max w"
    and "length (pl_pevents w) \<le> pl_max w" and "- 1 \<le> offs" and "offs < int (length (pl_pevents w))"
  shows "\<exists>res. next_event offs type ms w = Some res \<and> (from_batch offs w res \<or> after_wait offs type ms w res)"
  using assms(5,6)
proof (induction "nat (offs + 1)" arbitrary: offs)
  case 0
  then have "offs = - 1" by simp
  then show ?case using next_event_waits [OF assms(1-3)] by blast
next
  case (Suc n)
  then have o: "0 \<le> offs" "offs < int (pl_max w)" using assms(4) by auto
  obtain v ty where v: "pl_pevents w ! nat offs = (v, ty)" by (cases "pl_pevents w ! nat offs")
  have "nat offs < length (pl_pevents w)" using o Suc.prems by auto
  then have eq: "next_event offs type ms w =
      (if touched w offs then next_event (offs - 1) type ms w else Some (Some v, offs - 1, int ty, w))"
    using o v by (subst next_event.simps) (simp add: poll_events_def assert_c_def touched_def)
  show ?case
  proof (cases "touched w offs")
    case True
    obtain res where r: "next_event (offs - 1) type ms w = Some res" "from_batch (offs - 1) w res \<or> after_wait (offs - 1) type ms w res"
    proof -
      have "n = nat (offs - 1 + 1)" "- 1 \<le> offs - 1" "offs - 1 < int (length (pl_pevents w))"
        using Suc.hyps(2) Suc.prems o by auto
      from Suc.hyps(1) [OF this] that show thesis by blast
    qed
    have "from_batch offs w res \<or> after_wait offs type ms w res"
      using r(2) from_batch_step [OF True] after_wait_step [OF True] by blast
    then show ?thesis using eq True r(1) by simp
  next
    case False
    then have "from_batch offs w (Some v, offs - 1, int ty, w)" using o v unfolding from_batch_def by force
    then show ?thesis using eq False by simp
  qed
qed

text \<open>
  C31: With a well-formed pool, a valid position \<open>offs\<close> in the current batch and a kernel that
  gives as many events as it says, \<open>next_event\<close> always returns. It delivers the topmost event from \<open>offs\<close> downwards that
  was not touched since its batch arrived, without any call of the kernel; only when there is none it waits, exactly
  once, and then returns nothing on a timeout or an error, or the last event of the new batch, which is
  never skipped. The items are left as they are, the event returned was not touched in its batch, and the
  position left in the batch is valid.
\<close>

theorem next_event_returns:
  assumes "events_ok w vs bs" and "epoll_ok (kernel w)" and "0 < pl_max w" and "length (pl_pevents w) \<le> pl_max w"
    and "- 1 \<le> offs" and "offs < int (length (pl_pevents w))"
  shows "\<exists>r i ty w'. next_event offs type ms w = Some (r, i, ty, w') \<and> items w' = items w \<and>
      (from_batch offs w (r, i, ty, w') \<or> after_wait offs type ms w (r, i, ty, w')) \<and>
      (\<forall>v. r = Some v \<longrightarrow> e_mod_iter (items w v) < pl_iters w' \<and> - 1 \<le> i \<and> i < int (length (pl_pevents w')))"
proof -
  have "\<forall>v. e_mod_iter (items w v) \<le> pl_iters w" using assms(1) by (simp add: events_ok_def links_ok_def)
  from next_event_ends [OF this assms(2-6), of type ms] next_event_result [OF this assms(2-6), of type ms]
  show ?thesis by force
qed

lemma calm_epoll: "epoll_ok calm"
  by (simp add: epoll_ok_def samples)

theorem next_event_returns_witness:
  "\<exists>r i ty w'. next_event 1 0 100 busy = Some (r, i, ty, w') \<and>
     (from_batch 1 busy (r, i, ty, w') \<or> after_wait 1 0 100 busy (r, i, ty, w'))"
proof -
  have "kernel busy = calm" "pl_max busy = 4" "length (pl_pevents busy) = 2" by (simp_all add: busy_def fresh_def)
  then show ?thesis using next_event_returns [OF busy_ok, of 1 0 100] calm_epoll by auto
qed

text \<open>
  C18: When a handler deletes an event, neither this event nor a partner deleted with it is
  delivered from the batch that is being worked off.
\<close>

theorem deleted_not_delivered:
  assumes "events_ok w vs bs" and "live w v" and "del_event v w = Some w1" and "epoll_ok (kernel w1)" and "0 < pl_max w1"
    and "length (pl_pevents w1) \<le> pl_max w1" and "- 1 \<le> offs" and "offs < int (length (pl_pevents w1))"
    and "next_event offs type ms w1 = Some (Some u, i, ty, w2)" and "pl_iters w2 = pl_iters w1"
  shows "u \<noteq> v \<and> (live w u \<longrightarrow> live w1 u)"
proof -
  obtain vs' bs' ds where d: "events_ok w1 vs' bs'" "deleted w ds w1" "v \<in> set ds"
    using del_event_ok [of w vs bs v] assms(1-3) by auto
  have "\<forall>v. e_mod_iter (items w1 v) \<le> pl_iters w1" using d(1) by (simp add: events_ok_def links_ok_def)
  then have "e_mod_iter (items w1 u) < pl_iters w1"
    using next_event_ends [OF _ assms(4-8), of type ms] assms(9,10) by auto
  then have "u \<notin> set ds" using d(2) by (auto simp: deleted_def)
  then show ?thesis using d by (auto simp: deleted_def)
qed

theorem deleted_not_delivered_witness:
  "\<exists>w1 u i ty w2. del_event 1 busy = Some w1 \<and> next_event 1 0 100 w1 = Some (Some u, i, ty, w2) \<and> u \<noteq> 1"
proof -
  have lv: "live busy 1" by (simp add: busy_live)
  obtain w1 vs bs ds where d: "del_event 1 busy = Some w1" "deleted busy ds w1"
    using del_event_ok [OF busy_ok, of 1] lv by blast
  then have pool: "kernel w1 = calm" "pl_max w1 = 4" "length (pl_pevents w1) = 2"
    by (simp_all add: deleted_def same_pool_def busy_def fresh_def)
  have "map_option (\<lambda>(r, i, ty, w). (r, pl_iters w)) (next_event 1 0 100 (the (del_event 1 busy))) = Some (Some 0, pl_iters (the (del_event 1 busy)))"
    by code_simp
  then obtain i ty w2 where "next_event 1 0 100 w1 = Some (Some 0, i, ty, w2)" "pl_iters w2 = pl_iters w1"
    using d(1) by auto
  with deleted_not_delivered [OF busy_ok lv d(1) _ _ _ _ _ this] d(1) pool calm_epoll show ?thesis by auto
qed

end
