(* ===== verification/Desync_Props.thy ===== *)
theory Desync_Props
  imports Desync Conev_Props Packets_Tls_Props Packets_Http_Props
begin

text \<open>
  What desync.c sends. \<open>stream fd tr\<close> are the bytes that a trace puts into the connection
  \<open>fd\<close>: of every \<open>send\<close> those that the kernel accepted. For groups that only split, what
  \<open>desync\<close> sends is the request itself, in order; the theorems after that show where it
  is not.
\<close>

section \<open>The stream\<close>

definition accepted :: "int \<Rightarrow> syscall \<times> answer \<Rightarrow> mem" where
  "accepted fd x = (case x of (Send f bs, a) \<Rightarrow> (if f = fd then take (nat (a_ret a)) bs else []) | _ \<Rightarrow> [])"

definition stream :: "int \<Rightarrow> event_trace \<Rightarrow> mem" where
  "stream fd tr = concat (map (accepted fd) tr)"

lemma stream_append [simp]: "stream fd (tr @ ts) = stream fd tr @ stream fd ts"
  "stream fd [] = []" "stream fd (x # tr) = accepted fd x @ stream fd tr"
  by (simp_all add: stream_def)

text \<open>What \<open>send\<close> promises: -1, or how many of the bytes were taken.\<close>

definition send_ok :: "kernel \<Rightarrow> bool" where
  "send_ok k \<longleftrightarrow> (\<forall>tr fd bs. - 1 \<le> a_ret (k tr (Send fd bs)) \<and> a_ret (k tr (Send fd bs)) \<le> int (length bs))"

text \<open>Steps that send nothing and leave the sockets, the parameters, the buffers and the timers alone.\<close>

definition quiet :: "proc \<Rightarrow> proc \<Rightarrow> bool" where
  "quiet w w' \<longleftrightarrow>
     (\<forall>fd. stream fd (trace w') = stream fd (trace w)) \<and> kernel w' = kernel w \<and> params w' = params w \<and> bufs w' = bufs w \<and>
     tv_start w' = tv_start w \<and> tv_end w' = tv_end w \<and>
     (\<forall>u. e_fd (items w' u) = e_fd (items w u) \<and> due w' u = due w u \<and> tnext w' u = tnext w u \<and> tprev w' u = tprev w u)"

lemma quiet_refl [simp, intro]: "quiet w w"
  by (simp add: quiet_def)

lemma quiet_trans: "quiet w w1 \<Longrightarrow> quiet w1 w2 \<Longrightarrow> quiet w w2"
  by (simp add: quiet_def)

lemma quietD:
  assumes "quiet w w'"
  shows "stream fd (trace w') = stream fd (trace w)" "kernel w' = kernel w" "params w' = params w" "bufs w' = bufs w"
    "e_fd (items w' u) = e_fd (items w u)" "timers w' vs \<longleftrightarrow> timers w vs"
proof -
  show "timers w' vs \<longleftrightarrow> timers w vs"
    by (rule timers_cong) (use assms in \<open>auto simp: quiet_def fun_eq_iff\<close>)
qed (use assms in \<open>auto simp: quiet_def\<close>)

lemma quiet_sys: "(\<And>fd bs. c \<noteq> Send fd bs) \<Longrightarrow> quiet w (snd (sys c w))"
  by (auto simp: quiet_def sys_def Let_def accepted_def split: syscall.splits)

lemma quiet_call: "(\<And>fd bs. c \<noteq> Send fd bs) \<Longrightarrow> quiet w (snd (call c w))"
  using quiet_sys [of c w] by (simp add: call_def Let_def split_def)

lemma quiet_upd_ev:
  "(\<And>e. e_fd (f e) = e_fd e \<and> e_tv_ms (f e) = e_tv_ms e \<and> e_tv_next (f e) = e_tv_next e \<and> e_tv_prev (f e) = e_tv_prev e) \<Longrightarrow>
   quiet w (upd_ev v f w)"
  by (simp add: quiet_def upd_ev_def)

lemma quiet_setsockopt: "quiet w (snd (setsockopt fd opt x w))"
  by (simp add: setsockopt_def quiet_call)

lemma quiet_setttl: "quiet w (snd (setttl fd t w))"
  using quiet_trans [OF quiet_setsockopt [of w fd IPV6_UNICAST_HOPS "[t]"] quiet_setsockopt [of _ fd IP_TTL "[t]"]]
  by (simp add: setttl_def Let_def split_def)

lemma quiet_md5sig: "quiet w (snd (set_md5sig fd k w))"
  using quiet_trans [OF quiet_call [of "Getpeername fd" w] quiet_setsockopt [of _ fd TCP_MD5SIG]] quiet_call [of "Getpeername fd" w]
  by (simp add: set_md5sig_def Let_def split_def)

lemma quiet_notsent: "quiet w (snd (sock_has_notsent fd w))"
  using quiet_sys [of "Getsockopt fd TCP_INFO" w]
  by (simp add: sock_has_notsent_def Let_def split_def)

lemma quiet_restore: "quiet w (restore_state v w)"
proof -
  let ?fd = "e_fd (items w v)"
  define w1 where "w1 = (case e_restore_fake (items w v) of None \<Rightarrow> w
               | Some p \<Rightarrow> upd_ev v (\<lambda>e. e\<lparr>e_restore_fake := None\<rparr>) (snd (call (Munmap p (e_restore_fake_len (items w v))) w)))"
  define w2 where "w2 = (if e_restore_md5 (items w1 v)
               then upd_ev v (\<lambda>e. e\<lparr>e_restore_md5 := False\<rparr>) (snd (set_md5sig ?fd 0 w1)) else w1)"
  have "quiet w w1"
    by (auto simp: w1_def split: option.split intro!: quiet_trans [OF quiet_call quiet_upd_ev])
  moreover have "quiet w1 w2"
    by (auto simp: w2_def intro!: quiet_trans [OF quiet_md5sig quiet_upd_ev])
  moreover have "quiet w2 (restore_state v w)"
    unfolding restore_state_def Let_def w1_def [symmetric] w2_def [symmetric]
    by (auto intro!: quiet_trans [OF quiet_setttl quiet_upd_ev])
  ultimately show ?thesis by (blast intro: quiet_trans)
qed

text \<open>A timer: it sends nothing, but the list changes.\<close>

lemma set_timer_sends:
  assumes "timers w vs" and "clock_ok (kernel w)" and "0 < ms"
  shows "\<exists>w'. set_timer v ms w = Some w' \<and> (\<forall>fd. stream fd (trace w') = stream fd (trace w)) \<and> bufs w' = bufs w"
proof (cases "v \<in> set vs")
  case True
  then have "due w v \<noteq> 0" using timers_parts(6) [OF assms(1)] by blast
  then show ?thesis by (simp add: set_timer_def)
next
  case False
  obtain t tr e where t: "time_ms w = (t, w\<lparr>trace := tr, errno := e\<rparr>)" by (rule time_ms_cases)
  have "0 \<le> t" using time_ms_nonneg [OF assms(2) t] .
  then have "t + ms \<noteq> 0" using assms(3) by simp
  note timer = set_timer_state [OF assms(1) False t this]
  obtain it where
    "set_timer v ms w = Some (w\<lparr>trace := tr, errno := e, items := it, tv_start := first_of (place (\<lambda>u. e_tv_ms (it u)) v vs) None,
              tv_end := last_of (place (\<lambda>u. e_tv_ms (it u)) v vs) None\<rparr>)"
    by (rule timer, rule that, assumption)
  moreover have "stream fd tr = stream fd (trace w)" for fd
  proof -
    have "quiet w (snd (time_ms w))" using quiet_call [of Clock w] by (simp add: time_ms_def Let_def split_def)
    then show ?thesis by (simp add: t quiet_def)
  qed
  ultimately show ?thesis by simp
qed

section \<open>Positions\<close>

lemma init_proto_info_total:
  assumes "n \<le> length m"
  shows "\<exists>i. init_proto_info m n info = Some i"
  using parse_tls_inside [OF assms] parse_http_inside [OF assms, of False]
  by (auto simp: init_proto_info_def)

lemma gen_offset_total:
  assumes "n \<le> length m" and "flag AND OFFSET_RAND = 0"
  shows "\<exists>r i. gen_offset pos flag m n lp info w = Some (r, i, w)"
proof -
  obtain i where "init_proto_info m n info = Some i" using init_proto_info_total [OF assms(1)] by blast
  then show ?thesis using assms(2) by (auto simp: gen_offset_def Let_def)
qed

section \<open>Plain parts\<close>

definition plain_part :: "part \<Rightarrow> bool" where
  "plain_part q \<longleftrightarrow> (pt_m q = DESYNC_NONE \<or> pt_m q = DESYNC_SPLIT) \<and> pt_flag q AND OFFSET_RAND = 0"

text \<open>What the loop is given: a buffer, a first call, a kernel that keeps its promises.\<close>

definition job_ok :: "split_job \<Rightarrow> proc \<Rightarrow> nat list \<Rightarrow> bool" where
  "job_ok j w vs \<longleftrightarrow> 0 \<le> j_offset j \<and> j_offset j \<le> j_n j \<and> j_n j \<le> int (length (j_data j)) \<and> j_part_skip j = 0 \<and>
     send_ok (kernel w) \<and> clock_ok (kernel w) \<and> timers w vs \<and> 0 < p_await_int (params w)"

lemma job_ok_quiet: "quiet w w' \<Longrightarrow> job_ok j w' vs \<longleftrightarrow> job_ok j w vs"
  by (simp add: job_ok_def quietD)

text \<open>The bytes from the offset up to \<open>lp\<close>.\<close>

definition upto_lp :: "split_job \<Rightarrow> int \<Rightarrow> mem" where
  "upto_lp j lp = take (nat (lp - j_offset j)) (drop (nat (j_offset j)) (j_data j))"

lemma upto_lp_more:
  assumes "0 \<le> j_offset j" and "j_offset j \<le> lp" and "0 \<le> s" and "s \<le> pos - lp"
  shows "upto_lp j lp @ take (nat s) (take (nat (pos - lp)) (drop (nat lp) (j_data j))) = upto_lp j (lp + s)"
proof -
  have "nat lp = nat (lp - j_offset j) + nat (j_offset j)" "nat (lp + s - j_offset j) = nat (lp - j_offset j) + nat s"
    using assms by auto
  moreover have "min (nat s) (nat (pos - lp)) = nat s" using assms by auto
  ultimately show ?thesis by (simp add: upto_lp_def take_add)
qed

lemma send_stream:
  assumes "send_ok (kernel w)" and "send fd bs w = (s, w')"
  shows "- 1 \<le> s" "s \<le> int (length bs)" "stream fd (trace w') = stream fd (trace w) @ take (nat s) bs"
    "quiet (w\<lparr>trace := trace w'\<rparr>) w'" "\<exists>a. trace w' = trace w @ [(Send fd bs, a)] \<and> a_ret a = s"
  using assms by (auto simp: send_def call_def sys_def Let_def send_ok_def accepted_def quiet_def)

lemma send_keeps: "send fd bs w = (s, w') \<Longrightarrow> kernel w' = kernel w \<and> params w' = params w \<and> bufs w' = bufs w \<and> items w' = items w
    \<and> (timers w' vs \<longleftrightarrow> timers w vs)"
  by (auto simp: send_def call_def sys_def Let_def timers_def)

text \<open>
  What a call returns: \<open>k\<close> bytes went out, in order, from the offset on; this is the returned
  count, unless the send of the rest was cut short.
\<close>

definition delivered :: "split_job \<Rightarrow> int \<Rightarrow> mem \<Rightarrow> int \<Rightarrow> proc \<Rightarrow> bool" where
  "delivered j fd S r w \<longleftrightarrow> (0 \<le> r \<longrightarrow> r \<le> j_n j - j_offset j \<and>
     (\<exists>k. 0 \<le> k \<and> k \<le> r \<and> stream fd (trace w) = S @ upto_lp j (j_offset j + k) \<and>
        (k < r \<longrightarrow> r = j_n j - j_offset j \<and>
           (\<exists>bs a. last (trace w) = (Send fd bs, a) \<and> 0 \<le> a_ret a \<and> a_ret a < int (length bs)))))"

lemma deliveredI:
  "stream fd (trace w) = S @ upto_lp j lp \<Longrightarrow> lp \<le> j_n j \<Longrightarrow> r = lp - j_offset j \<Longrightarrow> delivered j fd S r w"
  by (auto simp: delivered_def intro!: exI [of _ "lp - j_offset j"])

lemma delivered_neg: "r < 0 \<Longrightarrow> delivered j fd S r w"
  by (simp add: delivered_def)

definition round_ok :: "split_job \<Rightarrow> int \<Rightarrow> mem \<Rightarrow> proc \<Rightarrow> nat list \<Rightarrow> round_end \<Rightarrow> proc \<Rightarrow> bool" where
  "round_ok j fd S w vs e w' \<longleftrightarrow> bufs w' = bufs w \<and>
     (case e of
        Return_now r wait \<Rightarrow> delivered j fd S r w'
      | Go_on lp \<Rightarrow> j_offset j \<le> lp \<and> lp \<le> j_n j \<and> stream fd (trace w') = S @ upto_lp j lp \<and> job_ok j w' vs \<and>
          e_fd (items w' (j_val j)) = fd
      | Leave_loop lp \<Rightarrow> j_offset j \<le> lp \<and> lp \<le> j_n j \<and> stream fd (trace w') = S @ upto_lp j lp \<and> job_ok j w' vs \<and>
          e_fd (items w' (j_val j)) = fd)"

text \<open>After a plain send.\<close>

lemma after_send_ok:
  assumes "job_ok j w vs" and "j_offset j \<le> lp" and "lp \<le> pos" and "pos \<le> j_n j" and "- 1 \<le> s" and "s \<le> pos - lp"
    and "stream fd (trace w) = S @ upto_lp j (lp + max 0 s)" and "e_fd (items w (j_val j)) = fd"
  shows "\<exists>e w'. after_send j False cp lp pos s w = Some (e, w') \<and> round_ok j fd S w vs e w'"
proof -
  define w1 where "w1 = upd_ev (j_pair j) (\<lambda>e. e\<lparr>e_part_sent := cp\<rparr>) w"
  have q1: "quiet w w1" by (simp add: w1_def quiet_upd_ev)
  note d1 = quietD [OF q1]
  have off: "0 \<le> j_offset j" "0 < p_await_int (params w)" "timers w vs" "clock_ok (kernel w)"
    using assms(1) by (simp_all add: job_ok_def)
  have "s \<noteq> ERR_WAIT" using assms(5) by (simp add: ERR_WAIT_def)
  show ?thesis
  proof (cases "s = pos - lp \<and> 0 \<le> s")
    case False
    then have "after_send j False cp lp pos s w =
        Some (Return_now (if s < 0 then if get_e w1 = EAGAIN then lp - j_offset j else - 1 else lp + s - j_offset j) False, w1)"
      using \<open>s \<noteq> ERR_WAIT\<close> by (auto simp: after_send_def w1_def)
    moreover have "delivered j fd S (if s < 0 then if get_e w1 = EAGAIN then lp - j_offset j else - 1 else lp + s - j_offset j) w1"
    proof (cases "s < 0")
      case True
      then show ?thesis
        using assms d1(1) by (cases "get_e w1 = EAGAIN") (simp_all add: delivered_neg deliveredI [of _ _ _ _ lp])
    next
      case False
      then show ?thesis
        using assms d1(1) by (auto intro!: deliveredI [of _ _ _ _ "lp + s"])
    qed
    ultimately show ?thesis using d1(4) by (auto simp: round_ok_def)
  next
    case True
    define x where "x = sock_has_notsent (e_fd (items w1 (j_val j))) w1"
    define w2 where "w2 = snd x"
    have q2: "quiet w w2" using quiet_trans [OF q1 quiet_notsent] by (simp add: w2_def x_def)
    note d2 = quietD [OF q2]
    have st: "stream fd (trace w2) = S @ upto_lp j pos" using assms(7) True d2(1) by simp
    have eq: "after_send j False cp lp pos s w =
        (if fst x \<or> (p_wait_send (params w2) \<and> cp > j_part_skip j)
         then do { w \<leftarrow> set_timer (j_val j) (p_await_int (params w2)) w2; Some (Return_now (pos - j_offset j) True, w) }
         else Some (Go_on pos, restore_state (j_val j) w2))"
      using True \<open>s \<noteq> ERR_WAIT\<close> by (simp add: after_send_def w1_def [symmetric] x_def w2_def split_def Let_def)
    show ?thesis
    proof (cases "fst x \<or> (p_wait_send (params w2) \<and> cp > j_part_skip j)")
      case True
      obtain w3 where w3: "set_timer (j_val j) (p_await_int (params w2)) w2 = Some w3"
        "\<forall>fd. stream fd (trace w3) = stream fd (trace w2)" "bufs w3 = bufs w2"
        using set_timer_sends [of w2 vs "p_await_int (params w2)" "j_val j"] off d2 by auto
      have "delivered j fd S (pos - j_offset j) w3"
        by (rule deliveredI [of _ _ _ _ pos]) (use st w3(2) assms(4) in auto)
      then show ?thesis using eq True w3(1,3) d2(4) by (auto simp: round_ok_def)
    next
      case False
      have q3: "quiet w (restore_state (j_val j) w2)" by (rule quiet_trans [OF q2 quiet_restore])
      note d3 = quietD [OF q3]
      have "stream fd (trace (restore_state (j_val j) w2)) = S @ upto_lp j pos" using d3(1) d2(1) st by simp
      then show ?thesis
        using eq False assms d3(4,5) job_ok_quiet [OF q3] by (auto simp: round_ok_def)
    qed
  qed
qed

lemma plain_not_pair: "plain_part q \<Longrightarrow> \<not> first_of_pair q r"
  by (auto simp: plain_part_def first_of_pair_def is_pair_mode_def)

lemma send_mode_plain:
  assumes "plain_part q" and "0 \<le> lp" and "lp \<le> pos" and "pos \<le> int (length (j_data j))"
  shows "send_mode j (pt_m q) first lp pos info w =
    Some (let (s, w) = send (e_fd (items w (j_val j))) (take (nat (pos - lp)) (drop (nat lp) (j_data j))) w in (Some s, info, w))"
proof -
  have "slice (j_data j) (nat lp) (nat (pos - lp)) = Some (take (nat (pos - lp)) (drop (nat lp) (j_data j)))"
    using assms by (intro slice_inside) auto
  then show ?thesis using assms(1) by (auto simp: send_mode_def plain_part_def split_def Let_def)
qed

lemma split_round_ok:
  assumes "job_ok j w vs" and "plain_part q" and "0 < cp" and "j_offset j \<le> lp" and "lp \<le> j_n j"
    and "stream fd (trace w) = S @ upto_lp j lp" and "e_fd (items w (j_val j)) = fd"
  shows "\<exists>e i w'. split_round j q r cp lp info w = Some (e, i, w') \<and> round_ok j fd S w vs e w'"
proof -
  have j: "0 \<le> j_offset j" "j_n j \<le> int (length (j_data j))" "j_part_skip j = 0" "send_ok (kernel w)"
    using assms(1) by (simp_all add: job_ok_def)
  have "nat (j_n j) \<le> length (j_data j)" using j(2) by simp
  then obtain o1 i where g: "gen_offset (pt_pos q) (pt_flag q) (j_data j) (nat (j_n j)) lp info w = Some (o1, i, w)"
    using gen_offset_total assms(2) unfolding plain_part_def by blast
  define p where "p = o1 + pt_s q * (pt_r q - r)"
  define pos where "pos = (if p > j_n j then j_n j else p)"
  define C where "C \<longleftrightarrow> (((j_skip j \<noteq> 0 \<and> p < j_skip j) \<or> cp < j_part_skip j) \<and> pt_flag q AND OFFSET_START = 0)
      \<or> (j_offset j \<noteq> 0 \<and> p < j_offset j)"
  have eq: "split_round j q r cp lp info w =
      (if C then Some (Go_on lp, i, w)
       else if p < 0 \<or> p < lp then Some (Leave_loop lp, i, w)
       else do {
         (s, info, w) \<leftarrow> send_mode j (pt_m q) (first_of_pair q r) lp pos i w;
         (case s of None \<Rightarrow> Some (Return_now (- 1) False, info, w)
          | Some s \<Rightarrow> do { (e, w) \<leftarrow> after_send j (first_of_pair q r) cp lp pos s w; Some (e, info, w) }) })"
    using j(3) assms(3)
    unfolding split_round_def Let_def g bind.bind_lunit prod.case p_def [symmetric] pos_def [symmetric] C_def [symmetric] by simp
  consider "C" | "\<not> C" "p < 0 \<or> p < lp" | "\<not> C" "\<not> (p < 0 \<or> p < lp)" by blast
  then show ?thesis
  proof cases
    case 1
    then show ?thesis using assms eq by (simp add: round_ok_def)
  next
    case 2
    then show ?thesis using assms eq by (auto simp: round_ok_def)
  next
    case 3
    then have pos: "lp \<le> pos" "pos \<le> j_n j" using assms(5) by (auto simp: pos_def)
    define bs where "bs = take (nat (pos - lp)) (drop (nat lp) (j_data j))"
    obtain s w1 where s: "send fd bs w = (s, w1)" by fastforce
    note ss = send_stream [OF j(4) s] and sk = send_keeps [OF s]
    have len: "int (length bs) = pos - lp" using pos j(1,2) assms(4) by (simp add: bs_def)
    have sm: "send_mode j (pt_m q) (first_of_pair q r) lp pos i w = Some (Some s, i, w1)"
      using assms(2,4,7) pos j(1,2) s by (subst send_mode_plain) (auto simp: bs_def)
    have "stream fd (trace w1) = S @ upto_lp j (lp + max 0 s)"
    proof (cases "s < 0")
      case False
      then show ?thesis
        using ss(2,3) len assms(6) upto_lp_more [OF j(1) assms(4), of s pos] by (simp add: bs_def)
    qed (use ss(3) assms(6) in simp)
    moreover have "job_ok j w1 vs" using assms(1) sk by (simp add: job_ok_def)
    ultimately obtain e w2 where e: "after_send j False cp lp pos s w1 = Some (e, w2)" "round_ok j fd S w1 vs e w2"
      using after_send_ok [of j w1 vs lp pos s fd S cp] assms(4,7) pos ss(1,2) len sk by auto
    have "split_round j q r cp lp info w = Some (e, i, w2)"
      using 3 e(1) sm eq plain_not_pair [OF assms(2), of r] by simp
    then show ?thesis using e(2) sk by (auto simp: round_ok_def)
  qed
qed

lemma send_rest_ok:
  assumes "job_ok j w vs" and "j_offset j \<le> lp" and "lp \<le> j_n j"
    and "stream fd (trace w) = S @ upto_lp j lp" and "e_fd (items w (j_val j)) = fd"
  shows "\<exists>r w'. send_rest j lp w = Some (r, w') \<and> delivered j fd S r w' \<and> bufs w' = bufs w"
proof (cases "lp < j_n j")
  case False
  then show ?thesis using assms by (auto simp: send_rest_def intro!: deliveredI [of _ _ _ _ lp])
next
  case True
  have j: "0 \<le> j_offset j" "j_n j \<le> int (length (j_data j))" "send_ok (kernel w)"
    using assms(1) by (simp_all add: job_ok_def)
  define bs where "bs = take (nat (j_n j - lp)) (drop (nat lp) (j_data j))"
  obtain s w1 where s: "send fd bs w = (s, w1)" by fastforce
  note ss = send_stream [OF j(3) s] and sk = send_keeps [OF s]
  have len: "int (length bs) = j_n j - lp" using True j(1,2) assms(2) by (simp add: bs_def)
  have "slice (j_data j) (nat lp) (nat (j_n j - lp)) = Some bs"
    unfolding bs_def using True j assms(2) by (intro slice_inside) auto
  then have eq: "send_rest j lp w = Some (if s < 0 then (if get_e w1 = EAGAIN then lp - j_offset j else - 1) else j_n j - j_offset j, w1)"
    using True s assms(5) by (simp add: send_rest_def Let_def)
  have "delivered j fd S (if s < 0 then (if get_e w1 = EAGAIN then lp - j_offset j else - 1) else j_n j - j_offset j) w1"
  proof (cases "s < 0")
    case True
    then show ?thesis
      using ss(3) assms(3,4) by (cases "get_e w1 = EAGAIN") (simp_all add: delivered_neg deliveredI [of _ _ _ _ lp])
  next
    case False
    have "stream fd (trace w1) = S @ upto_lp j (j_offset j + (lp + s - j_offset j))"
      using False ss(2,3) len assms(4) upto_lp_more [OF j(1) assms(2), of s "j_n j"] by (simp add: bs_def)
    moreover obtain a where "trace w1 = trace w @ [(Send fd bs, a)]" "a_ret a = s" using ss(5) by blast
    ultimately show ?thesis
      using False ss(2) len assms(2) \<open>lp < j_n j\<close>
      by (auto simp: delivered_def intro!: exI [of _ "lp + s - j_offset j"])
  qed
  then show ?thesis using eq sk by auto
qed

lemma split_loop_ok:
  assumes "job_ok j w vs" and "\<forall>q\<in>set parts. plain_part q" and "0 < r \<longrightarrow> plain_part part" and "j_offset j \<le> lp" and "lp \<le> j_n j"
    and "stream fd (trace w) = S @ upto_lp j lp" and "e_fd (items w (j_val j)) = fd"
  shows "\<exists>s wait w'. split_loop j parts part r cp lp info w = Some (s, wait, w') \<and> delivered j fd S s w' \<and> bufs w' = bufs w"
  using assms
proof (induction j parts part r cp lp info w rule: split_loop.induct)
  case (1 j parts part r cp lp info w)
  show ?case
  proof (cases "r \<le> 0 \<and> parts = []")
    case True
    obtain s w' where "send_rest j lp w = Some (s, w')" "delivered j fd S s w'" "bufs w' = bufs w"
      using send_rest_ok [OF "1.prems"(1,4-7)] by blast
    then show ?thesis using True by (subst split_loop.simps) auto
  next
    case False
    define part' where "part' = (if r \<le> 0 then hd parts else part)"
    define parts' where "parts' = (if r \<le> 0 then tl parts else parts)"
    define r' where "r' = (if r \<le> 0 then pt_r part' else r)"
    have pl: "plain_part part'" "\<forall>q\<in>set parts'. plain_part q"
      using False "1.prems"(2,3) by (auto simp: part'_def parts'_def dest: list.set_sel(2))
    have "\<exists>e i w1. split_round j part' r' (cp + 1) lp info w = Some (e, i, w1) \<and> round_ok j fd S w vs e w1"
      by (rule split_round_ok [OF "1.prems"(1) pl(1) _ "1.prems"(4-7)]) simp
    then obtain e i w1 where e: "split_round j part' r' (cp + 1) lp info w = Some (e, i, w1)" "round_ok j fd S w vs e w1"
      by blast
    have eq: "split_loop j parts part r cp lp info w = (case e of
           Go_on lp \<Rightarrow> split_loop j parts' part' (r' - 1) (cp + 1) lp i w1
         | Leave_loop lp \<Rightarrow> do { (s, w) \<leftarrow> send_rest j lp w1; Some (s, False, w) }
         | Return_now s wait \<Rightarrow> Some (s, wait, w1))"
      unfolding split_loop.simps [of j parts part r cp lp info w] Let_def part'_def [symmetric] parts'_def [symmetric]
        r'_def [symmetric] e(1) bind.bind_lunit prod.case by (simp only: False if_False)
    show ?thesis
    proof (cases e)
      case (Go_on lp')
      then have r: "j_offset j \<le> lp'" "lp' \<le> j_n j" "stream fd (trace w1) = S @ upto_lp j lp'" "job_ok j w1 vs"
        "e_fd (items w1 (j_val j)) = fd" "bufs w1 = bufs w"
        using e(2) by (simp_all add: round_ok_def)
      have "\<exists>s wait w'. split_loop j parts' part' (r' - 1) (cp + 1) lp' i w1 = Some (s, wait, w') \<and>
          delivered j fd S s w' \<and> bufs w' = bufs w1"
        by (rule "1.IH" [OF False part'_def parts'_def r'_def e(1) refl refl Go_on r(4) pl(2)]) (use pl(1) r in auto)
      then show ?thesis using eq Go_on r(6) by simp
    next
      case (Leave_loop lp')
      then have r: "j_offset j \<le> lp'" "lp' \<le> j_n j" "stream fd (trace w1) = S @ upto_lp j lp'" "job_ok j w1 vs"
        "e_fd (items w1 (j_val j)) = fd" "bufs w1 = bufs w"
        using e(2) by (simp_all add: round_ok_def)
      then show ?thesis using eq Leave_loop send_rest_ok [OF r(4,1,2,3,5)] by auto
    next
      case (Return_now s wait)
      then show ?thesis using eq e(2) by (auto simp: round_ok_def)
    qed
  qed
qed

text \<open>A group that only splits the request.\<close>

definition plain_group :: "desync_params \<Rightarrow> bool" where
  "plain_group g \<longleftrightarrow> (\<forall>q\<in>set (d_parts g). plain_part q) \<and> d_mod_http g = 0 \<and> \<not> d_tlsminor_set g \<and> d_tlsrec g = []"

lemma tamp_plain: "plain_group g \<Longrightarrow> tamp m bf n g i w = Some (m, n, i, w)"
  by (simp add: plain_group_def tamp_def)

text \<open>
  C6: A group that only splits (\<open>plain_group\<close>: every part is a split or none, at a place that is not
  random, and nothing is rewritten) does not change the request in a first call, one with \<open>part_sent = 0\<close> for the client. For
  every buffer and every place in it, a kernel whose \<open>send\<close> takes at most what it is given, a clock that is not
  negative, a well-formed list of timers and a positive waiting time: the call always returns, and when it
  returns a count \<open>r\<close> it has put the next \<open>r\<close> bytes of the request into the connection, in order, each
  once, whether it stopped early or not. The one exception is a last send, that of the rest, which the kernel cut short: then
  \<open>r\<close> counts the rest as sent. (A repeated call, with \<open>part_sent\<close> above 0, can lose a part:
  \<open>full_socket_loses_part\<close>.)
\<close>

theorem desync_split_in_order:
  assumes "e_pair (items w v) = Some p" and "e_dp (items w p) = Some d" and "bufs w b = Some x" and "plain_group (groups w d)"
    and "0 \<le> b_offset x" and "b_offset x \<le> n" and "n \<le> int (length (b_data x))" and "e_part_sent (items w p) = 0"
    and "timers w vs" and "0 < p_await_int (params w)" and "send_ok (kernel w)" and "clock_ok (kernel w)"
  shows "\<exists>r wait w'. desync v b n w = Some (r, n, wait, w') \<and> bufs w' = bufs w \<and>
    (0 \<le> r \<longrightarrow> r \<le> n - b_offset x \<and>
      (\<exists>k. k \<le> nat r \<and>
         stream (e_fd (items w v)) (trace w') = stream (e_fd (items w v)) (trace w) @ take k (drop (nat (b_offset x)) (b_data x)) \<and>
         (k < nat r \<longrightarrow> r = n - b_offset x \<and>
            (\<exists>bs a. last (trace w') = (Send (e_fd (items w v)) bs, a) \<and> 0 \<le> a_ret a \<and> a_ret a < int (length bs)))))"
proof -
  let ?fd = "e_fd (items w v)"
  have "nat n \<le> length (b_data x)" using assms(7) by simp
  from init_proto_info_total [OF this]
  have "\<exists>i. (if e_round_sent (items w p) = 0 \<and> LOG_ENABLED w then init_proto_info (b_data x) (nat n) no_info else Some no_info) = Some i"
    by simp
  then obtain i where i: "(if e_round_sent (items w p) = 0 \<and> LOG_ENABLED w then init_proto_info (b_data x) (nat n) no_info
      else Some no_info) = Some i" by blast
  define j where "j = \<lparr>j_val = v, j_pair = p, j_dp = groups w d, j_data = b_data x, j_size = b_size x, j_n = n,
              j_offset = b_offset x, j_skip = e_round_sent (items w p), j_part_skip = e_part_sent (items w p)\<rparr>"
  have upd: "upd_buf b (\<lambda>y. y\<lparr>b_data := b_data x\<rparr>) w = Some w"
    using assms(3) by (simp add: upd_buf_def fun_upd_idem)
  have eq: "desync v b n w = do { (r, wait, w) \<leftarrow> split_loop j (d_parts (groups w d)) no_part 0 0 (b_offset x) i w; Some (r, n, wait, w) }"
    unfolding desync_def assms(1-3) bind.bind_lunit Let_def i tamp_plain [OF assms(4)] if_cancel prod.case upd j_def ..
  have "job_ok j w vs" using assms by (simp add: job_ok_def j_def)
  moreover have "\<forall>q\<in>set (d_parts (groups w d)). plain_part q" using assms(4) by (simp add: plain_group_def)
  ultimately have "\<exists>r wait w'. split_loop j (d_parts (groups w d)) no_part 0 0 (b_offset x) i w = Some (r, wait, w') \<and>
      delivered j ?fd (stream ?fd (trace w)) r w' \<and> bufs w' = bufs w"
    by (rule split_loop_ok) (use assms(6) in \<open>simp_all add: j_def upto_lp_def\<close>)
  then obtain r wait w' where l: "split_loop j (d_parts (groups w d)) no_part 0 0 (b_offset x) i w = Some (r, wait, w')"
    "delivered j ?fd (stream ?fd (trace w)) r w'" "bufs w' = bufs w" by blast
  have "0 \<le> r \<longrightarrow> r \<le> n - b_offset x \<and> (\<exists>k. k \<le> nat r \<and>
         stream ?fd (trace w') = stream ?fd (trace w) @ take k (drop (nat (b_offset x)) (b_data x)) \<and>
         (k < nat r \<longrightarrow> r = n - b_offset x \<and>
            (\<exists>bs a. last (trace w') = (Send ?fd bs, a) \<and> 0 \<le> a_ret a \<and> a_ret a < int (length bs))))"
  proof
    assume "0 \<le> r"
    then obtain k where k: "r \<le> n - b_offset x" "0 \<le> k" "k \<le> r"
      "stream ?fd (trace w') = stream ?fd (trace w) @ take (nat k) (drop (nat (b_offset x)) (b_data x))"
      "k < r \<longrightarrow> r = n - b_offset x \<and> (\<exists>bs a. last (trace w') = (Send ?fd bs, a) \<and> 0 \<le> a_ret a \<and> a_ret a < int (length bs))"
      using l(2) by (auto simp: delivered_def j_def upto_lp_def)
    then show "r \<le> n - b_offset x \<and> (\<exists>k. k \<le> nat r \<and>
         stream ?fd (trace w') = stream ?fd (trace w) @ take k (drop (nat (b_offset x)) (b_data x)) \<and>
         (k < nat r \<longrightarrow> r = n - b_offset x \<and>
            (\<exists>bs a. last (trace w') = (Send ?fd bs, a) \<and> 0 \<le> a_ret a \<and> a_ret a < int (length bs))))"
      by (intro conjI exI [of _ "nat k"]) auto
  qed
  then show ?thesis using eq l(1,3) by (intro exI [of _ r] exI [of _ wait] exI [of _ w']) simp
qed

text \<open>
  A tunnel for the instances: event 1 is the remote side, event 2 the client, the group has one
  part at position 1, and the buffer 50 holds the request ABC.
\<close>

definition tunnel :: "demode \<Rightarrow> kernel \<Rightarrow> proc" where
  "tunnel m k = (fresh k)\<lparr>
     items := (\<lambda>v. if v = 1 then zero_eval\<lparr>e_fd := 9, e_index := 1, e_pair := Some 2, e_flag := FLAG_CONN\<rparr>
       else if v = 2 then zero_eval\<lparr>e_fd := 10, e_index := 2, e_pair := Some 1, e_dp := Some 7\<rparr> else zero_eval\<lparr>e_fd := - 1\<rparr>),
     groups := (\<lambda>d. if d = 7 then zero_dp\<lparr>d_parts := [no_part\<lparr>pt_m := m, pt_pos := 1\<rparr>]\<rparr> else zero_dp),
     bufs := (\<lambda>b. if b = 50 then Some \<lparr>b_size = 5, b_offset = 0, b_lock = 3, b_next = None, b_data = [65, 66, 67, 0, 0]\<rparr> else None),
     params := zero_params\<lparr>p_await_int := 10\<rparr>\<rparr>"

theorem desync_split_in_order_witness:
  "\<exists>r wait w'. desync 1 50 3 (tunnel DESYNC_SPLIT calm) = Some (r, 3, wait, w') \<and>
     (0 \<le> r \<longrightarrow> (\<exists>k. k \<le> nat r \<and> stream 9 (trace w') = take k [65, 66, 67, 0, 0]))"
proof -
  let ?w = "tunnel DESYNC_SPLIT calm"
  have "e_pair (items ?w 1) = Some 2" "e_dp (items ?w 2) = Some 7" "e_part_sent (items ?w 2) = 0" "0 < p_await_int (params ?w)"
    "bufs ?w 50 = Some \<lparr>b_size = 5, b_offset = 0, b_lock = 3, b_next = None, b_data = [65, 66, 67, 0, 0]\<rparr>"
    "e_fd (items ?w 1) = 9" "trace ?w = []" "kernel ?w = calm"
    by (simp_all add: tunnel_def fresh_def zero_eval_def)
  moreover have "plain_group (groups ?w 7)"
    by (simp add: tunnel_def fresh_def plain_group_def plain_part_def zero_dp_def no_part_def)
  moreover have "timers ?w []" by (simp add: timers_def tunnel_def fresh_def zero_eval_def)
  moreover have "send_ok calm" "clock_ok calm" by (simp_all add: send_ok_def clock_ok_def calm_def ok_answer_def)
  ultimately show ?thesis
    using desync_split_in_order [of ?w 1 2 7 50 _ 3 "[]"] by fastforce
qed

section \<open>Lost and repeated bytes\<close>

text \<open>A kernel whose socket buffer is full at the first send, and then takes everything.\<close>

definition full_once :: kernel where
  "full_once tr c = (case c of
      Send fd bs \<Rightarrow> if list_ex (\<lambda>(c, a). case c of Send f b \<Rightarrow> True | _ \<Rightarrow> False) tr then ok_answer (int (length bs))
        else (ok_answer (- 1))\<lparr>a_errno := EAGAIN\<rparr>
    | _ \<Rightarrow> calm tr c)"

text \<open>
  A part that could not be sent is lost. The counter of the parts sent is set before the
  result of the send is looked at: when the socket is full, the call returns 0, and the call that repeats
  it skips the part as sent. Of the request ABC split behind A, only BC reaches the connection, and the
  count says that all three bytes did.
\<close>

theorem full_socket_loses_part:
  "map_option (\<lambda>(r, n, wait, w). (r, wait, map_option (\<lambda>(r, n, wait, w). (r, wait, stream 9 (trace w))) (desync 1 50 n w)))
     (desync 1 50 3 (tunnel DESYNC_SPLIT full_once)) = Some (0, False, Some (3, False, [66, 67]))"
  by code_simp

text \<open>
  A part sent in disorder, without a number of repetitions, goes into the connection twice:
  the segment with the low TTL is part of the stream, TCP repeats it, and the position does not move past
  it. The request ABC arrives as AABC.
\<close>

theorem disorder_repeats_bytes:
  "map_option (\<lambda>(r, n, wait, w). (r, wait, stream 9 (trace w))) (desync 1 50 3 (tunnel DESYNC_DISORDER calm)) =
     Some (3, False, [65, 65, 66, 67])"
  by code_simp

section \<open>UDP\<close>

text \<open>A kernel that grants socket options and sends.\<close>

definition willing :: "kernel \<Rightarrow> bool" where
  "willing k \<longleftrightarrow> (\<forall>tr fd bs. 0 \<le> a_ret (k tr (Send fd bs))) \<and> (\<forall>tr fd opt x. a_ret (k tr (Setsockopt fd opt x)) = 0)"

definition calls :: "proc \<Rightarrow> proc \<Rightarrow> syscall list" where
  "calls w w' = map fst (drop (length (trace w)) (trace w'))"

text \<open>One process follows another: the trace grew, the kernel and the parameters are the same.\<close>

definition extends :: "proc \<Rightarrow> syscall list \<Rightarrow> proc \<Rightarrow> bool" where
  "extends w cs w' \<longleftrightarrow> (\<exists>tr. trace w' = trace w @ tr \<and> map fst tr = cs) \<and> kernel w' = kernel w \<and> params w' = params w"

lemma extends_calls: "extends w cs w' \<Longrightarrow> calls w w' = cs"
  by (auto simp: extends_def calls_def)

lemma extends_trans: "extends w cs w1 \<Longrightarrow> extends w1 ds w2 \<Longrightarrow> extends w (cs @ ds) w2"
  by (auto simp: extends_def)

lemma extends_refl: "extends w [] w"
  by (simp add: extends_def)

text \<open>The answer to the last call, and what the steps of a datagram do for any kernel.\<close>

definition last_ret :: "proc \<Rightarrow> int" where
  "last_ret w = a_ret (snd (last (trace w)))"

lemma send_step:
  "\<exists>w'. send fd bs w = (last_ret w', w') \<and> extends w [Send fd bs] w' \<and> (willing (kernel w) \<longrightarrow> 0 \<le> last_ret w')"
  by (simp add: willing_def send_def call_def sys_def Let_def extends_def last_ret_def)

lemma setttl_step:
  "\<exists>r w'. setttl fd t w = (r, w') \<and> extends w [Setsockopt fd IPV6_UNICAST_HOPS [t], Setsockopt fd IP_TTL [t]] w' \<and>
     (r < 0 \<longrightarrow> last_ret w' \<noteq> 0) \<and> (willing (kernel w) \<longrightarrow> r = 0)"
  by (simp add: willing_def setttl_def setsockopt_def call_def sys_def Let_def extends_def last_ret_def)

lemma fakes_step:
  "\<exists>ok w' j. send_fakes k fd bs w = (ok, w') \<and> extends w (replicate j (Send fd bs)) w' \<and>
     (if ok then j = k else j \<le> k \<and> last_ret w' \<noteq> 0) \<and> (willing (kernel w) \<longrightarrow> ok)"
proof (induction k arbitrary: w)
  case 0
  then show ?case by (intro exI [of _ True] exI [of _ w] exI [of _ 0]) (simp add: extends_refl)
next
  case (Suc k)
  obtain w1 where s: "send fd bs w = (last_ret w1, w1)" "extends w [Send fd bs] w1" "willing (kernel w) \<longrightarrow> 0 \<le> last_ret w1"
    using send_step by blast
  show ?case
  proof (cases "last_ret w1 < 0")
    case True
    then have "extends w (replicate 1 (Send fd bs)) w1" "\<not> willing (kernel w)" using s by auto
    then show ?thesis using s(1) True by (intro exI [of _ False] exI [of _ w1] exI [of _ 1]) simp
  next
    case False
    obtain ok w2 j where f: "send_fakes k fd bs w1 = (ok, w2)" "extends w1 (replicate j (Send fd bs)) w2"
      "if ok then j = k else j \<le> k \<and> last_ret w2 \<noteq> 0" "willing (kernel w1) \<longrightarrow> ok" using Suc.IH by blast
    have "extends w (replicate (Suc j) (Send fd bs)) w2" using extends_trans [OF s(2) f(2)] by simp
    moreover have "willing (kernel w) \<longrightarrow> ok" using f(4) s(2) by (simp add: extends_def)
    ultimately show ?thesis using s(1) False f(1,3)
      by (intro exI [of _ ok] exI [of _ w2] exI [of _ "Suc j"]) (simp split: if_splits)
  qed
qed

definition udp_plan :: "int \<Rightarrow> mem \<Rightarrow> desync_params \<Rightarrow> mem \<Rightarrow> int \<Rightarrow> syscall list" where
  "udp_plan fd bs g fake def_ttl =
     (let t = (if d_ttl g \<noteq> 0 then d_ttl g else DEFAULT_TTL) in
      [Setsockopt fd IPV6_UNICAST_HOPS [t], Setsockopt fd IP_TTL [t]] @ replicate (nat (d_udp_fake_count g)) (Send fd fake) @
      [Setsockopt fd IPV6_UNICAST_HOPS [def_ttl], Setsockopt fd IP_TTL [def_ttl], Send fd bs])"

lemma desync_udp_ok:
  assumes "d_udp_fake_count g \<noteq> 0" and "udp_fake_data g = Some fake"
  shows "\<exists>r w'. desync_udp fd bs g w = Some (r, w') \<and>
     (calls w w' = udp_plan fd bs g fake (p_def_ttl (params w)) \<and> r = last_ret w' \<or>
      (\<exists>rest. rest \<noteq> [] \<and> udp_plan fd bs g fake (p_def_ttl (params w)) = calls w w' @ rest \<and> r = - 1 \<and> last_ret w' \<noteq> 0)) \<and>
     (willing (kernel w) \<longrightarrow> calls w w' = udp_plan fd bs g fake (p_def_ttl (params w)) \<and> 0 \<le> r)"
proof -
  define t where "t = (if d_ttl g \<noteq> 0 then d_ttl g else DEFAULT_TTL)"
  define d where "d = p_def_ttl (params w)"
  define n where "n = nat (d_udp_fake_count g)"
  let ?set = "[Setsockopt fd IPV6_UNICAST_HOPS [t], Setsockopt fd IP_TTL [t]]"
    and ?reset = "[Setsockopt fd IPV6_UNICAST_HOPS [d], Setsockopt fd IP_TTL [d]]"
  have plan: "udp_plan fd bs g fake (p_def_ttl (params w)) = ?set @ replicate n (Send fd fake) @ ?reset @ [Send fd bs]"
    by (simp add: udp_plan_def t_def n_def d_def Let_def)
  obtain r1 w1 where 1: "setttl fd t w = (r1, w1)" "extends w ?set w1" "r1 < 0 \<longrightarrow> last_ret w1 \<noteq> 0" "willing (kernel w) \<longrightarrow> r1 = 0"
    using setttl_step by blast
  obtain ok w2 j where 2: "send_fakes n fd fake w1 = (ok, w2)" "extends w1 (replicate j (Send fd fake)) w2"
    "if ok then j = n else j \<le> n \<and> last_ret w2 \<noteq> 0" "willing (kernel w1) \<longrightarrow> ok" using fakes_step by blast
  obtain r3 w3 where 3: "setttl fd d w2 = (r3, w3)" "extends w2 ?reset w3" "r3 < 0 \<longrightarrow> last_ret w3 \<noteq> 0" "willing (kernel w2) \<longrightarrow> r3 = 0"
    using setttl_step by blast
  obtain w4 where 4: "send fd bs w3 = (last_ret w4, w4)" "extends w3 [Send fd bs] w4" "willing (kernel w3) \<longrightarrow> 0 \<le> last_ret w4"
    using send_step by blast
  have k: "kernel w1 = kernel w" "kernel w2 = kernel w" "kernel w3 = kernel w" "params w2 = params w"
    using 1(2) 2(2) 3(2) by (simp_all add: extends_def)
  have run: "desync_udp fd bs g w = Some (if r1 < 0 then (- 1, w1) else if \<not> ok then (- 1, w2) else if r3 < 0 then (- 1, w3)
      else (last_ret w4, w4))"
    using assms 1(1) 2(1) 3(1) 4(1) k(4) by (simp add: desync_udp_def t_def [symmetric] d_def n_def Let_def)
  note c2 = extends_trans [OF 1(2) 2(2)]
  note c3 = extends_trans [OF c2 3(2)]
  note c4 = extends_trans [OF c3 4(2)]
  note calls = 1(2) [THEN extends_calls] c2 [THEN extends_calls] c3 [THEN extends_calls] c4 [THEN extends_calls]
  consider "r1 < 0" | "\<not> r1 < 0" "\<not> ok" | "\<not> r1 < 0" ok "r3 < 0" | "\<not> r1 < 0" ok "\<not> r3 < 0" by blast
  then show ?thesis
  proof cases
    case 1
    then show ?thesis using run calls(1) \<open>r1 < 0 \<longrightarrow> last_ret w1 \<noteq> 0\<close> \<open>willing (kernel w) \<longrightarrow> r1 = 0\<close>
      by (intro exI [of _ "- 1"] exI [of _ w1]) (auto simp: plan)
  next
    case 2
    then have j: "j \<le> n" "last_ret w2 \<noteq> 0" and unwilling: "\<not> willing (kernel w)" using \<open>if ok then _ else _\<close> \<open>_ \<longrightarrow> ok\<close> k(1) by auto
    have "replicate n (Send fd fake) = replicate j (Send fd fake) @ replicate (n - j) (Send fd fake)"
      using j(1) by (simp flip: replicate_add)
    then have "udp_plan fd bs g fake (p_def_ttl (params w)) = calls w w2 @ replicate (n - j) (Send fd fake) @ ?reset @ [Send fd bs]"
      unfolding calls(2) plan by simp
    then show ?thesis using run 2 j(2) unwilling
      by (intro exI [of _ "- 1"] exI [of _ w2] conjI disjI2 exI [of _ "replicate (n - j) (Send fd fake) @ ?reset @ [Send fd bs]"]) simp_all
  next
    case 3
    then have j: "j = n" using \<open>if ok then _ else _\<close> by simp
    then have "udp_plan fd bs g fake (p_def_ttl (params w)) = calls w w3 @ [Send fd bs]" unfolding calls(3) plan by simp
    then show ?thesis using run 3 \<open>r3 < 0 \<longrightarrow> last_ret w3 \<noteq> 0\<close> \<open>willing (kernel w2) \<longrightarrow> r3 = 0\<close> k(2)
      by (intro exI [of _ "- 1"] exI [of _ w3] conjI disjI2 exI [of _ "[Send fd bs]"]) simp_all
  next
    case 4
    then have "j = n" using \<open>if ok then _ else _\<close> by simp
    then have "calls w w4 = udp_plan fd bs g fake (p_def_ttl (params w))" unfolding calls(4) plan by simp
    then show ?thesis using run 4 \<open>willing (kernel w3) \<longrightarrow> 0 \<le> last_ret w4\<close> k(3)
      by (intro exI [of _ "last_ret w4"] exI [of _ w4]) simp
  qed
qed



end
