(* ===== verification/Address_Props.thy ===== *)
theory Address_Props
  imports Address Desync_Props
begin

text \<open>
  The SOCKS 5 addresses of proxy.c: what is written is read back, a request that was cut off
  anywhere is refused, and the one kind of request that is not refused as it should be.
\<close>

text \<open>An address as the program keeps it: four and sixteen bytes and a port of two.\<close>

definition addr_ok :: "sockaddr_u \<Rightarrow> bool" where
  "addr_ok a \<longleftrightarrow> length (sin_addr a) = 4 \<and> length (sin6_addr a) = 16 \<and> sin_port a < 65536"

lemma le16_bytes_le16: "x < 65536 \<Longrightarrow> le16 (of_nat x) (of_nat (x div 256)) = x"
  by (simp add: le16_def unat_of_nat take_bit_eq_mod)

text \<open>The bytes of an address behind the three bytes of the head, for a reply or a datagram.\<close>

definition enc_addr :: "sockaddr_u \<Rightarrow> mem" where
  "enc_addr a = (if sa_family a = AF_INET then S_ATP_I4 # sin_addr a else S_ATP_I6 # sin6_addr a) @ le16_bytes (sin_port a)"

definition enc_size :: "sockaddr_u \<Rightarrow> nat" where
  "enc_size a = (if sa_family a = AF_INET then 10 else 22)"

lemma length_enc_addr: "addr_ok a \<Longrightarrow> length (enc_addr a) + 3 = enc_size a"
  by (simp add: enc_addr_def enc_size_def addr_ok_def le16_bytes_def)

lemma put_bytes_at:
  "i = int (length a) \<Longrightarrow> length b = length d \<Longrightarrow> put_bytes (a @ b @ c) i d = Some (a @ d @ c)"
  by (simp add: put_bytes_def memcpy_at)

lemma split_five:
  assumes "i + j + k + l \<le> length m"
  obtains a x y z c where "m = a @ x @ y @ z @ c" and "length a = i" and "length x = j" and "length y = k" and "length z = l"
proof
  show "m = take i m @ take j (drop i m) @ take k (drop (i + j) m) @ take l (drop (i + j + k) m) @ drop (i + j + k + l) m"
    by (metis add.assoc add.commute append_take_drop_id drop_drop)
qed (use assms in simp_all)

lemma put_three:
  assumes "length a = r + 3" and "length x0 = length x" and "length y0 = length y" and "length z0 = length z"
    and "p = int r + 3 + int (length x)" and "q = int r + 3 + int (length x) + int (length y)"
  shows "do { m \<leftarrow> put_bytes (a @ x0 @ y0 @ z0 @ c) (int r + 3) x; m \<leftarrow> put_bytes m p y; put_bytes m q z } =
    Some (a @ x @ y @ z @ c)"
proof -
  have "put_bytes (a @ x0 @ y0 @ z0 @ c) (int r + 3) x = Some (a @ x @ y0 @ z0 @ c)"
    using put_bytes_at [of "int r + 3" a x0 x "y0 @ z0 @ c"] assms by simp
  moreover have "put_bytes (a @ x @ y0 @ z0 @ c) p y = Some (a @ x @ y @ z0 @ c)"
    using put_bytes_at [of p "a @ x" y0 y "z0 @ c"] assms by simp
  moreover have "put_bytes (a @ x @ y @ z0 @ c) q z = Some (a @ x @ y @ z @ c)"
    using put_bytes_at [of q "a @ x @ y" z0 z c] assms by simp
  ultimately show ?thesis by simp
qed

lemma s5_set_addr_ok:
  assumes "addr_ok a" and "r + enc_size a \<le> length m" and "int (enc_size a) \<le> n"
    and "p = (if at_end then int r + int (enc_size a) else int r)"
  shows "s5_set_addr m p n a at_end = Some (take (r + 3) m @ enc_addr a @ drop (r + enc_size a) m, int (enc_size a))"
proof (cases "sa_family a = AF_INET")
  case True
  have "r + 3 + 1 + 4 + 2 \<le> length m" using assms(2) True by (simp add: enc_size_def)
  then obtain h x y z c where m: "m = h @ x @ y @ z @ c" "length h = r + 3" "length x = 1" "length y = 4" "length z = 2"
    by (rule split_five)
  have "(if at_end then p - S_SIZE_I4 else p) = int r" using assms(4) True by (simp add: enc_size_def S_SIZE_I4_def)
  moreover have "do { m \<leftarrow> put_bytes m (int r + 3) [S_ATP_I4]; m \<leftarrow> put_bytes m (int r + 4) (sin_addr a);
      put_bytes m (int r + 8) (le16_bytes (sin_port a)) } = Some (h @ [S_ATP_I4] @ sin_addr a @ le16_bytes (sin_port a) @ c)"
    unfolding m(1) by (rule put_three) (use m assms(1) in \<open>simp_all add: addr_ok_def le16_bytes_def\<close>)
  moreover have "h @ [S_ATP_I4] @ sin_addr a @ le16_bytes (sin_port a) @ c = take (r + 3) m @ enc_addr a @ drop (r + enc_size a) m"
    using m True by (simp add: enc_addr_def enc_size_def)
  ultimately show ?thesis
    using True assms(3) by (auto simp: s5_set_addr_def enc_size_def S_SIZE_I4_def Let_def bind_eq_Some_conv)
next
  case False
  have "r + 3 + 1 + 16 + 2 \<le> length m" using assms(2) False by (simp add: enc_size_def)
  then obtain h x y z c where m: "m = h @ x @ y @ z @ c" "length h = r + 3" "length x = 1" "length y = 16" "length z = 2"
    by (rule split_five)
  have "(if at_end then p - S_SIZE_I6 else p) = int r" using assms(4) False by (simp add: enc_size_def S_SIZE_I6_def)
  moreover have "do { m \<leftarrow> put_bytes m (int r + 3) [S_ATP_I6]; m \<leftarrow> put_bytes m (int r + 4) (sin6_addr a);
      put_bytes m (int r + 20) (le16_bytes (sin_port a)) } = Some (h @ [S_ATP_I6] @ sin6_addr a @ le16_bytes (sin_port a) @ c)"
    unfolding m(1) by (rule put_three) (use m assms(1) in \<open>simp_all add: addr_ok_def le16_bytes_def\<close>)
  moreover have "h @ [S_ATP_I6] @ sin6_addr a @ le16_bytes (sin_port a) @ c = take (r + 3) m @ enc_addr a @ drop (r + enc_size a) m"
    using m False by (simp add: enc_addr_def enc_size_def)
  ultimately show ?thesis
    using False assms(3) by (auto simp: s5_set_addr_def enc_size_def S_SIZE_I6_def S_SIZE_I4_def Let_def bind_eq_Some_conv)
qed

section \<open>Reading\<close>

lemma ldz_at: "p = int (length a) \<Longrightarrow> ldz (a @ x # c) p = Some x"
  by (simp add: ld_def)

lemma get_bytes_at: "p = int (length a) \<Longrightarrow> n = length b \<Longrightarrow> get_bytes (a @ b @ c) p n = Some b"
  by (simp add: get_bytes_def slice_def)

lemma s5_get_addr_enc:
  assumes "addr_ok a" and "length h = r + 3" and "sa_family a = AF_INET \<or> sa_family a = AF_INET6 \<and> p_ipv6 (params w)"
    and "int (enc_size a) \<le> n"
  shows "\<exists>c. s5_get_addr (h @ enc_addr a @ t) (int r) n b type w = Some (int (enc_size a), c, w) \<and>
      sa_family c = sa_family a \<and> sin_port c = sin_port a \<and>
      (if sa_family a = AF_INET then sin_addr c = sin_addr a else sin6_addr c = sin6_addr a)"
proof (cases "sa_family a = AF_INET")
  case True
  let ?m = "h @ S_ATP_I4 # sin_addr a @ le16_bytes (sin_port a) @ t"
  have "ldz ?m (int r + 3) = Some S_ATP_I4" by (rule ldz_at) (use assms(2) in simp)
  moreover have "get_bytes ?m (int r + 4) 4 = Some (sin_addr a)"
    using get_bytes_at [of "int r + 4" "h @ [S_ATP_I4]" 4 "sin_addr a"] assms(1,2) by (simp add: addr_ok_def)
  moreover have "ldz ?m (8 + int r) = Some (of_nat (sin_port a))" "ldz ?m (9 + int r) = Some (of_nat (sin_port a div 256))"
    using ldz_at [of "8 + int r" "h @ S_ATP_I4 # sin_addr a"] ldz_at [of "9 + int r" "h @ S_ATP_I4 # sin_addr a @ [of_nat (sin_port a)]"]
      assms(1,2) by (simp_all add: addr_ok_def le16_bytes_def)
  moreover have "S_ATP_I4 \<noteq> S_ATP_ID" by (simp add: S_ATP_I4_def S_ATP_ID_def)
  ultimately have "s5_get_addr ?m (int r) n b type w =
      Some (10, b\<lparr>sa_family := AF_INET, sin_addr := sin_addr a, sin_port := sin_port a\<rparr>, w)"
    using assms(1,4) True le16_bytes_le16 [of "sin_port a"]
    by (simp add: s5_get_addr_def s5_size_def S_SIZE_MIN_def S_SIZE_I4_def enc_size_def addr_ok_def Let_def)
  then show ?thesis using True by (simp add: enc_addr_def enc_size_def)
next
  case False
  let ?m = "h @ S_ATP_I6 # sin6_addr a @ le16_bytes (sin_port a) @ t"
  have "ldz ?m (int r + 3) = Some S_ATP_I6" by (rule ldz_at) (use assms(2) in simp)
  moreover have "get_bytes ?m (int r + 4) 16 = Some (sin6_addr a)"
    using get_bytes_at [of "int r + 4" "h @ [S_ATP_I6]" 16 "sin6_addr a"] assms(1,2) by (simp add: addr_ok_def)
  moreover have "ldz ?m (20 + int r) = Some (of_nat (sin_port a))" "ldz ?m (21 + int r) = Some (of_nat (sin_port a div 256))"
    using ldz_at [of "20 + int r" "h @ S_ATP_I6 # sin6_addr a"] ldz_at [of "21 + int r" "h @ S_ATP_I6 # sin6_addr a @ [of_nat (sin_port a)]"]
      assms(1,2) by (simp_all add: addr_ok_def le16_bytes_def)
  moreover have "S_ATP_I6 \<noteq> S_ATP_ID" "S_ATP_I6 \<noteq> S_ATP_I4" by (simp_all add: S_ATP_I4_def S_ATP_I6_def S_ATP_ID_def)
  ultimately have "s5_get_addr ?m (int r) n b type w =
      Some (22, b\<lparr>sa_family := AF_INET6, sin6_addr := sin6_addr a, sin_port := sin_port a\<rparr>, w)"
    using assms(1,3,4) False le16_bytes_le16 [of "sin_port a"]
    by (simp add: s5_get_addr_def s5_size_def S_SIZE_MIN_def S_SIZE_I6_def enc_size_def addr_ok_def Let_def)
  then show ?thesis using False assms(3) by (auto simp: enc_addr_def enc_size_def)
qed


text \<open>
  C22: what \<open>s5_set_addr\<close> writes, in front of a datagram or at its end, \<open>s5_get_addr\<close> reads back:
  the same family, the same address and the same port, of the size that was written, whatever the
  rest of the buffer holds (an IPv6 address with IPv6 enabled); and only the bytes of the request are written.
\<close>

theorem s5_addr_roundtrip:
  assumes "addr_ok a" and "r + enc_size a \<le> length m" and "int (enc_size a) \<le> n"
    and "p = (if at_end then int r + int (enc_size a) else int r)"
    and "sa_family a = AF_INET \<or> sa_family a = AF_INET6 \<and> p_ipv6 (params w)"
  shows "\<exists>m' c. s5_set_addr m p n a at_end = Some (m', int (enc_size a)) \<and>
      s5_get_addr m' (int r) n b type w = Some (int (enc_size a), c, w) \<and>
      sa_family c = sa_family a \<and> sin_port c = sin_port a \<and>
      (if sa_family a = AF_INET then sin_addr c = sin_addr a else sin6_addr c = sin6_addr a) \<and>
      take (r + 3) m' = take (r + 3) m \<and> drop (r + enc_size a) m' = drop (r + enc_size a) m"
proof -
  let ?m' = "take (r + 3) m @ enc_addr a @ drop (r + enc_size a) m"
  have "10 \<le> enc_size a" by (simp add: enc_size_def)
  with assms(2) have l: "length (take (r + 3) m) = r + 3" by simp
  have "drop (r + enc_size a) ?m' = drop (r + enc_size a) m"
    using length_enc_addr [OF assms(1)] l by simp
  moreover have "take (r + 3) ?m' = take (r + 3) m" using l by simp
  ultimately show ?thesis
    using s5_set_addr_ok [OF assms(1-4)] s5_get_addr_enc [OF assms(1) l assms(5,3)] by blast
qed

definition some_v4 :: sockaddr_u where
  "some_v4 = zero_addr\<lparr>sa_family := AF_INET, sin_addr := [10, 0, 0, 1], sin_port := htons 443\<rparr>"

lemma s5_addr_roundtrip_witness:
  "\<exists>m' c. s5_set_addr (replicate 30 7) 22 100 some_v4 True = Some (m', int (enc_size some_v4)) \<and>
      s5_get_addr m' (int 12) 100 zero_addr SOCK_DGRAM (fresh calm) = Some (int (enc_size some_v4), c, fresh calm) \<and>
      sa_family c = sa_family some_v4 \<and> sin_port c = sin_port some_v4 \<and>
      (if sa_family some_v4 = AF_INET then sin_addr c = sin_addr some_v4 else sin6_addr c = sin6_addr some_v4) \<and>
      take (12 + 3) m' = take (12 + 3) (replicate 30 7) \<and>
      drop (12 + enc_size some_v4) m' = drop (12 + enc_size some_v4) (replicate 30 7)"
proof (rule s5_addr_roundtrip)
  show "addr_ok some_v4" by (simp add: addr_ok_def some_v4_def zero_addr_def htons_def)
  have "enc_size some_v4 = 10" by (simp add: enc_size_def some_v4_def)
  then show "12 + enc_size some_v4 \<le> length (replicate 30 (7::byte))" "int (enc_size some_v4) \<le> 100"
    "22 = (if True then int 12 + int (enc_size some_v4) else int 12)" by simp_all
  show "sa_family some_v4 = AF_INET \<or> sa_family some_v4 = AF_INET6 \<and> p_ipv6 (params (fresh calm))"
    by (simp add: some_v4_def)
qed

section \<open>Requests that are cut off\<close>

text \<open>The sizes of the three kinds of request.\<close>

definition known_atp :: "byte \<Rightarrow> bool" where
  "known_atp t \<longleftrightarrow> t \<in> {S_ATP_I4, S_ATP_ID, S_ATP_I6}"

definition request_size :: "mem \<Rightarrow> int" where
  "request_size m = s5_size (m ! 3) (m ! 4)"

lemma ldz_nth: "n < length m \<Longrightarrow> ldz m (int n) = Some (m ! n)"
  by (simp add: ld_def)

lemma get_bytes_take: "i + k \<le> n \<Longrightarrow> n \<le> length m \<Longrightarrow> get_bytes (take n m) (int i) k = get_bytes m (int i) k"
  by (simp add: get_bytes_def slice_def drop_take min_def)

lemma get_bytes_some: "i + k \<le> length m \<Longrightarrow> \<exists>b. get_bytes m (int i) k = Some b"
  by (simp add: get_bytes_def slice_def)


lemma resolve_take: "p + nat len \<le> n \<Longrightarrow> n \<le> length m \<Longrightarrow> resolve (take n m) p len a type w = resolve m p len a type w"
  by (simp add: resolve_def slice_def drop_take min_def)

lemma resolve_answers:
  assumes "p + nat len \<le> length m"
  shows "\<exists>r c v. resolve m p len a type w = Some (r, c, v)"
proof -
  have "slice m p (nat len) = Some (take (nat len) (drop p m))" using assms by (simp add: slice_def)
  then show ?thesis by (simp add: resolve_def split: prod.split)
qed

lemma s5_get_addr_short:
  assumes "n \<le> length m" and "8 \<le> n \<longrightarrow> known_atp (m ! 3) \<and> int n < request_size m"
  shows "s5_get_addr m 0 (int n) b type w = Some (- S_ER_GEN, b, w)"
proof (cases "n < 8")
  case False
  then have "ldz m 3 = Some (m ! 3)" "ldz m 4 = Some (m ! 4)" using assms ldz_nth [of 3 m] ldz_nth [of 4 m] by simp_all
  then show ?thesis using False assms by (auto simp: s5_get_addr_def request_size_def s5_size_def S_SIZE_MIN_def Let_def)
qed (simp add: s5_get_addr_def S_SIZE_MIN_def)


text \<open>The address of a request whose bytes are all there, without the port.\<close>

definition fit_addr :: "mem \<Rightarrow> sockaddr_u \<Rightarrow> nat \<Rightarrow> proc \<Rightarrow> (int \<times> sockaddr_u \<times> proc) option" where
  "fit_addr m b type w =
     (if m ! 3 = S_ATP_I4 then do { ip \<leftarrow> get_bytes m 4 4; Some (0, b\<lparr>sa_family := AF_INET, sin_addr := ip\<rparr>, w) }
      else if m ! 3 = S_ATP_ID
      then
        (if \<not> p_resolve (params w) then Some (- S_ER_ATP, b, w)
         else if unat (m ! 4) < 3 then Some (- S_ER_HOST, b, w)
         else do {
           (r, b, w) \<leftarrow> resolve m 5 (int (unat (m ! 4))) b type w;
           Some (if r \<noteq> 0 then - S_ER_HOST else 0, b, w) })
      else
        (if \<not> p_ipv6 (params w) then Some (- S_ER_ATP, b, w)
         else do { ip \<leftarrow> get_bytes m 4 16; Some (0, b\<lparr>sa_family := AF_INET6, sin6_addr := ip\<rparr>, w) }))"

lemma s5_get_addr_fits:
  assumes "n \<le> length m" and "8 \<le> n" and "known_atp (m ! 3)" and "request_size m \<le> int n"
  shows "s5_get_addr m 0 (int n) b type w = do {
      (err, c, v) \<leftarrow> fit_addr m b type w;
      if err \<noteq> 0 then Some (err, c, v)
      else Some (request_size m,
             c\<lparr>sin_port := le16 (m ! nat (request_size m - 2)) (m ! nat (request_size m - 1))\<rparr>, v) }"
proof -
  let ?k = "request_size m"
  have l: "ldz m 3 = Some (m ! 3)" "ldz m 4 = Some (m ! 4)" using assms ldz_nth [of 3 m] ldz_nth [of 4 m] by simp_all
  have "?k \<ge> 7" using assms(3) by (auto simp: request_size_def s5_size_def known_atp_def S_SIZE_I4_def S_SIZE_ID_def S_SIZE_I6_def)
  then have q: "ldz m (?k - 2) = Some (m ! nat (?k - 2))" "ldz m (?k - 1) = Some (m ! nat (?k - 1))"
    using assms(1,4) by (simp_all add: ldz_def ld_def nat_less_iff)
  have k: "s5_size (m ! 3) (if m ! 3 = S_ATP_ID then m ! 4 else 0) = ?k"
    by (simp add: request_size_def s5_size_def S_ATP_I4_def S_ATP_ID_def S_ATP_I6_def)
  have "m ! 3 = S_ATP_I4 \<or> m ! 3 = S_ATP_ID \<or> m ! 3 = S_ATP_I6" using assms(3) by (simp add: known_atp_def)
  moreover have a: "S_ATP_I4 \<noteq> S_ATP_ID" "S_ATP_I6 \<noteq> S_ATP_ID" "S_ATP_I6 \<noteq> S_ATP_I4"
    by (simp_all add: S_ATP_I4_def S_ATP_ID_def S_ATP_I6_def)
  moreover have e: "S_ER_ATP \<noteq> 0" "S_ER_HOST \<noteq> 0" by (simp_all add: S_ER_ATP_def S_ER_HOST_def)
  ultimately consider "m ! 3 = S_ATP_I4" | "m ! 3 = S_ATP_ID" | "m ! 3 = S_ATP_I6" by blast
  then show ?thesis
  proof cases
    case 1
    then show ?thesis using assms(2,4) l k q a
      by (cases "get_bytes m 4 4") (simp_all add: s5_get_addr_def fit_addr_def S_SIZE_MIN_def Let_def split_def)
  next
    case 2
    then show ?thesis using assms(2,4) l k q a e
      by (cases "resolve m 5 (int (unat (m ! 4))) b type w")
        (simp_all add: s5_get_addr_def fit_addr_def S_SIZE_MIN_def Let_def split_def)
  next
    case 3
    then show ?thesis using assms(2,4) l k q a e
      by (cases "get_bytes m 4 16") (simp_all add: s5_get_addr_def fit_addr_def S_SIZE_MIN_def Let_def split_def)
  qed
qed

lemma id_fits:
  assumes "m ! 3 = S_ATP_ID" and "request_size m \<le> int n"
  shows "5 + unat (m ! 4) \<le> n"
proof -
  have "request_size m = int (unat (m ! 4)) + 7"
    using assms(1) by (simp add: request_size_def s5_size_def S_ATP_I4_def S_ATP_ID_def S_SIZE_ID_def)
  then show ?thesis using assms(2) by linarith
qed


lemma fit_addr_answers:
  assumes "n \<le> length m" and "8 \<le> n" and "known_atp (m ! 3)" and "request_size m \<le> int n"
  shows "\<exists>r c v. fit_addr m b type w = Some (r, c, v) \<and> r \<le> 0"
proof -
  have "m ! 3 = S_ATP_I6 \<Longrightarrow> \<exists>d. get_bytes m 4 16 = Some d"
    using assms get_bytes_some [of 4 16 m] by (auto simp: request_size_def s5_size_def S_ATP_I4_def S_ATP_ID_def S_ATP_I6_def S_SIZE_I6_def)
  moreover have "\<exists>d. get_bytes m 4 4 = Some d" using assms get_bytes_some [of 4 4 m] by simp
  moreover have "m ! 3 = S_ATP_ID \<Longrightarrow> \<exists>r c v. resolve m 5 (int (unat (m ! 4))) b type w = Some (r, c, v)"
    by (rule resolve_answers)
      (use assms id_fits [of m n] in simp)
  ultimately show ?thesis
    using assms(3) by (auto simp: fit_addr_def known_atp_def S_ER_ATP_def S_ER_HOST_def)
qed

lemma fit_addr_take:
  assumes "n \<le> length m" and "8 \<le> n" and "known_atp (m ! 3)" and "request_size m \<le> int n"
  shows "fit_addr (take n m) b type w = fit_addr m b type w"
proof -
  have "m ! 3 = S_ATP_I6 \<Longrightarrow> get_bytes (take n m) 4 16 = get_bytes m 4 16"
    using assms get_bytes_take [of 4 16 n m] by (auto simp: request_size_def s5_size_def S_ATP_I4_def S_ATP_ID_def S_ATP_I6_def S_SIZE_I6_def)
  moreover have "get_bytes (take n m) 4 4 = get_bytes m 4 4" using assms get_bytes_take [of 4 4 n m] by simp
  moreover have "m ! 3 = S_ATP_ID \<Longrightarrow> resolve (take n m) 5 (int (unat (m ! 4))) b type w = resolve m 5 (int (unat (m ! 4))) b type w"
    by (rule resolve_take)
      (use assms id_fits [of m n] in simp_all)
  ultimately show ?thesis using assms(2,3) by (auto simp: fit_addr_def known_atp_def)
qed


text \<open>
  C23: A SOCKS 5 request with one of the three known address types (IPv4, name, IPv6), or with fewer
  than eight bytes, of which the first \<open>n\<close> have arrived: if it was cut off anywhere (fewer bytes than eight, or than its
  kind and its host's length ask for) it is refused as a general failure, with the address and the process
  left alone; a whole request is answered, with a refusal or with exactly its size; and no byte
  past the \<open>n\<close> that arrived is looked at: what follows them does not matter. (With an unknown type it is not so:
  \<open>unknown_atp_reads_before\<close>.)
\<close>

theorem s5_get_addr_inside:
  assumes "n \<le> length m" and "8 \<le> n \<longrightarrow> known_atp (m ! 3)"
  shows "if 8 \<le> n \<and> request_size m \<le> int n
    then (\<exists>r c v. s5_get_addr m 0 (int n) b type w = Some (r, c, v) \<and> (r < 0 \<or> r = request_size m)) \<and>
         s5_get_addr (take n m) 0 (int n) b type w = s5_get_addr m 0 (int n) b type w
    else s5_get_addr m 0 (int n) b type w = Some (- S_ER_GEN, b, w)"
proof (cases "8 \<le> n \<and> request_size m \<le> int n")
  case True
  then have f: "n \<le> length m" "8 \<le> n" "known_atp (m ! 3)" "request_size m \<le> int n" using assms by simp_all
  have t: "request_size (take n m) = request_size m" "take n m ! 3 = m ! 3" "n \<le> length (take n m)"
    using f by (simp_all add: request_size_def)
  obtain r c v where "fit_addr m b type w = Some (r, c, v)" "r \<le> 0" using fit_addr_answers [OF f] by blast
  moreover have "7 \<le> request_size m"
    using f(3) by (auto simp: request_size_def s5_size_def known_atp_def S_SIZE_I4_def S_SIZE_ID_def S_SIZE_I6_def)
  ultimately show ?thesis
    using True f t s5_get_addr_fits [OF f, of b type w] s5_get_addr_fits [of n "take n m" b type w] fit_addr_take [OF f, of b type w]
    by auto
qed (use assms s5_get_addr_short [of n m b type w] in auto)

lemma s5_get_addr_inside_witness:
  "s5_get_addr [5, 1, 0, 3, 9, 101, 120, 97, 109, 112] 0 (int 10) zero_addr SOCK_STREAM (fresh calm) =
     Some (- S_ER_GEN, zero_addr, fresh calm)"
proof -
  have "known_atp ([5, 1, 0, 3, 9, 101, 120, 97, 109, 112] ! 3)" "request_size [5, 1, 0, 3, 9, 101, 120, 97, 109, 112] = 16"
    by code_simp+
  then show ?thesis
    using s5_get_addr_inside [of 10 "[5, 1, 0, 3, 9, 101, 120, 97, 109, 112]" zero_addr SOCK_STREAM "fresh calm"] by simp
qed

text \<open>
  A request of any other kind is not refused: its size is taken as zero, and the port is
  read from the two bytes before the buffer.
\<close>

theorem unknown_atp_reads_before:
  assumes "n \<le> length m" and "8 \<le> n" and "\<not> known_atp (m ! 3)"
  shows "s5_get_addr m 0 (int n) b type w = None"
proof -
  have "ldz m 3 = Some (m ! 3)" using assms ldz_nth [of 3 m] by simp
  moreover have "ldz m (- 2) = None" by (simp add: ldz_def)
  ultimately show ?thesis using assms(2,3) by (simp add: s5_get_addr_def known_atp_def S_SIZE_MIN_def s5_size_def Let_def)
qed

lemma unknown_atp_reads_before_witness:
  "s5_get_addr [5, 1, 0, 2, 127, 0, 0, 1, 0, 80] 0 (int 10) zero_addr SOCK_STREAM (fresh calm) = None"
  by (rule unknown_atp_reads_before) code_simp+

end
