(* ===== verification/Extend_Props.thy ===== *)
theory Extend_Props
  imports Extend Address_Props
begin

text \<open>
  extend.c: the watch on TLS records does not depend on how the stream was cut, and the
  choice of a group of options is the first that fits.
\<close>

section \<open>TLS records\<close>

text \<open>The size of the record whose header is read, and whether its type is one of TLS.\<close>

definition rec_size :: "mem \<Rightarrow> int" where
  "rec_size h = int (be16 (h ! 3) (h ! 4)) + 5"

definition rec_type_ok :: "mem \<Rightarrow> bool" where
  "rec_type_ok h \<longleftrightarrow> \<not> (h ! 0 < 0x14 \<or> h ! 0 > 0x18)"

lemma header_read:
  assumes "length h = 5"
  shows "\<exists>len. ANTOHS h 3 = Some len \<and> int len + 5 = rec_size h" and "ld h 0 = Some (h ! 0)"
  using assms by (simp_all add: ANTOHS_def ld_def rec_size_def)

lemma tls_header_step:
  assumes "0 \<le> rp" "rp < 5" "length h = 5" "0 \<le> pos" "pos < int (length b)"
  shows "tls_records b n pos rp rs h =
    (let h = h[nat rp := b ! nat pos] in
     if pos + 1 < n then tls_records b n (pos + 1) (rp + 1) rs h else Some (True, rp + 1, rs, h))"
proof -
  have "ldz b pos = Some (b ! nat pos)" using assms by (simp add: ldz_def ld_def nat_less_iff)
  moreover have "stz h rp (b ! nat pos) = Some (h[nat rp := b ! nat pos])" using assms by (simp add: stz_def st_def)
  ultimately show ?thesis using assms by (subst tls_records.simps) (simp add: Let_def)
qed

lemma tls_reset_step: "5 < rp \<Longrightarrow> pos < n \<Longrightarrow> tls_records b n pos rp rp h = tls_records b n pos 0 0 h"
  by (subst tls_records.simps) simp

lemma tls_body_step:
  assumes "5 \<le> rp" "rp = 5 \<or> rp \<noteq> rs" "length h = 5" "pos < n"
  shows "tls_records b n pos rp rs h =
    (let rs = if rp = 5 then rec_size h else rs in
     if rp = 5 \<and> \<not> rec_type_ok h \<or> rs \<le> rp then Some (False, rp, rs, h)
     else if pos + (rs - rp) < n then tls_records b n (pos + (rs - rp)) rs rs h
     else Some (True, min rs (rp + (n - pos)), rs, h))"
proof -
  obtain len where l: "ANTOHS h 3 = Some len" "int len + 5 = rec_size h" using header_read [OF assms(3)] by blast
  have c: "(rp < 5) = False" "(rp \<noteq> 5 \<and> rp = rs) = False" using assms by auto
  define q where "q = (if rp = 5 then rec_size h else rs)"
  have "tls_records b n pos rp rs h = (
     if rp = 5 \<and> \<not> rec_type_ok h then Some (False, rp, q, h)
     else if q - rp \<le> 0 then Some (False, rp, q, h)
     else
       (let k = (if pos + (q - rp) > n then n - pos else q - rp) in
        if k \<le> 0 then Some (True, rp + k, q, h)
        else if pos + k < n then tls_records b n (pos + k) (rp + k) q h
        else Some (True, rp + k, q, h)))"
    by (subst tls_records.simps, unfold c if_False l(1) header_read(2) [OF assms(3)] bind.bind_lunit)
      (simp only: l(2) q_def rec_type_ok_def Let_def not_not)
  also have "\<dots> = (if rp = 5 \<and> \<not> rec_type_ok h \<or> q \<le> rp then Some (False, rp, q, h)
     else if pos + (q - rp) < n then tls_records b n (pos + (q - rp)) q q h
     else Some (True, min q (rp + (n - pos)), q, h))"
    using assms(4) by (auto simp: Let_def min_def)
  finally show ?thesis by (simp only: q_def Let_def)
qed

text \<open>Either the loop has a byte of the header to read, or a record that ended, or bytes to skip.\<close>

lemma tls_induct [consumes 3, case_names hdr reset body]:
  fixes P :: "int \<Rightarrow> int \<Rightarrow> int \<Rightarrow> mem \<Rightarrow> bool"
  assumes "pos < n" and "0 \<le> rp" and "length h = 5"
    and hdr: "\<And>pos rp rs h. pos < n \<Longrightarrow> 0 \<le> rp \<Longrightarrow> rp < 5 \<Longrightarrow> length h = 5 \<Longrightarrow>
      (\<And>h. pos + 1 < n \<Longrightarrow> length h = 5 \<Longrightarrow> P (pos + 1) (rp + 1) rs h) \<Longrightarrow> P pos rp rs h"
    and reset: "\<And>pos rp h. pos < n \<Longrightarrow> 5 < rp \<Longrightarrow> length h = 5 \<Longrightarrow> P pos 0 0 h \<Longrightarrow> P pos rp rp h"
    and body: "\<And>pos rp rs h. pos < n \<Longrightarrow> 5 \<le> rp \<Longrightarrow> rp = 5 \<or> rp \<noteq> rs \<Longrightarrow> length h = 5 \<Longrightarrow>
      (\<And>rs. pos + (rs - rp) < n \<Longrightarrow> rp < rs \<Longrightarrow> P (pos + (rs - rp)) rs rs h) \<Longrightarrow> P pos rp rs h"
  shows "P pos rp rs h"
  using assms(1-3)
proof (induction "nat (n - pos)" arbitrary: pos rp rs h rule: less_induct)
  case less
  have 1: "P pos r q g" if "0 \<le> r" "r < 5" "length g = 5" for r q g
    by (rule hdr) (use less that in auto)
  consider "rp < 5" | "5 < rp" "rp = rs" | "5 \<le> rp" "rp = 5 \<or> rp \<noteq> rs" by linarith
  then show ?case
  proof cases
    case 3
    show ?thesis by (rule body) (use less 3 in auto)
  qed (use 1 less reset in auto)
qed

text \<open>Records of a later part of the stream.\<close>

lemma tls_records_shift:
  assumes "0 \<le> pos" and "pos < n" and "n = int (length y)" and "0 \<le> rp" and "length h = 5"
  shows "tls_records (x @ y) (int (length x) + n) (int (length x) + pos) rp rs h = tls_records y n pos rp rs h"
proof -
  have "0 \<le> pos \<longrightarrow>
    tls_records (x @ y) (int (length x) + n) (int (length x) + pos) rp rs h = tls_records y n pos rp rs h"
    using assms(2,4,5)
  proof (induction pos rp rs h rule: tls_induct)
    case (hdr pos rp rs h)
    then show ?case using assms(3)
      by (auto simp: tls_header_step nth_append Let_def nat_add_distrib add.assoc)
  next
    case (reset pos rp h)
    then show ?case using assms(3) by (simp add: tls_reset_step)
  next
    case (body pos rp rs h)
    then show ?case using assms(3) by (auto simp: tls_body_step Let_def add.assoc)
  qed
  then show ?thesis using assms(1) by simp
qed


text \<open>What is left of a part of the stream is continued with the next part.\<close>

definition then_part :: "mem \<Rightarrow> (bool \<times> int \<times> int \<times> mem) option \<Rightarrow> (bool \<times> int \<times> int \<times> mem) option" where
  "then_part y r = (case r of
      Some (True, rp, rs, h) \<Rightarrow> tls_records y (int (length y)) 0 rp rs h
    | _ \<Rightarrow> r)"

lemma then_part_simps [simp]:
  "then_part y (Some (True, rp, rs, h)) = tls_records y (int (length y)) 0 rp rs h"
  "then_part y (Some (False, rp, rs, h)) = Some (False, rp, rs, h)" "then_part y None = None"
  by (simp_all add: then_part_def)

lemma tls_records_at_next:
  assumes "y \<noteq> []" and "0 \<le> rp" and "length h = 5"
  shows "tls_records (x @ y) (int (length x) + int (length y)) (int (length x)) rp rs h =
    tls_records y (int (length y)) 0 rp rs h"
  using tls_records_shift [of 0 "int (length y)" y rp h x rs] assms by simp

lemma tls_body_split:
  assumes "y \<noteq> []" and "5 \<le> rp" and "rp = 5 \<or> rp \<noteq> rs" and "length h = 5" and "pos < int (length x)" and "0 \<le> pos"
    and next_rec: "\<And>rs. pos + (rs - rp) < int (length x) \<Longrightarrow> rp < rs \<Longrightarrow>
      tls_records (x @ y) (int (length x) + int (length y)) (pos + (rs - rp)) rs rs h =
      then_part y (tls_records x (int (length x)) (pos + (rs - rp)) rs rs h)"
  shows "tls_records (x @ y) (int (length x) + int (length y)) pos rp rs h =
    then_part y (tls_records x (int (length x)) pos rp rs h)"
proof -
  let ?n = "int (length x)" and ?m = "int (length y)"
  define q where "q = (if rp = 5 then rec_size h else rs)"
  have m: "0 < ?m" using assms(1) by simp
  have L: "tls_records (x @ y) (?n + ?m) pos rp rs h =
      (if rp = 5 \<and> \<not> rec_type_ok h \<or> q \<le> rp then Some (False, rp, q, h)
       else if pos + (q - rp) < ?n + ?m then tls_records (x @ y) (?n + ?m) (pos + (q - rp)) q q h
       else Some (True, min q (rp + (?n + ?m - pos)), q, h))"
    using tls_body_step [of rp rs h pos "?n + ?m" "x @ y"] assms m by (simp only: q_def Let_def)
  have R: "tls_records x ?n pos rp rs h =
      (if rp = 5 \<and> \<not> rec_type_ok h \<or> q \<le> rp then Some (False, rp, q, h)
       else if pos + (q - rp) < ?n then tls_records x ?n (pos + (q - rp)) q q h
       else Some (True, min q (rp + (?n - pos)), q, h))"
    using tls_body_step [of rp rs h pos ?n x] assms by (simp only: q_def Let_def)
  consider "rp = 5 \<and> \<not> rec_type_ok h \<or> q \<le> rp" | "rp < q" "\<not> (rp = 5 \<and> \<not> rec_type_ok h)" "pos + (q - rp) < ?n"
    | "rp < q" "\<not> (rp = 5 \<and> \<not> rec_type_ok h)" "pos + (q - rp) = ?n"
    | "rp < q" "\<not> (rp = 5 \<and> \<not> rec_type_ok h)" "?n < pos + (q - rp)" by linarith
  then show ?thesis
  proof cases
    case 1
    then show ?thesis by (simp add: L R)
  next
    case 2
    then show ?thesis using next_rec [of q] m unfolding L R by auto
  next
    case 3
    then have "min q (rp + (?n - pos)) = q" by simp
    then show ?thesis using 3 m assms tls_records_at_next [of y q h x q] unfolding L R by auto
  next
    case 4
    let ?r = "rp + (?n - pos)"
    have r: "min q ?r = ?r" "5 < ?r" "?r \<noteq> q" "?r < q" using 4 assms by simp_all
    have "tls_records y ?m 0 ?r q h =
        (if q - ?r < ?m then tls_records y ?m (q - ?r) q q h else Some (True, min q (?r + ?m), q, h))"
      using tls_body_step [of ?r q h 0 ?m y] r assms m by (simp add: Let_def)
    moreover have "tls_records (x @ y) (?n + ?m) (pos + (q - rp)) q q h = tls_records y ?m (q - ?r) q q h"
      if "q - ?r < ?m"
      using tls_records_shift [of "q - ?r" ?m y q h x q] that r assms by (simp add: algebra_simps)
    ultimately show ?thesis using 4 r unfolding L R by (auto simp: algebra_simps)
  qed
qed

lemma tls_records_append:
  assumes "0 \<le> pos" and "pos < int (length x)" and "y \<noteq> []" and "0 \<le> rp" and "length h = 5"
  shows "tls_records (x @ y) (int (length x) + int (length y)) pos rp rs h =
    then_part y (tls_records x (int (length x)) pos rp rs h)"
proof -
  have m: "0 < int (length y)" using assms(3) by simp
  have "0 \<le> pos \<longrightarrow> tls_records (x @ y) (int (length x) + int (length y)) pos rp rs h =
    then_part y (tls_records x (int (length x)) pos rp rs h)"
    using assms(2,4,5)
  proof (induction pos rp rs h rule: tls_induct)
    case (hdr pos rp rs h)
    show ?case
    proof
      assume p: "0 \<le> pos"
      let ?h = "h[nat rp := x ! nat pos]"
      have "tls_records (x @ y) (int (length x) + int (length y)) (pos + 1) (rp + 1) rs ?h =
          tls_records y (int (length y)) 0 (rp + 1) rs ?h" if "\<not> pos + 1 < int (length x)"
      proof -
        have "pos + 1 = int (length x)" using that hdr by simp
        then show ?thesis using tls_records_at_next [of y "rp + 1" ?h x rs] hdr assms(3) by simp
      qed
      moreover have "pos + 1 < int (length x) + int (length y)"
        using hdr(1) m by linarith
      ultimately show "tls_records (x @ y) (int (length x) + int (length y)) pos rp rs h =
          then_part y (tls_records x (int (length x)) pos rp rs h)"
        using hdr p by (simp add: tls_header_step nth_append nat_less_iff Let_def)
    qed
  next
    case (reset pos rp h)
    then show ?case by (simp add: tls_reset_step)
  next
    case (body pos rp rs h)
    show ?case by (rule impI, rule tls_body_split) (use body assms(3) in auto)
  qed
  then show ?thesis using assms(1) by simp
qed

text \<open>The parts of a stream, one call of the watch for each.\<close>

fun watch :: "mem list \<Rightarrow> (bool \<times> int \<times> int \<times> mem) option \<Rightarrow> (bool \<times> int \<times> int \<times> mem) option" where
  "watch [] r = r"
| "watch (y # ys) r = watch ys (then_part y r)"


text \<open>
  C17: the watch on the records of a TLS stream does not depend on how TCP cut the stream into
  reads: fed with the parts one after another, it ends in the same state, position in the record,
  size and header, and with the same verdict, as when fed with the whole stream at once.
\<close>

theorem tls_watch_any_cut:
  assumes "\<forall>y \<in> set (x # ys). y \<noteq> []" and "0 \<le> rp" and "length h = 5"
  shows "watch (x # ys) (Some (True, rp, rs, h)) = watch [concat (x # ys)] (Some (True, rp, rs, h))"
  using assms(1)
proof (induction ys arbitrary: x)
  case (Cons y ys)
  have "then_part y (then_part x (Some (True, rp, rs, h))) = then_part (x @ y) (Some (True, rp, rs, h))"
    using tls_records_append [of 0 x y rp h rs] Cons.prems assms(2,3) by simp
  then have "watch (x # y # ys) (Some (True, rp, rs, h)) = watch ((x @ y) # ys) (Some (True, rp, rs, h))"
    by simp
  then show ?case using Cons.IH [of "x @ y"] Cons.prems by simp
qed simp

lemma tls_watch_any_cut_witness:
  "watch [[22, 3], [1, 0, 4, 1], [0, 0, 0, 20], [3]] (Some (True, 0, 0, replicate 5 0)) =
     Some (True, 2, 0, [20, 3, 1, 0, 4])"
proof -
  have "watch [concat [[22, 3], [1, 0, 4, 1], [0, 0, 0, 20], [3]]] (Some (True, 0, 0, replicate 5 0)) =
     Some (True, 2, 0, [20, 3, 1, 0, 4])"
    by code_simp
  then show ?thesis
    using tls_watch_any_cut [of "[22, 3]" "[[1, 0, 4, 1], [0, 0, 0, 20], [3]]" 0 "replicate 5 0" 0] by simp
qed

end
