(* ===== verification/Lists.thy ===== *)
theory Lists
  imports Address
begin

text \<open>
  The values of options in byedpi/main.c: escaped strings, lists of host names and of address
  ranges, addresses, positions in a packet. A C string is given with its terminating NUL.
\<close>

section \<open>Escaped strings\<close>

definition esca :: "(byte \<times> byte) list" where
  "esca = [(114, 13), (110, 10), (116, 9), (92, 92), (102, 12), (98, 8), (118, 11), (97, 7)]"

text \<open>
  A number as \<open>sscanf\<close> reads it with a width: white space, a sign, digits of the base.
  The result is the value and the position behind it.
\<close>

fun scan_digits :: "mem \<Rightarrow> nat \<Rightarrow> nat \<Rightarrow> nat \<Rightarrow> nat \<Rightarrow> nat \<times> nat" where
  "scan_digits m base 0 p acc = (acc, p)"
| "scan_digits m base (Suc k) p acc =
     (if has_digit m base p then scan_digits m base k (p + 1) (acc * base + the (digit_value (m ! p))) else (acc, p))"

definition scan_num :: "mem \<Rightarrow> nat \<Rightarrow> nat \<Rightarrow> nat \<Rightarrow> (byte \<times> nat) option option" where
  "scan_num m base width p = do {
     p \<leftarrow> skip_spaces m p;
     c \<leftarrow> ld m p;
     let sign = (c = 43 \<or> c = 45);
     let q = (if sign then p + 1 else p);
     let (v, e) = scan_digits m base (if sign then width - 1 else width) q 0;
     Some (if e = q then None else Some (of_nat (if c = 45 then (256 - v mod 256) else v), e)) }"

text \<open>
  An escape at \<open>p\<close>, behind the backslash: the byte it stands for and the position of its
  last character; the inner \<open>None\<close> when it is none.
\<close>

definition scan_escape :: "mem \<Rightarrow> nat \<Rightarrow> (byte \<times> nat) option option" where
  "scan_escape m p = do {
     c \<leftarrow> ld m p;
     (case map_of esca c of
        Some b \<Rightarrow> Some (Some (b, p))
      | None \<Rightarrow> do {
          x \<leftarrow> (if c = 120 then scan_num m 16 2 (p + 1) else Some None);
          (case x of
             Some (b, e) \<Rightarrow> Some (Some (b, e - 1))
           | None \<Rightarrow> do {
               y \<leftarrow> scan_num m 8 3 p;
               Some (case y of Some (b, e) \<Rightarrow> Some (b, e - 1) | None \<Rightarrow> None) }) }) }"

lemma scan_digits_end: "snd (scan_digits m base k p acc) \<ge> p"
  by (induction m base k p acc rule: scan_digits.induct) auto

lemma skip_spaces_le: "skip_spaces m p = Some q \<Longrightarrow> p \<le> q"
  by (induction m p rule: skip_spaces.induct) (subst (asm) (2) skip_spaces.simps, auto split: if_splits)

lemma scan_num_end:
  assumes "scan_num m base width p = Some (Some (b, e))"
  shows "p < e"
proof -
  from assms obtain q c where q: "skip_spaces m p = Some q" "ld m q = Some c"
    by (auto simp: scan_num_def bind_eq_Some_conv simp del: ld_eq_Some)
  let ?q = "if c = 43 \<or> c = 45 then q + 1 else q"
  let ?r = "scan_digits m base (if c = 43 \<or> c = 45 then width - 1 else width) ?q 0"
  have "e = snd ?r" "snd ?r \<noteq> ?q"
    using assms q by (auto simp: scan_num_def Let_def split: prod.splits if_splits simp del: ld_eq_Some)
  moreover have "?q \<le> snd ?r" by (rule scan_digits_end)
  moreover have "q \<le> ?q" by simp
  ultimately have "q < e" by linarith
  then show ?thesis using skip_spaces_le [OF q(1)] by simp
qed

lemma scan_escape_end: "scan_escape m p = Some (Some (b, e)) \<Longrightarrow> p \<le> e"
  by (auto simp: scan_escape_def bind_eq_Some_conv split: option.splits if_splits dest!: scan_num_end)

function cform_loop :: "mem \<Rightarrow> nat \<Rightarrow> nat \<Rightarrow> nat \<Rightarrow> mem \<Rightarrow> mem option" where
  "cform_loop str slen blen p out =
     (if p < slen \<and> length out < blen
      then do {
        c \<leftarrow> ld str p;
        if c \<noteq> 92 then cform_loop str slen blen (p + 1) (out @ [c])
        else
          (case scan_escape str (p + 1) of
             None \<Rightarrow> None
           | Some None \<Rightarrow> cform_loop str slen blen (p + 1) out
           | Some (Some (b, e)) \<Rightarrow> cform_loop str slen blen (e + 1) (out @ [b])) }
      else Some out)"
  by pat_completeness auto
termination
  by (relation "measure (\<lambda>(str, slen, blen, p, out). slen - p)") (auto dest!: scan_escape_end)

declare cform_loop.simps [simp del]

text \<open>The bytes written to the buffer; the number returned is their length.\<close>

definition parse_cform :: "nat \<Rightarrow> mem \<Rightarrow> nat \<Rightarrow> mem option" where
  "parse_cform blen str slen = cform_loop str slen blen 0 []"

definition strlen :: "mem \<Rightarrow> nat \<Rightarrow> nat option" where
  "strlen m p = map_option (\<lambda>e. e - p) (strchr0 m p)"

definition data_from_str :: "mem \<Rightarrow> nat \<Rightarrow> proc \<Rightarrow> (mem option \<times> proc) option" where
  "data_from_str m p w = do {
     len \<leftarrow> strlen m p;
     if len = 0 then Some (None, w)
     else
       (let (d, w) = alloc len w in
        if d = None then Some (None, w)
        else do {
          out \<leftarrow> parse_cform len (drop p m) len;
          Some (if out = [] then (None, w) else (Some out, w)) }) }"

text \<open>A file is read in one call here; an empty one is an error.\<close>

definition ftob :: "mem \<Rightarrow> proc \<Rightarrow> (mem option \<times> proc) option" where
  "ftob str w = do {
     c \<leftarrow> ld str 0;
     if c = 58 then data_from_str str 1 w
     else
       (let (a, w) = sys (Read_file str) w in
        if a_ret a < 0 \<or> a_data a = [] then Some (None, w)
        else (let (b, w) = alloc (length (a_data a)) w in
              Some (if b = None then (None, w) else (Some (a_data a), w)))) }"

section \<open>Host names\<close>

text \<open>The new character, or \<open>None\<close> for one that no name has.\<close>

definition lower_char :: "byte \<Rightarrow> byte option" where
  "lower_char c =
     (if c < 65 then (if c > 57 \<or> c < 45 then None else Some c)
      else if c < 97 then (if c > 90 then None else Some (c + 32))
      else if c > 122 then None else Some c)"

definition is_sep :: "byte \<Rightarrow> bool" where
  "is_sep c \<longleftrightarrow> c = 32 \<or> c = 10 \<or> c = 13"

text \<open>
  \<open>e\<close> runs over the buffer and one past it, \<open>s\<close> is the start of the current name. The
  names stay in the buffer: the pool points into it.
\<close>

function hosts_loop :: "mphdr \<Rightarrow> mem \<Rightarrow> nat \<Rightarrow> nat \<Rightarrow> nat \<Rightarrow> bool \<Rightarrow> proc \<Rightarrow> (bool \<times> mphdr \<times> mem \<times> proc) option" where
  "hosts_loop hdr buffer n e s bad w =
     (if e > n \<or> n > length buffer then (if n > length buffer then None else Some (True, hdr, buffer, w))
      else if e < n \<and> \<not> is_sep (buffer ! e)
      then
        (case lower_char (buffer ! e) of
           None \<Rightarrow> hosts_loop hdr buffer n (e + 1) s True w
         | Some c \<Rightarrow> hosts_loop hdr (buffer[e := c]) n (e + 1) s bad w)
      else if s = e then hosts_loop hdr buffer n (e + 1) (s + 1) bad w
      else if bad then hosts_loop hdr buffer n (e + 1) (e + 1) False w
      else
        (let (new, w) = alloc 48 w in
         case mem_add (char_signed w) hdr new (drop s buffer) (int e - int s) of
           None \<Rightarrow> None
         | Some (hdr, v, _) \<Rightarrow>
             if v = None then Some (False, hdr, buffer, w)
             else hosts_loop hdr buffer n (e + 1) (e + 1) False w))"
  by pat_completeness auto
termination
  by (relation "measure (\<lambda>(hdr, buffer, n, e, s, bad, w). Suc n - e)") auto

declare hosts_loop.simps [simp del]

definition parse_hosts :: "mphdr \<Rightarrow> mem \<Rightarrow> nat \<Rightarrow> proc \<Rightarrow> (bool \<times> mphdr \<times> mem \<times> proc) option" where
  "parse_hosts hdr buffer n w = hosts_loop hdr buffer n 0 0 False w"

section \<open>Address ranges\<close>

text \<open>
  \<open>parse_ip\<close> gets the whole array \<open>ip\<close>: the separator is searched for in all its bytes,
  also those behind the string. The result: the number of bits, the address, the array.
\<close>

definition c_string :: "mem \<Rightarrow> nat \<Rightarrow> mem option" where
  "c_string m p = do { e \<leftarrow> strchr0 m p; Some (take (e - p) (drop p m)) }"

definition parse_ip :: "mem \<Rightarrow> nat \<Rightarrow> proc \<Rightarrow> (int \<times> mem \<times> mem) option" where
  "parse_ip str n w = do {
     sep \<leftarrow> memchr str 0 47 n;
     (bits, str) \<leftarrow>
       (case sep of
          None \<Rightarrow> Some (Some 0, str)
        | Some q \<Rightarrow> do {
            (v, _) \<leftarrow> strtol10 str (q + 1);
            if v \<le> 0 then Some (None, str)
            else do { str \<leftarrow> st str q 0; Some (Some v, str) } });
     (case bits of
        None \<Rightarrow> Some (0, [], str)
      | Some bits \<Rightarrow> do {
          s \<leftarrow> c_string str 0;
          (case inet_pton (libc w) AF_INET s of
             Some a \<Rightarrow> Some (if bits = 0 \<or> bits > 32 then 32 else bits, a, str)
           | None \<Rightarrow>
               (case inet_pton (libc w) AF_INET6 s of
                  None \<Rightarrow> Some (0, [], str)
                | Some a \<Rightarrow> Some (if bits = 0 \<or> bits > 128 then 128 else bits, a, str))) }) }"

text \<open>The array \<open>ip\<close> of the loop's body keeps what the round before left in it.\<close>

function ipset_loop :: "mphdr \<Rightarrow> mem \<Rightarrow> nat \<Rightarrow> nat \<Rightarrow> nat \<Rightarrow> mem \<Rightarrow> proc \<Rightarrow> (bool \<times> mphdr \<times> proc) option" where
  "ipset_loop hdr buffer n e s ip w =
     (if e > n \<or> n > length buffer then (if n > length buffer then None else Some (True, hdr, w))
      else if e < n \<and> \<not> is_sep (buffer ! e) then ipset_loop hdr buffer n (e + 1) s ip w
      else if s = e then ipset_loop hdr buffer n (e + 1) (s + 1) ip w
      else
        (case memcpy ip 0 (take (min 255 (e - s)) (drop s buffer) @ [0]) of
           None \<Rightarrow> None
         | Some ip \<Rightarrow>
             (case parse_ip ip 256 w of
                None \<Rightarrow> None
              | Some (bits, out, ip) \<Rightarrow>
                  if bits \<le> 0 then ipset_loop hdr buffer n (e + 1) (e + 1) ip w
                  else
                    (let len = nat (bits div 8) + (if bits mod 8 \<noteq> 0 then 1 else 0); (raw, w) = alloc len w in
                     if raw = None then ipset_loop hdr buffer n (e + 1) (e + 1) ip w
                     else
                       (let (new, w) = alloc 48 w in
                        case mem_add (char_signed w) hdr new (take len out) bits of
                          None \<Rightarrow> None
                        | Some (hdr, v, _) \<Rightarrow>
                            if v = None then Some (False, hdr, w)
                            else ipset_loop hdr buffer n (e + 1) (e + 1) ip w)))))"
  by pat_completeness auto
termination
  by (relation "measure (\<lambda>(hdr, buffer, n, e, s, ip, w). Suc n - e)") auto

declare ipset_loop.simps [simp del]

definition parse_ipset :: "mphdr \<Rightarrow> mem \<Rightarrow> nat \<Rightarrow> mem \<Rightarrow> proc \<Rightarrow> (bool \<times> mphdr \<times> proc) option" where
  "parse_ipset hdr buffer n ip w = ipset_loop hdr buffer n 0 0 ip w"

section \<open>Addresses\<close>

text \<open>\<open>strchr\<close> in the string at \<open>p\<close>: the inner \<open>None\<close> is NULL.\<close>

function strchr :: "mem \<Rightarrow> nat \<Rightarrow> byte \<Rightarrow> nat option option" where
  "strchr m p c =
     (if p < length m
      then (if m ! p = c then Some (Some p) else if m ! p = 0 then Some None else strchr m (p + 1) c)
      else None)"
  by pat_completeness auto
termination
  by (relation "measure (\<lambda>(m, p, c). length m - p)") auto

declare strchr.simps [simp del]

text \<open>
  The parts of an address: the start and the end of the host and the port in network order,
  or \<open>None\<close> when the text is none.
\<close>

definition split_addr :: "mem \<Rightarrow> (nat \<times> nat \<times> nat) option option" where
  "split_addr str = do {
     c \<leftarrow> ld str 0;
     br \<leftarrow> (if c = 91 then strchr str 0 93 else Some None);
     if c = 91 \<and> br = None then Some None
     else do {
       let s = (if c = 91 then 1 else 0);
       p \<leftarrow> strchr str (case br of None \<Rightarrow> 0 | Some e \<Rightarrow> e + 1) 58;
       num \<leftarrow> (case p of None \<Rightarrow> Some False | Some p \<Rightarrow> do { d \<leftarrow> ld str (p + 1); Some (isdigit d) });
       (if num
        then do {
          p \<leftarrow> p;
          (v, en) \<leftarrow> strtol0 str (p + 1);
          z \<leftarrow> ld str en;
          if v \<le> 0 \<or> v > 0xffff \<or> z \<noteq> 0 then Some None
          else Some (Some (s, (case br of None \<Rightarrow> p | Some e \<Rightarrow> e), htons (nat v))) }
        else do {
          e \<leftarrow> (case br of Some e \<Rightarrow> Some e | None \<Rightarrow> strchr0 str 0);
          Some (Some (s, e, 0)) }) } }"

definition get_addr :: "mem \<Rightarrow> sockaddr_u \<Rightarrow> proc \<Rightarrow> (int \<times> sockaddr_u \<times> proc) option" where
  "get_addr str addr w = do {
     r \<leftarrow> split_addr str;
     (case r of
        None \<Rightarrow> Some (- 1, addr, w)
      | Some (s, e, port) \<Rightarrow> do {
          (err, addr, w) \<leftarrow>
            (if e = s then Some (False, addr, w)
             else do {
               ip \<leftarrow> slice str s (min 255 (e - s));
               let (a, w) = sys (Getaddrinfo ip AF_UNSPEC SOCK_STREAM True) w;
               let x = a_addr a;
               if a_ret a \<noteq> 0 then Some (True, addr, w)
               else Some (False,
                 (if sa_family x = AF_INET6 then addr\<lparr>sin6_addr := sin6_addr x\<rparr> else addr\<lparr>sin_addr := sin_addr x\<rparr>)
                   \<lparr>sa_family := sa_family x\<rparr>, w) });
          Some (if err then (- 1, addr, w) else (0, if port \<noteq> 0 then addr\<lparr>sin_port := port\<rparr> else addr, w)) }) }"

definition schemes :: "(string \<times> nat) list" where
  "schemes =
     [(''socks4://'', MODE_SOCKS4), (''socks5://'', MODE_SOCKS5), (''socks://'', MODE_SOCKS),
      (''ss://'', MODE_SHADOWSOCKS), (''http://'', MODE_HTTP), (''sni://'', MODE_RAWTLS),
      (''tcp://'', MODE_TCP), (''red://'', MODE_TRANSPARENT)]"

fun find_scheme :: "(string \<times> nat) list \<Rightarrow> mem \<Rightarrow> (nat \<times> nat) option" where
  "find_scheme [] str = Some (0, 0)"
| "find_scheme ((s, mode) # ss) str = do {
     eq \<leftarrow> has_prefix str 0 (bytes_of s);
     if eq then Some (mode, length s) else find_scheme ss str }"

definition get_addr_scheme :: "mem \<Rightarrow> sockaddr_u \<Rightarrow> proc \<Rightarrow> (int \<times> sockaddr_u \<times> proc) option" where
  "get_addr_scheme str addr w = do {
     (mode, k) \<leftarrow> find_scheme schemes str;
     (r, addr, w) \<leftarrow> get_addr (drop k str) addr w;
     Some (if r \<noteq> 0 then - 1 else int mode, addr, w) }"

section \<open>Positions\<close>

text \<open>\<open>while (*end == ':')\<close>: the repetitions and the step; the inner \<open>None\<close> is an error.\<close>

definition parse_count :: "mem \<Rightarrow> nat \<Rightarrow> (int \<times> nat) option option" where
  "parse_count str en = do {
     (rs, e) \<leftarrow> strtol0 str (en + 1);
     Some (if rs < 0 \<or> rs > 0x7fffffff then None else Some (rs, e)) }"

definition parse_repeats :: "mem \<Rightarrow> nat \<Rightarrow> part \<Rightarrow> (part \<times> nat) option option" where
  "parse_repeats str en part = do {
     c \<leftarrow> ld str en;
     if c \<noteq> 58 then Some (Some (part, en))
     else do {
       x \<leftarrow> parse_count str en;
       (case x of
          None \<Rightarrow> Some None
        | Some (rs, e) \<Rightarrow>
            if pt_r part \<noteq> 0 then Some (Some (part\<lparr>pt_s := rs\<rparr>, e))
            else if rs = 0 then Some None
            else do {
              let part = part\<lparr>pt_r := rs\<rparr>;
              c \<leftarrow> ld str e;
              if c \<noteq> 58 then Some (Some (part, e))
              else do {
                y \<leftarrow> parse_count str e;
                Some (case y of None \<Rightarrow> None | Some (rs, e) \<Rightarrow> Some (part\<lparr>pt_s := rs\<rparr>, e)) } }) } }"

definition offset_flag :: "byte \<Rightarrow> nat option" where
  "offset_flag c = (if c = 115 then Some OFFSET_SNI else if c = 104 then Some OFFSET_HOST
                    else if c = 110 then Some 0 else None)"

definition offset_mod :: "byte \<Rightarrow> nat" where
  "offset_mod c = (if c = 101 then OFFSET_END else if c = 109 then OFFSET_MID
                   else if c = 114 then OFFSET_RAND else if c = 115 then OFFSET_START else 0)"

text \<open>The new \<open>part\<close>, or \<open>None\<close> where \<open>parse_offset\<close> returns -1.\<close>

definition parse_offset :: "part \<Rightarrow> mem \<Rightarrow> part option option" where
  "parse_offset part str = do {
     (val, en) \<leftarrow> strtol0 str 0;
     r \<leftarrow> parse_repeats str en part;
     (case r of
        None \<Rightarrow> Some None
      | Some (part, en) \<Rightarrow> do {
          let part = (if is_pair_mode (pt_m part) \<and> pt_r part = 0 then part\<lparr>pt_r := 2\<rparr> else part);
          c \<leftarrow> ld str en;
          if c = 43
          then do {
            f \<leftarrow> ld str (en + 1);
            (case offset_flag f of
               None \<Rightarrow> Some None
             | Some fl \<Rightarrow> do {
                 m \<leftarrow> ld str (en + 2);
                 Some (Some (part\<lparr>pt_flag := (if f = 110 then pt_flag part else fl) OR offset_mod m, pt_pos := val\<rparr>)) }) }
          else if c \<noteq> 0 then Some None
          else Some (Some (part\<lparr>pt_pos := val\<rparr>)) }) }"

end
