(* ===== verification/Cache_File.thy ===== *)
theory Cache_File
  imports Lists
begin

text \<open>
  The cache file of byedpi/mpool.c: \<open>dump_cache\<close> writes one line for each address whose
  group is the given one, \<open>load_cache\<close> reads such lines. Texts are byte lists; the
  conversion of addresses to and from text is that of the C library.
\<close>

section \<open>Writing\<close>

fun digits_rev :: "nat \<Rightarrow> mem" where
  "digits_rev n = (if n < 10 then [of_nat (48 + n)] else of_nat (48 + n mod 10) # digits_rev (n div 10))"

declare digits_rev.simps [simp del]

definition show_nat :: "nat \<Rightarrow> mem" where
  "show_nat n = rev (digits_rev n)"

definition show_int :: "int \<Rightarrow> mem" where
  "show_int i = (if i < 0 then 45 # show_nat (nat (- i)) else show_nat (nat i))"

text \<open>\<open>%.*s\<close> of a host that is not terminated: at most \<open>extra_len\<close> bytes of it, none from a zero byte on.\<close>

definition cstring :: "mem \<Rightarrow> mem" where
  "cstring m = takeWhile (\<lambda>c. c \<noteq> 0) m"

definition dump_host :: "cache_ext \<Rightarrow> mem" where
  "dump_host x =
     (let n = (if c_extra_len x \<noteq> 0 then c_extra_len x else 1) in
      case c_extra x of None \<Rightarrow> [45] | Some h \<Rightarrow> cstring (take n h))"

definition dump_line :: "proc \<Rightarrow> elem \<Rightarrow> mem option" where
  "dump_line w e = do {
     let x = cache w (el_addr e);
     f0 \<leftarrow> ld (el_data e) 0;
     f1 \<leftarrow> ld (el_data e) 1;
     p0 \<leftarrow> ld (el_data e) 2;
     p1 \<leftarrow> ld (el_data e) 3;
     let v4 = (le16 f0 f1 = AF_INET);
     ip \<leftarrow> slice (el_data e) 4 (if v4 then 4 else 16);
     Some (48 # 32 # inet_ntop (libc w) (if v4 then AF_INET else AF_INET6) ip @ [32] @
           show_int (el_len e - 32) @ [32] @ show_nat (htons (le16 p0 p1)) @ [32] @
           show_int (c_time x) @ [32] @ dump_host x @ [10]) }"

partial_function (option) dump_loop :: "proc \<Rightarrow> nat \<Rightarrow> elem kt list \<times> elem kt \<Rightarrow> mem \<Rightarrow> mem option" where
  [code]: "dump_loop w d itr out = do {
     let e = key (hd (fst itr));
     line \<leftarrow> (if c_dp (cache w (el_addr e)) \<noteq> Some d then Some [] else dump_line w e);
     next_itr \<leftarrow> kavl_itr_next itr;
     (case next_itr of
        None \<Rightarrow> Some (out @ line)
      | Some itr \<Rightarrow> dump_loop w d itr (out @ line)) }"

text \<open>The text written for the group \<open>d\<close>.\<close>

definition dump_cache :: "mphdr \<Rightarrow> nat \<Rightarrow> proc \<Rightarrow> mem option" where
  "dump_cache hdr d w =
     (if mp_root hdr = Null then Some []
      else do { itr \<leftarrow> kavl_itr_first (mp_root hdr); dump_loop w d itr [] })"

section \<open>Reading\<close>

text \<open>The conversions of \<open>fscanf\<close> on what is left of the file.\<close>

definition skip_white :: "mem \<Rightarrow> mem" where
  "skip_white xs = dropWhile isspace xs"

definition scan_word :: "nat \<Rightarrow> mem \<Rightarrow> (mem \<times> mem) option" where
  "scan_word n xs =
     (let ys = skip_white xs; v = take n (takeWhile (\<lambda>c. \<not> isspace c) ys) in
      if v = [] then None else Some (v, drop (length v) ys))"

fun dec_digits :: "nat \<Rightarrow> mem \<Rightarrow> nat \<times> mem" where
  "dec_digits acc [] = (acc, [])"
| "dec_digits acc (c # cs) = (if isdigit c then dec_digits (acc * 10 + (unat c - 48)) cs else (acc, c # cs))"

text \<open>
  A value that the type of the variable does not hold is undefined behaviour (C11 7.21.6.2): it is \<open>None\<close>,
  and so is a conversion without digits, after which the code would go on with unset variables.
\<close>

definition scan_int :: "int \<Rightarrow> int \<Rightarrow> mem \<Rightarrow> (int \<times> mem) option" where
  "scan_int lo hi xs =
     (let ys = skip_white xs;
          sgn = (case ys of c # _ \<Rightarrow> c = 43 \<or> c = 45 | [] \<Rightarrow> False);
          neg = (case ys of c # _ \<Rightarrow> c = 45 | [] \<Rightarrow> False);
          zs = (if sgn then tl ys else ys);
          (n, rest) = dec_digits 0 zs;
          v = (if neg then - int n else int n) in
      if zs = [] \<or> \<not> isdigit (hd zs) \<or> v < lo \<or> hi < v then None else Some (v, rest))"

text \<open>The conversions \<open>%d\<close>, \<open>%hu\<close> and \<open>%jd\<close>.\<close>

definition scan_d :: "mem \<Rightarrow> (int \<times> mem) option" where
  "scan_d = scan_int (- (2 ^ 31)) (2 ^ 31 - 1)"

definition scan_hu :: "mem \<Rightarrow> (int \<times> mem) option" where
  "scan_hu = scan_int 0 65535"

definition scan_jd :: "mem \<Rightarrow> (int \<times> mem) option" where
  "scan_jd = scan_int (- (2 ^ 63)) (2 ^ 63 - 1)"

record cache_line =
  cl_addr :: mem
  cl_bits :: int
  cl_port :: nat
  cl_time :: int
  cl_host :: mem

text \<open>
  One \<open>fscanf\<close>: \<open>Some None\<close> is the end of the loop (nothing converted). A line that
  breaks off after the address leaves variables unset: that is undefined and is \<open>None\<close>.
\<close>

definition scan_line :: "mem \<Rightarrow> (cache_line \<times> mem) option option" where
  "scan_line xs =
     (case xs of
        [] \<Rightarrow> Some None
      | c # xs \<Rightarrow>
          if c \<noteq> 48 then Some None
          else
            (case scan_word 39 xs of
               None \<Rightarrow> Some None
             | Some (addr, xs) \<Rightarrow> do {
                 (bits, xs) \<leftarrow> scan_d xs;
                 (port, xs) \<leftarrow> scan_hu xs;
                 (t, xs) \<leftarrow> scan_jd xs;
                 let (host, xs) = (case scan_word 255 xs of None \<Rightarrow> ([], xs) | Some r \<Rightarrow> r);
                 Some (Some (\<lparr>cl_addr = cstring addr, cl_bits = bits, cl_port = nat port, cl_time = t,
                              cl_host = cstring host\<rparr>, skip_white xs)) }))"

text \<open>The key of a line: all twenty bytes and how many are used, or \<open>None\<close> to skip it.\<close>

definition line_key :: "cache_line \<Rightarrow> proc \<Rightarrow> (mem \<times> int) option" where
  "line_key l w =
     (let port = le16_bytes (htons (cl_port l)) in
      case inet_pton (libc w) AF_INET (cl_addr l) of
        Some ip \<Rightarrow> Some (le16_bytes AF_INET @ port @ ip @ replicate 12 0, 8)
      | None \<Rightarrow>
          (case inet_pton (libc w) AF_INET6 (cl_addr l) of
             Some ip \<Rightarrow> Some (le16_bytes AF_INET6 @ port @ ip, 20)
           | None \<Rightarrow> None))"

text \<open>
  Adding one line to the pool; the flag says whether the loop goes on. The sum \<open>bitlen += key_size * 8\<close> is
  of type \<open>int\<close>.
\<close>

definition add_line :: "cache_line \<Rightarrow> nat \<Rightarrow> mphdr \<Rightarrow> proc \<Rightarrow> (bool \<times> mphdr \<times> proc) option" where
  "add_line l d hdr w =
     (if cl_bits l + 32 \<ge> 2 ^ 31 then None
      else case line_key l w of
        None \<Rightarrow> Some (True, hdr, w)
      | Some (ck, bytes) \<Rightarrow>
          (let bitlen = cl_bits l + 32 in
           if bytes * 8 < bitlen then Some (True, hdr, w)
           else
             (let (dat, w) = alloc (nat bytes) w in
              if dat = None then Some (False, hdr, w)
              else
                (let (new, w) = alloc 96 w;
                     w = (case new of None \<Rightarrow> w | Some a \<Rightarrow> upd_cache a (\<lambda>_. zero_cache) w) in
                 case mem_add (char_signed w) hdr new (take (nat bytes) ck) bitlen of
                   None \<Rightarrow> None
                 | Some (hdr, None, _) \<Rightarrow> Some (False, hdr, w)
                 | Some (hdr, Some e, _) \<Rightarrow>
                     (let n = length (cl_host l); a = el_addr e;
                          w = upd_cache a (\<lambda>x. x\<lparr>c_time := cl_time l, c_extra_len := n, c_dp := Some d\<rparr>) w in
                      if n > 1
                      then
                        (let (m, w) = alloc (n + 1) w in
                         if m = None then None
                         else Some (True, hdr, upd_cache a (\<lambda>x. x\<lparr>c_extra := Some (cl_host l)\<rparr>) w))
                      else Some (True, hdr, w))))))"

lemma skip_white_length: "length (skip_white xs) \<le> length xs"
  unfolding skip_white_def by (rule length_dropWhile_le)

lemma scan_word_length: "scan_word n xs = Some (v, ys) \<Longrightarrow> length ys < length xs"
  using skip_white_length [of xs] by (cases "skip_white xs") (auto simp: scan_word_def Let_def split: if_splits)

lemma dec_digits_length: "length (snd (dec_digits acc xs)) \<le> length xs"
  by (induction acc xs rule: dec_digits.induct) auto

lemma scan_int_length: "scan_int lo hi xs = Some (v, ys) \<Longrightarrow> length ys \<le> length xs"
proof -
  assume a: "scan_int lo hi xs = Some (v, ys)"
  define zs where "zs = skip_white xs"
  define us where "us = (if (case zs of c # _ \<Rightarrow> c = 43 \<or> c = 45 | [] \<Rightarrow> False) then tl zs else zs)"
  have "ys = snd (dec_digits 0 us)"
    using a by (auto simp: scan_int_def Let_def zs_def us_def split: prod.splits if_splits)
  then have "length ys \<le> length us" by (simp add: dec_digits_length)
  also have "length us \<le> length zs" by (simp add: us_def)
  also have "length zs \<le> length xs" by (simp add: zs_def skip_white_length)
  finally show ?thesis .
qed

lemma scan_line_length: "scan_line xs = Some (Some (l, ys)) \<Longrightarrow> length ys < length xs"
proof (cases xs)
  case (Cons c cs)
  assume a: "scan_line xs = Some (Some (l, ys))"
  from a Cons obtain ad x1 b x2 p x3 t x4 where
    s: "scan_word 39 cs = Some (ad, x1)" "scan_d x1 = Some (b, x2)" "scan_hu x2 = Some (p, x3)"
      "scan_jd x3 = Some (t, x4)"
    and ys: "ys = skip_white (snd (case scan_word 255 x4 of None \<Rightarrow> ([], x4) | Some r \<Rightarrow> r))"
    by (auto simp: scan_line_def bind_eq_Some_conv Let_def split: if_splits option.splits prod.splits)
  have "length (snd (case scan_word 255 x4 of None \<Rightarrow> ([], x4) | Some r \<Rightarrow> r)) \<le> length x4"
    by (auto dest!: scan_word_length split: option.splits)
  with ys have "length ys \<le> length x4" using skip_white_length le_trans by blast
  with scan_word_length [OF s(1)] scan_int_length [OF s(2) [unfolded scan_d_def]]
    scan_int_length [OF s(3) [unfolded scan_hu_def]] scan_int_length [OF s(4) [unfolded scan_jd_def]] Cons
  show ?thesis by simp
qed (simp add: scan_line_def)

function load_loop :: "mem \<Rightarrow> nat \<Rightarrow> mphdr \<Rightarrow> proc \<Rightarrow> (mphdr \<times> proc) option" where
  "load_loop xs d hdr w =
     (case scan_line xs of
        None \<Rightarrow> None
      | Some None \<Rightarrow> Some (hdr, w)
      | Some (Some (l, xs)) \<Rightarrow>
          (case add_line l d hdr w of
             None \<Rightarrow> None
           | Some (again, hdr, w) \<Rightarrow> if again then load_loop xs d hdr w else Some (hdr, w)))"
  by pat_completeness auto
termination
  by (relation "measure (\<lambda>(xs, d, hdr, w). length xs)") (auto dest: scan_line_length)

declare load_loop.simps [simp del]

definition load_cache :: "mphdr \<Rightarrow> mem \<Rightarrow> nat \<Rightarrow> proc \<Rightarrow> (mphdr \<times> proc) option" where
  "load_cache hdr content d w = load_loop content d hdr w"

end
