(* ===== verification/Cache_Props.thy ===== *)
theory Cache_Props
  imports Cache_File Samples
begin

text \<open>
  The cache file of mpool.c: a line that was written is read back as the same entry. What the
  C library must grant is that its texts of addresses are words it reads back.
\<close>

section \<open>Numbers\<close>

lemma isdigit_byte: "k < 10 \<Longrightarrow> isdigit (of_nat (48 + k)) \<and> unat (of_nat (48 + k) :: byte) = 48 + k \<and> \<not> isspace (of_nat (48 + k))"
proof -
  assume "k < 10"
  then have "k \<in> {0, 1, 2, 3, 4, 5, 6, 7, 8, 9}" by auto
  then show ?thesis by (auto simp: isdigit_def isspace_def)
qed

lemma show_nat_simp: "show_nat n = (if n < 10 then [of_nat (48 + n)] else show_nat (n div 10) @ [of_nat (48 + n mod 10)])"
  by (simp add: show_nat_def digits_rev.simps [of n])

lemma dec_digits_show: "dec_digits 0 (show_nat n @ ys) = dec_digits n ys"
proof (induction n arbitrary: ys rule: less_induct)
  case (less n)
  show ?case
  proof (cases "n < 10")
    case True
    then show ?thesis using isdigit_byte [of n] by (subst show_nat_simp) simp
  next
    case False
    then have "dec_digits 0 (show_nat n @ ys) = dec_digits (n div 10) (of_nat (48 + n mod 10) # ys)"
      using less.IH [of "n div 10" "of_nat (48 + n mod 10) # ys"] by (subst show_nat_simp) simp
    then show ?thesis using isdigit_byte [of "n mod 10"] by simp
  qed
qed

lemma show_nat_head: "\<exists>c cs. show_nat n = c # cs \<and> isdigit c"
proof (induction n rule: less_induct)
  case (less n)
  show ?case
  proof (cases "n < 10")
    case True
    then show ?thesis using isdigit_byte [of n] by (subst show_nat_simp) simp
  next
    case False
    then show ?thesis using less.IH [of "n div 10"] by (subst show_nat_simp) auto
  qed
qed

lemma isdigit_not: "isdigit c \<Longrightarrow> \<not> isspace c \<and> c \<noteq> 43 \<and> c \<noteq> 45"
  using order_trans [of 48 c 13] by (auto simp: isdigit_def isspace_def)

lemma scan_int_show:
  assumes "\<not> isdigit c" "lo \<le> i" "i \<le> hi"
  shows "scan_int lo hi (32 # show_int i @ c # ys) = Some (i, c # ys)"
proof -
  have sp: "isspace 32" "\<not> isspace 45" "\<not> isdigit 45" by (simp_all add: isspace_def isdigit_def)
  have d: "dec_digits 0 (show_nat n @ c # ys) = (n, c # ys)" for n using assms by (simp add: dec_digits_show)
  show ?thesis
  proof (cases "i < 0")
    case True
    obtain d ds where s: "show_nat (nat (- i)) = d # ds" "isdigit d" using show_nat_head by blast
    then show ?thesis using True sp d [of "nat (- i)"] assms(2,3) by (simp add: scan_int_def skip_white_def show_int_def)
  next
    case False
    obtain d ds where s: "show_nat (nat i) = d # ds" "isdigit d" using show_nat_head by blast
    then show ?thesis using False sp d [of "nat i"] isdigit_not [OF s(2)] assms(2,3)
      by (simp add: scan_int_def skip_white_def show_int_def)
  qed
qed


section \<open>Words\<close>

definition is_word :: "nat \<Rightarrow> mem \<Rightarrow> bool" where
  "is_word n v \<longleftrightarrow> v \<noteq> [] \<and> length v \<le> n \<and> (\<forall>c\<in>set v. \<not> isspace c \<and> c \<noteq> 0)"

lemma cstring_word: "is_word n v \<Longrightarrow> cstring v = v"
  by (simp add: is_word_def cstring_def takeWhile_eq_all_conv)

lemma scan_word_at:
  assumes "is_word n v" and "isspace c"
  shows "scan_word n (32 # v @ c # ys) = Some (v, c # ys)"
proof -
  have v: "v \<noteq> []" "length v \<le> n" "\<And>c. c \<in> set v \<Longrightarrow> \<not> isspace c" using assms(1) by (simp_all add: is_word_def)
  obtain x xs where x: "v = x # xs" using v(1) by (cases v) auto
  have "skip_white (32 # v @ c # ys) = v @ c # ys" using v(3) by (simp add: skip_white_def x) (simp add: isspace_def)
  moreover have "takeWhile (\<lambda>c. \<not> isspace c) (v @ c # ys) = v" using v(3) assms(2) by (simp add: takeWhile_append2)
  moreover have "n \<noteq> 0" using v(1,2) by (cases n) simp_all
  ultimately show ?thesis using v(1,2) by (simp add: scan_word_def)
qed

section \<open>Lines\<close>

text \<open>What is asked of the C library: the text of an address is a word that is read back.\<close>

definition text_ok :: "libc \<Rightarrow> nat \<Rightarrow> mem \<Rightarrow> bool" where
  "text_ok l fam ip \<longleftrightarrow> is_word 39 (inet_ntop l fam ip) \<and> inet_pton l fam (inet_ntop l fam ip) = Some ip \<and>
     (fam = AF_INET6 \<longrightarrow> inet_pton l AF_INET (inet_ntop l fam ip) = None)"

text \<open>The key of a cached address: family, port, and an address of either size.\<close>

definition cache_key :: "elem \<Rightarrow> nat \<Rightarrow> byte \<Rightarrow> byte \<Rightarrow> mem \<Rightarrow> bool" where
  "cache_key e fam p0 p1 ip \<longleftrightarrow> el_data e = le16_bytes fam @ [p0, p1] @ ip \<and>
     (fam = AF_INET \<and> length ip = 4 \<or> fam = AF_INET6 \<and> length ip = 16)"

lemma le16_family: "fam = AF_INET \<or> fam = AF_INET6 \<Longrightarrow> le16_bytes fam = [of_nat fam, 0] \<and> le16 (of_nat fam) 0 = fam"
  by (auto simp: le16_bytes_def le16_def AF_INET_def AF_INET6_def)

lemma dump_line_key:
  assumes "cache_key e fam p0 p1 ip"
  shows "dump_line w e = Some (48 # 32 # inet_ntop (libc w) fam ip @ [32] @ show_int (el_len e - 32) @ [32] @
      show_nat (htons (le16 p0 p1)) @ [32] @ show_int (c_time (cache w (el_addr e))) @ [32] @
      dump_host (cache w (el_addr e)) @ [10])"
proof -
  have f: "fam = AF_INET \<or> fam = AF_INET6" using assms by (auto simp: cache_key_def)
  have d: "el_data e = [of_nat fam, 0, p0, p1] @ ip" using assms le16_family [OF f] by (simp add: cache_key_def)
  have l: "length ip = (if fam = AF_INET then 4 else 16)" using assms by (auto simp: cache_key_def AF_INET_def AF_INET6_def)
  show ?thesis using le16_family [OF f] f
    by (auto simp: dump_line_def d l ld_def slice_def Let_def AF_INET_def AF_INET6_def)
qed

lemma htons_twice: "x < 65536 \<Longrightarrow> htons (htons x) = x \<and> htons x < 65536"
proof -
  assume "x < 65536"
  then have "x = x div 256 * 256 + x mod 256" "x div 256 < 256" "x mod 256 < 256" by simp_all
  then show ?thesis by (auto simp: htons_def)
qed

lemma le16_less: "le16 a b < 65536"
  unfolding le16_def using unat_byte_less [of a] unat_byte_less [of b] by linarith

lemma le16_bytes_of: "le16_bytes (le16 a b) = [a, b]"
proof -
  have "(unat a + unat b * 256) div 256 = unat b" using unat_byte_less [of a] by (simp add: div_mult_self3)
  moreover have z: "(256 :: byte) = 0" by code_simp
  ultimately show ?thesis by (simp add: le16_bytes_def le16_def z)
qed



text \<open>A library that writes one IPv4 address, and an entry for it.\<close>

definition one_host :: libc where
  "one_host = no_libc\<lparr>inet_ntop := (\<lambda>f a. [49, 46, 49, 46, 49, 46, 49]),
     inet_pton := (\<lambda>f s. if f = AF_INET \<and> s = [49, 46, 49, 46, 49, 46, 49] then Some [1, 1, 1, 1] else None)\<rparr>"

definition cached :: proc where
  "cached = (fresh calm)\<lparr>libc := one_host,
     cache := (\<lambda>a. zero_cache\<lparr>c_time := 1700000000, c_extra := Some [97, 46, 98], c_extra_len := 3\<rparr>)\<rparr>"


text \<open>The time zero and a host with a blank, as the name in a ClientHello may have one: only the first word is read.\<close>

lemma blank_in_host_cut:
  "scan_line (bytes_of ''0 1.1.1.1 24 443 7 a b'' @ [10, 48, 32]) =
     Some (Some (\<lparr>cl_addr = bytes_of ''1.1.1.1'', cl_bits = 24, cl_port = 443, cl_time = 7, cl_host = [97]\<rparr>, [98, 10, 48, 32])) \<and>
   scan_line [98, 10, 48, 32] = Some None"
  by code_simp

end
