(* ===== verification/Address_Types.thy ===== *)
theory Address_Types
  imports Extend Address_Props Cache_Props
begin

text \<open>
  The shape of addresses as a type: four bytes, sixteen bytes and a port of two. Whoever reads an
  address from a client, from a name or from an option keeps it, as long as the system's resolver
  answers with such addresses.
\<close>

definition answers_ok :: "kernel \<Rightarrow> bool" where
  "answers_ok k \<longleftrightarrow> (\<forall>tr c. addr_ok (a_addr (k tr c)))"

lemma htons_less [simp]: "htons x < 65536"
proof -
  have "x mod 256 \<le> 255" "x div 256 mod 256 \<le> 255" by (simp_all add: less_Suc_eq_le [symmetric])
  then show ?thesis unfolding htons_def by linarith
qed

named_theorems addr_shape \<open>operations that keep the shape of an address\<close>

lemma addr_ok_port [addr_shape]: "addr_ok a \<Longrightarrow> p < 65536 \<Longrightarrow> addr_ok (a\<lparr>sin_port := p\<rparr>)"
  by (simp add: addr_ok_def)

lemma addr_ok_v4 [addr_shape]: "addr_ok a \<Longrightarrow> length ip = 4 \<Longrightarrow> addr_ok (a\<lparr>sa_family := f, sin_addr := ip\<rparr>)"
  by (simp add: addr_ok_def)

lemma addr_ok_v6 [addr_shape]: "addr_ok a \<Longrightarrow> length ip = 16 \<Longrightarrow> addr_ok (a\<lparr>sa_family := f, sin6_addr := ip\<rparr>)"
  by (simp add: addr_ok_def)

lemma map_fix_ok [addr_shape]: "addr_ok a \<Longrightarrow> addr_ok (map_fix a f6)"
  by (simp add: map_fix_def addr_ok_def)

lemma copy_sa_ok [addr_shape]: "addr_ok a \<Longrightarrow> addr_ok b \<Longrightarrow> addr_ok (copy_sa a b)"
  by (simp add: copy_sa_def addr_ok_def)

lemma sys_answer_ok: "answers_ok (kernel w) \<Longrightarrow> addr_ok (a_addr (fst (sys c w))) \<and> answers_ok (kernel (snd (sys c w)))"
  by (simp add: sys_def Let_def answers_ok_def)

lemma get_bytes_length: "get_bytes m p n = Some b \<Longrightarrow> length b = n"
  by (auto simp: get_bytes_def slice_def split: if_splits)

lemma slice_length: "slice m p n = Some b \<Longrightarrow> length b = n"
  by (auto simp: slice_def split: if_splits)

text \<open>A reader keeps the shape: whatever it returns carries such an address.\<close>

definition keeps :: "(int \<times> sockaddr_u \<times> proc) option \<Rightarrow> bool" where
  "keeps x \<longleftrightarrow> (\<forall>r c v. x = Some (r, c, v) \<longrightarrow> addr_ok c)"

lemma keeps_Some: "addr_ok c \<Longrightarrow> keeps (Some (r, c, v))"
  by (simp add: keeps_def)

lemma keeps_None: "keeps None"
  by (simp add: keeps_def)

lemma keeps_if: "(b \<Longrightarrow> keeps x) \<Longrightarrow> (\<not> b \<Longrightarrow> keeps y) \<Longrightarrow> keeps (if b then x else y)"
  by simp

lemma keeps_case: "keeps y \<Longrightarrow> (\<And>a. x = Some a \<Longrightarrow> keeps (f a)) \<Longrightarrow> keeps (case x of None \<Rightarrow> y | Some a \<Rightarrow> f a)"
  by (cases x) simp_all

lemma keeps_bind: "(\<And>y. x = Some y \<Longrightarrow> keeps (f y)) \<Longrightarrow> keeps (x \<bind> f)"
  by (cases x) (simp_all add: keeps_def)

lemma keeps_bind_addr:
  assumes "keeps x" and "\<And>r c v. addr_ok c \<Longrightarrow> keeps (f r c v)"
  shows "keeps (x \<bind> (\<lambda>(r, c, v). f r c v))"
proof (cases x)
  case (Some y)
  obtain r c v where y: "y = (r, c, v)" by (cases y)
  have "addr_ok c" using assms(1) Some y by (simp add: keeps_def)
  then show ?thesis using assms(2) Some y by simp
qed (simp add: keeps_None)

lemma keeps_bind_pair: "(\<And>a b. x = Some (a, b) \<Longrightarrow> keeps (f a b)) \<Longrightarrow> keeps (x \<bind> (\<lambda>(a, b). f a b))"
  by (cases x) (auto simp: keeps_def)

lemma keeps_Some_if: "(b \<Longrightarrow> keeps (Some x)) \<Longrightarrow> (\<not> b \<Longrightarrow> keeps (Some y)) \<Longrightarrow> keeps (Some (if b then x else y))"
  by simp

lemma resolve_keeps:
  assumes "addr_ok a" and "answers_ok (kernel w)"
  shows "keeps (resolve m p len a type w)"
  unfolding resolve_def Let_def split_def
  by (rule keeps_bind, rule keeps_Some_if)
    (use assms(1) copy_sa_ok sys_answer_ok [OF assms(2)] in \<open>simp_all add: keeps_Some\<close>)

lemmas keeping = keeps_if keeps_case keeps_bind_addr keeps_bind_pair keeps_bind keeps_Some_if keeps_Some keeps_None resolve_keeps addr_shape

lemma s5_keeps:
  assumes "addr_ok a" and "answers_ok (kernel w)"
  shows "keeps (s5_get_addr m p n a type w)"
  unfolding s5_get_addr_def Let_def
  by (rule keeping assms get_bytes_length le16_less | assumption)+

lemma s4_keeps:
  assumes "addr_ok a" and "answers_ok (kernel w)"
  shows "keeps (s4_get_addr m n a w)"
  unfolding s4_get_addr_def Let_def
  by (rule keeping assms slice_length le16_less | assumption)+

lemma http_keeps:
  assumes "addr_ok a" and "answers_ok (kernel w)"
  shows "keeps (http_get_addr m n a w)"
  unfolding http_get_addr_def Let_def
  by (rule keeping assms htons_less | assumption)+

lemma tls_keeps:
  assumes "addr_ok a" and "answers_ok (kernel w)"
  shows "keeps (tls_get_addr m n a w)"
  unfolding tls_get_addr_def Let_def
  by (rule keeping assms htons_less | assumption)+


text \<open>
  The type of addresses is kept: with a resolver that answers with four bytes for IPv4, sixteen
  for IPv6 and a port of two bytes, every reader of a request (SOCKS 5, SOCKS 4, HTTP CONNECT and the
  server name of TLS), whatever bytes it is given, leaves an address of this shape, and so do the change
  between IPv4 and mapped IPv6 and the key of the cache, which always has all its twenty bytes.
\<close>

theorem addr_shape_kept:
  assumes "addr_ok a" and "answers_ok (kernel w)"
  shows "keeps (s5_get_addr m p k a type w) \<and> keeps (s4_get_addr m n a w) \<and> keeps (http_get_addr m n a w) \<and>
    keeps (tls_get_addr m n a w) \<and> addr_ok (map_fix a f6) \<and> length (fst (serialize_addr a)) = 20"
  using s5_keeps [OF assms] s4_keeps [OF assms] http_keeps [OF assms] tls_keeps [OF assms] map_fix_ok [OF assms(1)] assms(1)
  by (simp add: serialize_addr_def le16_bytes_def addr_ok_def Let_def)

theorem addr_shape_kept_witness:
  "keeps (s4_get_addr [4, 1, 0, 80, 10, 0, 0, 1, 0] 9 zero_addr (fresh calm)) \<and> addr_ok (map_fix zero_addr True)"
proof -
  have "addr_ok zero_addr" "answers_ok (kernel (fresh calm))"
    by (simp_all add: addr_ok_def answers_ok_def samples zero_addr_def)
  then show ?thesis using addr_shape_kept [of zero_addr "fresh calm"] by blast
qed

end
