(* ===== verification/Kavl_Correct.thy ===== *)
theory Kavl_Correct
  imports Kavl
begin

text \<open>
  Correctness of the AVL tree of Kavl: the invariant (\<open>avl\<close>: the stored balance is
  the difference of the heights and within one, the stored size is the number of nodes),
  its preservation by insertion and deletion, what they do to the sequence of elements,
  and that no operation dereferences NULL or overruns its path arrays.
\<close>

section \<open>Invariant\<close>

fun height :: "'a kt \<Rightarrow> nat" where
  "height Null = 0"
| "height (Node l e b s r) = max (height l) (height r) + 1"

fun inorder :: "'a kt \<Rightarrow> 'a list" where
  "inorder Null = []"
| "inorder (Node l e b s r) = inorder l @ e # inorder r"

definition count :: "'a kt \<Rightarrow> nat" where
  "count t = length (inorder t)"

fun avl :: "'a kt \<Rightarrow> bool" where
  "avl Null \<longleftrightarrow> True"
| "avl (Node l e b s r) \<longleftrightarrow>
     b = int (height r) - int (height l) \<and> \<bar>b\<bar> \<le> 1 \<and>
     s = of_nat (count l + count r + 1) \<and> avl l \<and> avl r"

text \<open>Frames that fit a hole of height \<open>h\<close>, and a hole with \<open>n\<close> elements.\<close>

fun wf_bal :: "'a frame list \<Rightarrow> nat \<Rightarrow> bool" where
  "wf_bal [] h \<longleftrightarrow> True"
| "wf_bal (Frame d e b s sib # fs) h \<longleftrightarrow>
     b = (if d = D0 then int (height sib) - int h else int h - int (height sib)) \<and> \<bar>b\<bar> \<le> 1 \<and>
     avl sib \<and> wf_bal fs (max h (height sib) + 1)"

fun wf_size :: "'a frame list \<Rightarrow> nat \<Rightarrow> bool" where
  "wf_size [] n \<longleftrightarrow> True"
| "wf_size (Frame d e b s sib # fs) n \<longleftrightarrow>
     s = of_nat (n + count sib + 1) \<and> wf_size fs (n + count sib + 1)"

text \<open>The elements before and after the hole.\<close>

fun lpart :: "'a frame list \<Rightarrow> 'a list" where
  "lpart [] = []"
| "lpart (Frame d e b s sib # fs) = lpart fs @ (if d = D1 then inorder sib @ [e] else [])"

fun rpart :: "'a frame list \<Rightarrow> 'a list" where
  "rpart [] = []"
| "rpart (Frame d e b s sib # fs) = (if d = D0 then e # inorder sib else []) @ rpart fs"

lemma count_simps [simp]:
  "count Null = 0" "count (Node l e b s r) = count l + count r + 1"
  by (simp_all add: count_def)

lemma height_0 [simp]: "height t = 0 \<longleftrightarrow> t = Null" "0 = height t \<longleftrightarrow> t = Null"
  by (cases t; simp)+

lemma kavl_size_avl [simp]: "avl t \<Longrightarrow> kavl_size t = of_nat (count t)"
  by (cases t) auto

lemma sz_avl: "avl t \<Longrightarrow> t \<noteq> Null \<Longrightarrow> sz t = of_nat (count t)"
  by (cases t) auto

lemma avl_plug:
  "avl (plug fs t) \<longleftrightarrow> avl t \<and> wf_bal fs (height t) \<and> wf_size fs (count t)"
proof (induction fs arbitrary: t)
  case Nil
  then show ?case by simp
next
  case (Cons f fs)
  obtain d e b s sib where f: "f = Frame d e b s sib" by (cases f)
  show ?case
    by (cases d) (auto simp: f Cons max.commute add.commute add.left_commute)
qed

lemma inorder_plug: "inorder (plug fs t) = lpart fs @ inorder t @ rpart fs"
proof (induction fs arbitrary: t)
  case Nil
  then show ?case by simp
next
  case (Cons f fs)
  obtain d e b s sib where "f = Frame d e b s sib" by (cases f)
  with Cons show ?case by (cases d) auto
qed

lemma plug_append: "plug (a @ b) t = plug b (plug a t)"
  by (induction a arbitrary: t) auto

lemma parts_append:
  "lpart (a @ b) = lpart b @ lpart a" "rpart (a @ b) = rpart a @ rpart b"
proof (induction a)
  case Nil
  { case 1 show ?case by simp next case 2 show ?case by simp }
next
  case (Cons f fs)
  obtain d e b s sib where "f = Frame d e b s sib" by (cases f)
  { case 1 with Cons \<open>f = _\<close> show ?case by auto next case 2 with Cons \<open>f = _\<close> show ?case by auto }
qed

lemma parts_map:
  "lpart (map bump_size fs) = lpart fs" "rpart (map bump_size fs) = rpart fs"
  "lpart (map bump_bal fs) = lpart fs" "rpart (map bump_bal fs) = rpart fs"
  "lpart (map drop_size fs) = lpart fs" "rpart (map drop_size fs) = rpart fs"
  by (induction fs rule: lpart.induct; simp)+

lemma wf_bal_map:
  "wf_bal (map bump_size fs) h = wf_bal fs h" "wf_bal (map drop_size fs) h = wf_bal fs h"
  by (induction fs arbitrary: h rule: lpart.induct; simp)+

lemma wf_size_bump: "wf_size fs n \<Longrightarrow> wf_size (map bump_size fs) (n + 1)"
proof (induction fs arbitrary: n rule: lpart.induct)
  case 1
  then show ?case by simp
next
  case (2 d e b s sib fs)
  from 2(2) have "s = of_nat (n + count sib + 1)" "wf_size fs (n + count sib + 1)" by simp_all
  with 2(1)[of "n + count sib + 1"] show ?case by (simp add: add.commute add.left_commute)
qed

lemma wf_size_drop: "wf_size fs (Suc n) \<Longrightarrow> wf_size (map drop_size fs) n"
  by (induction fs arbitrary: n rule: lpart.induct) auto

lemma wf_size_bal: "wf_size (map bump_bal fs) n = wf_size fs n"
  by (induction fs arbitrary: n rule: lpart.induct) auto

section \<open>Rotations\<close>

lemma height_node_at [simp]: "height (node_at d a e b s c) = max (height a) (height c) + 1"
  by (cases d) auto

lemma count_node_at [simp]: "count (node_at d a e b s c) = count a + count c + 1"
  by (cases d) auto

lemma node_at_cases:
  assumes "t \<noteq> Null"
  obtains a c where "t = node_at d a (key t) (bal t) (sz t) c"
  using assms by (cases t; cases d) auto

lemma child_node_at [simp]:
  "child d (node_at d a e b s c) = a" "child (opp d) (node_at d a e b s c) = c"
  "key (node_at d a e b s c) = e" "bal (node_at d a e b s c) = b" "sz (node_at d a e b s c) = s"
  "node_at d a e b s c \<noteq> Null"
  by (cases d; simp)+

lemma set_bal_node_at [simp]: "set_bal b' (node_at d a e b s c) = node_at d a e b' s c"
  by (cases d) auto

lemma set_child_bal_node_at [simp]:
  "set_child_bal d b' (node_at d a e b s c) = node_at d (set_bal b' a) e b s c"
  by (cases d) auto

text \<open>The sign of a balance seen from side \<open>d\<close>: positive when the other side is higher.\<close>

definition lean :: "dir \<Rightarrow> int \<Rightarrow> int" where
  "lean d b = (if d = D0 then b else - b)"

lemma avl_node_at:
  "avl (node_at d a e b s c) \<longleftrightarrow>
     lean d b = int (height c) - int (height a) \<and> \<bar>b\<bar> \<le> 1 \<and>
     s = of_nat (count a + count c + 1) \<and> avl a \<and> avl c"
  by (cases d) (auto simp: lean_def add.commute)

lemma rotate1_node:
  "kavl_rotate1 (node_at d a e b s (node_at d x e' b' s' y)) d =
     Some (node_at d (node_at d a e b (s - (s' - kavl_size x)) x) e' b' s y)"
  by (simp add: kavl_rotate1_def Let_def)

lemma rotate2_node:
  "kavl_rotate2 (node_at d a e b s (node_at d (node_at d x er br sr y) e' b' s' c)) d =
     Some (node_at d (node_at d a e (if lean d br = 1 then lean d (- 1) else 0) (s - (s' - kavl_size x)) x) er 0 s
             (node_at d y e' (if lean d br = 1 \<or> br = 0 then 0 else lean d 1) (s' - (kavl_size x + 1)) c))"
  by (cases d) (auto simp: kavl_rotate2_def Let_def lean_def)

lemma inorder_rot1:
  "inorder (node_at d (node_at d a e b s x) e' b' s' y) = inorder (node_at d a e b2 s2 (node_at d x e' b3 s3 y))"
  by (cases d) auto

lemma inorder_rot2:
  "inorder (node_at d (node_at d a e b s x) er br sr (node_at d y e' b' s' c)) =
   inorder (node_at d a e b2 s2 (node_at d (node_at d x er b3 s3 y) e' b4 s4 c))"
  by (cases d) auto

lemma avl_node_atI:
  "int (height c) - int (height a) = lean d b \<Longrightarrow> \<bar>b\<bar> \<le> 1 \<Longrightarrow>
   s = of_nat (count a + count c + 1) \<Longrightarrow> avl a \<Longrightarrow> avl c \<Longrightarrow> avl (node_at d a e b s c)"
  by (simp add: avl_node_at)

lemma lean_simps [simp]:
  "lean d 0 = 0" "lean d (- b) = - lean d b" "lean d (lean d b) = b" "\<bar>lean d b\<bar> = \<bar>b\<bar>"
  "lean d b = 0 \<longleftrightarrow> b = 0"
  by (auto simp: lean_def)

text \<open>
  A node that is two higher on the side away from \<open>d\<close>, all else being right: the
  three ways it is repaired.
\<close>

lemma rotate1_repairs:
  assumes q: "avl (node_at d x e' b' s' y)" and a: "avl a"
    and s: "s = of_nat (count a + count x + count y + 2)"
    and h: "max (height x) (height y) + 1 = height a + 2" and b': "lean d b' = 1"
  shows "\<exists>r. kavl_rotate1 (node_at d a e b s (node_at d x e' b' s' y)) d = Some r \<and>
    avl (set_bal 0 (set_child_bal d 0 r)) \<and> height (set_bal 0 (set_child_bal d 0 r)) = height a + 2 \<and>
    inorder (set_bal 0 (set_child_bal d 0 r)) = inorder (node_at d a e b s (node_at d x e' b' s' y))"
proof -
  from q b' have hy: "height y = height x + 1" by (simp add: avl_node_at)
  with h have hx: "height x = height a" by simp
  from q a show ?thesis
    by (simp add: rotate1_node avl_node_at hx hy s)
       (intro inorder_rot1)
qed

lemma rotate1_level:
  assumes q: "avl (node_at d x e' 0 s' y)" and a: "avl a"
    and s: "s = of_nat (count a + count x + count y + 2)"
    and h: "max (height x) (height y) + 1 = height a + 2"
  shows "\<exists>r. kavl_rotate1 (node_at d a e b s (node_at d x e' 0 s' y)) d = Some r \<and>
    avl (set_bal (lean d (- 1)) (set_child_bal d (lean d 1) r)) \<and>
    height (set_bal (lean d (- 1)) (set_child_bal d (lean d 1) r)) = height a + 3 \<and>
    inorder (set_bal (lean d (- 1)) (set_child_bal d (lean d 1) r)) =
      inorder (node_at d a e b s (node_at d x e' 0 s' y))"
proof -
  from q have hy: "height y = height x" by (simp add: avl_node_at)
  with h have hx: "height x = height a + 1" by simp
  from q a show ?thesis
    by (simp add: rotate1_node avl_node_at hx hy s)
       (intro inorder_rot1)
qed

lemma rotate2_repairs:
  assumes q: "avl (node_at d w e' b' s' c)" and a: "avl a"
    and s: "s = of_nat (count a + count w + count c + 2)"
    and h: "max (height w) (height c) + 1 = height a + 2" and b': "lean d b' = - 1"
  shows "\<exists>r. kavl_rotate2 (node_at d a e b s (node_at d w e' b' s' c)) d = Some r \<and>
    avl r \<and> height r = height a + 2 \<and> inorder r = inorder (node_at d a e b s (node_at d w e' b' s' c))"
proof -
  from q b' have hw: "height w = height c + 1" by (simp add: avl_node_at)
  then have "w \<noteq> Null" by auto
  then obtain x y where w: "w = node_at d x (key w) (bal w) (sz w) y"
    by (rule node_at_cases)
  obtain er br sr where "er = key w" "br = bal w" "sr = sz w" by simp
  with w have w: "w = node_at d x er br sr y" by simp
  from q have aw: "avl w" "avl c" by (simp_all add: avl_node_at)
  have hc: "height c = height a" using h hw by simp
  from aw w have xy: "avl x" "avl y" "lean d br = int (height y) - int (height x)" "\<bar>br\<bar> \<le> 1"
    by (simp_all add: avl_node_at)
  have "max (height x) (height y) = height c" using hw w by simp
  with xy(3,4) have heights: "lean d br = 1 \<and> height y = height a \<and> height x + 1 = height a
      \<or> br = 0 \<and> height x = height a \<and> height y = height a
      \<or> lean d br = - 1 \<and> height x = height a \<and> height y + 1 = height a"
    using hc by (cases d) (auto simp: lean_def)
  have s': "s' = of_nat (count w + count c + 1)" using q by (simp add: avl_node_at)
  show ?thesis
    unfolding w rotate2_node using heights a xy aw s s' w hc
    by (auto simp: avl_node_at inorder_rot2 intro: inorder_rot2)
qed

lemma rebalance_ins_heavy:
  assumes q: "avl (node_at d x e' b' s' y)" and a: "avl a" and b': "b' \<noteq> 0"
    and s: "s = of_nat (count a + count x + count y + 2)"
    and h: "max (height x) (height y) + 1 = height a + 2" and b: "lean d b = 2"
  shows "\<exists>r. rebalance_ins (node_at d a e b s (node_at d x e' b' s' y)) = Some r \<and>
    avl r \<and> height r = height a + 2 \<and> inorder r = inorder (node_at d a e b s (node_at d x e' b' s' y))"
proof -
  have which: "(if b < 0 then D1 else D0) = d" "\<not> (- 2 < b \<and> b < 2)"
    using b by (cases d; simp add: lean_def)+
  have b1: "(if d = D0 then 1 else - 1) = lean d 1" by (simp add: lean_def)
  from q b' have "lean d b' = 1 \<or> lean d b' = - 1"
    by (cases d) (auto simp: avl_node_at lean_def)
  then show ?thesis
  proof
    assume l: "lean d b' = 1"
    then have "b' = lean d 1" by (cases d) (auto simp: lean_def)
    moreover obtain r where "kavl_rotate1 (node_at d a e b s (node_at d x e' b' s' y)) d = Some r"
      "avl (set_bal 0 (set_child_bal d 0 r))" "height (set_bal 0 (set_child_bal d 0 r)) = height a + 2"
      "inorder (set_bal 0 (set_child_bal d 0 r)) = inorder (node_at d a e b s (node_at d x e' b' s' y))"
      using rotate1_repairs [OF q a s h l] by blast
    ultimately show ?thesis
      by (simp add: rebalance_ins_def which b1 Let_def)
  next
    assume l: "lean d b' = - 1"
    then have "b' \<noteq> lean d 1" by (cases d) (auto simp: lean_def)
    with rotate2_repairs [OF q a s h l] show ?thesis
      by (auto simp: rebalance_ins_def which b1 Let_def)
  qed
qed

section \<open>Insert\<close>

text \<open>
  Below \<open>bp\<close> every balance was 0, so the new leaf makes each of these nodes one higher
  and leaves it within the invariant.
\<close>

lemma bump_inner:
  assumes "\<forall>f \<in> set fs. fbal f = 0" "wf_bal fs h" "wf_size fs n" "avl t" "height t = h + 1" "count t = n"
  shows "avl (plug (map bump_bal fs) t) \<and> (fs \<noteq> [] \<longrightarrow> bal (plug (map bump_bal fs) t) \<noteq> 0) \<and>
    (\<forall>t0. height t0 = h \<longrightarrow> height (plug (map bump_bal fs) t) = height (plug fs t0) + 1)"
  using assms
proof (induction fs arbitrary: h n t)
  case Nil
  then show ?case by simp
next
  case (Cons f fs)
  obtain d e b s sib where f: "f = Frame d e b s sib" by (cases f)
  have hs: "height sib = h" and b0: "b = 0" using Cons.prems f by (auto split: if_splits)
  let ?t = "plug1 (bump_bal f) t"
  have "avl ?t" using Cons.prems f hs b0 by (cases d) (auto simp: add.commute)
  moreover have "height ?t = (h + 1) + 1" using Cons.prems f hs by (cases d) auto
  moreover have "count ?t = n + count sib + 1" using Cons.prems f by (cases d) auto
  moreover have "bal ?t \<noteq> 0" using f b0 by (cases d) auto
  moreover have "wf_bal fs (h + 1)" "wf_size fs (n + count sib + 1)" "\<forall>f \<in> set fs. fbal f = 0"
    using Cons.prems f hs by auto
  moreover have "height (plug1 f t0) = h + 1" if "height t0 = h" for t0
    using that f hs by (cases d) auto
  ultimately show ?case
    using Cons.IH [of "h + 1" "n + count sib + 1" ?t] by (cases fs) auto
qed

lemma split_bp_props:
  "split_bp fs = (inner, outer) \<Longrightarrow> fs = inner @ outer \<and>
     ((\<forall>f \<in> set inner. fbal f = 0) \<and> outer = [] \<or>
      (\<exists>zs f. inner = zs @ [f] \<and> fbal f \<noteq> 0 \<and> (\<forall>f \<in> set zs. fbal f = 0)))"
proof (induction fs arbitrary: inner)
  case Nil
  then show ?case by simp
next
  case (Cons f fs)
  show ?case
  proof (cases "fbal f = 0")
    case False
    with Cons.prems show ?thesis by (auto intro!: exI [of _ "[]"])
  next
    case True
    with Cons.prems obtain inner' where i: "split_bp fs = (inner', outer)" "inner = f # inner'"
      by (auto split: prod.splits)
    from Cons.IH [OF i(1)] show ?thesis
    proof (elim conjE disjE)
      assume "fs = inner' @ outer" "\<forall>f \<in> set inner'. fbal f = 0" "outer = []"
      with i True show ?thesis by simp
    next
      assume fs: "fs = inner' @ outer"
        and "\<exists>zs g. inner' = zs @ [g] \<and> fbal g \<noteq> 0 \<and> (\<forall>f \<in> set zs. fbal f = 0)"
      then obtain zs g where "inner' = zs @ [g]" "fbal g \<noteq> 0" "\<forall>f \<in> set zs. fbal f = 0" by blast
      with fs i True show ?thesis by (auto intro!: exI [of _ "f # zs"])
    qed
  qed
qed

lemma node_at_opp: "node_at d a e b s c = node_at (opp d) c e b s a"
  by (cases d) auto

lemma lean_opp [simp]: "lean (opp d) b = - lean d b" "opp (opp d) = d"
  by (cases d; simp add: lean_def)+

text \<open>At \<open>bp\<close> the balance becomes 0, or the node is rotated: its height stays.\<close>

lemma bump_top:
  assumes t1: "avl t1" "height t1 = h + 1" "h \<noteq> 0 \<Longrightarrow> bal t1 \<noteq> 0"
    and b: "lean d b = int (height sib) - int h" "\<bar>b\<bar> \<le> 1" "b \<noteq> 0" and sib: "avl sib"
    and s: "s = of_nat (count t1 + count sib + 1)"
  shows "\<exists>r. rebalance_ins (plug1 (bump_bal (Frame d e b s sib)) t1) = Some r \<and> avl r \<and>
    height r = max h (height sib) + 1 \<and> inorder r = inorder (node_at d t1 e b s sib)"
proof -
  let ?b = "b - lean d 1"
  have bump: "plug1 (bump_bal (Frame d e b s sib)) t1 = node_at d t1 e ?b s sib"
    by (cases d) (auto simp: lean_def)
  have inord: "inorder (node_at d t1 e ?b s sib) = inorder (node_at d t1 e b s sib)"
    by (cases d) auto
  have "b = 1 \<or> b = - 1" using b(2,3) by linarith
  then consider "lean d b = 1" | "lean d b = - 1"
    by (cases d) (auto simp: lean_def)
  then show ?thesis
  proof cases
    case 1
    then have "?b = 0" "height sib = h + 1" using b(1) by (cases d; simp add: lean_def)+
    then show ?thesis
      using t1 sib s unfolding bump
      by (auto simp: rebalance_ins_def avl_node_at inord [simplified])
         (cases d; simp)
  next
    case 2
    then have h: "h = height sib + 1" using b(1) by simp
    then have "t1 \<noteq> Null" using t1(2) by auto
    then obtain x y where xy: "t1 = node_at (opp d) x (key t1) (bal t1) (sz t1) y"
      by (rule node_at_cases)
    have two: "lean (opp d) ?b = 2" using 2 by (cases d) (auto simp: lean_def)
    have "max (height x) (height y) + 1 = height sib + 2"
      using t1(2) h xy height_node_at by (metis add.assoc nat_1_add_1)
    moreover have "s = of_nat (count sib + count x + count y + 2)"
      using s xy count_node_at by (metis (no_types, lifting) add.assoc add.commute nat_1_add_1)
    moreover have "avl (node_at (opp d) x (key t1) (bal t1) (sz t1) y)" using t1(1) xy by simp
    ultimately obtain r where "rebalance_ins (node_at (opp d) sib e ?b s t1) = Some r"
      "avl r" "height r = height sib + 2" "inorder r = inorder (node_at (opp d) sib e ?b s t1)"
      using rebalance_ins_heavy [OF _ sib _ _ _ two] t1(3) h xy by (metis add_is_0 one_neq_zero)
    moreover have "node_at (opp d) sib e ?b s t1 = node_at d t1 e ?b s sib"
      by (rule node_at_opp [symmetric])
    ultimately show ?thesis unfolding bump using h inord by auto
  qed
qed

section \<open>The order along a tree\<close>

text \<open>
  The comparator need not be a total order: what the search for \<open>x\<close> needs is that the
  elements below \<open>x\<close> come first, then the equal ones, then those above.
\<close>

definition cmp_sorted :: "('a \<Rightarrow> 'a \<Rightarrow> int) \<Rightarrow> 'a \<Rightarrow> 'a list \<Rightarrow> bool" where
  "cmp_sorted cmp x xs \<longleftrightarrow> sorted_wrt (\<lambda>a b. sgn (cmp x b) \<le> sgn (cmp x a)) xs"

fun on_path :: "('a \<Rightarrow> 'a \<Rightarrow> int) \<Rightarrow> 'a \<Rightarrow> 'a frame \<Rightarrow> bool" where
  "on_path cmp x (Frame d e b s sib) \<longleftrightarrow> (if d = D1 then 0 < cmp x e else cmp x e < 0)"

lemma cmp_sorted_append:
  "cmp_sorted cmp x (xs @ ys) \<longleftrightarrow> cmp_sorted cmp x xs \<and> cmp_sorted cmp x ys \<and>
     (\<forall>a \<in> set xs. \<forall>b \<in> set ys. sgn (cmp x b) \<le> sgn (cmp x a))"
  by (simp add: cmp_sorted_def sorted_wrt_append)

lemma cmp_sorted_Cons:
  "cmp_sorted cmp x (a # xs) \<longleftrightarrow> cmp_sorted cmp x xs \<and> (\<forall>b \<in> set xs. sgn (cmp x b) \<le> sgn (cmp x a))"
  by (auto simp: cmp_sorted_def)

lemma sgn_le_pos: "sgn a \<le> sgn (b :: int) \<Longrightarrow> 0 < a \<Longrightarrow> 0 < b"
  by (auto simp: sgn_if split: if_splits)

lemma sgn_le_neg: "sgn a \<le> sgn (b :: int) \<Longrightarrow> b < 0 \<Longrightarrow> a < 0"
  by (auto simp: sgn_if split: if_splits)

lemma path_parts:
  "cmp_sorted cmp x (lpart fs @ rpart fs) \<Longrightarrow> \<forall>f \<in> set fs. on_path cmp x f \<Longrightarrow>
     (\<forall>a \<in> set (lpart fs). 0 < cmp x a) \<and> (\<forall>b \<in> set (rpart fs). cmp x b < 0)"
proof (induction fs rule: lpart.induct)
  case 1
  then show ?case by simp
next
  case (2 d e b s sib fs)
  have rest: "cmp_sorted cmp x (lpart fs @ rpart fs)"
    using "2.prems"(1) by (cases d) (simp_all add: cmp_sorted_append cmp_sorted_Cons)
  with 2 have IH: "(\<forall>a \<in> set (lpart fs). 0 < cmp x a) \<and> (\<forall>b \<in> set (rpart fs). cmp x b < 0)" by simp
  show ?case
  proof (cases d)
    case D0
    then have "cmp x e < 0" "\<forall>a \<in> set (inorder sib). sgn (cmp x a) \<le> sgn (cmp x e)"
      using "2.prems" by (simp_all add: cmp_sorted_append cmp_sorted_Cons)
    then have "\<forall>a \<in> set (inorder sib). cmp x a < 0" by (meson sgn_le_neg)
    with IH D0 \<open>cmp x e < 0\<close> show ?thesis by auto
  next
    case D1
    then have "0 < cmp x e" "\<forall>a \<in> set (inorder sib). sgn (cmp x e) \<le> sgn (cmp x a)"
      using "2.prems" by (simp_all add: cmp_sorted_append cmp_sorted_Cons)
    then have "\<forall>a \<in> set (inorder sib). 0 < cmp x a" by (meson sgn_le_pos)
    with IH D1 \<open>0 < cmp x e\<close> show ?thesis by auto
  qed
qed

lemma descend_path:
  "descend cmp x t path = Some (Inr p) \<Longrightarrow>
     \<exists>q. p = q @ path \<and> plug q Null = t \<and> (\<forall>f \<in> set q. on_path cmp x f)"
proof (induction cmp x t path rule: descend.induct)
  case (1 cmp x path)
  then show ?case by simp
next
  case (2 cmp x l e b s r path)
  consider "0 < cmp x e" | "cmp x e < 0"
    using "2.prems" by (cases "cmp x e" "0 :: int" rule: linorder_cases) (auto simp: Let_def split: if_splits)
  then show ?case
  proof cases
    case 1
    with 2 obtain q where "p = q @ Frame D1 e b s l # path" "plug q Null = r" "\<forall>f \<in> set q. on_path cmp x f"
      by (auto simp: Let_def split: if_splits)
    with 1 show ?thesis by (intro exI [of _ "q @ [Frame D1 e b s l]"]) (auto simp: plug_append)
  next
    case 2
    with "2.IH" "2.prems" obtain q where "p = q @ Frame D0 e b s r # path" "plug q Null = l" "\<forall>f \<in> set q. on_path cmp x f"
      by (auto simp: Let_def split: if_splits)
    with 2 show ?thesis by (intro exI [of _ "q @ [Frame D0 e b s r]"]) (auto simp: plug_append)
  qed
qed

lemma descend_found:
  "descend cmp x t path = Some (Inl v) \<Longrightarrow> v \<in> set (inorder t) \<and> cmp x v = 0"
  by (induction cmp x t path rule: descend.induct) (auto simp: Let_def split: if_splits)

lemma descend_depth:
  "length path + height t \<le> KAVL_MAX_DEPTH \<Longrightarrow> descend cmp x t path \<noteq> None"
  by (induction cmp x t path rule: descend.induct) (auto simp: Let_def)

section \<open>What insertion does\<close>

lemma wf_bal_inner:
  "wf_bal (a @ b) h \<Longrightarrow> wf_bal a h \<and> (\<forall>t. height t = h \<longrightarrow> wf_bal b (height (plug a t)))"
proof (induction a arbitrary: h)
  case Nil
  then show ?case by simp
next
  case (Cons f fs)
  obtain d e b' s sib where f: "f = Frame d e b' s sib" by (cases f)
  have "height (plug1 f t) = max (height t) (height sib) + 1" for t
    using f by (cases d) auto
  with Cons f show ?case by auto
qed

lemma wf_size_inner:
  "wf_size (a @ b) n \<Longrightarrow> wf_size a n \<and> (\<forall>t. count t = n \<longrightarrow> wf_size b (count (plug a t)))"
proof (induction a arbitrary: n)
  case Nil
  then show ?case by simp
next
  case (Cons f fs)
  obtain d e b' s sib where f: "f = Frame d e b' s sib" by (cases f)
  have "count (plug1 f t) = count t + count sib + 1" for t
    using f by (cases d) auto
  with Cons f show ?case by auto
qed

lemma count_plug_bal: "count (plug (map bump_bal fs) t) = count (plug fs t)"
  by (simp add: count_def inorder_plug parts_map)

lemma inorder_plug_bal: "inorder (plug (map bump_bal fs) t) = inorder (plug fs t)"
  by (simp add: inorder_plug parts_map)

lemma plug_snoc: "plug (a @ [f]) t = plug1 f (plug a t)"
  by (simp add: plug_append)

lemma rebalance_path:
  assumes sp: "split_bp fs = (inner, outer)" and wf: "wf_bal fs 0" "wf_size fs 1" and ne: "fs \<noteq> []"
    and leaf: "leaf = Node Null x 0 1 Null"
  shows "\<exists>bp. rebalance_ins (plug (map bump_bal inner) leaf) = Some bp \<and>
    avl (plug outer bp) \<and> inorder (plug outer bp) = lpart fs @ x # rpart fs"
proof -
  note props = split_bp_props [OF sp]
  then have fs: "fs = inner @ outer" by simp
  have l: "avl leaf" "height leaf = 0 + 1" "count leaf = 1" "inorder leaf = [x]"
    by (simp_all add: leaf)
  have wi: "wf_bal inner 0" "wf_size inner 1" using wf fs wf_bal_inner wf_size_inner by blast+
  have wo: "wf_bal outer (height (plug inner Null))" "wf_size outer (count (plug inner leaf))"
    using wf fs wf_bal_inner [of inner outer 0] wf_size_inner [of inner outer 1] l(3) by auto
  from props consider (zero) "\<forall>f \<in> set inner. fbal f = 0" "outer = []"
    | (top) zs f where "inner = zs @ [f]" "fbal f \<noteq> 0" "\<forall>f \<in> set zs. fbal f = 0" by blast
  then show ?thesis
  proof cases
    case zero
    have av: "avl (plug (map bump_bal inner) leaf)"
      using bump_inner [OF zero(1) wi l(1-3)] by blast
    moreover have "plug (map bump_bal inner) leaf \<noteq> Null"
    proof
      assume "plug (map bump_bal inner) leaf = Null"
      then have "inorder (plug (map bump_bal inner) leaf) = []" by simp
      then show False by (simp add: inorder_plug l)
    qed
    ultimately have "\<bar>bal (plug (map bump_bal inner) leaf)\<bar> \<le> 1"
      by (cases "plug (map bump_bal inner) leaf") auto
    then show ?thesis
      using av zero(2) fs by (auto simp: rebalance_ins_def inorder_plug parts_map l)
  next
    case top
    obtain d e b s sib where f: "f = Frame d e b s sib" by (cases f)
    let ?t1 = "plug (map bump_bal zs) leaf" and ?h = "height (plug zs Null)"
    have wz: "wf_bal zs 0" "wf_size zs 1" "wf_bal [f] ?h" "wf_size [f] (count (plug zs leaf))"
      using wi wf_bal_inner [of zs "[f]" 0] wf_size_inner [of zs "[f]" 1] l(3) top(1) by auto
    note B = bump_inner [OF top(3) wz(1,2) l(1-3)]
    have b: "lean d b = int (height sib) - int ?h" "\<bar>b\<bar> \<le> 1" "avl sib" "s = of_nat (count ?t1 + count sib + 1)"
      using wz(3,4) f by (cases d; auto simp: lean_def count_plug_bal)+
    have "?h \<noteq> 0 \<Longrightarrow> zs \<noteq> []" by auto
    then obtain r where r: "rebalance_ins (plug1 (bump_bal (Frame d e b s sib)) ?t1) = Some r" "avl r"
      "height r = max ?h (height sib) + 1" "inorder r = inorder (node_at d ?t1 e b s sib)"
      using bump_top [of ?t1 ?h d b sib s e] B b top(2) f by auto
    have "height (plug inner Null) = height r" "count (plug inner leaf) = count r" "inorder r = inorder (plug inner leaf)"
      using r(3,4) top(1) f by (auto simp: plug_snoc count_def) (cases d; simp add: inorder_plug_bal)+
    moreover from this(3) have "inorder (plug outer r) = lpart fs @ x # rpart fs"
      unfolding fs by (simp add: inorder_plug parts_append l)
    ultimately show ?thesis
      using r(1,2) wo f top(1) by (intro exI [of _ r]) (simp add: plug_snoc avl_plug)
  qed
qed

theorem kavl_insert_cases:
  assumes inv: "avl root" and depth: "height root \<le> KAVL_MAX_DEPTH"
    and ord: "cmp_sorted cmp x (inorder root)"
  shows "(\<exists>v. kavl_insert cmp root x = Some (root, v) \<and> v \<in> set (inorder root) \<and> cmp x v = 0) \<or>
    (\<exists>t xs ys. kavl_insert cmp root x = Some (t, x) \<and> avl t \<and> inorder root = xs @ ys \<and>
       inorder t = xs @ x # ys \<and> (\<forall>a \<in> set xs. 0 < cmp x a) \<and> (\<forall>b \<in> set ys. cmp x b < 0))"
proof -
  obtain res where res: "descend cmp x root [] = Some res"
    using descend_depth [of "[]" root cmp x] depth by auto
  show ?thesis
  proof (cases res)
    case (Inl v)
    with res show ?thesis by (auto simp: kavl_insert_def dest: descend_found)
  next
    case (Inr p)
    from descend_path [OF res [unfolded Inr]]
    have p: "root = plug p Null" "\<forall>f \<in> set p. on_path cmp x f" by auto
    then have io: "inorder root = lpart p @ rpart p" by (simp add: inorder_plug)
    note parts = path_parts [OF ord [unfolded io] p(2)]
    let ?leaf = "Node Null x 0 1 Null"
    show ?thesis
    proof (cases "p = []")
      case True
      with res Inr p show ?thesis by (auto simp: kavl_insert_def)
    next
      case False
      obtain inner outer where sp: "split_bp (map bump_size p) = (inner, outer)" by (cases "split_bp (map bump_size p)")
      have "wf_bal (map bump_size p) 0" "wf_size (map bump_size p) 1"
        using inv p(1) wf_size_bump [of p 0] by (auto simp: avl_plug wf_bal_map)
      from rebalance_path [OF sp this _ refl] False obtain bp where
        "rebalance_ins (plug (map bump_bal inner) ?leaf) = Some bp"
        "avl (plug outer bp)" "inorder (plug outer bp) = lpart p @ x # rpart p"
        by (auto simp: parts_map)
      with res Inr False sp io parts show ?thesis
        by (intro disjI2 exI [of _ "plug outer bp"] exI [of _ "lpart p"] exI [of _ "rpart p"])
           (auto simp: kavl_insert_def)
    qed
  qed
qed

section \<open>What find does\<close>

theorem kavl_find_cases:
  assumes "cmp_sorted cmp x (inorder t)"
  shows "(case kavl_find cmp t x of Some v \<Rightarrow> v \<in> set (inorder t) \<and> cmp x v = 0
          | None \<Rightarrow> (\<forall>v \<in> set (inorder t). cmp x v \<noteq> 0))"
  using assms
proof (induction t)
  case Null
  then show ?case by simp
next
  case (Node l e b s r)
  have ord: "cmp_sorted cmp x (inorder l)" "cmp_sorted cmp x (inorder r)"
    "\<forall>v \<in> set (inorder l). sgn (cmp x e) \<le> sgn (cmp x v)" "\<forall>v \<in> set (inorder r). sgn (cmp x v) \<le> sgn (cmp x e)"
    using Node.prems by (simp_all add: cmp_sorted_append cmp_sorted_Cons)
  consider "cmp x e = 0" | "cmp x e < 0" | "0 < cmp x e" by linarith
  then show ?case
  proof cases
    case 1
    then show ?thesis by simp
  next
    case 2
    have "\<forall>v \<in> set (inorder r). cmp x v < 0" using ord(4) 2 by (meson sgn_le_neg)
    with Node.IH(1) [OF ord(1)] 2 show ?thesis by (auto simp: Let_def split: option.splits)
  next
    case 3
    have "\<forall>v \<in> set (inorder l). 0 < cmp x v" using ord(3) 3 by (meson sgn_le_pos)
    with Node.IH(2) [OF ord(2)] 3 show ?thesis by (auto simp: Let_def split: option.splits)
  qed
qed

section \<open>Heights\<close>

fun out_height :: "'a frame list \<Rightarrow> nat \<Rightarrow> nat" where
  "out_height [] h = h"
| "out_height (Frame d e b s sib # fs) h = out_height fs (max h (height sib) + 1)"

fun out_count :: "'a frame list \<Rightarrow> nat \<Rightarrow> nat" where
  "out_count [] n = n"
| "out_count (Frame d e b s sib # fs) n = out_count fs (n + count sib + 1)"

lemma height_plug: "height (plug fs t) = out_height fs (height t)"
proof (induction fs arbitrary: t)
  case (Cons f fs)
  obtain d e b s sib where "f = Frame d e b s sib" by (cases f)
  with Cons show ?case by (cases d) (auto simp: max.commute)
qed simp

lemma count_plug: "count (plug fs t) = out_count fs (count t)"
proof (induction fs arbitrary: t)
  case (Cons f fs)
  obtain d e b s sib where "f = Frame d e b s sib" by (cases f)
  with Cons show ?case by (cases d) (auto simp: add.commute add.left_commute)
qed simp

lemma wf_bal_append: "wf_bal (a @ b) h \<longleftrightarrow> wf_bal a h \<and> wf_bal b (out_height a h)"
  by (induction a h rule: out_height.induct) auto

lemma wf_size_append: "wf_size (a @ b) n \<longleftrightarrow> wf_size a n \<and> wf_size b (out_count a n)"
  by (induction a n rule: out_count.induct) auto

lemma out_map_drop:
  "out_height (map drop_size fs) h = out_height fs h" "out_count (map drop_size fs) n = out_count fs n"
  by (induction fs arbitrary: h n rule: lpart.induct) auto

lemma out_count_Suc: "out_count fs (Suc n) = Suc (out_count fs n)"
  by (induction fs n rule: out_count.induct) auto

lemma avl_height_count: "avl t \<Longrightarrow> 2 ^ (height t div 2) \<le> count t + 1"
proof (induction t)
  case Null
  then show ?case by simp
next
  case (Node l e b s r)
  let ?h = "height (Node l e b s r)"
  have "?h \<le> height l + 2" "?h \<le> height r + 2" using Node.prems by auto
  moreover obtain h where h: "height (Node l e b s r) = h" by simp
  ultimately have "h div 2 - 1 \<le> height l div 2" "h div 2 - 1 \<le> height r div 2" by linarith+
  then have "(2 :: nat) ^ (h div 2 - 1) \<le> 2 ^ (height l div 2)" "(2 :: nat) ^ (h div 2 - 1) \<le> 2 ^ (height r div 2)"
    by (simp_all add: power_increasing)
  moreover have "2 ^ (height l div 2) \<le> count l + 1" "2 ^ (height r div 2) \<le> count r + 1"
    using Node by auto
  moreover have "(2 :: nat) ^ (h div 2) \<le> 2 * 2 ^ (h div 2 - 1)"
    by (cases "h div 2") simp_all
  moreover have "count (Node l e b s r) = count l + count r + 1" by simp
  ultimately show ?case unfolding h by linarith
qed

text \<open>The arrays are long enough for every tree of fewer than \<open>2^32 - 1\<close> nodes.\<close>

lemma avl_depth:
  assumes "avl t" "count t + 1 < 2 ^ 32"
  shows "height t < KAVL_MAX_DEPTH"
proof (rule ccontr)
  assume "\<not> height t < KAVL_MAX_DEPTH"
  then have "32 \<le> height t div 2" by (simp add: KAVL_MAX_DEPTH_def)
  then have "(2 :: nat) ^ 32 \<le> 2 ^ (height t div 2)" by (rule power_increasing) simp
  also have "\<dots> \<le> count t + 1" using avl_height_count [OF assms(1)] .
  finally show False using assms(2) by simp
qed

section \<open>Erase\<close>

lemma retrace_ok:
  "avl t \<Longrightarrow> wf_bal fs (height t + 1) \<Longrightarrow> wf_size fs (count t) \<Longrightarrow>
     \<exists>r. retrace fs t = Some r \<and> avl r \<and> inorder r = lpart fs @ inorder t @ rpart fs"
proof (induction fs arbitrary: t)
  case Nil
  then show ?case by simp
next
  case (Cons f fs)
  obtain d e b s sib where f: "f = Frame d e b s sib" by (cases f)
  let ?b1 = "lean d 1"
  let ?q = "node_at d t e (b + ?b1) s sib"
  have b1: "(if d = D1 then - 1 else 1) = ?b1" "(if d = D1 then - 2 else 2) = lean d 2"
    by (cases d; simp add: lean_def)+
  have wf: "lean d b = int (height sib) - int (height t + 1)" "\<bar>b\<bar> \<le> 1" "avl sib"
    "wf_bal fs (max (height t + 1) (height sib) + 1)" "s = of_nat (count t + count sib + 1)"
    "wf_size fs (count t + count sib + 1)"
    using Cons.prems f by (cases d; simp add: lean_def)+
  have inq: "lpart (f # fs) @ inorder t @ rpart (f # fs) = lpart fs @ inorder ?q @ rpart fs"
    using f by (cases d) auto
  have go: "\<exists>r. retrace fs q = Some r \<and> avl r \<and> inorder r = lpart (f # fs) @ inorder t @ rpart (f # fs)"
    if "avl q" "height q = max (height t + 1) (height sib)" "inorder q = inorder ?q" for q
  proof -
    have "count q = count t + count sib + 1" using that(3) by (metis count_def count_node_at)
    with Cons.IH [of q] that wf inq show ?thesis by simp
  qed
  have stop: "avl (plug fs q) \<and> inorder (plug fs q) = lpart (f # fs) @ inorder t @ rpart (f # fs)"
    if "avl q" "height q = max (height t + 1) (height sib) + 1" "inorder q = inorder ?q" for q
  proof -
    have "count q = count t + count sib + 1" using that(3) by (metis count_def count_node_at)
    with that wf inq show ?thesis by (simp add: avl_plug inorder_plug)
  qed
  have "b = 0 \<or> lean d b = - 1 \<or> lean d b = 1" using wf(2) by (cases d) (auto simp: lean_def)
  then consider "b = 0" | "lean d b = - 1" | "lean d b = 1" by blast
  then show ?case
  proof cases
    case 1
    have "avl ?q" "height ?q = max (height t + 1) (height sib) + 1"
      using 1 wf Cons.prems(1) by (auto simp: avl_node_at)
    from stop [OF this] 1 f show ?thesis by (simp add: b1 Let_def)
  next
    case 2
    then have "b + ?b1 = 0" "?b1 \<noteq> 0" by (cases d; simp add: lean_def)+
    moreover have "avl ?q" "height ?q = max (height t + 1) (height sib)"
      using 2 wf Cons.prems(1) \<open>b + ?b1 = 0\<close> by (auto simp: avl_node_at)
    ultimately show ?thesis using go [of ?q] f by (simp add: b1 Let_def) (cases d; simp add: lean_def)
  next
    case 3
    then have b: "b + ?b1 = lean d 2" "lean d 2 \<noteq> ?b1" by (cases d; simp add: lean_def)+
    have hs: "height sib = height t + 2" using 3 wf(1) by simp
    then have "sib \<noteq> Null" by auto
    then obtain x y where sib: "sib = node_at d x (key sib) (bal sib) (sz sib) y" by (rule node_at_cases)
    define e' b' s' where "e' = key sib" and "b' = bal sib" and "s' = sz sib"
    with sib have sib: "sib = node_at d x e' b' s' y" by simp
    have aq: "avl (node_at d x e' b' s' y)" using wf(3) sib by simp
    have cs: "s = of_nat (count t + count x + count y + 2)" using wf(5) sib by simp
    have hh: "max (height x) (height y) + 1 = height t + 2" using hs sib by simp
    have "b' = 0 \<or> lean d b' = 1 \<or> lean d b' = - 1"
      using aq by (cases d) (auto simp: avl_node_at lean_def)
    then consider "lean d b' = - 1" | "b' = 0" | "lean d b' = 1" by blast
    then show ?thesis
    proof cases
      case 1
      then have bb: "b' = - ?b1" by (cases d; simp add: lean_def)
      from rotate2_repairs [OF aq Cons.prems(1) cs hh 1] obtain q where q:
        "kavl_rotate2 (node_at d t e (b + ?b1) s sib) d = Some q" "avl q" "height q = height t + 2"
        "inorder q = inorder ?q" unfolding sib by blast
      with go [of q] f b bb hs sib show ?thesis by (simp add: b1 Let_def)
    next
      case 2
      then have bb: "b' \<noteq> - ?b1" by (cases d; simp add: lean_def)
      from rotate1_level [OF aq [unfolded 2] Cons.prems(1) cs hh] obtain q where q:
        "kavl_rotate1 (node_at d t e (b + ?b1) s sib) d = Some q"
        "avl (set_bal (- ?b1) (set_child_bal d ?b1 q))"
        "height (set_bal (- ?b1) (set_child_bal d ?b1 q)) = height t + 3"
        "inorder (set_bal (- ?b1) (set_child_bal d ?b1 q)) = inorder ?q"
        unfolding sib 2 by (metis lean_simps(2))
      with stop [of "set_bal (- ?b1) (set_child_bal d ?b1 q)"] f b bb hs sib 2 show ?thesis
        by (simp add: b1 Let_def)
    next
      case 3
      then have bb: "b' \<noteq> - ?b1" "b' \<noteq> 0" by (cases d; simp add: lean_def)+
      from rotate1_repairs [OF aq Cons.prems(1) cs hh 3] obtain q where q:
        "kavl_rotate1 (node_at d t e (b + ?b1) s sib) d = Some q"
        "avl (set_bal 0 (set_child_bal d 0 q))" "height (set_bal 0 (set_child_bal d 0 q)) = height t + 2"
        "inorder (set_bal 0 (set_child_bal d 0 q)) = inorder ?q" unfolding sib by blast
      with go [of "set_bal 0 (set_child_bal d 0 q)"] f b bb hs sib show ?thesis
        by (simp add: b1 Let_def)
    qed
  qed
qed

lemma locate_found:
  "locate cmp x t fs = Some (Inr (p, gs)) \<Longrightarrow> plug gs p = plug fs t \<and> p \<noteq> Null \<and> cmp x (key p) = 0 \<and>
     length gs + height p \<le> length fs + height t"
  by (induction t arbitrary: fs) (fastforce simp: Let_def split: if_splits)+

lemma locate_none:
  "locate cmp x t fs = Some (Inl ()) \<Longrightarrow> cmp_sorted cmp x (inorder t) \<Longrightarrow> \<forall>v \<in> set (inorder t). cmp x v \<noteq> 0"
proof (induction t arbitrary: fs)
  case Null
  then show ?case by simp
next
  case (Node l e b s r)
  have ord: "cmp_sorted cmp x (inorder l)" "cmp_sorted cmp x (inorder r)"
    "\<forall>v \<in> set (inorder l). sgn (cmp x e) \<le> sgn (cmp x v)" "\<forall>v \<in> set (inorder r). sgn (cmp x v) \<le> sgn (cmp x e)"
    using Node.prems(2) by (simp_all add: cmp_sorted_append cmp_sorted_Cons)
  consider "cmp x e = 0" | "cmp x e < 0" | "0 < cmp x e" by linarith
  then show ?case
  proof cases
    case 1
    then show ?thesis using Node.prems by simp
  next
    case 2
    have "\<forall>v \<in> set (inorder r). cmp x v < 0" using ord(4) 2 by (meson sgn_le_neg)
    with Node.IH(1) [OF _ ord(1)] Node.prems(1) 2 show ?thesis by (fastforce simp: Let_def split: if_splits)
  next
    case 3
    have "\<forall>v \<in> set (inorder l). 0 < cmp x v" using ord(3) 3 by (meson sgn_le_pos)
    with Node.IH(2) [OF _ ord(2)] Node.prems(1) 3 show ?thesis by (fastforce simp: Let_def split: if_splits)
  qed
qed

lemma locate_depth:
  "length fs + height t < KAVL_MAX_DEPTH \<Longrightarrow> locate cmp x t fs \<noteq> None"
  by (induction t arbitrary: fs) (auto simp: Let_def)

lemma locate_first_ok:
  "t \<noteq> Null \<Longrightarrow> length fs + height t < KAVL_MAX_DEPTH \<Longrightarrow>
     \<exists>p gs. locate_first t fs = Some (p, gs @ fs) \<and> plug gs p = t \<and> p \<noteq> Null \<and> left p = Null \<and>
       lpart gs = [] \<and> length (gs @ fs) + height p \<le> length fs + height t"
proof (induction t arbitrary: fs)
  case Null
  then show ?case by simp
next
  case (Node l e b s r)
  show ?case
  proof (cases "l = Null")
    case True
    with Node.prems show ?thesis by (auto intro!: exI [of _ "[]"])
  next
    case False
    have "length (Frame D0 e b s r # fs) + height l < KAVL_MAX_DEPTH" using Node.prems by auto
    from Node.IH(1) [OF False this] obtain p gs where
      "locate_first l (Frame D0 e b s r # fs) = Some (p, gs @ Frame D0 e b s r # fs)" "plug gs p = l"
      "p \<noteq> Null" "left p = Null" "lpart gs = []"
      "length (gs @ Frame D0 e b s r # fs) + height p \<le> length (Frame D0 e b s r # fs) + height l" by blast
    with False Node.prems show ?thesis
      by (intro exI [of _ p] exI [of _ "gs @ [Frame D0 e b s r]"]) (auto simp: plug_append parts_append)
  qed
qed

text \<open>The successor below a right child, and the frames down to it.\<close>

lemma leftmost_ok:
  "t \<noteq> Null \<Longrightarrow> k + height t \<le> KAVL_MAX_DEPTH + 1 \<Longrightarrow>
     \<exists>r gs. leftmost t k acc = Some (r, gs @ acc) \<and> plug gs r = t \<and> r \<noteq> Null \<and> left r = Null \<and> lpart gs = []"
proof (induction t arbitrary: k acc)
  case Null
  then show ?case by simp
next
  case (Node l e b s r)
  show ?case
  proof (cases "l = Null")
    case True
    then show ?thesis by (auto intro!: exI [of _ "[]"])
  next
    case False
    then have "1 \<le> height l" by (cases l) auto
    have "k + 1 + height l \<le> KAVL_MAX_DEPTH + 1" using Node.prems by auto
    from Node.IH(1) [OF False this] obtain p gs where
      "leftmost l (k + 1) (Frame D0 e b s r # acc) = Some (p, gs @ Frame D0 e b s r # acc)" "plug gs p = l"
      "p \<noteq> Null" "left p = Null" "lpart gs = []" by blast
    with False Node.prems \<open>1 \<le> height l\<close> show ?thesis
      by (intro exI [of _ p] exI [of _ "gs @ [Frame D0 e b s r]"]) (auto simp: plug_append parts_append)
  qed
qed

lemma wf_bal_drop: "wf_bal (map drop_size fs) h = wf_bal fs h"
  by (rule wf_bal_map)

lemma unlink_ok:
  assumes p: "p \<noteq> Null" "avl p" and wf: "wf_bal fs (height p)" "wf_size fs (count p - 1)"
    and depth: "length fs + height p < KAVL_MAX_DEPTH"
  shows "\<exists>t gs. unlink p fs = Some (t, gs) \<and> avl t \<and> wf_bal gs (height t + 1) \<and> wf_size gs (count t) \<and>
    lpart gs @ inorder t @ rpart gs = lpart fs @ inorder (left p) @ inorder (right p) @ rpart fs"
proof -
  obtain l e b s r where pe: "p = Node l e b s r" using p by (cases p) auto
  note hp = p(2) [unfolded pe, simplified]
  show ?thesis
  proof (cases r)
    case Null
    then have "height l \<le> 1" using hp by auto
    then show ?thesis using hp wf pe Null by (cases "height l") (auto simp: unlink_def)
  next
    case (Node ql qe qb qs qr)
    show ?thesis
    proof (cases "ql = Null")
      case True
      then have "qr = Null \<or> height qr = 1" using hp Node by (cases "height qr") auto
      with True hp wf pe Node depth show ?thesis
        by (auto simp: unlink_def max.commute add.commute add.left_commute)
    next
      case False
      have "1 \<le> height ql" using False by (cases ql) auto
      have "length fs + 2 + height r \<le> KAVL_MAX_DEPTH + 1" using depth pe by simp
      with leftmost_ok [of r "length fs + 2" "[]"] Node obtain x gs where g:
        "leftmost r (length fs + 2) [] = Some (x, gs)" "plug gs x = r" "x \<noteq> Null" "left x = Null" "lpart gs = []"
        by auto
      obtain xk xb xs xr where x: "x = Node Null xk xb xs xr" using g by (cases x) auto
      have ax: "avl x" "wf_bal gs (height x)" "wf_size gs (count x)" using hp g(2) by (auto simp: avl_plug)
      then have xr: "avl xr" "height x = height xr + 1" "count x = count xr + 1" using x by auto
      have hr: "height r = out_height gs (height xr + 1)" "count r = Suc (out_count gs (count xr))"
        using g(2) xr by (auto simp: height_plug count_plug out_count_Suc [symmetric] simp del: out_count.simps)
      have ir: "inorder r = xk # inorder xr @ rpart gs" using g x by (auto simp: inorder_plug)
      let ?gs = "map drop_size gs @ Frame D1 xk b (s - 1) l # fs"
      have "unlink p fs = Some (xr, ?gs)"
        using g(1) pe Node False depth x by (auto simp: unlink_def)
      moreover have "wf_bal ?gs (height xr + 1)"
        using ax(2) xr(2) hr(1) hp wf(1) unfolding pe
        by (auto simp: wf_bal_append wf_bal_map out_map_drop max.commute)
      moreover have "wf_size ?gs (count xr)"
        using ax xr hr hp wf pe wf_size_drop [of gs "count xr"]
        by (simp add: wf_size_append out_map_drop add.commute add.left_commute)
      ultimately show ?thesis
        using xr(1) g(5) ir pe by (intro exI [of _ xr] exI [of _ ?gs]) (simp add: parts_append parts_map)
    qed
  qed
qed

lemma erase_at_ok:
  assumes inv: "avl (plug fs p)" and p: "p \<noteq> Null" and depth: "length fs + height p < KAVL_MAX_DEPTH"
  shows "\<exists>t. erase_at p fs = Some (t, key p) \<and> avl t \<and>
    inorder t = (lpart fs @ inorder (left p)) @ inorder (right p) @ rpart fs \<and>
    inorder (plug fs p) = (lpart fs @ inorder (left p)) @ key p # inorder (right p) @ rpart fs"
proof -
  from inv have wf: "avl p" "wf_bal fs (height p)" "wf_size fs (count p)" by (simp_all add: avl_plug)
  obtain n where n: "count p = Suc n" using p by (cases p) auto
  have "wf_bal (map drop_size fs) (height p)" "wf_size (map drop_size fs) (count p - 1)"
    using wf n wf_size_drop [of fs n] by (simp_all add: wf_bal_map)
  from unlink_ok [OF p wf(1) this] depth obtain t gs where t: "unlink p (map drop_size fs) = Some (t, gs)"
    "avl t" "wf_bal gs (height t + 1)" "wf_size gs (count t)"
    "lpart gs @ inorder t @ rpart gs = lpart fs @ inorder (left p) @ inorder (right p) @ rpart fs"
    by (auto simp: parts_map)
  from retrace_ok [OF t(2-4)] obtain r where "retrace gs t = Some r" "avl r" "inorder r = lpart gs @ inorder t @ rpart gs"
    by blast
  with t p show ?thesis by (cases p) (auto simp: erase_at_def inorder_plug)
qed

lemma kavl_erase_cases:
  assumes inv: "avl root" and depth: "height root < KAVL_MAX_DEPTH"
    and ord: "cmp_sorted cmp x (inorder root)"
  shows "(kavl_erase cmp root x = Some (root, None) \<and> (\<forall>v \<in> set (inorder root). cmp x v \<noteq> 0)) \<or>
    (\<exists>t v xs ys. kavl_erase cmp root x = Some (t, Some v) \<and> cmp x v = 0 \<and> avl t \<and>
       inorder root = xs @ v # ys \<and> inorder t = xs @ ys)"
proof -
  obtain res where res: "locate cmp x root [] = Some res"
    using locate_depth [of "[]" root cmp x] depth by auto
  show ?thesis
  proof (cases res)
    case (Inl u)
    with res ord show ?thesis using locate_none [of cmp x root "[]"] by (auto simp: kavl_erase_def)
  next
    case (Inr q)
    obtain p fs where q: "q = (p, fs)" by (cases q)
    from locate_found [OF res [unfolded Inr q]]
    have f: "root = plug fs p" "p \<noteq> Null" "cmp x (key p) = 0" "length fs + height p \<le> height root" by auto
    with inv depth erase_at_ok [of fs p] obtain t where
      "erase_at p fs = Some (t, key p)" "avl t"
      "inorder t = (lpart fs @ inorder (left p)) @ inorder (right p) @ rpart fs"
      "inorder root = (lpart fs @ inorder (left p)) @ key p # inorder (right p) @ rpart fs" by auto
    with res Inr q f(3) show ?thesis
      by (intro disjI2 exI [of _ t] exI [of _ "key p"] exI [of _ "lpart fs @ inorder (left p)"]
          exI [of _ "inorder (right p) @ rpart fs"]) (simp add: kavl_erase_def)
  qed
qed

lemma kavl_erase_first_cases:
  assumes "avl root" "height root < KAVL_MAX_DEPTH" "root \<noteq> Null"
  shows "\<exists>t v. kavl_erase_first root = Some (t, v) \<and> avl t \<and> inorder root = v # inorder t"
proof -
  from locate_first_ok [of root "[]"] assms obtain p fs where f: "locate_first root [] = Some (p, fs)"
    "plug fs p = root" "p \<noteq> Null" "left p = Null" "lpart fs = []" "length fs + height p \<le> height root" by auto
  with assms erase_at_ok [of fs p] show ?thesis by (auto simp: kavl_erase_first_def)
qed

section \<open>Iteration\<close>

text \<open>The elements that an iterator has still to visit, its current one first.\<close>

fun to_visit :: "'a kt list \<Rightarrow> 'a list" where
  "to_visit [] = []"
| "to_visit (t # stack) = (case t of Null \<Rightarrow> [] | Node l e b s r \<Rightarrow> e # inorder r) @ to_visit stack"

text \<open>
  The stack holds ancestors: an entry above \<open>k\<close> others is at least that deep in the tree, so the array is
  never longer than the tree is high.
\<close>

fun stack_fits :: "nat \<Rightarrow> 'a kt list \<Rightarrow> bool" where
  "stack_fits h [] \<longleftrightarrow> True"
| "stack_fits h (t # stack) \<longleftrightarrow> t \<noteq> Null \<and> length stack + height t \<le> h \<and> stack_fits h stack"

lemma push_itr_fits:
  "t \<noteq> Null \<Longrightarrow> length stack + height t \<le> KAVL_MAX_DEPTH \<Longrightarrow> push_itr t stack = Some (t # stack)"
  by (cases t) (auto simp: push_itr_def)

lemma push_left_fits:
  "stack_fits h stack \<Longrightarrow> length stack + height t \<le> h \<Longrightarrow> h \<le> KAVL_MAX_DEPTH \<Longrightarrow>
    \<exists>stack'. push_left t stack = Some stack' \<and> stack_fits h stack' \<and> to_visit stack' = inorder t @ to_visit stack"
proof (induction t arbitrary: stack)
  case Null
  then show ?case by simp
next
  case (Node l e b s r)
  have "push_itr (Node l e b s r) stack = Some (Node l e b s r # stack)" using Node.prems by (intro push_itr_fits) auto
  moreover have "stack_fits h (Node l e b s r # stack)" "length (Node l e b s r # stack) + height l \<le> h"
    using Node.prems by auto
  ultimately show ?case using Node.IH(1) [of "Node l e b s r # stack"] Node.prems(3) by auto
qed

definition itr_ok :: "nat \<Rightarrow> 'a kt list \<times> 'a kt \<Rightarrow> bool" where
  "itr_ok h itr \<longleftrightarrow> (\<exists>p stack. itr = (p # stack, right p) \<and> stack_fits h (p # stack))"

definition itr_elems :: "'a kt list \<times> 'a kt \<Rightarrow> 'a list" where
  "itr_elems itr = to_visit (fst itr)"

lemma itr_next_cases:
  assumes "itr_ok h itr" and "h \<le> KAVL_MAX_DEPTH"
  shows "\<exists>e rest. itr_elems itr = e # rest \<and> e = key (hd (fst itr)) \<and>
    (kavl_itr_next itr = Some None \<and> rest = [] \<or>
     (\<exists>itr'. kavl_itr_next itr = Some (Some itr') \<and> itr_ok h itr' \<and> itr_elems itr' = rest))"
proof -
  from assms(1) obtain p stack where i: "itr = (p # stack, right p)" "stack_fits h (p # stack)"
    by (auto simp: itr_ok_def)
  obtain l e b s r where p: "p = Node l e b s r" using i by (cases p) auto
  have "stack_fits h stack" "length stack + height r \<le> h" using i(2) p by auto
  then obtain stack' where s: "push_left r stack = Some stack'" "stack_fits h stack'"
    "to_visit stack' = inorder r @ to_visit stack"
    using push_left_fits [of h stack r] assms(2) by blast
  then show ?thesis using i p by (cases stack') (auto simp: kavl_itr_next_def itr_elems_def itr_ok_def)
qed

lemma itr_first_cases:
  assumes "t \<noteq> Null" and "height t \<le> KAVL_MAX_DEPTH"
  shows "\<exists>itr. kavl_itr_first t = Some itr \<and> itr_ok (height t) itr \<and> itr_elems itr = inorder t"
proof -
  obtain stack where s: "push_left t [] = Some stack" "stack_fits (height t) stack" "to_visit stack = inorder t"
    using push_left_fits [of "height t" "[]" t] assms(2) by auto
  moreover obtain p ps where "stack = p # ps" using s(3) assms(1) by (cases stack; cases t) auto
  ultimately show ?thesis by (auto simp: kavl_itr_first_def itr_elems_def itr_ok_def)
qed

text \<open>Freeing the tree frees every element once, in order.\<close>

lemma kavl_free_all: "kavl_free t = inorder t"
  by (induction t rule: kavl_free.induct) simp_all

section \<open>Positioning an iterator\<close>

lemma sorted_parts:
  assumes "cmp_sorted cmp x (xs @ e # ys)"
  shows "cmp_sorted cmp x xs" "cmp_sorted cmp x ys" "cmp x e < 0 \<Longrightarrow> \<forall>b\<in>set ys. cmp x b < 0" "0 < cmp x e \<Longrightarrow> \<forall>a\<in>set xs. 0 < cmp x a"
proof -
  have s: "\<forall>b\<in>set ys. sgn (cmp x b) \<le> sgn (cmp x e)" "\<forall>a\<in>set xs. sgn (cmp x e) \<le> sgn (cmp x a)"
    using assms by (simp_all add: cmp_sorted_append cmp_sorted_Cons)
  show "cmp_sorted cmp x xs" "cmp_sorted cmp x ys" using assms by (simp_all add: cmp_sorted_append cmp_sorted_Cons)
  show "cmp x e < 0 \<Longrightarrow> \<forall>b\<in>set ys. cmp x b < 0" using s(1) sgn_le_neg by blast
  show "0 < cmp x e \<Longrightarrow> \<forall>a\<in>set xs. 0 < cmp x a" using s(2) sgn_le_pos by blast
qed

text \<open>Where a search that found nothing has left the elements: smaller ones passed, larger ones to come.\<close>

definition parted :: "('a \<Rightarrow> 'a \<Rightarrow> int) \<Rightarrow> 'a \<Rightarrow> 'a list \<Rightarrow> 'a list \<Rightarrow> bool" where
  "parted cmp x pre post \<longleftrightarrow> (cmp_sorted cmp x (pre @ post) \<longrightarrow> (\<forall>a\<in>set pre. 0 < cmp x a) \<and> (\<forall>b\<in>set post. cmp x b < 0))"

lemma itr_descend_ok:
  assumes "stack_fits h stack" "length stack + height t \<le> h" "h \<le> KAVL_MAX_DEPTH"
  shows "\<exists>p stack' pre post. itr_descend cmp x t stack = Some (p, stack') \<and> stack_fits h stack' \<and> inorder t = pre @ post \<and>
    (p \<noteq> Null \<longrightarrow> stack_fits h (p # stack')) \<and>
    to_visit (if p = Null then stack' else p # stack') = post @ to_visit stack \<and>
    (if p = Null then parted cmp x pre post else cmp x (key p) = 0)"
  using assms
proof (induction t arbitrary: stack)
  case Null
  then show ?case by (auto simp: parted_def)
next
  case (Node l e b s r)
  let ?t = "Node l e b s r"
  consider "cmp x e < 0" | "cmp x e > 0" | "cmp x e = 0" by linarith
  then show ?case
  proof cases
    case 1
    have p: "push_itr ?t stack = Some (?t # stack)" using Node.prems by (intro push_itr_fits) auto
    have "stack_fits h (?t # stack)" "length (?t # stack) + height l \<le> h" using Node.prems by auto
    from Node.IH(1) [OF this Node.prems(3)] obtain q stack' pre "post" where
      i: "itr_descend cmp x l (?t # stack) = Some (q, stack')" "stack_fits h stack'" "inorder l = pre @ post"
      "q \<noteq> Null \<longrightarrow> stack_fits h (q # stack')"
      "to_visit (if q = Null then stack' else q # stack') = post @ e # inorder r @ to_visit stack"
      "if q = Null then parted cmp x pre post else cmp x (key q) = 0" by auto
    have "parted cmp x pre (post @ e # inorder r)" if "parted cmp x pre post"
      using that 1 sorted_parts [of cmp x "pre @ post" e "inorder r"] by (auto simp: parted_def)
    then show ?thesis using i p 1
      by (intro exI [of _ q] exI [of _ stack'] exI [of _ pre] exI [of _ "post @ e # inorder r"]) (auto split: if_splits)
  next
    case 2
    have "length stack + height r \<le> h" using Node.prems by auto
    from Node.IH(2) [OF Node.prems(1) this Node.prems(3)] obtain q stack' pre "post" where
      i: "itr_descend cmp x r stack = Some (q, stack')" "stack_fits h stack'" "inorder r = pre @ post"
      "q \<noteq> Null \<longrightarrow> stack_fits h (q # stack')"
      "to_visit (if q = Null then stack' else q # stack') = post @ to_visit stack"
      "if q = Null then parted cmp x pre post else cmp x (key q) = 0" by auto
    have "parted cmp x (inorder l @ e # pre) post" if "parted cmp x pre post"
      using that 2 sorted_parts [of cmp x "inorder l" e "pre @ post"] by (auto simp: parted_def)
    then show ?thesis using i 2
      by (intro exI [of _ q] exI [of _ stack'] exI [of _ "inorder l @ e # pre"] exI [of _ "post"]) (auto split: if_splits)
  next
    case 3
    then have "itr_descend cmp x ?t stack = Some (?t, stack)" by simp
    then show ?thesis using 3 Node.prems
      by (intro exI [of _ ?t] exI [of _ stack] exI [of _ "inorder l"] exI [of _ "e # inorder r"]) simp
  qed
qed

text \<open>
  \<open>kavl_itr_find\<close> puts the iterator on an element that compares equal, or else on the first larger one; the
  iteration goes on from there.
\<close>

lemma itr_find_cases:
  assumes "cmp_sorted cmp x (inorder t)" and "height t \<le> KAVL_MAX_DEPTH"
  shows "kavl_itr_find cmp t x = Some (False, None) \<and> (\<forall>a\<in>set (inorder t). 0 < cmp x a) \<or>
    (\<exists>found itr pre. kavl_itr_find cmp t x = Some (found, Some itr) \<and> itr_ok (height t) itr \<and>
       inorder t = pre @ itr_elems itr \<and>
       (if found then cmp x (hd (itr_elems itr)) = 0
        else (\<forall>a\<in>set pre. 0 < cmp x a) \<and> (\<forall>b\<in>set (itr_elems itr). cmp x b < 0)))"
proof -
  obtain p stack pre "post" where i: "itr_descend cmp x t [] = Some (p, stack)" "stack_fits (height t) stack"
    "inorder t = pre @ post" "p \<noteq> Null \<longrightarrow> stack_fits (height t) (p # stack)"
    "to_visit (if p = Null then stack else p # stack) = post" "if p = Null then parted cmp x pre post else cmp x (key p) = 0"
    using itr_descend_ok [of "height t" "[]" t cmp x] assms(2) by auto
  show ?thesis
  proof (cases "p = Null")
    case True
    then show ?thesis using i assms(1) by (cases stack) (auto simp: kavl_itr_find_def itr_ok_def itr_elems_def parted_def)
  next
    case False
    then have "push_itr p stack = Some (p # stack)" using i(4) assms(2) by (intro push_itr_fits) auto
    then have "kavl_itr_find cmp t x = Some (True, Some (p # stack, right p))" using i(1) False by (simp add: kavl_itr_find_def)
    moreover have "itr_ok (height t) (p # stack, right p)" using i(4) False by (simp add: itr_ok_def)
    moreover have "cmp x (hd (itr_elems (p # stack, right p))) = 0" using i(6) False by (cases p) (simp_all add: itr_elems_def)
    ultimately show ?thesis using i(3,5) False
      by (intro disjI2 exI [of _ True] exI [of _ "(p # stack, right p)"] exI [of _ pre]) (simp add: itr_elems_def)
  qed
qed

end
