(* ===== verification/Key_Order.thy ===== *)
theory Key_Order
  imports Kavl_Correct "HOL-Library.Sublist"
begin

text \<open>
  Search trees whose elements are ordered by a key of which one may be a prefix of
  another: two elements count as equal when one key is a prefix of the other. This is
  the contract between the comparison functions of mpool.c and the tree of kavl.h. The
  locale \<open>search_order\<close> states what the tree needs of a comparison, the locale
  \<open>key_order\<close> a way to give it.
\<close>

section \<open>Comparing keys\<close>

fun pcmp :: "'k :: linorder list \<Rightarrow> 'k list \<Rightarrow> int" where
  "pcmp (a # as) (b # bs) = (if a = b then pcmp as bs else if a < b then - 1 else 1)"
| "pcmp _ _ = 0"

lemma pcmp_Nil [simp]: "pcmp [] b = 0" "pcmp a [] = 0"
  by (cases a; simp)+

lemma pcmp_refl [simp]: "pcmp a a = 0"
  by (induction a) auto

lemma pcmp_antisym: "pcmp b a = - pcmp a b"
  by (induction a b rule: pcmp.induct) auto

lemma pcmp_eq_0: "pcmp a b = 0 \<longleftrightarrow> prefix a b \<or> prefix b a"
  by (induction a b rule: pcmp.induct) auto

lemma pcmp_range: "pcmp a b \<in> {- 1, 0, 1}"
  by (induction a b rule: pcmp.induct) auto

lemma sgn_pcmp [simp]: "sgn (pcmp a b) = pcmp a b"
  using pcmp_range [of a b] by auto

lemma pcmp_mono: "pcmp a b < 0 \<Longrightarrow> pcmp x b \<le> pcmp x a"
proof (induction a b arbitrary: x rule: pcmp.induct)
  case (1 a as b bs)
  show ?case
  proof (cases x)
    case (Cons y ys)
    with 1 pcmp_range [of ys as] pcmp_range [of ys bs] show ?thesis by (auto split: if_splits)
  qed simp
qed auto

lemma pcmp_append:
  "length a = length b \<Longrightarrow> pcmp (a @ c) (b @ d) = (if pcmp a b = 0 then pcmp c d else pcmp a b)"
  by (induction a b rule: list_induct2) auto

lemma pcmp_take: "min (length a) (length b) \<le> n \<Longrightarrow> pcmp (take n a) (take n b) = pcmp a b"
proof (induction a b arbitrary: n rule: pcmp.induct)
  case (1 a as b bs)
  then show ?case by (cases n) auto
qed auto

text \<open>Between keys that are comparable the shorter is a prefix of the longer.\<close>

lemma pcmp_prefix: "pcmp a b = 0 \<Longrightarrow> length a \<le> length b \<Longrightarrow> prefix a b"
  unfolding pcmp_eq_0 by (auto simp: prefix_def)

section \<open>Bits\<close>

text \<open>The lowest \<open>n\<close> bits of a number, the highest first.\<close>

fun bits_of :: "nat \<Rightarrow> int \<Rightarrow> bool list" where
  "bits_of 0 v = []"
| "bits_of (Suc n) v = bits_of n (v div 2) @ [odd v]"

lemma length_bits_of [simp]: "length (bits_of n v) = n"
  by (induction n arbitrary: v) auto

lemma take_bits_of: "k \<le> n \<Longrightarrow> take k (bits_of n v) = bits_of k (v div 2 ^ (n - k))"
proof (induction n arbitrary: v)
  case (Suc n)
  show ?case
  proof (cases "k = Suc n")
    case False
    with Suc.prems have "k \<le> n" by simp
    with Suc.IH [of "v div 2"] show ?thesis
      by (simp add: Suc_diff_le zdiv_zmult2_eq [symmetric])
  qed simp
qed simp

lemma pcmp_bits_of:
  "0 \<le> a \<Longrightarrow> a < 2 ^ n \<Longrightarrow> 0 \<le> b \<Longrightarrow> b < 2 ^ n \<Longrightarrow> pcmp (bits_of n a) (bits_of n b) = sgn (a - b)"
proof (induction n arbitrary: a b)
  case 0
  then have "a = b" by simp
  then show ?case by simp
next
  case (Suc n)
  from Suc.prems Suc.IH [of "a div 2" "b div 2"]
  have high: "pcmp (bits_of n (a div 2)) (bits_of n (b div 2)) = sgn (a div 2 - b div 2)" by simp
  have low: "pcmp [odd a] [odd b] = a mod 2 - b mod 2"
    by (cases "odd a"; cases "odd b"; simp add: odd_iff_mod_2_eq_one)
  have ab: "a = 2 * (a div 2) + a mod 2" "b = 2 * (b div 2) + b mod 2" "0 \<le> a mod 2" "a mod 2 < 2" "0 \<le> b mod 2" "b mod 2 < 2"
    by simp_all
  show ?case
  proof (cases "a div 2 = b div 2")
    case True
    then have "a - b = a mod 2 - b mod 2" using ab by linarith
    moreover have "sgn (a mod 2 - b mod 2) = a mod 2 - b mod 2" using ab by (auto simp: sgn_if)
    ultimately show ?thesis using True low by (simp add: pcmp_append)
  next
    case False
    then have "a div 2 < b div 2 \<longleftrightarrow> a < b" using ab by linarith
    moreover have "a \<noteq> b" using False by auto
    moreover have "sgn (a - b) = sgn (a div 2 - b div 2)" using calculation False by (auto simp: sgn_if)
    ultimately show ?thesis using False high by (simp add: pcmp_append sgn_0_0)
  qed
qed

section \<open>The order of a search tree\<close>

definition tree_ok :: "('e \<Rightarrow> bool) \<Rightarrow> ('e \<Rightarrow> 'e \<Rightarrow> int) \<Rightarrow> 'e kt \<Rightarrow> bool" where
  "tree_ok ok cmp t \<longleftrightarrow> avl t \<and> (\<forall>e \<in> set (inorder t). ok e) \<and> sorted_wrt (\<lambda>a b. cmp a b < 0) (inorder t)"

text \<open>The number of elements the arrays of kavl.h are long enough for.\<close>

definition room :: "'e kt \<Rightarrow> bool" where
  "room t \<longleftrightarrow> count t + 1 < 2 ^ 32"

lemma tree_ok_Null [simp]: "tree_ok ok cmp Null"
  by (simp add: tree_ok_def)

locale search_order =
  fixes ok :: "'e \<Rightarrow> bool" and cmp :: "'e \<Rightarrow> 'e \<Rightarrow> int"
  assumes cmp_antisym: "ok a \<Longrightarrow> ok b \<Longrightarrow> sgn (cmp b a) = - sgn (cmp a b)"
    and cmp_mono: "ok a \<Longrightarrow> ok b \<Longrightarrow> ok x \<Longrightarrow> cmp a b < 0 \<Longrightarrow> sgn (cmp x b) \<le> sgn (cmp x a)"
begin

lemma cmp_flip: "ok a \<Longrightarrow> ok b \<Longrightarrow> cmp b a < 0 \<longleftrightarrow> 0 < cmp a b" "ok a \<Longrightarrow> ok b \<Longrightarrow> cmp b a = 0 \<longleftrightarrow> cmp a b = 0"
  using cmp_antisym [of a b] by (auto simp: sgn_if split: if_splits)

lemma cmp_refl: "ok a \<Longrightarrow> cmp a a = 0"
  using cmp_antisym [of a a] by (auto simp: sgn_if split: if_splits)

lemma tree_sorted: "tree_ok ok cmp t \<Longrightarrow> ok x \<Longrightarrow> cmp_sorted cmp x (inorder t)"
  unfolding tree_ok_def cmp_sorted_def
  by (auto intro!: sorted_wrt_mono_rel [of "inorder t" "\<lambda>a b. cmp a b < 0"] cmp_mono)

lemma find_cases:
  assumes "tree_ok ok cmp t" "ok x"
  shows "(case kavl_find cmp t x of Some v \<Rightarrow> v \<in> set (inorder t) \<and> cmp x v = 0
          | None \<Rightarrow> (\<forall>v \<in> set (inorder t). cmp x v \<noteq> 0))"
  using kavl_find_cases [OF tree_sorted [OF assms]] .

lemma elems_differ: "tree_ok ok cmp t \<Longrightarrow> inorder t = xs @ v # ys \<Longrightarrow> w \<in> set xs \<union> set ys \<Longrightarrow> cmp v w \<noteq> 0"
  unfolding tree_ok_def by (auto simp: sorted_wrt_append cmp_flip)

text \<open>An element of the tree is found by its own key, and no other one.\<close>

lemma find_own: "tree_ok ok cmp t \<Longrightarrow> v \<in> set (inorder t) \<Longrightarrow> kavl_find cmp t v = Some v"
proof -
  assume t: "tree_ok ok cmp t" and v: "v \<in> set (inorder t)"
  then have "ok v" by (simp add: tree_ok_def)
  from v obtain xs ys where io: "inorder t = xs @ v # ys" by (auto simp: in_set_conv_decomp)
  with find_cases [OF t \<open>ok v\<close>] cmp_refl [OF \<open>ok v\<close>] elems_differ [OF t io]
  show ?thesis by (auto split: option.splits)
qed

lemma insert_cases:
  assumes t: "tree_ok ok cmp t" and x: "ok x" and room: "room t"
  shows "(\<exists>v. kavl_insert cmp t x = Some (t, v) \<and> v \<in> set (inorder t) \<and> cmp x v = 0) \<or>
    (\<exists>t'. kavl_insert cmp t x = Some (t', x) \<and> tree_ok ok cmp t' \<and>
       set (inorder t') = insert x (set (inorder t)) \<and> count t' = count t + 1 \<and>
       (\<forall>v \<in> set (inorder t). cmp x v \<noteq> 0))"
proof -
  have "avl t" "height t \<le> KAVL_MAX_DEPTH"
    using t room avl_depth [of t] by (auto simp: tree_ok_def room_def)
  from kavl_insert_cases [OF this tree_sorted [OF t x]] show ?thesis
  proof
    assume "\<exists>t' xs ys. kavl_insert cmp t x = Some (t', x) \<and> avl t' \<and> inorder t = xs @ ys \<and>
      inorder t' = xs @ x # ys \<and> (\<forall>a \<in> set xs. 0 < cmp x a) \<and> (\<forall>b \<in> set ys. cmp x b < 0)"
    then obtain t' xs ys where i: "kavl_insert cmp t x = Some (t', x)" "avl t'" "inorder t = xs @ ys"
      "inorder t' = xs @ x # ys" "\<forall>a \<in> set xs. 0 < cmp x a" "\<forall>b \<in> set ys. cmp x b < 0" by blast
    then have "tree_ok ok cmp t'"
      using t x by (auto simp: tree_ok_def sorted_wrt_append cmp_flip)
    with i show ?thesis by (force simp: count_def)
  qed simp
qed

lemma erase_cases:
  assumes t: "tree_ok ok cmp t" and x: "ok x" and room: "room t"
  shows "(kavl_erase cmp t x = Some (t, None) \<and> (\<forall>v \<in> set (inorder t). cmp x v \<noteq> 0)) \<or>
    (\<exists>t' v. kavl_erase cmp t x = Some (t', Some v) \<and> tree_ok ok cmp t' \<and> v \<in> set (inorder t) \<and> cmp x v = 0 \<and>
       set (inorder t') = set (inorder t) - {v} \<and> count t = count t' + 1)"
proof -
  have "avl t" "height t < KAVL_MAX_DEPTH"
    using t room avl_depth [of t] by (auto simp: tree_ok_def room_def)
  from kavl_erase_cases [OF this tree_sorted [OF t x]] show ?thesis
  proof
    assume "\<exists>t' v xs ys. kavl_erase cmp t x = Some (t', Some v) \<and> cmp x v = 0 \<and> avl t' \<and>
      inorder t = xs @ v # ys \<and> inorder t' = xs @ ys"
    then obtain t' v xs ys where e: "kavl_erase cmp t x = Some (t', Some v)" "cmp x v = 0" "avl t'"
      "inorder t = xs @ v # ys" "inorder t' = xs @ ys" by blast
    then have "tree_ok ok cmp t'" using t by (auto simp: tree_ok_def sorted_wrt_append)
    moreover have "v \<notin> set xs \<union> set ys"
    proof
      assume "v \<in> set xs \<union> set ys"
      with elems_differ [OF t e(4), of v] t e(4) cmp_refl [of v] show False by (auto simp: tree_ok_def)
    qed
    ultimately show ?thesis using e by (auto simp: count_def)
  qed simp
qed

lemma erase_own:
  assumes t: "tree_ok ok cmp t" and v: "v \<in> set (inorder t)" and room: "room t"
  shows "\<exists>t'. kavl_erase cmp t v = Some (t', Some v) \<and> tree_ok ok cmp t' \<and>
    set (inorder t') = set (inorder t) - {v} \<and> count t = count t' + 1"
proof -
  have ok: "ok v" using t v by (simp add: tree_ok_def)
  obtain xs ys where io: "inorder t = xs @ v # ys" using v by (auto simp: in_set_conv_decomp)
  have "w = v" if "w \<in> set (inorder t)" "cmp v w = 0" for w
    using elems_differ [OF t io, of w] that io by auto
  with erase_cases [OF t ok room] cmp_refl [OF ok] v show ?thesis by auto
qed

lemma erase_first_ok:
  assumes "tree_ok ok cmp t" "room t" "t \<noteq> Null"
  shows "\<exists>t' v. kavl_erase_first t = Some (t', v) \<and> tree_ok ok cmp t' \<and> inorder t = v # inorder t'"
  using kavl_erase_first_cases [of t] assms avl_depth [of t] by (auto simp: tree_ok_def room_def)

end

locale key_order =
  fixes ok :: "'e \<Rightarrow> bool" and cmp :: "'e \<Rightarrow> 'e \<Rightarrow> int" and key :: "'e \<Rightarrow> 'k :: linorder list"
  assumes cmp_key: "ok a \<Longrightarrow> ok b \<Longrightarrow> sgn (cmp a b) = pcmp (key a) (key b)"
begin

lemma cmp_eq_0_iff: "ok a \<Longrightarrow> ok b \<Longrightarrow> cmp a b = 0 \<longleftrightarrow> prefix (key a) (key b) \<or> prefix (key b) (key a)"
  using cmp_key [of a b] by (auto simp: pcmp_eq_0 [symmetric] sgn_if split: if_splits)

end

sublocale key_order \<subseteq> search_order ok cmp
proof unfold_locales
  show "sgn (cmp b a) = - sgn (cmp a b)" if "ok a" "ok b" for a b
    using that cmp_key pcmp_antisym by metis
  show "sgn (cmp x b) \<le> sgn (cmp x a)" if "ok a" "ok b" "ok x" "cmp a b < 0" for a b x
    using that cmp_key [of a b] cmp_key [of x a] cmp_key [of x b] pcmp_mono [of "key a" "key b" "key x"]
    by (simp add: sgn_if split: if_splits)
qed

end
