(* ===== verification/Mpool_Correct.thy ===== *)
theory Mpool_Correct
  imports Mpool Key_Order
begin

text \<open>
  What the pools of mpool.c promise. Each of the three comparisons orders its elements
  by a key (the bits of an address range, the characters of a host from its end, the
  length and bytes of a blob), so the tree lemmas of Key_Order apply to each.
\<close>

section \<open>The three kinds of elements\<close>

definition byte_bits :: "mem \<Rightarrow> bool list" where
  "byte_bits m = concat (map (\<lambda>b. bits_of 8 (uint b)) m)"

definition key_bits :: "elem \<Rightarrow> bool list" where
  "key_bits e = take (nat (el_len e)) (byte_bits (el_data e))"

definition key_bytes :: "elem \<Rightarrow> int list" where
  "key_bytes e = el_len e # map uint (take (nat (el_len e)) (el_data e))"

definition key_host :: "bool \<Rightarrow> elem \<Rightarrow> int list" where
  "key_host sg e = map (cval sg) (rev (take (nat (el_len e)) (el_data e))) @ [46]"

definition ok_bits :: "elem \<Rightarrow> bool" where
  "ok_bits e \<longleftrightarrow> el_cmp e = CMP_BITS \<and> 0 \<le> el_len e \<and> el_len e \<le> 8 * int (length (el_data e))"

definition ok_bytes :: "elem \<Rightarrow> bool" where
  "ok_bytes e \<longleftrightarrow> el_cmp e = CMP_BYTES \<and> 0 \<le> el_len e \<and> el_len e \<le> int (length (el_data e))"

text \<open>
  Host names of characters that do not sort before the dot. A hyphen does: the order of
  names with hyphens is not transitive with the equality of a name and its subdomains.
\<close>

definition ok_host :: "bool \<Rightarrow> elem \<Rightarrow> bool" where
  "ok_host sg e \<longleftrightarrow> el_cmp e = CMP_HOST \<and> 0 \<le> el_len e \<and> el_len e \<le> int (length (el_data e)) \<and>
     (\<forall>b \<in> set (take (nat (el_len e)) (el_data e)). 46 \<le> cval sg b)"

section \<open>The comparisons are orders of keys\<close>

lemma bytes_cmp_pcmp: "bytes_cmp a b = pcmp (map uint a) (map uint b)"
  by (induction a b rule: bytes_cmp.induct) (auto simp: word_less_def word_uint_eq_iff)

lemma memcmp_prefixes:
  "n \<le> length a \<Longrightarrow> n \<le> length b \<Longrightarrow> memcmp a 0 b 0 n = Some (bytes_cmp (take n a) (take n b))"
  by (simp add: memcmp_def slice_def)

lemma byte_cmp_key:
  assumes "ok_bytes p" "ok_bytes q"
  shows "\<exists>c. scmp_m sg p q = Some c \<and> c = pcmp (key_bytes p) (key_bytes q)"
  using assms by (auto simp: scmp_m_def byte_cmp_def ok_bytes_def key_bytes_def memcmp_prefixes bytes_cmp_pcmp take_map
      CMP_BITS_def CMP_BYTES_def CMP_HOST_def)

lemma length_byte_bits [simp]: "length (byte_bits m) = 8 * length m"
  by (induction m) (auto simp: byte_bits_def)

lemma byte_bits_append: "byte_bits (a @ b) = byte_bits a @ byte_bits b"
  by (simp add: byte_bits_def)

lemma pcmp_byte: "pcmp (bits_of 8 (uint a)) (bits_of 8 (uint b)) = (if a = b then 0 else if a < b then - 1 else 1)"
  for a b :: byte
  using uint_lt2p [of a] uint_lt2p [of b]
  by (subst pcmp_bits_of) (auto simp: word_less_def sgn_if word_uint_eq_iff)

lemma pcmp_byte_bits: "length a = length b \<Longrightarrow> pcmp (byte_bits a) (byte_bits b) = bytes_cmp a b"
proof (induction a b rule: list_induct2)
  case (Cons x xs y ys)
  then show ?case
    using pcmp_byte [of x y] by (simp add: byte_bits_def pcmp_append del: bits_of.simps)
qed (simp add: byte_bits_def)

lemma take_byte_bits:
  assumes "n \<le> 8 * length m"
  shows "take n (byte_bits m) = byte_bits (take (n div 8) m) @
    (if n mod 8 = 0 then [] else bits_of (n mod 8) (uint (m ! (n div 8)) div 2 ^ (8 - n mod 8)))"
proof -
  have "n = 8 * (n div 8) + n mod 8" by simp
  have le: "n div 8 \<le> length m" using assms by simp
  have "take n (byte_bits m) = take n (byte_bits (take (n div 8) m) @ byte_bits (drop (n div 8) m))"
    by (simp flip: byte_bits_append)
  also have "\<dots> = byte_bits (take (n div 8) m) @ take (n mod 8) (byte_bits (drop (n div 8) m))"
    using le by (simp add: min_def minus_mod_eq_mult_div [symmetric])
  also have "take (n mod 8) (byte_bits (drop (n div 8) m)) =
    (if n mod 8 = 0 then [] else bits_of (n mod 8) (uint (m ! (n div 8)) div 2 ^ (8 - n mod 8)))"
  proof (cases "n mod 8 = 0")
    case False
    then have "n div 8 < length m" using assms by presburger
    then have "drop (n div 8) m = m ! (n div 8) # drop (Suc (n div 8)) m" by (simp add: Cons_nth_drop_Suc)
    moreover have "n mod 8 \<le> 8" by (simp add: mod_le_divisor)
    ultimately show ?thesis using False
      by (simp add: byte_bits_def take_bits_of del: bits_of.simps)
  qed simp
  finally show ?thesis .
qed

text \<open>The sign extension before the shift keeps the order of the bits that are compared.\<close>

lemma sint_byte: "sint (c :: byte) = (if uint c < 128 then uint c else uint c - 256)"
proof -
  have "uint c < 256" "0 \<le> uint c" using uint_lt2p [of c] by auto
  moreover from this have "(uint c + 128) mod 256 = uint c - 128" if "128 \<le> uint c"
    using that mod_pos_pos_trivial [of "uint c - 128" 256] mod_add_self2 [of "uint c - 128" 256] by (simp add: add.commute)
  ultimately show ?thesis
  by (auto simp: sint_uint signed_take_bit_eq_take_bit_shift take_bit_eq_mod)
qed

lemma int_div_less:
  assumes "0 < (d :: int)" shows "u div d < n \<longleftrightarrow> u < n * d"
proof -
  have "(u + (- n) * d) div d = - n + u div d" using assms by (intro div_mult_self1) simp
  with pos_imp_zdiv_neg_iff [OF assms, of "u + (- n) * d"] show ?thesis by auto
qed

lemma top_bits_eq:
  assumes "1 \<le> k" "k \<le> 7"
  shows "(cval sg c div 2 ^ k) mod 256 = uint c div 2 ^ k + (if sg \<and> 128 \<le> uint c then 256 - 2 ^ (8 - k) else 0)"
proof -
  have u: "0 \<le> uint c" "uint c < 256" using uint_lt2p [of c] by auto
  have p: "(2 :: int) ^ (8 - k) * 2 ^ k = 256" using assms by (simp flip: power_add)
  have hi: "uint c div 2 ^ k < 2 ^ (8 - k)" using int_div_less [of "2 ^ k" "uint c" "2 ^ (8 - k)"] u p by simp
  have hi': "(2 :: int) ^ (8 - k) \<le> 2 ^ 7" using assms by (intro power_increasing) auto
  have lo: "0 \<le> uint c div 2 ^ k" using u by (simp add: pos_imp_zdiv_nonneg_iff)
  have "(uint c + (- (2 ^ (8 - k))) * 2 ^ k) div 2 ^ k = - (2 ^ (8 - k)) + uint c div 2 ^ k"
    by (intro div_mult_self1) simp
  then have neg: "(uint c - 256) div 2 ^ k = uint c div 2 ^ k - 2 ^ (8 - k)" using p by simp
  have "(uint c div 2 ^ k - 2 ^ (8 - k)) mod 256 = uint c div 2 ^ k - 2 ^ (8 - k) + 256"
    using mod_pos_pos_trivial [of "uint c div 2 ^ k - 2 ^ (8 - k) + 256" 256]
      mod_add_self2 [of "uint c div 2 ^ k - 2 ^ (8 - k)" 256] hi hi' lo by simp
  moreover have "(uint c div 2 ^ k) mod 256 = uint c div 2 ^ k"
    using hi hi' lo by (intro mod_pos_pos_trivial) auto
  ultimately show ?thesis by (auto simp: cval_def sint_byte neg)
qed

lemma top_bits_sgn:
  assumes "0 < df" "df < 8"
  shows "sgn (top_bits sg df a - top_bits sg df b) = sgn (uint a div 2 ^ nat (8 - df) - uint b div 2 ^ nat (8 - df))"
proof -
  define k where "k = nat (8 - df)"
  have k: "1 \<le> k" "k \<le> 7" using assms by (auto simp: k_def)
  have p: "(2 :: int) ^ (7 - k) * 2 ^ k = 128" using k by (simp flip: power_add)
  have half: "128 \<le> uint c \<longleftrightarrow> 2 ^ (7 - k) \<le> uint c div 2 ^ k" for c :: byte
    using int_div_less [of "2 ^ k" "uint c" "2 ^ (7 - k)"] p by auto
  have "(2 :: int) ^ (8 - k) \<le> 2 ^ 7" using k by (intro power_increasing) auto
  then show ?thesis
    unfolding top_bits_def k_def [symmetric] top_bits_eq [OF k] half by (auto simp: sgn_if)
qed

lemma take_min: "take n (take m xs) = take (min n m) xs"
  by simp

lemma bit_cmp_key:
  assumes "ok_bits p" "ok_bits q"
  shows "\<exists>c. scmp_m sg p q = Some c \<and> sgn c = pcmp (key_bits p) (key_bits q)"
proof -
  define n where "n = nat (min (el_len p) (el_len q))"
  have len: "min (el_len p) (el_len q) = int n" "n \<le> nat (el_len p)" "n \<le> nat (el_len q)"
    and np: "n \<le> 8 * length (el_data p)" and nq: "n \<le> 8 * length (el_data q)"
    using assms by (auto simp: n_def ok_bits_def)
  have kl: "length (key_bits p) = nat (el_len p)" "length (key_bits q) = nat (el_len q)"
    using assms by (auto simp: key_bits_def ok_bits_def)
  have "pcmp (key_bits p) (key_bits q) = pcmp (take n (key_bits p)) (take n (key_bits q))"
    by (rule pcmp_take [symmetric]) (auto simp: kl n_def)
  also have "\<dots> = pcmp (take n (byte_bits (el_data p))) (take n (byte_bits (el_data q)))"
    using len by (simp add: key_bits_def min_def)
  finally have k: "pcmp (key_bits p) (key_bits q) =
    pcmp (take n (byte_bits (el_data p))) (take n (byte_bits (el_data q)))" .
  let ?a = "take (n div 8) (el_data p)" and ?b = "take (n div 8) (el_data q)"
  have lab: "length ?a = length ?b" and le: "n div 8 \<le> length (el_data p)" "n div 8 \<le> length (el_data q)"
    using np nq by auto
  have z: "nat (int n div 8) = n div 8" "int n - 8 * (int n div 8) = int (n mod 8)" "\<not> int n div 8 < 0"
    "int n = 8 * (int n div 8) \<longleftrightarrow> n mod 8 = 0"
    using zmod_int [of n 8] by (simp_all add: nat_div_distrib minus_mult_div_eq_mod) presburger
  have m: "memcmp (el_data p) 0 (el_data q) 0 (n div 8) = Some (bytes_cmp ?a ?b)"
    using le by (rule memcmp_prefixes)
  show ?thesis
  proof (cases "bytes_cmp ?a ?b = 0 \<and> n mod 8 \<noteq> 0")
    case False
    then show ?thesis
      using assms lab bytes_cmp_pcmp [of ?a ?b]
      by (auto simp: scmp_m_def ok_bits_def bit_cmp_def len z m k take_byte_bits np nq pcmp_append pcmp_byte_bits Let_def)
  next
    case True
    then have lt: "n div 8 < length (el_data p)" "n div 8 < length (el_data q)" using np nq by presburger+
    define df where "df = n mod 8"
    have df: "0 < df" "df < 8" using True by (auto simp: df_def)
    let ?x = "el_data p ! (n div 8)" and ?y = "el_data q ! (n div 8)"
    have nd: "nat (8 - int df) = 8 - df" by simp
    have ub: "0 \<le> uint c div 2 ^ (8 - df)" "uint c div 2 ^ (8 - df) < 2 ^ df" for c :: byte
    proof -
      have "(2 :: int) ^ df * 2 ^ (8 - df) = 256" using df by (simp flip: power_add)
      then show "uint c div 2 ^ (8 - df) < 2 ^ df"
        using int_div_less [of "2 ^ (8 - df)" "uint c" "2 ^ df"] uint_lt2p [of c] by simp
    qed (simp add: pos_imp_zdiv_nonneg_iff)
    have "pcmp (bits_of df (uint ?x div 2 ^ (8 - df))) (bits_of df (uint ?y div 2 ^ (8 - df))) =
      sgn (top_bits sg (int df) ?x - top_bits sg (int df) ?y)"
      using top_bits_sgn [of "int df" sg ?x ?y] df ub by (simp add: pcmp_bits_of nd)
    then have "pcmp (key_bits p) (key_bits q) = sgn (top_bits sg (int df) ?x - top_bits sg (int df) ?y)"
      using True lab unfolding k take_byte_bits [OF np] take_byte_bits [OF nq]
      by (simp add: pcmp_append pcmp_byte_bits df_def)
    moreover have "scmp_m sg p q = Some (if top_bits sg (int df) ?x \<noteq> top_bits sg (int df) ?y
        then (if top_bits sg (int df) ?x < top_bits sg (int df) ?y then - 1 else 1) else 0)"
      using assms True lt df unfolding scmp_m_def ok_bits_def bit_cmp_def len
      by (simp add: z m ld_def Let_def df_def)
    ultimately show ?thesis by (auto simp: sgn_if)
  qed
qed

lemma cval_inject [simp]: "cval sg a = cval sg b \<longleftrightarrow> a = b"
  unfolding cval_def by (metis signed_word_eqI word_uint_eq_iff)

lemma rev_take_Suc: "i < length p \<Longrightarrow> rev (take (Suc i) p) = p ! i # rev (take i p)"
  by (simp add: take_Suc_conv_app_nth)

lemma host_loop_pcmp:
  "n \<le> i \<Longrightarrow> n \<le> j \<Longrightarrow> i \<le> length p \<Longrightarrow> j \<le> length q \<Longrightarrow>
     host_loop sg p q (int i) (int j) n =
       (let c = pcmp (map (cval sg) (take n (rev (take i p)))) (map (cval sg) (take n (rev (take j q)))) in
        Some (if c = 0 then Inr (int (i - n), int (j - n)) else Inl c))"
proof (induction n arbitrary: i j)
  case (Suc n)
  obtain i' j' where ij: "i = Suc i'" "j = Suc j'" using Suc.prems by (cases i; cases j) auto
  with Suc.IH [of i' j'] Suc.prems show ?case
    by (simp add: rev_take_Suc Let_def ld_inside add_diff_cancel_left')
qed simp

lemma host_cmp_key:
  assumes p: "ok_host sg p" and q: "ok_host sg q"
  shows "\<exists>c. scmp_m sg p q = Some c \<and> c = pcmp (key_host sg p) (key_host sg q)"
proof -
  define i j where "i = nat (el_len p)" and "j = nat (el_len q)"
  have ij: "el_len p = int i" "el_len q = int j" "i \<le> length (el_data p)" "j \<le> length (el_data q)"
    using p q by (auto simp: i_def j_def ok_host_def)
  define n where "n = min i j"
  have n: "nat (min (int i) (int j)) = n" "n \<le> i" "n \<le> j" by (auto simp: n_def)
  define a b where "a = rev (take i (el_data p))" and "b = rev (take j (el_data q))"
  have lab: "length a = i" "length b = j" using ij by (simp_all add: a_def b_def)
  have keys: "key_host sg p = map (cval sg) (take n a) @ map (cval sg) (drop n a) @ [46]"
    "key_host sg q = map (cval sg) (take n b) @ map (cval sg) (drop n b) @ [46]"
    by (simp_all add: key_host_def a_def b_def ij flip: map_append append_assoc)
  have big: "46 \<le> cval sg x" if "x \<in> set a \<union> set b" for x
    using p q that by (auto simp: ok_host_def a_def b_def ij)
  let ?c = "pcmp (map (cval sg) (take n a)) (map (cval sg) (take n b))"
  have k: "pcmp (key_host sg p) (key_host sg q) = (if ?c = 0 then
      pcmp (map (cval sg) (drop n a) @ [46]) (map (cval sg) (drop n b) @ [46]) else ?c)"
    unfolding keys by (rule pcmp_append) (simp add: lab n_def)
  have loop: "host_loop sg (el_data p) (el_data q) (int i) (int j) n =
      Some (if ?c = 0 then Inr (int (i - n), int (j - n)) else Inl ?c)"
    using host_loop_pcmp [OF n(2,3) ij(3,4)] by (simp add: a_def b_def Let_def)
  have s: "scmp_m sg p q = host_cmp sg p q" using p by (simp add: scmp_m_def ok_host_def CMP_BITS_def CMP_HOST_def)
  consider "?c \<noteq> 0" | "?c = 0" "i = j" | "?c = 0" "j < i" | "?c = 0" "i < j" by linarith
  then show ?thesis
  proof cases
    case 1
    then show ?thesis by (simp add: s host_cmp_def ij n loop k)
  next
    case 2
    then have "drop n a = []" "drop n b = []" "n = j" by (simp_all add: lab n_def)
    with 2 loop show ?thesis by (simp add: s host_cmp_def ij k)
  next
    case 3
    then have nj: "n = j" "drop n b = []" by (simp_all add: lab n_def)
    have "drop j a = a ! j # drop (Suc j) a" using 3 lab by (simp add: Cons_nth_drop_Suc)
    moreover have "a ! j = el_data p ! (i - j - 1)" using 3 ij by (simp add: a_def rev_nth)
    moreover have "46 \<le> cval sg (a ! j)" using 3 lab by (intro big) simp
    moreover have "ldz (el_data p) (int (i - j) - 1) = Some (el_data p ! (i - j - 1))"
      using 3 ij by (simp add: ldz_def nat_diff_distrib ld_def)
    moreover have "cval sg 46 = 46" by (simp add: cval_def)
    then have "cval sg x = 46 \<longleftrightarrow> x = 46" for x by (metis cval_inject)
    ultimately show ?thesis using 3 nj loop by (simp add: s host_cmp_def ij k)
  next
    case 4
    then have ni: "n = i" "drop n a = []" by (simp_all add: lab n_def)
    have "drop i b = b ! i # drop (Suc i) b" using 4 lab by (simp add: Cons_nth_drop_Suc)
    moreover have "b ! i = el_data q ! (j - i - 1)" using 4 ij by (simp add: b_def rev_nth)
    moreover have "46 \<le> cval sg (b ! i)" using 4 lab by (intro big) simp
    moreover have "ldz (el_data q) (int (j - i) - 1) = Some (el_data q ! (j - i - 1))"
      using 4 ij by (simp add: ldz_def nat_diff_distrib ld_def)
    moreover have "cval sg 46 = 46" by (simp add: cval_def)
    then have "cval sg x = 46 \<longleftrightarrow> x = 46" "46 = cval sg x \<longleftrightarrow> x = 46" for x by (metis cval_inject)+
    ultimately show ?thesis using 4 ni loop by (simp add: s host_cmp_def ij k)
  qed
qed

lemma scmp_of_m: "scmp_m sg p q = Some c \<Longrightarrow> scmp sg p q = c"
  by (simp add: scmp_def)

section \<open>The contract of a pool\<close>

definition pool_elems :: "mphdr \<Rightarrow> elem set" where
  "pool_elems hdr = set (inorder (mp_root hdr))"

definition pool_inv :: "(elem \<Rightarrow> bool) \<Rightarrow> bool \<Rightarrow> nat \<Rightarrow> mphdr \<Rightarrow> bool" where
  "pool_inv ok sg kind hdr \<longleftrightarrow> tree_ok ok (scmp sg) (mp_root hdr) \<and> mp_cmp hdr = kind \<and>
     mp_count hdr = count (mp_root hdr)"

definition pool_room :: "mphdr \<Rightarrow> bool" where
  "pool_room hdr \<longleftrightarrow> room (mp_root hdr)"

text \<open>Two elements of which one key is a prefix of the other.\<close>

definition related :: "(elem \<Rightarrow> 'k list) \<Rightarrow> elem \<Rightarrow> elem \<Rightarrow> bool" where
  "related kf a b \<longleftrightarrow> prefix (kf a) (kf b) \<or> prefix (kf b) (kf a)"

text \<open>
  The set a pool stands for: every key that has the key of an element as a prefix (the
  addresses of a list of ranges, the names below a list of domains).
\<close>

definition pool_set :: "(elem \<Rightarrow> 'k list) \<Rightarrow> mphdr \<Rightarrow> 'k list set" where
  "pool_set kf hdr = {k. \<exists>e \<in> pool_elems hdr. prefix (kf e) k}"

definition new_elem :: "mphdr \<Rightarrow> nat \<Rightarrow> mem \<Rightarrow> int \<Rightarrow> elem" where
  "new_elem hdr a str len = \<lparr> el_addr = a, el_len = len, el_data = str, el_cmp = mp_cmp hdr \<rparr>"

text \<open>
  What \<open>mem_add\<close> does with a new element: an element that covers it stays and the new
  one is freed; otherwise the elements it covers are deleted and it goes in.
\<close>

definition covered :: "(elem \<Rightarrow> 'k list) \<Rightarrow> elem \<Rightarrow> elem set \<Rightarrow> bool" where
  "covered kf e es \<longleftrightarrow> (\<exists>v \<in> es. prefix (kf v) (kf e))"

text \<open>Adding a list of keys, each with the address of its element.\<close>

fun mem_add_all :: "bool \<Rightarrow> mphdr \<Rightarrow> (nat \<times> mem \<times> int) list \<Rightarrow> mphdr option" where
  "mem_add_all sg hdr [] = Some hdr"
| "mem_add_all sg hdr ((a, str, len) # es) =
     do { (hdr', _, _) \<leftarrow> mem_add sg hdr (Some a) str len; mem_add_all sg hdr' es }"

lemma pool_elems_update [simp]: "pool_elems (hdr\<lparr>mp_root := t\<rparr>) = set (inorder t)"
  by (simp add: pool_elems_def)

locale pool_kind = key_order ok "scmp sg" key
  for ok :: "elem \<Rightarrow> bool" and sg :: bool and key :: "elem \<Rightarrow> 'k :: linorder list" and kind :: nat +
  assumes ok_kind: "ok e \<Longrightarrow> el_cmp e = kind"
    and key_len: "ok a \<Longrightarrow> ok b \<Longrightarrow> related key a b \<Longrightarrow> el_len a < el_len b \<longleftrightarrow> length (key a) < length (key b)"
    and addr_free: "ok (e\<lparr>el_addr := n\<rparr>) = ok e" "key (e\<lparr>el_addr := n\<rparr>) = key e"
begin

lemma cmp_related: "ok a \<Longrightarrow> ok b \<Longrightarrow> scmp sg a b = 0 \<longleftrightarrow> related key a b"
  unfolding related_def by (rule cmp_eq_0_iff)

lemma antichain:
  assumes t: "tree_ok ok (scmp sg) t" and vw: "v \<in> set (inorder t)" "w \<in> set (inorder t)" "prefix (key w) (key v)"
  shows "w = v"
proof (rule ccontr)
  assume "w \<noteq> v"
  obtain xs ys where io: "inorder t = xs @ v # ys" using vw(1) by (auto simp: in_set_conv_decomp)
  have "ok v" "ok w" using t vw by (auto simp: tree_ok_def)
  then have "scmp sg v w = 0" using vw(3) by (simp add: cmp_related related_def)
  with elems_differ [OF t io, of w] vw(2) \<open>w \<noteq> v\<close> io show False by auto
qed

lemma temp_new: "temp_elem hdr str len = new_elem hdr 0 str len"
  by (simp add: temp_elem_def new_elem_def)

lemma temp_addr: "ok (new_elem hdr a str len) = ok (new_elem hdr b str len)"
  "key (new_elem hdr a str len) = key (new_elem hdr b str len)"
  using addr_free [where e = "new_elem hdr a str len" and n = b] by (simp_all add: new_elem_def)

lemma get_cases:
  assumes inv: "pool_inv ok sg kind hdr" and ok: "ok (temp_elem hdr str len)"
  shows "case mem_get sg hdr str len of
      Some v \<Rightarrow> v \<in> pool_elems hdr \<and> related key (temp_elem hdr str len) v
    | None \<Rightarrow> (\<forall>v \<in> pool_elems hdr. \<not> related key (temp_elem hdr str len) v)"
proof -
  have t: "tree_ok ok (scmp sg) (mp_root hdr)" using inv by (simp add: pool_inv_def)
  then have "ok v" if "v \<in> pool_elems hdr" for v using that by (auto simp: tree_ok_def pool_elems_def)
  with find_cases [OF t ok] cmp_related [OF ok] show ?thesis
    by (auto simp: mem_get_def pool_elems_def split: option.splits)
qed

text \<open>A key of the set is found by a prefix of it, and only such keys are.\<close>

lemma get_member:
  assumes inv: "pool_inv ok sg kind hdr" and ok: "ok (temp_elem hdr str len)"
  shows "key (temp_elem hdr str len) \<in> pool_set key hdr \<longleftrightarrow>
    (\<exists>v. mem_get sg hdr str len = Some v \<and> el_len v \<le> len)"
proof -
  let ?q = "temp_elem hdr str len"
  have t: "tree_ok ok (scmp sg) (mp_root hdr)" using inv by (simp add: pool_inv_def)
  then have okv: "ok v" if "v \<in> pool_elems hdr" for v using that by (auto simp: tree_ok_def pool_elems_def)
  have short: "el_len v \<le> len \<longleftrightarrow> prefix (key v) (key ?q)" if "v \<in> pool_elems hdr" "related key ?q v" for v
  proof -
    have "len < el_len v \<longleftrightarrow> length (key ?q) < length (key v)"
      using key_len [OF ok okv [OF that(1)] that(2)] by (simp add: temp_elem_def)
    with that(2) show ?thesis
      unfolding related_def by (auto dest: prefix_length_le simp: prefix_def not_less [symmetric])
  qed
  note G = get_cases [OF inv ok]
  show ?thesis
  proof
    assume "key ?q \<in> pool_set key hdr"
    then obtain e where e: "e \<in> pool_elems hdr" "prefix (key e) (key ?q)" by (auto simp: pool_set_def)
    then have "related key ?q e" by (simp add: related_def)
    with G e(1) obtain v where v: "mem_get sg hdr str len = Some v" "v \<in> pool_elems hdr" "related key ?q v"
      by (cases "mem_get sg hdr str len") auto
    have "prefix (key v) (key ?q)"
    proof (rule ccontr)
      assume "\<not> prefix (key v) (key ?q)"
      with v(3) have "prefix (key ?q) (key v)" by (simp add: related_def)
      then have "prefix (key e) (key v)" by (rule prefix_order.trans [OF e(2)])
      with antichain [OF t, of v e] e v(2) have "e = v" by (simp add: pool_elems_def)
      with e(2) \<open>\<not> prefix (key v) (key ?q)\<close> show False by simp
    qed
    with short [OF v(2,3)] v(1) show "\<exists>v. mem_get sg hdr str len = Some v \<and> el_len v \<le> len" by auto
  next
    assume "\<exists>v. mem_get sg hdr str len = Some v \<and> el_len v \<le> len"
    with G short show "key ?q \<in> pool_set key hdr" by (auto simp: pool_set_def)
  qed
qed

lemma delete_own:
  assumes inv: "pool_inv ok sg kind hdr" and room: "pool_room hdr" and v: "v \<in> pool_elems hdr"
  shows "\<exists>hdr'. mem_delete sg hdr (el_data v) (el_len v) = Some (hdr', destroy_elem hdr v) \<and>
    pool_inv ok sg kind hdr' \<and> pool_elems hdr' = pool_elems hdr - {v} \<and> mp_count hdr = mp_count hdr' + 1 \<and>
    mp_static hdr' = mp_static hdr \<and> mp_extra hdr' = mp_extra hdr"
proof -
  have t: "tree_ok ok (scmp sg) (mp_root hdr)" using inv by (simp add: pool_inv_def)
  then have okv: "ok w" if "w \<in> pool_elems hdr" for w using that by (auto simp: tree_ok_def pool_elems_def)
  let ?q = "temp_elem hdr (el_data v) (el_len v)"
  have "el_cmp v = mp_cmp hdr" using ok_kind [OF okv [OF v]] inv by (simp add: pool_inv_def)
  then have q: "?q = v\<lparr>el_addr := 0\<rparr>" by (simp add: temp_elem_def)
  then have ok: "ok ?q" and keyq: "key ?q = key v" using okv [OF v] addr_free by simp_all
  obtain xs ys where io: "inorder (mp_root hdr) = xs @ v # ys"
    using v by (auto simp: pool_elems_def in_set_conv_decomp)
  have only: "w = v" if "w \<in> set (inorder (mp_root hdr))" "scmp sg ?q w = 0" for w
  proof (rule ccontr)
    assume "w \<noteq> v"
    then have "scmp sg v w \<noteq> 0" using elems_differ [OF t io] that(1) io by auto
    moreover have "ok w" using that(1) okv by (simp add: pool_elems_def)
    ultimately show False using that(2) cmp_related [OF okv [OF v]] cmp_related [OF ok] keyq
      by (simp add: related_def)
  qed
  have "scmp sg ?q v = 0" using cmp_related [OF ok okv [OF v]] keyq by (simp add: related_def)
  with erase_cases [OF t ok] room v only obtain t' where
    "kavl_erase (scmp sg) (mp_root hdr) ?q = Some (t', Some v)" "tree_ok ok (scmp sg) t'"
    "set (inorder t') = set (inorder (mp_root hdr)) - {v}" "count (mp_root hdr) = count t' + 1"
    by (auto simp: pool_room_def pool_elems_def)
  with inv show ?thesis by (simp add: mem_delete_def pool_inv_def pool_elems_def)
qed

text \<open>Deleting a key that is no element's deletes one related to it, if there is one.\<close>

lemma delete_cases:
  assumes inv: "pool_inv ok sg kind hdr" and room: "pool_room hdr" and ok: "ok (temp_elem hdr str len)"
  shows "(mem_delete sg hdr str len = Some (hdr, []) \<and>
      (\<forall>v \<in> pool_elems hdr. \<not> related key (temp_elem hdr str len) v)) \<or>
    (\<exists>hdr' v. mem_delete sg hdr str len = Some (hdr', destroy_elem hdr v) \<and> v \<in> pool_elems hdr \<and>
       related key (temp_elem hdr str len) v \<and> pool_inv ok sg kind hdr' \<and>
       pool_elems hdr' = pool_elems hdr - {v})"
proof -
  have t: "tree_ok ok (scmp sg) (mp_root hdr)" using inv by (simp add: pool_inv_def)
  then have okv: "ok w" if "w \<in> pool_elems hdr" for w using that by (auto simp: tree_ok_def pool_elems_def)
  from erase_cases [OF t ok] room cmp_related [OF ok] okv inv show ?thesis
    by (auto simp: pool_room_def pool_elems_def mem_delete_def pool_inv_def)
qed

lemma add_loop:
  assumes "pool_inv ok sg kind hdr" "pool_room hdr" "ok e" "el_addr e \<notin> el_addr ` pool_elems hdr"
    and "kavl_insert (scmp sg) (mp_root hdr) e = Some (root, v)"
  shows "\<exists>hdr' v' tr'. mem_add_loop sg e (hdr\<lparr>mp_root := root\<rparr>) v tr = Some (hdr', v', tr @ tr') \<and>
    mp_static hdr' = mp_static hdr \<and> mp_extra hdr' = mp_extra hdr \<and> mp_cmp hdr' = kind \<and>
    tree_ok ok (scmp sg) (mp_root hdr') \<and>
    (if covered key e (pool_elems hdr)
     then hdr' = hdr \<and> v' \<in> pool_elems hdr \<and> prefix (key v') (key e) \<and> tr' = []
     else v' = e \<and> mp_count hdr' + 1 = count (mp_root hdr') \<and>
       pool_elems hdr' = insert e {w \<in> pool_elems hdr. \<not> prefix (key e) (key w)} \<and>
       set tr' = (\<Union>w \<in> {w \<in> pool_elems hdr. prefix (key e) (key w)}. set (destroy_elem hdr w)))"
  using assms
proof (induction "mp_count hdr" arbitrary: hdr root v tr rule: less_induct)
  case less
  note inv = less.prems(1) and room = less.prems(2) and ok = less.prems(3) and fresh = less.prems(4)
  have t: "tree_ok ok (scmp sg) (mp_root hdr)" using inv by (simp add: pool_inv_def)
  then have okv: "ok w" if "w \<in> pool_elems hdr" for w using that by (auto simp: tree_ok_def pool_elems_def)
  consider (found) "root = mp_root hdr" "v \<in> pool_elems hdr" "related key e v"
    | (new) "v = e" "tree_ok ok (scmp sg) root" "set (inorder root) = insert e (pool_elems hdr)"
        "count root = mp_count hdr + 1" "\<forall>w \<in> pool_elems hdr. \<not> related key e w"
    using insert_cases [OF t ok] room less.prems(5) inv cmp_related [OF ok okv]
    by (auto simp: pool_room_def pool_elems_def pool_inv_def)
  then show ?case
  proof cases
    case new
    then have "mem_add_loop sg e (hdr\<lparr>mp_root := root\<rparr>) v tr = Some (hdr\<lparr>mp_root := root\<rparr>, v, tr)"
      by (subst mem_add_loop.simps) simp
    moreover have "\<not> covered key e (pool_elems hdr)" "{w \<in> pool_elems hdr. prefix (key e) (key w)} = {}"
      "{w \<in> pool_elems hdr. \<not> prefix (key e) (key w)} = pool_elems hdr"
      using new(5) by (auto simp: covered_def related_def)
    ultimately show ?thesis using new inv by (auto simp: pool_inv_def)
  next
    case found
    have neq: "el_addr e \<noteq> el_addr v" using fresh found(2) by auto
    have hdr: "hdr\<lparr>mp_root := root\<rparr> = hdr" using found(1) by simp
    note len = key_len [OF ok okv [OF found(2)] found(3)]
    show ?thesis
    proof (cases "el_len e < el_len v")
      case False
      then have "mem_add_loop sg e (hdr\<lparr>mp_root := root\<rparr>) v tr = Some (hdr, v, tr)"
        unfolding hdr by (subst mem_add_loop.simps) simp
      moreover have "prefix (key v) (key e)" using False len found(3) by (auto simp: related_def prefix_def)
      ultimately show ?thesis using t found(2) inv by (auto simp: covered_def pool_inv_def)
    next
      case True
      then have longer: "length (key e) < length (key v)" "prefix (key e) (key v)"
        using len found(3) by (auto simp: related_def dest: prefix_length_le)
      from delete_own [OF inv room found(2)] obtain hdr1 where d:
        "mem_delete sg hdr (el_data v) (el_len v) = Some (hdr1, destroy_elem hdr v)"
        "pool_inv ok sg kind hdr1" "pool_elems hdr1 = pool_elems hdr - {v}" "mp_count hdr = mp_count hdr1 + 1"
        "mp_static hdr1 = mp_static hdr" "mp_extra hdr1 = mp_extra hdr" by blast
      have room1: "pool_room hdr1" using d(2,4) inv room by (simp add: pool_inv_def pool_room_def room_def)
      have t1: "tree_ok ok (scmp sg) (mp_root hdr1)" using d(2) by (simp add: pool_inv_def)
      obtain root1 v1 where i: "kavl_insert (scmp sg) (mp_root hdr1) e = Some (root1, v1)"
        using insert_cases [OF t1 ok] room1 by (auto simp: pool_room_def)
      have un: "\<not> covered key e (pool_elems hdr)"
      proof
        assume "covered key e (pool_elems hdr)"
        then obtain w where w: "w \<in> pool_elems hdr" "prefix (key w) (key e)" by (auto simp: covered_def)
        have "prefix (key w) (key v)" using w(2) longer(2) by (rule prefix_order.trans)
        with antichain [OF t, of v w] w(1) found(2) have "w = v" by (simp add: pool_elems_def)
        with w(2) longer(1) show False by (auto dest: prefix_length_le)
      qed
      then have un1: "\<not> covered key e (pool_elems hdr1)" by (auto simp: covered_def d(3))
      have "mem_add_loop sg e (hdr\<lparr>mp_root := root\<rparr>) v tr =
          mem_add_loop sg e (hdr1\<lparr>mp_root := root1\<rparr>) v1 (tr @ destroy_elem hdr v)"
        unfolding hdr by (subst mem_add_loop.simps) (use neq True d(1) i in simp)
      moreover have "el_addr e \<notin> el_addr ` pool_elems hdr1" using fresh d(3) by auto
      then obtain hdr' v' tr' where
        "mem_add_loop sg e (hdr1\<lparr>mp_root := root1\<rparr>) v1 (tr @ destroy_elem hdr v) =
           Some (hdr', v', (tr @ destroy_elem hdr v) @ tr')"
        "mp_static hdr' = mp_static hdr" "mp_extra hdr' = mp_extra hdr" "mp_cmp hdr' = kind"
        "tree_ok ok (scmp sg) (mp_root hdr')" "v' = e" "mp_count hdr' + 1 = count (mp_root hdr')"
        "pool_elems hdr' = insert e {w \<in> pool_elems hdr - {v}. \<not> prefix (key e) (key w)}"
        "set tr' = (\<Union>w \<in> {w \<in> pool_elems hdr - {v}. prefix (key e) (key w)}. set (destroy_elem hdr1 w))"
        using less.hyps [of hdr1 root1 v1 "tr @ destroy_elem hdr v"] d room1 ok i un1 by auto
      moreover have "destroy_elem hdr1 = destroy_elem hdr" using d(5,6) by (auto simp: destroy_elem_def)
      ultimately show ?thesis
        using un longer(2) found(2)
        by (intro exI [of _ hdr'] exI [of _ e] exI [of _ "destroy_elem hdr v @ tr'"]) auto
    qed
  qed
qed

lemma add_cases:
  assumes inv: "pool_inv ok sg kind hdr" and room: "pool_room hdr"
    and ok: "ok (new_elem hdr a str len)" and fresh: "a \<notin> el_addr ` pool_elems hdr"
  defines "e \<equiv> new_elem hdr a str len"
  shows "\<exists>hdr' v fr. mem_add sg hdr (Some a) str len = Some (hdr', Some v, fr) \<and> pool_inv ok sg kind hdr' \<and>
    mp_static hdr' = mp_static hdr \<and> mp_extra hdr' = mp_extra hdr \<and>
    (if covered key e (pool_elems hdr)
     then hdr' = hdr \<and> v \<in> pool_elems hdr \<and> prefix (key v) (key e) \<and> fr = destroy_elem hdr e
     else v = e \<and> pool_elems hdr' = insert e {w \<in> pool_elems hdr. \<not> prefix (key e) (key w)} \<and>
       set fr = (\<Union>w \<in> {w \<in> pool_elems hdr. prefix (key e) (key w)}. set (destroy_elem hdr w)))"
proof -
  have t: "tree_ok ok (scmp sg) (mp_root hdr)" using inv by (simp add: pool_inv_def)
  have oke: "ok e" using ok by (simp add: e_def)
  have ae: "el_addr e = a" by (simp add: e_def new_elem_def)
  obtain root v where i: "kavl_insert (scmp sg) (mp_root hdr) e = Some (root, v)"
    using insert_cases [OF t oke] room by (auto simp: pool_room_def)
  from add_loop [OF inv room oke _ i, of "[]"] fresh ae obtain hdr' v' tr' where l:
    "mem_add_loop sg e (hdr\<lparr>mp_root := root\<rparr>) v [] = Some (hdr', v', tr')"
    "mp_static hdr' = mp_static hdr" "mp_extra hdr' = mp_extra hdr" "mp_cmp hdr' = kind"
    "tree_ok ok (scmp sg) (mp_root hdr')"
    "if covered key e (pool_elems hdr)
     then hdr' = hdr \<and> v' \<in> pool_elems hdr \<and> prefix (key v') (key e) \<and> tr' = []
     else v' = e \<and> mp_count hdr' + 1 = count (mp_root hdr') \<and>
       pool_elems hdr' = insert e {w \<in> pool_elems hdr. \<not> prefix (key e) (key w)} \<and>
       set tr' = (\<Union>w \<in> {w \<in> pool_elems hdr. prefix (key e) (key w)}. set (destroy_elem hdr w))" by auto
  have run: "mem_add sg hdr (Some a) str len = (if a \<noteq> el_addr v' then Some (hdr', Some v', tr' @ destroy_elem hdr' e)
      else Some (hdr'\<lparr>mp_count := mp_count hdr' + 1\<rparr>, Some v', tr'))"
    using i l(1) ae by (simp add: mem_add_def e_def new_elem_def)
  show ?thesis
  proof (cases "covered key e (pool_elems hdr)")
    case True
    with l(6) fresh run inv show ?thesis by auto
  next
    case False
    with l ae run show ?thesis by (auto simp: pool_inv_def pool_elems_def)
  qed
qed

text \<open>As a set of keys, adding an element is adding the keys it covers.\<close>

lemma add_set:
  assumes inv: "pool_inv ok sg kind hdr" and room: "pool_room hdr"
    and ok: "ok (new_elem hdr a str len)" and fresh: "a \<notin> el_addr ` pool_elems hdr"
  shows "\<exists>hdr' v fr. mem_add sg hdr (Some a) str len = Some (hdr', Some v, fr) \<and> pool_inv ok sg kind hdr' \<and>
    pool_set key hdr' = pool_set key hdr \<union> {k. prefix (key (new_elem hdr a str len)) k}"
proof -
  let ?e = "new_elem hdr a str len"
  from add_cases [OF inv room ok fresh] obtain hdr' v fr where r:
    "mem_add sg hdr (Some a) str len = Some (hdr', Some v, fr)" "pool_inv ok sg kind hdr'"
    "if covered key ?e (pool_elems hdr)
     then hdr' = hdr \<and> v \<in> pool_elems hdr \<and> prefix (key v) (key ?e) \<and> fr = destroy_elem hdr ?e
     else v = ?e \<and> pool_elems hdr' = insert ?e {w \<in> pool_elems hdr. \<not> prefix (key ?e) (key w)} \<and>
       set fr = (\<Union>w \<in> {w \<in> pool_elems hdr. prefix (key ?e) (key w)}. set (destroy_elem hdr w))"
    by (elim exE conjE) (rule that)
  have "pool_set key hdr' = pool_set key hdr \<union> {k. prefix (key ?e) k}"
  proof (cases "covered key ?e (pool_elems hdr)")
    case True
    with r(3) show ?thesis by (auto simp: covered_def pool_set_def intro: prefix_order.trans)
  next
    case False
    with r(3) have "pool_elems hdr' = insert ?e {w \<in> pool_elems hdr. \<not> prefix (key ?e) (key w)}" by simp
    then show ?thesis by (auto simp: pool_set_def intro: prefix_order.trans)
  qed
  with r show ?thesis by blast
qed

lemma new_elem_kind: "pool_inv ok sg kind hdr \<Longrightarrow> new_elem hdr a str len = \<lparr> el_addr = a, el_len = len, el_data = str, el_cmp = kind \<rparr>"
  by (simp add: new_elem_def pool_inv_def)

lemma finite_pool: "card (pool_elems hdr) \<le> count (mp_root hdr)"
  by (simp add: pool_elems_def count_def card_length)

lemma add_count:
  assumes inv: "pool_inv ok sg kind hdr" and room: "pool_room hdr"
    and ok: "ok (new_elem hdr a str len)" and fresh: "a \<notin> el_addr ` pool_elems hdr"
    and run: "mem_add sg hdr (Some a) str len = Some (hdr', v, fr)"
  shows "count (mp_root hdr') \<le> count (mp_root hdr) + 1 \<and>
    el_addr ` pool_elems hdr' \<subseteq> insert a (el_addr ` pool_elems hdr)"
proof -
  from add_cases [OF inv room ok fresh] run have inv': "pool_inv ok sg kind hdr'"
    and sub: "pool_elems hdr' \<subseteq> insert (new_elem hdr a str len) (pool_elems hdr)"
    by (auto split: if_splits)
  have dist: "card (pool_elems h) = count (mp_root h)" if "pool_inv ok sg kind h" for h
  proof -
    have "distinct (inorder (mp_root h))"
      using that unfolding pool_inv_def tree_ok_def distinct_conv_nth sorted_wrt_iff_nth_less
      by (metis cmp_refl less_irrefl linorder_neqE_nat nth_mem)
    then show ?thesis by (simp add: pool_elems_def count_def distinct_card)
  qed
  have "finite (pool_elems hdr)" by (simp add: pool_elems_def)
  with sub have "card (pool_elems hdr') \<le> card (insert (new_elem hdr a str len) (pool_elems hdr))"
    by (intro card_mono) auto
  also have "\<dots> \<le> card (pool_elems hdr) + 1" by (simp add: card_insert_le_m1 card_insert_if \<open>finite (pool_elems hdr)\<close>)
  finally show ?thesis using sub dist inv inv' by (auto simp: new_elem_def)
qed

lemma add_all_set:
  assumes "pool_inv ok sg kind hdr" "count (mp_root hdr) + length es + 1 < 2 ^ 32"
    and "distinct (map fst es)" "\<forall>x \<in> set es. fst x \<notin> el_addr ` pool_elems hdr"
    and "\<forall>(a, str, len) \<in> set es. ok \<lparr> el_addr = a, el_len = len, el_data = str, el_cmp = kind \<rparr>"
  shows "\<exists>hdr'. mem_add_all sg hdr es = Some hdr' \<and> pool_inv ok sg kind hdr' \<and>
    pool_set key hdr' = pool_set key hdr \<union>
      {k. \<exists>(a, str, len) \<in> set es. prefix (key \<lparr> el_addr = a, el_len = len, el_data = str, el_cmp = kind \<rparr>) k}"
  using assms
proof (induction es arbitrary: hdr)
  case Nil
  then show ?case by simp
next
  case (Cons x es)
  obtain a str len where x: "x = (a, str, len)" by (cases x)
  have room: "pool_room hdr" using Cons.prems(2) by (simp add: pool_room_def room_def)
  have ok: "ok (new_elem hdr a str len)" and fresh: "a \<notin> el_addr ` pool_elems hdr"
    using Cons.prems x by (auto simp: new_elem_kind)
  from add_set [OF Cons.prems(1) room this] obtain hdr1 v fr where r:
    "mem_add sg hdr (Some a) str len = Some (hdr1, Some v, fr)" "pool_inv ok sg kind hdr1"
    "pool_set key hdr1 = pool_set key hdr \<union> {k. prefix (key (new_elem hdr a str len)) k}" by blast
  from add_count [OF Cons.prems(1) room ok fresh r(1)]
  have sub: "count (mp_root hdr1) \<le> count (mp_root hdr) + 1"
    "el_addr ` pool_elems hdr1 \<subseteq> insert a (el_addr ` pool_elems hdr)" by simp_all
  have c: "count (mp_root hdr1) + length es + 1 < 2 ^ 32" using sub(1) Cons.prems(2) by simp
  have d: "\<forall>x \<in> set es. fst x \<notin> el_addr ` pool_elems hdr1"
  proof
    fix y assume y: "y \<in> set es"
    then have "fst y \<noteq> a" using Cons.prems(3) x by auto
    moreover have "fst y \<notin> el_addr ` pool_elems hdr" using Cons.prems(4) y by simp
    ultimately show "fst y \<notin> el_addr ` pool_elems hdr1" using sub(2) by blast
  qed
  have e: "distinct (map fst es)"
    "\<forall>(a, str, len) \<in> set es. ok \<lparr> el_addr = a, el_len = len, el_data = str, el_cmp = kind \<rparr>"
    using Cons.prems(3,5) by simp_all
  from Cons.IH [OF r(2) c e(1) d e(2)] obtain hdr' where
    "mem_add_all sg hdr1 es = Some hdr'" "pool_inv ok sg kind hdr'"
    "pool_set key hdr' = pool_set key hdr1 \<union>
      {k. \<exists>(a, str, len) \<in> set es. prefix (key \<lparr> el_addr = a, el_len = len, el_data = str, el_cmp = kind \<rparr>) k}"
    by blast
  with r x new_elem_kind [OF Cons.prems(1)] show ?case by auto
qed

lemma pool_inv_empty: "pool_inv ok sg kind (mem_pool f x kind)"
  by (simp add: pool_inv_def mem_pool_def)

text \<open>A pool filled with a list of keys answers for the keys that one of them covers.\<close>

lemma filled_pool:
  assumes "distinct (map fst es)" "length es + 1 < 2 ^ 32"
    and "\<forall>(a, str, len) \<in> set es. ok \<lparr> el_addr = a, el_len = len, el_data = str, el_cmp = kind \<rparr>"
    and ok: "ok \<lparr> el_addr = 0, el_len = n, el_data = q, el_cmp = kind \<rparr>"
  shows "\<exists>hdr. mem_add_all sg (mem_pool f x kind) es = Some hdr \<and>
    ((\<exists>v. mem_get sg hdr q n = Some v \<and> el_len v \<le> n) \<longleftrightarrow>
     (\<exists>(a, str, len) \<in> set es. prefix (key \<lparr> el_addr = a, el_len = len, el_data = str, el_cmp = kind \<rparr>)
        (key \<lparr> el_addr = 0, el_len = n, el_data = q, el_cmp = kind \<rparr>)))"
proof -
  have empty: "count (mp_root (mem_pool f x kind)) = 0" "pool_elems (mem_pool f x kind) = {}"
    "pool_set key (mem_pool f x kind) = {}"
    by (simp_all add: mem_pool_def pool_elems_def pool_set_def)
  from add_all_set [OF pool_inv_empty _ assms(1) _ assms(3), of f x] assms(2) obtain hdr where
    r: "mem_add_all sg (mem_pool f x kind) es = Some hdr" "pool_inv ok sg kind hdr"
    "pool_set key hdr = {k. \<exists>(a, str, len) \<in> set es.
        prefix (key \<lparr> el_addr = a, el_len = len, el_data = str, el_cmp = kind \<rparr>) k}"
    unfolding empty by auto
  have t: "temp_elem hdr q n = \<lparr> el_addr = 0, el_len = n, el_data = q, el_cmp = kind \<rparr>"
    using r(2) by (simp add: temp_elem_def pool_inv_def)
  from get_member [OF r(2), of q n] ok r(1,3) show ?thesis unfolding t by auto
qed

end

interpretation bits: pool_kind ok_bits sg key_bits CMP_BITS for sg
proof unfold_locales
  show "sgn (scmp sg a b) = pcmp (key_bits a) (key_bits b)" if "ok_bits a" "ok_bits b" for a b
    using bit_cmp_key [OF that, of sg] by (metis scmp_of_m)
qed (auto simp: ok_bits_def key_bits_def)

interpretation blobs: pool_kind ok_bytes sg key_bytes CMP_BYTES for sg
proof unfold_locales
  show "sgn (scmp sg a b) = pcmp (key_bytes a) (key_bytes b)" if "ok_bytes a" "ok_bytes b" for a b
    using byte_cmp_key [OF that, of sg] by (metis scmp_of_m sgn_pcmp)
qed (auto simp: ok_bytes_def key_bytes_def related_def)

interpretation hosts: pool_kind "ok_host sg" sg "key_host sg" CMP_HOST for sg
proof unfold_locales
  show "sgn (scmp sg a b) = pcmp (key_host sg a) (key_host sg b)" if "ok_host sg a" "ok_host sg b" for a b
    using host_cmp_key [OF that] by (metis scmp_of_m sgn_pcmp)
qed (auto simp: ok_host_def key_host_def)

end
