(* ===== verification/Pool_Props.thy ===== *)
theory Pool_Props
  imports Mpool_Correct
begin

text \<open>
  What the trees of kavl.h and the pools of mpool.c promise to their callers.
\<close>

section \<open>Matching\<close>

text \<open>A name is in a list of domains when it is one of them or below one of them.\<close>

definition domain_match :: "mem list \<Rightarrow> mem \<Rightarrow> bool" where
  "domain_match hs q \<longleftrightarrow> (\<exists>h \<in> set hs. q = h \<or> suffix (46 # h) q)"

text \<open>An address is in a list of ranges when it begins with the bits of one of them.\<close>

definition range_match :: "(mem \<times> nat) list \<Rightarrow> mem \<Rightarrow> bool" where
  "range_match rs q \<longleftrightarrow> (\<exists>(r, n) \<in> set rs. n \<le> 8 * length q \<and> take n (byte_bits r) = take n (byte_bits q))"

definition host_keys :: "(nat \<times> mem) list \<Rightarrow> (nat \<times> mem \<times> int) list" where
  "host_keys es = map (\<lambda>(a, h). (a, h, int (length h))) es"

definition range_keys :: "(nat \<times> mem \<times> nat) list \<Rightarrow> (nat \<times> mem \<times> int) list" where
  "range_keys es = map (\<lambda>(a, r, n). (a, r, int n)) es"

lemma prefix_rev_dot:
  "prefix (rev h @ [46 :: byte]) (rev q @ [46]) \<longleftrightarrow> q = h \<or> suffix (46 # h) q"
proof
  assume "prefix (rev h @ [46]) (rev q @ [46])"
  then have "prefix (rev h @ [46]) (rev q) \<or> rev h @ [46] = rev q @ [46]"
    by (auto simp: prefix_snoc)
  then show "q = h \<or> suffix (46 # h) q"
    by (auto simp: suffix_to_prefix)
next
  assume "q = h \<or> suffix (46 # h) q"
  then show "prefix (rev h @ [46]) (rev q @ [46])"
    by (auto simp: suffix_to_prefix prefix_snoc)
qed

lemma prefix_map_inj: "inj f \<Longrightarrow> prefix (map f a) (map f b) \<longleftrightarrow> prefix a b"
  by (metis map_injective prefix_def map_mono_prefix map_eq_append_conv)

lemma host_key_match:
  "prefix (key_host sg \<lparr> el_addr = a, el_len = int (length h), el_data = h, el_cmp = c \<rparr>)
     (key_host sg \<lparr> el_addr = b, el_len = int (length q), el_data = q, el_cmp = d \<rparr>) \<longleftrightarrow>
   q = h \<or> suffix (46 # h) q"
proof -
  have c46: "[46] = map (cval sg) [46]" by (simp add: cval_def)
  have "inj (cval sg)" by (simp add: inj_def)
  from prefix_map_inj [OF this, of "rev h @ [46]" "rev q @ [46]"] prefix_rev_dot [of h q]
  show ?thesis by (simp add: key_host_def c46 del: list.map)
qed

lemma prefix_take: "prefix a b \<longleftrightarrow> length a \<le> length b \<and> a = take (length a) b"
  by (auto simp: prefix_def) (metis append_take_drop_id)

lemma range_key_match:
  assumes "n \<le> 8 * length r"
  shows "prefix (key_bits \<lparr> el_addr = a, el_len = int n, el_data = r, el_cmp = c \<rparr>)
     (key_bits \<lparr> el_addr = b, el_len = 8 * int (length q), el_data = q, el_cmp = d \<rparr>) \<longleftrightarrow>
   n \<le> 8 * length q \<and> take n (byte_bits r) = take n (byte_bits q)"
proof -
  have q: "nat (8 * int (length q)) = 8 * length q" by simp
  have "prefix (take n (byte_bits r)) (byte_bits q) \<longleftrightarrow> n \<le> 8 * length q \<and> take n (byte_bits r) = take n (byte_bits q)"
    using assms prefix_take [of "take n (byte_bits r)" "byte_bits q"] by auto
  then show ?thesis by (simp add: key_bits_def q)
qed

lemma host_keys_simps:
  "map fst (host_keys es) = map fst es" "length (host_keys es) = length es"
  "(\<exists>(a, m, n) \<in> set (host_keys es). P a m n) \<longleftrightarrow> (\<exists>e \<in> set es. P (fst e) (snd e) (int (length (snd e))))"
  "(\<forall>(a, m, n) \<in> set (host_keys es). P a m n) \<longleftrightarrow> (\<forall>e \<in> set es. P (fst e) (snd e) (int (length (snd e))))"
  by (simp_all add: host_keys_def case_prod_beta' comp_def)

lemma range_keys_simps:
  "map fst (range_keys es) = map fst es" "length (range_keys es) = length es"
  "(\<exists>(a, m, n) \<in> set (range_keys es). P a m n) \<longleftrightarrow> (\<exists>e \<in> set es. P (fst e) (fst (snd e)) (int (snd (snd e))))"
  "(\<forall>(a, m, n) \<in> set (range_keys es). P a m n) \<longleftrightarrow> (\<forall>e \<in> set es. P (fst e) (fst (snd e)) (int (snd (snd e))))"
  by (simp_all add: range_keys_def case_prod_beta' comp_def)

lemma hosts_lookup:
  assumes addrs: "distinct (map fst es)" and few: "length es + 1 < 2 ^ 32"
    and chars: "\<forall>h \<in> insert q (snd ` set es). \<forall>b \<in> set h. 46 \<le> cval sg b"
  shows "\<exists>hdr. mem_add_all sg (mem_pool f x CMP_HOST) (host_keys es) = Some hdr \<and>
    ((\<exists>v. mem_get sg hdr q (int (length q)) = Some v \<and> el_len v \<le> int (length q)) \<longleftrightarrow>
     domain_match (map snd es) q)"
proof -
  have ok: "\<forall>(a, str, len) \<in> set (host_keys es). ok_host sg \<lparr> el_addr = a, el_len = len, el_data = str, el_cmp = CMP_HOST \<rparr>"
    "ok_host sg \<lparr> el_addr = 0, el_len = int (length q), el_data = q, el_cmp = CMP_HOST \<rparr>"
    using chars by (simp_all add: host_keys_simps ok_host_def)
  have "(\<exists>(a, str, len) \<in> set (host_keys es). prefix
      (key_host sg \<lparr> el_addr = a, el_len = len, el_data = str, el_cmp = CMP_HOST \<rparr>)
      (key_host sg \<lparr> el_addr = 0, el_len = int (length q), el_data = q, el_cmp = CMP_HOST \<rparr>)) \<longleftrightarrow>
    domain_match (map snd es) q"
    by (simp add: host_keys_simps host_key_match domain_match_def)
  then show ?thesis
    using hosts.filled_pool [OF _ _ ok, of f x] addrs few by (simp add: host_keys_simps)
qed

lemma ranges_lookup:
  assumes addrs: "distinct (map fst es)" and few: "length es + 1 < 2 ^ 32"
    and lens: "\<forall>(a, r, n) \<in> set es. n \<le> 8 * length r"
  shows "\<exists>hdr. mem_add_all sg (mem_pool f x CMP_BITS) (range_keys es) = Some hdr \<and>
    ((\<exists>v. mem_get sg hdr q (8 * int (length q)) = Some v \<and> el_len v \<le> 8 * int (length q)) \<longleftrightarrow>
     range_match (map snd es) q)"
proof -
  have ok: "\<forall>(a, str, len) \<in> set (range_keys es). ok_bits \<lparr> el_addr = a, el_len = len, el_data = str, el_cmp = CMP_BITS \<rparr>"
    "ok_bits \<lparr> el_addr = 0, el_len = 8 * int (length q), el_data = q, el_cmp = CMP_BITS \<rparr>"
    using lens by (auto simp: range_keys_simps ok_bits_def)
  have "(\<exists>(a, str, len) \<in> set (range_keys es). prefix
      (key_bits \<lparr> el_addr = a, el_len = len, el_data = str, el_cmp = CMP_BITS \<rparr>)
      (key_bits \<lparr> el_addr = 0, el_len = 8 * int (length q), el_data = q, el_cmp = CMP_BITS \<rparr>)) \<longleftrightarrow>
    (\<exists>e \<in> set es. snd (snd e) \<le> 8 * length q \<and> take (snd (snd e)) (byte_bits (fst (snd e))) = take (snd (snd e)) (byte_bits q))"
    unfolding range_keys_simps using lens by (intro bex_cong refl range_key_match) auto
  also have "\<dots> \<longleftrightarrow> range_match (map snd es) q" by (simp add: range_match_def case_prod_beta')
  finally show ?thesis
    using bits.filled_pool [OF _ _ ok, where sg = sg and f = f and x = x] addrs few by (simp add: range_keys_simps)
qed

section \<open>Properties\<close>

text \<open>
  C27: On an AVL tree of fewer than \<open>2^32 - 1\<close> nodes that is sorted for the element
  searched, \<open>kavl_insert\<close> never dereferences NULL and never overruns its path arrays.
  It either returns the element of the tree that compares equal and leaves the tree as it
  is, or puts the new element between the smaller and the larger ones; heights, balances
  and sizes are right again afterwards.
\<close>

theorem kavl_insert_ok:
  assumes "avl root" "count root + 1 < 2 ^ 32" "cmp_sorted cmp x (inorder root)"
  shows "(\<exists>v. kavl_insert cmp root x = Some (root, v) \<and> v \<in> set (inorder root) \<and> cmp x v = 0) \<or>
    (\<exists>t xs ys. kavl_insert cmp root x = Some (t, x) \<and> avl t \<and> inorder root = xs @ ys \<and>
       inorder t = xs @ x # ys \<and> (\<forall>a \<in> set xs. 0 < cmp x a) \<and> (\<forall>b \<in> set ys. cmp x b < 0))"
  using assms avl_depth [of root] by (intro kavl_insert_cases) simp_all

definition sample_tree :: "int kt" where
  "sample_tree = Node (Node Null 1 0 1 Null) 3 1 4 (Node Null 5 1 2 (Node Null 7 0 1 Null))"

theorem kavl_insert_ok_witness:
  "\<exists>t. kavl_insert (-) sample_tree 9 = Some (t, 9) \<and> avl t \<and> inorder t = [1, 3, 5, 7, 9]"
proof -
  have "avl sample_tree" "count sample_tree + 1 < 2 ^ 32" "cmp_sorted (-) 9 (inorder sample_tree)"
    by (simp_all add: sample_tree_def cmp_sorted_def)
  from kavl_insert_ok [OF this] show ?thesis by (auto simp: sample_tree_def Cons_eq_append_conv)
qed

text \<open>
  C28: On such a tree \<open>kavl_erase\<close> is as safe; it takes exactly one element that
  compares equal out of the sequence, or none when none does, and rebalances.
\<close>

theorem kavl_erase_ok:
  assumes "avl root" "count root + 1 < 2 ^ 32" "cmp_sorted cmp x (inorder root)"
  shows "(kavl_erase cmp root x = Some (root, None) \<and> (\<forall>v \<in> set (inorder root). cmp x v \<noteq> 0)) \<or>
    (\<exists>t v xs ys. kavl_erase cmp root x = Some (t, Some v) \<and> cmp x v = 0 \<and> avl t \<and>
       inorder root = xs @ v # ys \<and> inorder t = xs @ ys)"
  using assms avl_depth [of root] by (intro kavl_erase_cases) simp_all

theorem kavl_erase_ok_witness:
  "\<exists>t. kavl_erase (-) sample_tree 1 = Some (t, Some 1) \<and> avl t \<and> inorder t = [3, 5, 7]"
proof -
  have "avl sample_tree" "count sample_tree + 1 < 2 ^ 32" "cmp_sorted (-) 1 (inorder sample_tree)"
    by (simp_all add: sample_tree_def cmp_sorted_def)
  from kavl_erase_ok [OF this] show ?thesis by (auto simp: sample_tree_def Cons_eq_append_conv)
qed

text \<open>
  The loop of the iterator in \<open>dump_cache\<close>: the elements \<open>kavl_at\<close> gives until
  \<open>kavl_itr_next\<close> returns 0, which it has to do after \<open>n\<close> elements.
\<close>

fun itr_walk :: "nat \<Rightarrow> 'a kt list \<times> 'a kt \<Rightarrow> 'a list option" where
  "itr_walk 0 itr = None"
| "itr_walk (Suc n) itr = do {
     let e = key (hd (fst itr));
     next_itr \<leftarrow> kavl_itr_next itr;
     (case next_itr of None \<Rightarrow> Some [e] | Some itr \<Rightarrow> do { es \<leftarrow> itr_walk n itr; Some (e # es) }) }"

lemma itr_walk_elems:
  "itr_ok h itr \<Longrightarrow> h \<le> KAVL_MAX_DEPTH \<Longrightarrow> length (itr_elems itr) \<le> n \<Longrightarrow> itr_walk n itr = Some (itr_elems itr)"
proof (induction n arbitrary: itr)
  case 0
  then show ?case using itr_next_cases [of h itr] by auto
next
  case (Suc n)
  from itr_next_cases [OF Suc.prems(1,2)] Suc.prems show ?case by (auto simp: Suc.IH)
qed

text \<open>
  C29: On every non-empty balanced tree of fewer than \<open>2^32 - 1\<close> nodes the iteration from
  \<open>kavl_itr_first\<close> by \<open>kavl_itr_next\<close> stays within the 64 entries of the iterator's stack,
  visits every element once, in order, and then ends: the next step returns 0 exactly after the last element.
\<close>

theorem kavl_iteration:
  assumes "avl t" "count t + 1 < 2 ^ 32" "t \<noteq> Null"
  shows "\<exists>itr. kavl_itr_first t = Some itr \<and> itr_walk (count t) itr = Some (inorder t)"
proof -
  have h: "height t \<le> KAVL_MAX_DEPTH" using avl_depth [OF assms(1,2)] by simp
  then obtain itr where "kavl_itr_first t = Some itr" "itr_ok (height t) itr" "itr_elems itr = inorder t"
    using itr_first_cases [OF assms(3)] by blast
  then show ?thesis using itr_walk_elems [of "height t" itr "count t"] h by (simp add: count_def)
qed

theorem kavl_iteration_witness:
  "\<exists>itr. kavl_itr_first sample_tree = Some itr \<and> itr_walk (count sample_tree) itr = Some [1, 3, 5, 7]"
proof -
  have "avl sample_tree" "count sample_tree + 1 < 2 ^ 32" "sample_tree \<noteq> Null" by (simp_all add: sample_tree_def)
  moreover have "inorder sample_tree = [1, 3, 5, 7]" by (simp add: sample_tree_def)
  ultimately show ?thesis using kavl_iteration [of sample_tree] by simp
qed

text \<open>
  C9: A pool filled by \<open>mem_add\<close> with fewer than \<open>2^32 - 1\<close> host names at different addresses, in any order,
  with duplicates and with names below others, when neither the names nor the name asked for have a
  character that sorts before the dot (a hyphen does): filling it always ends, and \<open>mem_get\<close> with the
  length test of its caller finds the name exactly when it is one of the names given or a subdomain of
  one. (With hyphens it need not: \<open>hyphen_hides_domain\<close>.)
\<close>

theorem host_pool_correct:
  assumes "distinct (map fst es)" "length es + 1 < 2 ^ 32"
    and "\<forall>h \<in> insert q (snd ` set es). \<forall>b \<in> set h. 46 \<le> cval sg b"
  shows "\<exists>hdr. mem_add_all sg (mem_pool f x CMP_HOST) (host_keys es) = Some hdr \<and>
    ((\<exists>v. mem_get sg hdr q (int (length q)) = Some v \<and> el_len v \<le> int (length q)) \<longleftrightarrow>
     domain_match (map snd es) q)"
  using assms by (rule hosts_lookup)

theorem host_pool_correct_witness:
  "\<exists>hdr. mem_add_all True (mem_pool True False CMP_HOST)
       (host_keys [(1, bytes_of ''example.com''), (2, bytes_of ''com''), (3, bytes_of ''a.org'')]) = Some hdr \<and>
    (\<exists>v. mem_get True hdr (bytes_of ''www.a.org'') (int (length (bytes_of ''www.a.org''))) = Some v \<and>
       el_len v \<le> int (length (bytes_of ''www.a.org'')))"
proof -
  have "distinct (map fst [(1 :: nat, bytes_of ''example.com''), (2, bytes_of ''com''), (3, bytes_of ''a.org'')])"
    "length [(1 :: nat, bytes_of ''example.com''), (2, bytes_of ''com''), (3, bytes_of ''a.org'')] + 1 < 2 ^ 32"
    by simp_all
  moreover have "\<forall>h \<in> insert (bytes_of ''www.a.org'')
      (snd ` set [(1 :: nat, bytes_of ''example.com''), (2, bytes_of ''com''), (3, bytes_of ''a.org'')]).
      \<forall>b \<in> set h. 46 \<le> cval True b"
    by code_simp
  moreover have "domain_match (map snd [(1 :: nat, bytes_of ''example.com''), (2, bytes_of ''com''), (3, bytes_of ''a.org'')])
      (bytes_of ''www.a.org'')"
    by code_simp
  ultimately show ?thesis
    using host_pool_correct [of "[(1, bytes_of ''example.com''), (2, bytes_of ''com''), (3, bytes_of ''a.org'')]"
        "bytes_of ''www.a.org''" True True False] by blast
qed

text \<open>
  A pool filled with address ranges finds an address, with a range not longer than
  it, exactly when one of the ranges given is a prefix of its bits.
\<close>

theorem range_pool_correct:
  assumes "distinct (map fst es)" "length es + 1 < 2 ^ 32"
    and "\<forall>(a, r, n) \<in> set es. n \<le> 8 * length r"
  shows "\<exists>hdr. mem_add_all sg (mem_pool f x CMP_BITS) (range_keys es) = Some hdr \<and>
    ((\<exists>v. mem_get sg hdr q (8 * int (length q)) = Some v \<and> el_len v \<le> 8 * int (length q)) \<longleftrightarrow>
     range_match (map snd es) q)"
  using assms by (rule ranges_lookup)

theorem range_pool_correct_witness:
  "\<exists>hdr. mem_add_all True (mem_pool False False CMP_BITS) (range_keys [(1, [10, 0, 0, 0], 8), (2, [10, 1, 0, 0], 16)]) = Some hdr \<and>
    (\<exists>v. mem_get True hdr [10, 1, 2, 3] (8 * int (length [10 :: byte, 1, 2, 3])) = Some v \<and>
       el_len v \<le> 8 * int (length [10 :: byte, 1, 2, 3]))"
proof -
  have "range_match (map snd [(1 :: nat, [10, 0, 0, 0], 8), (2, [10, 1, 0, 0], 16)]) [10, 1, 2, 3]"
    by code_simp
  then show ?thesis
    using range_pool_correct [of "[(1, [10, 0, 0, 0], 8), (2, [10, 1, 0, 0], 16)]" True False False "[10, 1, 2, 3]"]
    by simp
qed



lemma destroy_loop_frees:
  "avl t \<Longrightarrow> count t + 1 < 2 ^ 32 \<Longrightarrow> mem_destroy_loop hdr t tr = Some (tr @ concat (map (destroy_elem hdr) (inorder t)))"
proof (induction "count t" arbitrary: t tr)
  case 0
  then have "t = Null" by (cases t) (simp_all add: count_def)
  then show ?case by (subst mem_destroy_loop.simps) simp
next
  case (Suc n)
  then have t: "t \<noteq> Null" by (auto simp: count_def)
  obtain u e where e: "kavl_erase_first t = Some (u, e)" "avl u" "inorder t = e # inorder u"
    using kavl_erase_first_cases [OF Suc.prems(1) _ t] avl_depth [OF Suc.prems] by auto
  then have "n = count u" "count u + 1 < 2 ^ 32" using Suc.hyps(2) Suc.prems(2) by (simp_all add: count_def)
  from Suc.hyps(1) [OF this(1) e(2) this(2)] show ?case using e t by (subst mem_destroy_loop.simps) simp
qed

lemma destroy_elem_addr: "f \<in> set (destroy_elem hdr e) \<Longrightarrow> f \<in> {FreeData (el_addr e), FreeExtra (el_addr e), FreeElem (el_addr e)}"
  by (auto simp: destroy_elem_def split: if_splits)

lemma destroyed_once:
  "distinct (map el_addr es) \<Longrightarrow> distinct (concat (map (destroy_elem hdr) es))"
proof (induction es)
  case (Cons e es)
  have "f \<notin> set (concat (map (destroy_elem hdr) es))" if f: "f \<in> set (destroy_elem hdr e)" for f
  proof
    assume "f \<in> set (concat (map (destroy_elem hdr) es))"
    then obtain e' where e': "e' \<in> set es" "f \<in> set (destroy_elem hdr e')" by auto
    from destroy_elem_addr [OF f] destroy_elem_addr [OF e'(2)] have "el_addr e = el_addr e'" by auto
    then show False using Cons.prems e'(1) by (auto simp: image_iff)
  qed
  moreover have "distinct (destroy_elem hdr e)" by (simp add: destroy_elem_def)
  ultimately show ?case using Cons by auto
qed simp

text \<open>
  C25: Destroying a pool with a balanced tree of fewer than \<open>2^32 - 1\<close> elements always ends.
  It frees, in the order of the tree, exactly what each of its elements owns: the key unless the pool is
  static, the extra data if the pool has them, and the element; and when the elements are different
  objects, nothing is freed twice.
\<close>

theorem mem_destroy_frees:
  assumes "avl (mp_root hdr)" "count (mp_root hdr) + 1 < 2 ^ 32"
  shows "mem_destroy (Some hdr) = Some (concat (map (destroy_elem hdr) (inorder (mp_root hdr)))) \<and>
    (distinct (map el_addr (inorder (mp_root hdr))) \<longrightarrow> distinct (concat (map (destroy_elem hdr) (inorder (mp_root hdr)))))"
  using destroy_loop_frees [OF assms, of hdr "[]"] destroyed_once by (simp add: mem_destroy_def)

definition two_names :: mphdr where
  "two_names = \<lparr>mp_static = False, mp_extra = True, mp_cmp = CMP_HOST, mp_count = 2,
     mp_root = Node Null \<lparr>el_addr = 5, el_len = 1, el_data = [97], el_cmp = CMP_HOST\<rparr> 1 2
       (Node Null \<lparr>el_addr = 6, el_len = 1, el_data = [98], el_cmp = CMP_HOST\<rparr> 0 1 Null)\<rparr>"

theorem mem_destroy_frees_witness:
  "mem_destroy (Some two_names) = Some [FreeData 5, FreeExtra 5, FreeElem 5, FreeData 6, FreeExtra 6, FreeElem 6]"
proof -
  have "avl (mp_root two_names)" "count (mp_root two_names) + 1 < 2 ^ 32" by (simp_all add: two_names_def)
  from mem_destroy_frees [OF this] show ?thesis by (simp add: two_names_def destroy_elem_def)
qed

section \<open>Where the order of host names fails\<close>

text \<open>
  A hyphen sorts before the dot. With \<open>example.com\<close> and \<open>my-example.com\<close> both in
  a list, the name \<open>www.example.com\<close> is not found, though it is below one of them.
\<close>

theorem hyphen_hides_domain:
  "(case mem_add_all True (mem_pool True False CMP_HOST)
      (host_keys [(1, bytes_of ''my-example.com''), (2, bytes_of ''example.com'')]) of
      None \<Rightarrow> False
    | Some hdr \<Rightarrow> mem_get True hdr (bytes_of ''www.example.com'') 15 = None) \<and>
   domain_match [bytes_of ''my-example.com'', bytes_of ''example.com''] (bytes_of ''www.example.com'')"
  by code_simp

end
