(* ===== verification/Lists_Props.thy ===== *)
theory Lists_Props
  imports Lists Pool_Props Samples
begin

text \<open>
  Lists of host names, from the text of a file to the lookup: what \<open>parse_hosts\<close> of main.c
  puts into a pool of mpool.c.
\<close>

section \<open>The names of a text\<close>

text \<open>The words between separators; \<open>cur\<close> is the word that is being read.\<close>

fun words_from :: "mem \<Rightarrow> mem \<Rightarrow> mem list" where
  "words_from cur [] = (if cur = [] then [] else [cur])"
| "words_from cur (c # cs) =
     (if is_sep c then (if cur = [] then [] else [cur]) @ words_from [] cs else words_from (cur @ [c]) cs)"

definition name_char :: "byte \<Rightarrow> bool" where
  "name_char c \<longleftrightarrow> lower_char c \<noteq> None"

definition lower_word :: "mem \<Rightarrow> mem" where
  "lower_word = map (\<lambda>c. case lower_char c of None \<Rightarrow> c | Some d \<Rightarrow> d)"

definition names_from :: "mem \<Rightarrow> mem \<Rightarrow> mem list" where
  "names_from cur cs = map lower_word (filter (list_all name_char) (words_from cur cs))"

definition host_names :: "mem \<Rightarrow> mem list" where
  "host_names text = names_from [] text"

lemma lower_word_simps [simp]: "lower_word (xs @ ys) = lower_word xs @ lower_word ys" "length (lower_word xs) = length xs"
  "lower_word [] = []" "lower_word xs = [] \<longleftrightarrow> xs = []"
  by (simp_all add: lower_word_def)

section \<open>The loop\<close>

text \<open>A kernel that grants memory.\<close>

definition gives_memory :: "kernel \<Rightarrow> bool" where
  "gives_memory k \<longleftrightarrow> (\<forall>tr n. 0 < a_ret (k tr (Malloc n)))"

lemma alloc_given:
  assumes "gives_memory (kernel w)"
  shows "\<exists>w'. alloc n w = (Some (next_addr w), w') \<and> next_addr w' = next_addr w + 1 \<and> kernel w' = kernel w \<and>
    char_signed w' = char_signed w"
  using assms by (simp add: alloc_def call_def sys_def Let_def gives_memory_def not_le [symmetric])

text \<open>Keys of a list of names: consecutive addresses, and data that begin with the name.\<close>

definition keys_of :: "nat \<Rightarrow> (nat \<times> mem \<times> int) list \<Rightarrow> mem list \<Rightarrow> bool" where
  "keys_of a ks hs \<longleftrightarrow> map fst ks = [a..<a + length hs] \<and>
     list_all2 (\<lambda>(a, str, len) h. len = int (length h) \<and> take (length h) str = h \<and> length h \<le> length str) ks hs"

lemma keys_of_simps [simp]: "keys_of a [] []"
  "take (length h) str = h \<Longrightarrow> length h \<le> length str \<Longrightarrow>
     keys_of a ((a, str, int (length h)) # ks) (h # hs) \<longleftrightarrow> keys_of (Suc a) ks hs"
  by (simp_all add: keys_of_def upt_conv_Cons del: upt_Suc)


text \<open>One word is over: what the loop does at its end, and the names that are left.\<close>

definition loop_adds :: "mem \<Rightarrow> nat \<Rightarrow> nat \<Rightarrow> nat \<Rightarrow> bool \<Rightarrow> proc \<Rightarrow> mem list \<Rightarrow> bool" where
  "loop_adds buffer n e s bad w hs \<longleftrightarrow>
     (\<exists>ks buffer' w'. keys_of (next_addr w) ks hs \<and>
        (\<forall>hdr hdr'. mem_add_all (char_signed w) hdr ks = Some hdr' \<longrightarrow>
           hosts_loop hdr buffer n e s bad w = Some (True, hdr', buffer', w')))"

lemma loop_adds_step:
  assumes "\<And>hdr. hosts_loop hdr buffer n e s bad w = hosts_loop hdr buffer' n e' s' bad' w"
    and "loop_adds buffer' n e' s' bad' w hs"
  shows "loop_adds buffer n e s bad w hs"
  using assms by (simp add: loop_adds_def)

lemma loop_adds_end: "n \<le> length buffer \<Longrightarrow> n < e \<Longrightarrow> loop_adds buffer n e s bad w []"
  unfolding loop_adds_def by (intro exI [of _ "[]"] exI [of _ buffer] exI [of _ w]) (simp add: hosts_loop.simps)

lemma mem_add_some: "mem_add sg hdr (Some a) str len = Some (hdr', v, fr) \<Longrightarrow> v \<noteq> None"
  by (auto simp: mem_add_def Let_def bind_eq_Some_conv split: if_splits)

lemma loop_adds_word:
  assumes "n \<le> length buffer" and "e \<le> n" and "e < n \<longrightarrow> is_sep (buffer ! e)" and "s < e" and "gives_memory (kernel w)"
    and "\<And>w'. next_addr w' = next_addr w + 1 \<Longrightarrow> kernel w' = kernel w \<Longrightarrow> char_signed w' = char_signed w \<Longrightarrow>
      loop_adds buffer n (e + 1) (e + 1) False w' hs"
    and "h = take (e - s) (drop s buffer)"
  shows "loop_adds buffer n e s False w (h # hs)"
proof -
  obtain w1 where w1: "alloc 48 w = (Some (next_addr w), w1)" "next_addr w1 = next_addr w + 1" "kernel w1 = kernel w"
    "char_signed w1 = char_signed w"
    using alloc_given [OF assms(5)] by blast
  obtain ks buffer' w' where k: "keys_of (next_addr w1) ks hs"
    "\<And>hdr hdr'. mem_add_all (char_signed w1) hdr ks = Some hdr' \<Longrightarrow>
       hosts_loop hdr buffer n (e + 1) (e + 1) False w1 = Some (True, hdr', buffer', w')"
    using assms(6) [OF w1(2-4)] unfolding loop_adds_def by blast
  let ?k = "(next_addr w, drop s buffer, int (length h))"
  have h: "length h = e - s" "take (length h) (drop s buffer) = h" "length h \<le> length (drop s buffer)"
    using assms(1,2,4,7) by simp_all
  have "hosts_loop hdr buffer n e s False w = Some (True, hdr', buffer', w')"
    if add: "mem_add_all (char_signed w) hdr (?k # ks) = Some hdr'" for hdr hdr'
  proof -
    obtain hdr1 v fr where a: "mem_add (char_signed w) hdr (Some (next_addr w)) (drop s buffer) (int e - int s) = Some (hdr1, v, fr)"
      "mem_add_all (char_signed w) hdr1 ks = Some hdr'"
      using add assms(4) h(1) by (auto simp: bind_eq_Some_conv of_nat_diff)
    then show ?thesis
      using assms(1-4) k(2) [of hdr1 hdr'] mem_add_some [OF a(1)] w1
      by (subst hosts_loop.simps) (auto simp: w1(1,4) not_le)
  qed
  moreover have "keys_of (next_addr w) (?k # ks) (h # hs)"
    using keys_of_simps(2) [OF h(2,3), of "next_addr w" ks hs] k(1) w1(2) by simp
  ultimately show ?thesis unfolding loop_adds_def by blast
qed

text \<open>The end of a word, at a separator or at the end of the text.\<close>

lemma word_end:
  assumes "buffer = pre @ lower_word cur @ tail" and "e = length pre + length cur" and "gives_memory (kernel w)"
    and "tail = [] \<or> is_sep (hd tail)"
    and rest: "\<And>w'. kernel w' = kernel w \<Longrightarrow> loop_adds buffer (length buffer) (e + 1) (e + 1) False w' hs"
  shows "loop_adds buffer (length buffer) e (length pre) (\<not> list_all name_char cur) w
    ((if cur \<noteq> [] \<and> list_all name_char cur then [lower_word cur] else []) @ hs)"
proof -
  let ?n = "length buffer" and ?s = "length pre"
  have e: "e \<le> ?n" "e < ?n \<longrightarrow> is_sep (buffer ! e)"
    using assms(1,2,4) by (cases tail; simp add: nth_append)+
  consider "cur = []" | "cur \<noteq> []" "\<not> list_all name_char cur" | "cur \<noteq> []" "list_all name_char cur" by blast
  then show ?thesis
  proof cases
    case 1
    have "hosts_loop hdr buffer ?n e ?s False w = hosts_loop hdr buffer ?n (e + 1) (e + 1) False w" for hdr
      using e 1 assms(2) by (subst hosts_loop.simps) auto
    then show ?thesis using 1 rest [of w] by (simp add: loop_adds_def)
  next
    case 2
    have "hosts_loop hdr buffer ?n e ?s True w = hosts_loop hdr buffer ?n (e + 1) (e + 1) False w" for hdr
      using e 2 assms(2) by (subst hosts_loop.simps) auto
    then show ?thesis using 2 rest [of w] by (simp add: loop_adds_def)
  next
    case 3
    have "lower_word cur = take (e - ?s) (drop ?s buffer)" using assms(1,2) by simp
    then show ?thesis
      using 3 loop_adds_word [of ?n buffer e ?s w hs "lower_word cur"] e assms(2,3) rest by simp
  qed
qed

lemma hosts_loop_adds:
  assumes "buffer = pre @ lower_word cur @ rest" and "e = length pre + length cur" and "gives_memory (kernel w)"
  shows "loop_adds buffer (length buffer) e (length pre) (\<not> list_all name_char cur) w (names_from cur rest)"
  using assms
proof (induction rest arbitrary: buffer pre cur e w)
  case Nil
  have "loop_adds buffer (length buffer) (e + 1) (e + 1) False w' []" for w'
    using Nil.prems by (intro loop_adds_end) simp_all
  from word_end [OF Nil.prems _ this] show ?case by (auto simp: names_from_def)
next
  case (Cons c rest)
  let ?n = "length buffer" and ?s = "length pre" and ?bad = "\<not> list_all name_char cur"
  show ?case
  proof (cases "is_sep c")
    case True
    have "loop_adds buffer ?n (e + 1) (e + 1) False w' (names_from [] rest)" if "kernel w' = kernel w" for w'
      using Cons.IH [of buffer "pre @ lower_word cur @ [c]" "[]" "e + 1" w'] Cons.prems that by simp
    from word_end [OF Cons.prems _ this] show ?thesis using True by (auto simp: names_from_def)
  next
    case False
    have c: "e < ?n" "buffer ! e = c" using Cons.prems by (simp_all add: nth_append)
    show ?thesis
    proof (cases "lower_char c")
      case None
      have "hosts_loop hdr buffer ?n e ?s ?bad w = hosts_loop hdr buffer ?n (e + 1) ?s True w" for hdr
        using c False None by (subst hosts_loop.simps) simp
      moreover have "loop_adds buffer ?n (e + 1) ?s True w (names_from (cur @ [c]) rest)"
        using Cons.IH [of buffer pre "cur @ [c]" "e + 1" w] Cons.prems None by (simp add: name_char_def lower_word_def)
      ultimately show ?thesis using False by (simp add: loop_adds_def names_from_def)
    next
      case (Some d)
      let ?b = "buffer[e := d]"
      have nc: "name_char c" using Some by (simp add: name_char_def)
      have "hosts_loop hdr buffer ?n e ?s ?bad w = hosts_loop hdr ?b ?n (e + 1) ?s ?bad w" for hdr
        using c False Some by (subst hosts_loop.simps) simp
      moreover have "?b = pre @ lower_word (cur @ [c]) @ rest"
        using Cons.prems Some by (simp add: list_update_append lower_word_def)
      then have "loop_adds ?b ?n (e + 1) ?s ?bad w (names_from (cur @ [c]) rest)"
        using Cons.IH [of ?b pre "cur @ [c]" "e + 1" w] Cons.prems nc by simp
      ultimately show ?thesis using False by (simp add: loop_adds_def names_from_def)
    qed
  qed
qed


section \<open>From the text to the lookup\<close>

text \<open>The order of the pool asks for characters that do not sort before the dot: no hyphen.\<close>

lemma lower_char_big:
  assumes "lower_char c = Some d" and "c \<noteq> 45"
  shows "46 \<le> cval sg d"
proof -
  have "\<forall>k \<in> set [0..<256]. (case lower_char (of_nat k) of None \<Rightarrow> True | Some d \<Rightarrow> of_nat k = (45 :: byte) \<or> 46 \<le> uint d \<and> uint d < 128)"
    by code_simp
  then have "case lower_char (of_nat (unat c)) of None \<Rightarrow> True | Some d \<Rightarrow> of_nat (unat c) = (45 :: byte) \<or> 46 \<le> uint d \<and> uint d < 128"
    using unat_byte_less [of c] by (simp only: set_upt) (meson atLeastLessThan_iff zero_le)
  then have "46 \<le> uint d" "uint d < 128" using assms by simp_all
  then show ?thesis by (simp add: cval_def sint_byte)
qed

lemma words_chars: "w \<in> set (words_from cur cs) \<Longrightarrow> set w \<subseteq> set cur \<union> set cs"
  by (induction cur cs rule: words_from.induct) (auto split: if_splits)

lemma host_names_big:
  assumes "45 \<notin> set bs" and "h \<in> set (host_names bs)" and "b \<in> set h"
  shows "46 \<le> cval sg b"
proof -
  obtain w where w: "w \<in> set (words_from [] bs)" "list_all name_char w" "h = lower_word w"
    using assms(2) by (auto simp: host_names_def names_from_def)
  then obtain c where c: "c \<in> set w" "b = (case lower_char c of None \<Rightarrow> c | Some d \<Rightarrow> d)"
    using assms(3) by (auto simp: lower_word_def)
  have "c \<in> set bs" using words_chars [OF w(1)] c(1) by auto
  then have "c \<noteq> 45" using assms(1) by auto
  moreover obtain d where "lower_char c = Some d" using w(2) c(1) by (auto simp: list_all_iff name_char_def)
  ultimately show ?thesis using lower_char_big c(2) by simp
qed

lemma keys_of_match:
  assumes "keys_of a ks hs"
  shows "(\<exists>(a, str, len) \<in> set ks. prefix (key_host sg \<lparr> el_addr = a, el_len = len, el_data = str, el_cmp = CMP_HOST \<rparr>) k) \<longleftrightarrow>
      (\<exists>h \<in> set hs. prefix (key_host sg \<lparr> el_addr = 0, el_len = int (length h), el_data = h, el_cmp = CMP_HOST \<rparr>) k)"
    and "(\<forall>h \<in> set hs. \<forall>b \<in> set h. 46 \<le> cval sg b) \<Longrightarrow>
      \<forall>(a, str, len) \<in> set ks. ok_host sg \<lparr> el_addr = a, el_len = len, el_data = str, el_cmp = CMP_HOST \<rparr>"
proof -
  have "list_all2 (\<lambda>(a, str, len) h. len = int (length h) \<and> take (length h) str = h \<and> length h \<le> length str) ks hs"
    using assms by (simp add: keys_of_def)
  then show "(\<exists>(a, str, len) \<in> set ks. prefix (key_host sg \<lparr> el_addr = a, el_len = len, el_data = str, el_cmp = CMP_HOST \<rparr>) k) \<longleftrightarrow>
      (\<exists>h \<in> set hs. prefix (key_host sg \<lparr> el_addr = 0, el_len = int (length h), el_data = h, el_cmp = CMP_HOST \<rparr>) k)"
    and "(\<forall>h \<in> set hs. \<forall>b \<in> set h. 46 \<le> cval sg b) \<Longrightarrow>
      \<forall>(a, str, len) \<in> set ks. ok_host sg \<lparr> el_addr = a, el_len = len, el_data = str, el_cmp = CMP_HOST \<rparr>"
    by (induction rule: list_all2_induct) (auto simp: key_host_def ok_host_def)
qed

text \<open>
  C4: From the text of a host list to the lookup. When memory is given and the text has no hyphen
  and fewer than \<open>2^32 - 1\<close> names, \<open>parse_hosts\<close> on it always ends and accepts it, and for every query
  of characters that do not sort before the dot the pool then finds it exactly when it is one of the well-formed words
  of the text, in lower case, or a subdomain of one; words with other characters are left out. (The order
  of the pool does not support hyphens, which sort before the dot: \<open>hyphen_hides_domain\<close> of Pool_Props.)
\<close>

theorem parse_hosts_lookup:
  assumes "gives_memory (kernel w)" and "45 \<notin> set bs" and "length (host_names bs) + 1 < 2 ^ 32"
    and "\<forall>b \<in> set q. 46 \<le> cval (char_signed w) b"
  shows "\<exists>hdr buffer w'. parse_hosts (mem_pool f x CMP_HOST) bs (length bs) w = Some (True, hdr, buffer, w') \<and>
    ((\<exists>v. mem_get (char_signed w) hdr q (int (length q)) = Some v \<and> el_len v \<le> int (length q)) \<longleftrightarrow>
     domain_match (host_names bs) q)"
proof -
  let ?sg = "char_signed w" and ?q = "\<lparr> el_addr = 0, el_len = int (length q), el_data = q, el_cmp = CMP_HOST \<rparr>"
  have "loop_adds bs (length bs) 0 0 False w (host_names bs)"
    using hosts_loop_adds [of bs "[]" "[]" bs 0 w] assms(1) by (simp add: host_names_def)
  then obtain ks buffer' w' where k: "keys_of (next_addr w) ks (host_names bs)"
    "\<And>hdr hdr'. mem_add_all ?sg hdr ks = Some hdr' \<Longrightarrow> hosts_loop hdr bs (length bs) 0 0 False w = Some (True, hdr', buffer', w')"
    unfolding loop_adds_def by blast
  have "distinct (map fst ks)" using k(1) by (simp add: keys_of_def)
  moreover have "length ks = length (host_names bs)" using k(1) list_all2_lengthD unfolding keys_of_def by blast
  then have "length ks + 1 < 2 ^ 32" using assms(3) by simp
  moreover have "\<forall>(a, str, len) \<in> set ks. ok_host ?sg \<lparr> el_addr = a, el_len = len, el_data = str, el_cmp = CMP_HOST \<rparr>"
    using keys_of_match(2) [OF k(1)] host_names_big [OF assms(2)] by blast
  moreover have "ok_host ?sg ?q" using assms(4) by (simp add: ok_host_def)
  ultimately obtain hdr where h: "mem_add_all ?sg (mem_pool f x CMP_HOST) ks = Some hdr"
    "(\<exists>v. mem_get ?sg hdr q (int (length q)) = Some v \<and> el_len v \<le> int (length q)) \<longleftrightarrow>
     (\<exists>(a, str, len) \<in> set ks. prefix (key_host ?sg \<lparr> el_addr = a, el_len = len, el_data = str, el_cmp = CMP_HOST \<rparr>) (key_host ?sg ?q))"
    using hosts.filled_pool [of ks ?sg "int (length q)" q f x] by blast
  have "(\<exists>h \<in> set (host_names bs). prefix (key_host ?sg \<lparr> el_addr = 0, el_len = int (length h), el_data = h, el_cmp = CMP_HOST \<rparr>)
      (key_host ?sg ?q)) \<longleftrightarrow> domain_match (host_names bs) q"
    by (simp add: host_key_match domain_match_def)
  then show ?thesis
    using h k(2) [OF h(1)] keys_of_match(1) [OF k(1), of ?sg "key_host ?sg ?q"] by (auto simp: parse_hosts_def)
qed

theorem parse_hosts_lookup_witness:
  "\<exists>hdr buffer w'. parse_hosts (mem_pool True True CMP_HOST) (bytes_of ''YouTube.com  x*y a.org'') 22 (fresh calm) = Some (True, hdr, buffer, w') \<and>
     (\<exists>v. mem_get True hdr (bytes_of ''www.youtube.com'') 15 = Some v \<and> el_len v \<le> 15)"
proof -
  have "gives_memory (kernel (fresh calm))" by (simp add: gives_memory_def samples)
  moreover have "45 \<notin> set (bytes_of ''YouTube.com  x*y a.org'')"
    "length (host_names (bytes_of ''YouTube.com  x*y a.org'')) = 2"
    "\<forall>b \<in> set (bytes_of ''www.youtube.com''). 46 \<le> cval True b" "char_signed (fresh calm) = True"
    "domain_match (host_names (bytes_of ''YouTube.com  x*y a.org'')) (bytes_of ''www.youtube.com'')"
    "length (bytes_of ''YouTube.com  x*y a.org'') = 22" "length (bytes_of ''www.youtube.com'') = 15"
    by code_simp+
  ultimately show ?thesis
    using parse_hosts_lookup [of "fresh calm" "bytes_of ''YouTube.com  x*y a.org''" "bytes_of ''www.youtube.com''" True True]
    by auto
qed

end
