(* ===== verification/Ranges_Props.thy ===== *)
theory Ranges_Props
  imports Extend Lists_Props Packets_Http_Props
begin

text \<open>
  Lists of address ranges, from the text of a file to the check of an address: what \<open>parse_ipset\<close> of
  main.c puts into a pool of mpool.c, and what \<open>check_ip\<close> of extend.c finds there.
\<close>

section \<open>Any related key\<close>

context pool_kind
begin

text \<open>\<open>check_ip\<close> takes what the search finds without looking at its length.\<close>

lemma filled_pool_any:
  assumes "distinct (map fst es)" "length es + 1 < 2 ^ 32"
    and "\<forall>(a, str, len) \<in> set es. ok \<lparr> el_addr = a, el_len = len, el_data = str, el_cmp = kind \<rparr>"
    and ok: "ok \<lparr> el_addr = 0, el_len = n, el_data = q, el_cmp = kind \<rparr>"
    and short: "\<forall>(a, str, len) \<in> set es. length (key \<lparr> el_addr = a, el_len = len, el_data = str, el_cmp = kind \<rparr>)
      \<le> length (key \<lparr> el_addr = 0, el_len = n, el_data = q, el_cmp = kind \<rparr>)"
  shows "\<exists>hdr. mem_add_all sg (mem_pool f x kind) es = Some hdr \<and>
    (mem_get sg hdr q n \<noteq> None \<longleftrightarrow>
     (\<exists>(a, str, len) \<in> set es. prefix (key \<lparr> el_addr = a, el_len = len, el_data = str, el_cmp = kind \<rparr>)
        (key \<lparr> el_addr = 0, el_len = n, el_data = q, el_cmp = kind \<rparr>)))"
proof -
  let ?k = "\<lambda>(a, str, len). key \<lparr> el_addr = a, el_len = len, el_data = str, el_cmp = kind \<rparr>"
  have empty: "count (mp_root (mem_pool f x kind)) = 0" "pool_elems (mem_pool f x kind) = {}"
    "pool_set key (mem_pool f x kind) = {}"
    by (simp_all add: mem_pool_def pool_elems_def pool_set_def)
  from add_all_set [OF pool_inv_empty _ assms(1) _ assms(3), of f x] assms(2) obtain hdr where
    r: "mem_add_all sg (mem_pool f x kind) es = Some hdr" "pool_inv ok sg kind hdr"
    "pool_set key hdr = {k. \<exists>e \<in> set es. prefix (?k e) k}"
    unfolding empty by (auto simp: case_prod_beta')
  define kq where "kq = key \<lparr> el_addr = 0, el_len = n, el_data = q, el_cmp = kind \<rparr>"
  have t: "temp_elem hdr q n = \<lparr> el_addr = 0, el_len = n, el_data = q, el_cmp = kind \<rparr>"
    using r(2) by (simp add: temp_elem_def pool_inv_def)
  have got: "mem_get sg hdr q n \<noteq> None \<longleftrightarrow> (\<exists>v \<in> pool_elems hdr. prefix kq (key v) \<or> prefix (key v) kq)"
    using get_cases [OF r(2), of q n] ok by (auto simp: t related_def kq_def split: option.splits)
  also have "\<dots> \<longleftrightarrow> (\<exists>e \<in> set es. prefix (?k e) kq)"
  proof
    assume "\<exists>v \<in> pool_elems hdr. prefix kq (key v) \<or> prefix (key v) kq"
    then obtain v where v: "v \<in> pool_elems hdr" "prefix kq (key v) \<or> prefix (key v) kq" by blast
    then have "key v \<in> pool_set key hdr" by (auto simp: pool_set_def)
    then obtain e where e: "e \<in> set es" "prefix (?k e) (key v)" using r(3) by blast
    then have "length (?k e) \<le> length kq" using short by (auto simp: kq_def)
    then have "prefix (?k e) kq" using v(2) e(2) prefix_length_prefix prefix_order.trans by blast
    then show "\<exists>e \<in> set es. prefix (?k e) kq" using e(1) by blast
  next
    assume "\<exists>e \<in> set es. prefix (?k e) kq"
    then have "kq \<in> pool_set key hdr" using r(3) by blast
    then show "\<exists>v \<in> pool_elems hdr. prefix kq (key v) \<or> prefix (key v) kq" by (auto simp: pool_set_def)
  qed
  finally show ?thesis using r(1) by (auto simp: kq_def case_prod_beta')
qed

end

section \<open>The ranges of a text\<close>

text \<open>A word \<open>address\<close> or \<open>address/bits\<close>; more bits than the address has, or none, are all of them.\<close>

definition cut_bits :: "nat \<Rightarrow> nat \<Rightarrow> nat" where
  "cut_bits b most = (if b = 0 \<or> b > most then most else b)"

definition word_addr :: "mem \<Rightarrow> mem" where
  "word_addr wd = takeWhile (\<lambda>c. c \<noteq> 47) wd"

definition word_bits :: "mem \<Rightarrow> nat" where
  "word_bits wd = dec_value 0 (tl (dropWhile (\<lambda>c. c \<noteq> 47) wd))"

definition word_range :: "libc \<Rightarrow> mem \<Rightarrow> (mem \<times> nat) option" where
  "word_range L wd =
     (case inet_pton L AF_INET (word_addr wd) of
        Some a \<Rightarrow> Some (a, cut_bits (word_bits wd) 32)
      | None \<Rightarrow> map_option (\<lambda>a. (a, cut_bits (word_bits wd) 128)) (inet_pton L AF_INET6 (word_addr wd)))"

definition text_ranges :: "libc \<Rightarrow> mem \<Rightarrow> (mem \<times> nat) list" where
  "text_ranges L text = List.map_filter (word_range L) (words_from [] text)"

text \<open>At most one slash, and a positive number behind it.\<close>

definition word_ok :: "mem \<Rightarrow> bool" where
  "word_ok wd \<longleftrightarrow> wd \<noteq> [] \<and> length wd < 256 \<and> 0 \<notin> set wd \<and>
     (let ds = dropWhile (\<lambda>c. c \<noteq> 47) wd in
      ds = [] \<or> (\<forall>d \<in> set (tl ds). isdigit d) \<and> 0 < dec_value 0 (tl ds) \<and> dec_value 0 (tl ds) < 65536)"

text \<open>What \<open>inet_pton\<close> promises: four bytes or sixteen.\<close>

definition pton_ok :: "libc \<Rightarrow> bool" where
  "pton_ok L \<longleftrightarrow> (\<forall>s a. inet_pton L AF_INET s = Some a \<longrightarrow> length a = 4) \<and>
     (\<forall>s a. inet_pton L AF_INET6 s = Some a \<longrightarrow> length a = 16)"

text \<open>The array of the loop holds no slash before a word is copied into it.\<close>

definition no_slash :: "mem \<Rightarrow> bool" where
  "no_slash ip \<longleftrightarrow> length ip = 256 \<and> 47 \<notin> set ip"

section \<open>One word\<close>

lemma strchr0_first: "0 \<notin> set s \<Longrightarrow> p = length a \<Longrightarrow> strchr0 (a @ s @ 0 # r) p = Some (length a + length s)"
proof (induction s arbitrary: a p)
  case Nil
  then show ?case by (subst strchr0.simps) simp
next
  case (Cons c s)
  then have "strchr0 ((a @ [c]) @ s @ 0 # r) (p + 1) = Some (length (a @ [c]) + length s)" by (intro Cons.IH) auto
  then show ?case using Cons.prems by (subst strchr0.simps) (simp add: nth_append)
qed

lemma c_string_at: "0 \<notin> set s \<Longrightarrow> c_string (s @ 0 # r) 0 = Some s"
  using strchr0_first [of s 0 "[]" r] by (simp add: c_string_def)

lemma word_split:
  obtains (plain) "47 \<notin> set wd" "word_addr wd = wd" "dropWhile (\<lambda>c. c \<noteq> 47) wd = []"
  | (slash) s ds where "wd = s @ 47 # ds" "47 \<notin> set s" "word_addr wd = s" "dropWhile (\<lambda>c. c \<noteq> 47) wd = 47 # ds"
proof (cases "dropWhile (\<lambda>c. c \<noteq> 47) wd")
  case Nil
  then have "\<forall>c \<in> set wd. c \<noteq> 47" by simp
  then show ?thesis using plain Nil by (auto simp: word_addr_def)
next
  case (Cons d ds)
  then have "d = 47" by (metis (mono_tags, lifting) hd_dropWhile list.distinct(1) list.sel(1))
  moreover have "47 \<notin> set (takeWhile (\<lambda>c. c \<noteq> 47) wd)" by (auto dest: set_takeWhileD)
  moreover have "wd = takeWhile (\<lambda>c. c \<noteq> 47) wd @ dropWhile (\<lambda>c. c \<noteq> 47) wd" by simp
  ultimately show ?thesis using slash [of "word_addr wd" ds] Cons unfolding word_addr_def by metis
qed

lemma memchr_none: "c \<notin> set m \<Longrightarrow> n = length m \<Longrightarrow> memchr m 0 c n = Some None"
  using memchr_inside [of 0 n m c] by (auto simp: in_set_conv_nth)

lemma pton_bits:
  assumes "word_range L wd = Some (a, n)" and "pton_ok L"
  shows "0 < n" "n \<le> 8 * length a" "n \<le> 128"
  using assms by (auto simp: word_range_def cut_bits_def pton_ok_def split: option.splits if_splits)

lemma parse_ip_word:
  assumes "word_ok wd" and "47 \<notin> set rest" and "length (wd @ 0 # rest) = 256"
  shows "\<exists>ip'. no_slash ip' \<and> parse_ip (wd @ 0 # rest) 256 w =
    Some (case word_range (libc w) wd of None \<Rightarrow> (0, [], ip') | Some (a, n) \<Rightarrow> (int n, a, ip'))"
proof (cases wd rule: word_split)
  case plain
  have wd: "0 \<notin> set wd" using assms(1) by (simp add: word_ok_def)
  have zero: "word_bits wd = 0" unfolding word_bits_def plain(3) by simp
  have "47 \<notin> set (wd @ 0 # rest)" using plain(1) assms(2) by simp
  then have "no_slash (wd @ 0 # rest)" "memchr (wd @ 0 # rest) 0 47 256 = Some None"
    using assms(3) memchr_none [of 47 "wd @ 0 # rest" 256] by (simp_all add: no_slash_def)
  then show ?thesis
    using c_string_at [OF wd, of rest] plain(2) zero
    by (intro exI [of _ "wd @ 0 # rest"]) (auto simp: parse_ip_def word_range_def cut_bits_def split: option.splits)
next
  case (slash s ds)
  have wd: "0 \<notin> set s" "\<forall>d \<in> set ds. isdigit d" "0 < dec_value 0 ds" "dec_value 0 ds < 65536" "ds \<noteq> []"
    using assms(1) slash by (auto simp: word_ok_def Let_def)
  have z: "\<not> isdigit 0" "\<not> isdigit 47" by (simp_all add: isdigit_def)
  have no: "47 \<notin> set ds" using wd(2) z(2) by blast
  let ?ip = "s @ 47 # ds @ 0 # rest" and ?ip' = "s @ 0 # ds @ 0 # rest"
  have ip: "wd @ 0 # rest = ?ip" using slash(1) by simp
  have len: "length ?ip = 256" using assms(3) ip by simp
  have "memchr ?ip 0 47 256 = Some (Some (length s))"
    by (rule memchr_first) (use slash(2) len nth_mem [of _ s] in \<open>fastforce simp: nth_append\<close>)+
  moreover have "strtol10 ?ip (length s + 1) = Some (int (dec_value 0 ds), length (s @ [47]) + length ds)"
    using strtol10_run [OF wd(2,5) z(1) wd(4), of "s @ [47]" rest] by simp
  moreover have "st ?ip (length s) 0 = Some ?ip'" by (simp add: st_def)
  moreover have "c_string ?ip' 0 = Some s" by (rule c_string_at) (rule wd(1))
  moreover have "no_slash ?ip'" using slash(2) no assms(2) len by (simp add: no_slash_def)
  ultimately show ?thesis
    using wd(3) slash(3,4) unfolding ip
    by (intro exI [of _ ?ip']) (auto simp: st_def parse_ip_def word_range_def word_bits_def cut_bits_def split: option.splits)
qed

section \<open>The loop\<close>

text \<open>Keys of a list of ranges: fresh addresses, and data with the bits of the range.\<close>

definition range_of :: "nat \<times> mem \<times> int \<Rightarrow> mem \<times> nat \<Rightarrow> bool" where
  "range_of k r \<longleftrightarrow> (case (k, r) of ((a, str, len), (m, n)) \<Rightarrow>
     len = int n \<and> n \<le> 8 * length str \<and> take n (byte_bits str) = take n (byte_bits m))"

definition ranges_kept :: "nat \<Rightarrow> (nat \<times> mem \<times> int) list \<Rightarrow> (mem \<times> nat) list \<Rightarrow> bool" where
  "ranges_kept a ks rs \<longleftrightarrow> list_all2 range_of ks rs \<and> distinct (map fst ks) \<and> (\<forall>k \<in> set ks. a \<le> fst k)"

text \<open>From a position on the loop adds the ranges \<open>rs\<close> to any pool that takes them.\<close>

definition ipset_adds :: "mem \<Rightarrow> nat \<Rightarrow> nat \<Rightarrow> mem \<Rightarrow> proc \<Rightarrow> (mem \<times> nat) list \<Rightarrow> bool" where
  "ipset_adds buffer e s ip w rs \<longleftrightarrow> (\<exists>ks w'. ranges_kept (next_addr w) ks rs \<and>
     (\<forall>hdr hdr'. mem_add_all (char_signed w) hdr ks = Some hdr' \<longrightarrow>
        ipset_loop hdr buffer (length buffer) e s ip w = Some (True, hdr', w')))"

lemma ipset_adds_end: "length buffer < e \<Longrightarrow> ipset_adds buffer e s ip w []"
  unfolding ipset_adds_def ranges_kept_def
  by (intro exI [of _ "[]"] exI [of _ w]) (simp add: ipset_loop.simps)

lemma ipset_adds_step:
  assumes "\<And>hdr. ipset_loop hdr buffer (length buffer) e s ip w = ipset_loop hdr buffer (length buffer) e' s' ip' w"
    and "ipset_adds buffer e' s' ip' w rs"
  shows "ipset_adds buffer e s ip w rs"
  using assms by (simp add: ipset_adds_def)

lemma alloc_memory:
  assumes "gives_memory (kernel w)"
  shows "\<exists>w'. alloc n w = (Some (next_addr w), w') \<and> next_addr w' = next_addr w + 1 \<and> kernel w' = kernel w \<and>
    char_signed w' = char_signed w \<and> libc w' = libc w"
  using assms by (simp add: alloc_def call_def sys_def Let_def gives_memory_def not_le [symmetric])

text \<open>The bytes that \<open>parse_ipset\<close> keeps of an address hold its bits.\<close>

lemma bytes_kept:
  assumes "n \<le> 8 * length a" and "len = n div 8 + (if n mod 8 \<noteq> 0 then 1 else 0)"
  shows "n \<le> 8 * length (take len a)" "take n (byte_bits (take len a)) = take n (byte_bits a)"
proof -
  have "n \<le> 8 * L \<Longrightarrow> n div 8 + (if n mod 8 \<noteq> 0 then 1 else 0) \<le> L" for L :: nat by presburger
  then have len: "n \<le> 8 * len" "len \<le> length a" using assms by (auto split: if_splits)
  then show n: "n \<le> 8 * length (take len a)" by simp
  have "byte_bits a = byte_bits (take len a) @ byte_bits (drop len a)" by (simp flip: byte_bits_append)
  then show "take n (byte_bits (take len a)) = take n (byte_bits a)" using n by (simp del: length_take)
qed

lemma ipset_word:
  assumes "buffer = pre @ cur @ tail" and "e = length pre + length cur" and "word_ok cur" and "no_slash ip"
    and "tail = [] \<or> is_sep (hd tail)" and "gives_memory (kernel w)" and "pton_ok (libc w)"
    and rest: "\<And>ip' w'. no_slash ip' \<Longrightarrow> kernel w' = kernel w \<Longrightarrow> libc w' = libc w \<Longrightarrow>
      ipset_adds buffer (e + 1) (e + 1) ip' w' rs"
  shows "ipset_adds buffer e (length pre) ip w ((case word_range (libc w) cur of None \<Rightarrow> [] | Some r \<Rightarrow> [r]) @ rs)"
proof -
  let ?n = "length buffer" and ?s = "length pre"
  have e: "e \<le> ?n" "e < ?n \<longrightarrow> is_sep (buffer ! e)" "?s < e"
    using assms(1,2,3,5) by (cases tail; auto simp: nth_append word_ok_def)+
  have "length cur < 256" using assms(3) by (simp add: word_ok_def)
  then have "take (min 255 (e - ?s)) (drop ?s buffer) = cur" using assms(1,2) by simp
  moreover define old where "old = drop (length cur + 1) ip"
  have ip: "length ip = 256" "47 \<notin> set ip" using assms(4) by (simp_all add: no_slash_def)
  have old: "47 \<notin> set old" "length (cur @ 0 # old) = 256"
    using ip \<open>length cur < 256\<close> by (auto simp: old_def dest: in_set_dropD)
  ultimately have cp: "memcpy ip 0 (take (min 255 (e - ?s)) (drop ?s buffer) @ [0]) = Some (cur @ 0 # old)"
    using ip(1) \<open>length cur < 256\<close> by (simp add: memcpy_def old_def)
  obtain ip' where p: "no_slash ip'" "parse_ip (cur @ 0 # old) 256 w =
      Some (case word_range (libc w) cur of None \<Rightarrow> (0, [], ip') | Some (a, n) \<Rightarrow> (int n, a, ip'))"
    using parse_ip_word [OF assms(3) old(1) old(2), of w] by blast
  show ?thesis
  proof (cases "word_range (libc w) cur")
    case None
    have "ipset_loop hdr buffer ?n e ?s ip w = ipset_loop hdr buffer ?n (e + 1) (e + 1) ip' w" for hdr
      using e cp p(2) None by (subst ipset_loop.simps) auto
    then show ?thesis using ipset_adds_step [OF _ rest [OF p(1) refl refl]] None by simp
  next
    case (Some r)
    obtain a n where r: "r = (a, n)" by fastforce
    note b = pton_bits [OF Some [unfolded r] assms(7)]
    define len where "len = nat (int n div 8) + (if int n mod 8 \<noteq> 0 then 1 else 0)"
    have len: "len = n div 8 + (if n mod 8 \<noteq> 0 then 1 else 0)"
    proof -
      have "int n div 8 = int (n div 8)" "int n mod 8 = int (n mod 8)" by (simp_all add: zdiv_int zmod_int)
      then show ?thesis unfolding len_def by simp
    qed
    obtain w1 where w1: "alloc len w = (Some (next_addr w), w1)" "next_addr w1 = next_addr w + 1" "kernel w1 = kernel w"
      "char_signed w1 = char_signed w" "libc w1 = libc w"
      using alloc_memory [OF assms(6)] by blast
    obtain w2 where w2: "alloc 48 w1 = (Some (next_addr w1), w2)" "next_addr w2 = next_addr w1 + 1" "kernel w2 = kernel w1"
      "char_signed w2 = char_signed w1" "libc w2 = libc w1"
      using alloc_memory [of w1] assms(6) w1(3) by metis
    obtain ks w' where k: "ranges_kept (next_addr w2) ks rs"
      "\<And>hdr hdr'. mem_add_all (char_signed w2) hdr ks = Some hdr' \<Longrightarrow>
         ipset_loop hdr buffer ?n (e + 1) (e + 1) ip' w2 = Some (True, hdr', w')"
      using rest [OF p(1), of w2] w1 w2 unfolding ipset_adds_def by auto
    let ?k = "(next_addr w1, take len a, int n)"
    have "ipset_loop hdr buffer ?n e ?s ip w = Some (True, hdr', w')"
      if add: "mem_add_all (char_signed w) hdr (?k # ks) = Some hdr'" for hdr hdr'
    proof -
      obtain hdr1 v fr where ad: "mem_add (char_signed w) hdr (Some (next_addr w1)) (take len a) (int n) = Some (hdr1, v, fr)"
        "mem_add_all (char_signed w) hdr1 ks = Some hdr'"
        using add by (cases "mem_add (char_signed w) hdr (Some (next_addr w1)) (take len a) (int n)") auto
      have l: "ipset_loop hdr1 buffer ?n (e + 1) (e + 1) ip' w2 = Some (True, hdr', w')"
        using k(2) ad(2) w1(4) w2(4) by simp
      show ?thesis
        using e cp p(2) Some r b(1) w1 w2 ad(1) mem_add_some [OF ad(1)] l
        by (subst ipset_loop.simps) (auto simp: len_def [symmetric])
    qed
    moreover have "ranges_kept (next_addr w) (?k # ks) (r # rs)"
      using k(1) bytes_kept [OF b(2) len] w1(2) w2(2) by (fastforce simp: ranges_kept_def range_of_def r)
    ultimately show ?thesis using Some unfolding ipset_adds_def by auto
  qed
qed

lemma ipset_loop_adds:
  assumes "buffer = pre @ cur @ rest" and "e = length pre + length cur" and "no_slash ip" and "gives_memory (kernel w)"
    and "pton_ok (libc w)" and "\<forall>wd \<in> set (words_from cur rest). word_ok wd"
  shows "ipset_adds buffer e (length pre) ip w (List.map_filter (word_range (libc w)) (words_from cur rest))"
  using assms
proof (induction rest arbitrary: pre cur e ip w)
  case Nil
  have over: "ipset_adds buffer (e + 1) s ip' w' []" for s ip' w' using Nil.prems(1,2) by (intro ipset_adds_end) simp
  then show ?case
  proof (cases "cur = []")
    case True
    have "ipset_loop hdr buffer (length buffer) e (length pre) ip w = ipset_loop hdr buffer (length buffer) (e + 1) (length pre + 1) ip w" for hdr
      using True Nil.prems(1,2) by (subst ipset_loop.simps) auto
    from ipset_adds_step [OF this over] show ?thesis using True by (simp add: map_filter_simps)
  next
    case False
    then show ?thesis
      using ipset_word [of buffer pre cur "[]" e ip w "[]"] Nil.prems over
      by (auto simp: map_filter_simps split: option.splits)
  qed
next
  case (Cons c rest)
  let ?n = "length buffer"
  have c: "e < ?n" "buffer ! e = c" using Cons.prems(1,2) by (simp_all add: nth_append)
  show ?case
  proof (cases "is_sep c")
    case False
    have "ipset_loop hdr buffer ?n e (length pre) ip w = ipset_loop hdr buffer ?n (e + 1) (length pre) ip w" for hdr
      using c False by (subst ipset_loop.simps) simp
    moreover have "ipset_adds buffer (e + 1) (length pre) ip w (List.map_filter (word_range (libc w)) (words_from (cur @ [c]) rest))"
      using Cons.prems False by (intro Cons.IH) auto
    ultimately show ?thesis using ipset_adds_step False by simp
  next
    case True
    have later: "ipset_adds buffer (e + 1) (e + 1) ip' w' (List.map_filter (word_range (libc w)) (words_from [] rest))"
      if "no_slash ip'" "kernel w' = kernel w" "libc w' = libc w" for ip' w'
      using Cons.IH [of "pre @ cur @ [c]" "[]" "e + 1" ip' w'] Cons.prems that True by auto
    show ?thesis
    proof (cases "cur = []")
      case nil: True
      have "ipset_loop hdr buffer ?n e (length pre) ip w = ipset_loop hdr buffer ?n (e + 1) (e + 1) ip w" for hdr
        using c True nil Cons.prems(2) by (subst ipset_loop.simps) simp
      then show ?thesis using ipset_adds_step [OF _ later [OF Cons.prems(3) refl refl]] True nil by simp
    next
      case False
      then have "word_ok cur" using Cons.prems(6) True by simp
      have "ipset_adds buffer e (length pre) ip w ((case word_range (libc w) cur of None \<Rightarrow> [] | Some r \<Rightarrow> [r]) @
          List.map_filter (word_range (libc w)) (words_from [] rest))"
        by (rule ipset_word [OF Cons.prems(1,2) \<open>word_ok cur\<close> Cons.prems(3) _ Cons.prems(4,5) later]) (use True in simp_all)
      then show ?thesis using True False by (auto simp: map_filter_simps split: option.splits)
    qed
  qed
qed

section \<open>From the text to the check\<close>

lemma ranges_match:
  assumes "list_all2 range_of ks rs"
  shows "(\<exists>(a, str, len) \<in> set ks. prefix (key_bits \<lparr> el_addr = a, el_len = len, el_data = str, el_cmp = c \<rparr>)
      (key_bits \<lparr> el_addr = 0, el_len = 8 * int (length q), el_data = q, el_cmp = d \<rparr>)) \<longleftrightarrow> range_match rs q"
    and "(\<forall>(r, n) \<in> set rs. n \<le> 8 * length q) \<Longrightarrow> \<forall>(a, str, len) \<in> set ks. ok_bits \<lparr> el_addr = a, el_len = len, el_data = str, el_cmp = CMP_BITS \<rparr> \<and>
      length (key_bits \<lparr> el_addr = a, el_len = len, el_data = str, el_cmp = CMP_BITS \<rparr>)
      \<le> length (key_bits \<lparr> el_addr = 0, el_len = 8 * int (length q), el_data = q, el_cmp = CMP_BITS \<rparr>)"
proof -
  have one: "prefix (key_bits \<lparr> el_addr = a, el_len = len, el_data = str, el_cmp = c \<rparr>)
      (key_bits \<lparr> el_addr = 0, el_len = 8 * int (length q), el_data = q, el_cmp = d \<rparr>) \<longleftrightarrow>
      n \<le> 8 * length q \<and> take n (byte_bits m) = take n (byte_bits q)"
    if "range_of (a, str, len) (m, n)" for a str len m n
    using that range_key_match [of n str] by (auto simp: range_of_def)
  show "(\<exists>(a, str, len) \<in> set ks. prefix (key_bits \<lparr> el_addr = a, el_len = len, el_data = str, el_cmp = c \<rparr>)
      (key_bits \<lparr> el_addr = 0, el_len = 8 * int (length q), el_data = q, el_cmp = d \<rparr>)) \<longleftrightarrow> range_match rs q"
    using assms by (induction rule: list_all2_induct) (auto simp: range_match_def one split: prod.splits)
  show "\<forall>(a, str, len) \<in> set ks. ok_bits \<lparr> el_addr = a, el_len = len, el_data = str, el_cmp = CMP_BITS \<rparr> \<and>
      length (key_bits \<lparr> el_addr = a, el_len = len, el_data = str, el_cmp = CMP_BITS \<rparr>)
      \<le> length (key_bits \<lparr> el_addr = 0, el_len = 8 * int (length q), el_data = q, el_cmp = CMP_BITS \<rparr>)"
    if "\<forall>(r, n) \<in> set rs. n \<le> 8 * length q"
    using assms that by (induction rule: list_all2_induct) (auto simp: range_of_def ok_bits_def key_bits_def)
qed

text \<open>The bytes of an address that \<open>check_ip\<close> compares.\<close>

definition addr_bytes :: "sockaddr_u \<Rightarrow> mem" where
  "addr_bytes dst = (if sa_family dst = AF_INET6 then sin6_addr dst else sin_addr dst)"

lemma check_ip_get:
  assumes "length (addr_bytes dst) = (if sa_family dst = AF_INET6 then 16 else 4)"
  shows "check_ip hdr dst w \<longleftrightarrow> mem_get (char_signed w) hdr (addr_bytes dst) (8 * int (length (addr_bytes dst))) \<noteq> None"
  using assms by (simp add: check_ip_def addr_bytes_def)

text \<open>
  C5: From the text of a list of address ranges to the check of an address. Let every word of the text be
  well formed (fewer than 256 bytes, no zero byte, at most one slash and behind it a number from 1 to 65535), the text
  have fewer than \<open>2^32 - 1\<close> ranges, the array of the loop hold no slash at the start, memory be given and \<open>inet_pton\<close>
  give four or sixteen bytes; and let the address asked for have its four or sixteen bytes and be an IPv6 address, or the ranges of the list have at
  most 32 bits. Then \<open>parse_ipset\<close> always ends and accepts the text, skipping the words that are no addresses, and
  \<open>check_ip\<close> accepts the address exactly when its leading bits are those of a range of the list; an entry without
  a number of bits, or with too many, is the one address. Entries that cover others, repeated entries
  and any order make no difference. (A slash left in the array changes the next word, \<open>slash_left_over\<close>; and the
  leading bits do not tell the families apart, \<open>families_mixed\<close>.)
\<close>

theorem parse_ipset_lookup:
  assumes "gives_memory (kernel w)" and "pton_ok (libc w)" and "no_slash ip" and "\<forall>wd \<in> set (words_from [] bs). word_ok wd"
    and "length (text_ranges (libc w) bs) + 1 < 2 ^ 32"
    and "length (addr_bytes dst) = (if sa_family dst = AF_INET6 then 16 else 4)"
    and "sa_family dst \<noteq> AF_INET6 \<longrightarrow> (\<forall>(r, n) \<in> set (text_ranges (libc w) bs). n \<le> 32)"
  shows "\<exists>hdr w'. parse_ipset (mem_pool f x CMP_BITS) bs (length bs) ip w = Some (True, hdr, w') \<and>
    (check_ip hdr dst w \<longleftrightarrow> range_match (text_ranges (libc w) bs) (addr_bytes dst))"
proof -
  let ?sg = "char_signed w" and ?q = "addr_bytes dst" and ?rs = "text_ranges (libc w) bs"
  have "ipset_adds bs 0 0 ip w ?rs"
    using ipset_loop_adds [of bs "[]" "[]" bs 0 ip w] assms(1-4) by (simp add: text_ranges_def)
  then obtain ks w' where k: "list_all2 range_of ks ?rs" "distinct (map fst ks)"
    "\<And>hdr hdr'. mem_add_all ?sg hdr ks = Some hdr' \<Longrightarrow> ipset_loop hdr bs (length bs) 0 0 ip w = Some (True, hdr', w')"
    unfolding ipset_adds_def ranges_kept_def by blast
  have few: "length ks + 1 < 2 ^ 32" using list_all2_lengthD [OF k(1)] assms(5) by simp
  have "n \<le> 128" if "(r, n) \<in> set ?rs" for r n
    using that pton_bits(3) assms(2) by (fastforce simp: text_ranges_def map_filter_def)
  then have "\<forall>(r, n) \<in> set ?rs. n \<le> 8 * length ?q" using assms(6,7) by auto
  note m = ranges_match(2) [OF k(1) this]
  have "ok_bits \<lparr> el_addr = 0, el_len = 8 * int (length ?q), el_data = ?q, el_cmp = CMP_BITS \<rparr>" by (simp add: ok_bits_def)
  then obtain hdr where h: "mem_add_all ?sg (mem_pool f x CMP_BITS) ks = Some hdr"
    "mem_get ?sg hdr ?q (8 * int (length ?q)) \<noteq> None \<longleftrightarrow>
     (\<exists>(a, str, len) \<in> set ks. prefix (key_bits \<lparr> el_addr = a, el_len = len, el_data = str, el_cmp = CMP_BITS \<rparr>)
        (key_bits \<lparr> el_addr = 0, el_len = 8 * int (length ?q), el_data = ?q, el_cmp = CMP_BITS \<rparr>))"
    using bits.filled_pool_any [OF k(2) few, of "8 * int (length ?q)" ?q ?sg f x] m by blast
  have "parse_ipset (mem_pool f x CMP_BITS) bs (length bs) ip w = Some (True, hdr, w')"
    using k(3) [OF h(1)] by (simp add: parse_ipset_def)
  moreover have "check_ip hdr dst w \<longleftrightarrow> range_match ?rs ?q"
    unfolding check_ip_get [OF assms(6)] h(2) ranges_match(1) [OF k(1)] ..
  ultimately show ?thesis by blast
qed

text \<open>A conversion that knows two addresses.\<close>

definition two_addrs :: libc where
  "two_addrs = no_libc\<lparr>inet_pton := (\<lambda>f s.
     if f = AF_INET \<and> s = bytes_of ''10.0.0.0'' then Some [10, 0, 0, 0]
     else if f = AF_INET \<and> s = bytes_of ''9.9.9.9'' then Some [9, 9, 9, 9] else None)\<rparr>"

theorem parse_ipset_lookup_witness:
  "\<exists>hdr w'. parse_ipset (mem_pool False False CMP_BITS) (bytes_of ''10.0.0.0/8 9.9.9.9'') 18 (replicate 256 0)
       ((fresh calm)\<lparr>libc := two_addrs\<rparr>) = Some (True, hdr, w') \<and>
     check_ip hdr (zero_addr\<lparr>sa_family := AF_INET, sin_addr := [10, 1, 2, 3]\<rparr>) (fresh calm) \<and>
     \<not> check_ip hdr (zero_addr\<lparr>sa_family := AF_INET, sin_addr := [9, 9, 9, 8]\<rparr>) (fresh calm)"
proof -
  let ?w = "(fresh calm)\<lparr>libc := two_addrs\<rparr>"
  define bs where "bs = bytes_of ''10.0.0.0/8 9.9.9.9''"
  have libc: "libc ?w = two_addrs" by simp
  have "gives_memory (kernel ?w)" by (simp add: gives_memory_def samples)
  moreover have "pton_ok two_addrs" by (simp add: pton_ok_def two_addrs_def no_libc_def AF_INET_def AF_INET6_def)
  moreover have "no_slash (replicate 256 0)" by (simp add: no_slash_def)
  moreover have "\<forall>wd \<in> set (words_from [] bs). word_ok wd"
  proof -
    have "words_from [] bs = [[49, 48, 46, 48, 46, 48, 46, 48, 47, 56], [57, 46, 57, 46, 57, 46, 57]]"
      unfolding bs_def by code_simp
    then show ?thesis by (simp add: word_ok_def isdigit_def)
  qed
  moreover have "length bs = 18" unfolding bs_def by code_simp
  moreover have "text_ranges two_addrs bs = [([10, 0, 0, 0], 8), ([9, 9, 9, 9], 32)]" unfolding bs_def by code_simp
  ultimately have run: "\<exists>hdr w'. parse_ipset (mem_pool False False CMP_BITS) bs 18 (replicate 256 0) ?w = Some (True, hdr, w') \<and>
      (check_ip hdr dst ?w \<longleftrightarrow> range_match [([10, 0, 0, 0], 8), ([9, 9, 9, 9], 32)] (sin_addr dst))"
    if "sa_family dst = AF_INET" "length (sin_addr dst) = 4" for dst
    using parse_ipset_lookup [of ?w "replicate 256 0" bs dst False False] that libc
    by (simp add: addr_bytes_def AF_INET_def AF_INET6_def)
  have same: "check_ip hdr dst ?w \<longleftrightarrow> check_ip hdr dst (fresh calm)" for hdr dst by (simp add: check_ip_def)
  have "range_match [([10, 0, 0, 0], 8), ([9, 9, 9, 9], 32)] [10, 1, 2, 3]"
    "\<not> range_match [([10, 0, 0, 0], 8), ([9, 9, 9, 9], 32)] [9, 9, 9, 8]" by code_simp+
  then show ?thesis
    using run [of "zero_addr\<lparr>sa_family := AF_INET, sin_addr := [10, 1, 2, 3]\<rparr>"]
      run [of "zero_addr\<lparr>sa_family := AF_INET, sin_addr := [9, 9, 9, 8]\<rparr>"] by (auto simp: same bs_def [symmetric])
qed

section \<open>Where the ranges fail\<close>

text \<open>
  The two families share the pool, and \<open>check_ip\<close> does not look at the length of what is found. A
  range of IPv4 addresses holds all IPv6 addresses that begin with the same bits: \<open>32.1.0.0/16\<close> takes in
  \<open>2001::/16\<close>.
\<close>

theorem families_mixed:
  "(case mem_add_all True (mem_pool False False CMP_BITS) (range_keys [(1, [32, 1, 0, 0], 16)]) of
      None \<Rightarrow> False
    | Some hdr \<Rightarrow> check_ip hdr (zero_addr\<lparr>sa_family := AF_INET6,
        sin6_addr := [32, 1, 13, 184, 0, 0, 0, 0, 0, 0, 0, 0, 0, 0, 0, 1]\<rparr>) (fresh calm))"
  by code_simp

text \<open>
  The search for the slash covers the whole array. After an entry that ended in a slash without a number the
  slash is still there, and a shorter address behind it is refused, though it is correct.
\<close>

theorem slash_left_over:
  "map_option (\<lambda>(ok, hdr, w). (ok, mp_count hdr))
     (parse_ipset (mem_pool False False CMP_BITS) (bytes_of ''10.0.0.0/8 10.0.0.0/ 9.9.9.9'') 27 (replicate 256 0)
       ((fresh calm)\<lparr>libc := two_addrs\<rparr>)) = Some (True, 1)"
  by code_simp

end
