(* ===== verification/Proxy.thy ===== *)
theory Proxy
  imports Extend
begin

text \<open>
  The callbacks of byedpi/proxy.c, and those of extend.c for an upstream SOCKS proxy: accepting
  a client, reading its request, the tunnel in both directions, UDP association, and the start
  and the end of the event loop.
\<close>

section \<open>UDP association\<close>

text \<open>
  The sockets are made first (\<open>udp_sockets\<close>, the first part of \<open>udp_associate\<close>): the
  remote one and the one the client sends to, each with an event.
\<close>

definition udp_sockets :: "nat \<Rightarrow> sockaddr_u \<Rightarrow> proc \<Rightarrow> ((nat \<times> nat \<times> int) option \<times> proc) option" where
  "udp_sockets v dst w =
     (let (ufd, addr, w) = remote_sock dst SOCK_DGRAM w in
      if ufd < 0 then Some (None, w)
      else
        (let (r, w) = socket_mod ufd w in
         if r < 0 then Some (None, close_fd ufd w)
         else do {
           (pair, w) \<leftarrow> add_event On_udp_tunnel ufd POLLIN w;
           (case pair of
              None \<Rightarrow> Some (None, close_fd ufd w)
            | Some p \<Rightarrow>
                (let (a, w) = sys (Getsockname (e_fd (items w v))) w in
                 if a_ret a \<noteq> 0 then Some (None, w)
                 else
                   (let addr = (copy_sa addr (a_addr a))\<lparr>sin_port := 0\<rparr>;
                        (cfd, w) = nb_socket (sa_family addr) SOCK_DGRAM w in
                    if cfd < 0 then do { w \<leftarrow> del_event p w; Some (None, w) }
                    else
                      (let (r, w) = socket_mod cfd w in
                       if r < 0 then do { w \<leftarrow> del_event p (close_fd cfd w); Some (None, w) }
                       else
                         (let (r, w) = call (Bind cfd addr) w in
                          if r < 0 then do { w \<leftarrow> del_event p w; Some (None, close_fd cfd w) }
                          else do {
                            (client, w) \<leftarrow> add_event On_udp_tunnel cfd POLLIN w;
                            (case client of
                               None \<Rightarrow> do { w \<leftarrow> del_event p w; Some (None, close_fd cfd w) }
                             | Some c \<Rightarrow> Some (Some (p, c, cfd), w)) }))))) }))"

definition udp_associate :: "nat \<Rightarrow> sockaddr_u \<Rightarrow> proc \<Rightarrow> (int \<times> proc) option" where
  "udp_associate v dst w = do {
     (s, w) \<leftarrow> udp_sockets v dst w;
     (case s of
        None \<Rightarrow> Some (- 1, w)
      | Some (p, c, cfd) \<Rightarrow>
          (let w = upd_ev v (\<lambda>e. e\<lparr>e_cb := Some On_ignore, e_pair := Some c\<rparr>) w;
               w = upd_ev c (\<lambda>e. e\<lparr>e_pair := Some p\<rparr>) w;
               w = upd_ev p (\<lambda>e. e\<lparr>e_pair := Some v\<rparr>) w;
               w = upd_ev c (\<lambda>e. e\<lparr>e_flag := FLAG_CONN, e_addr := (e_addr (items w v))\<lparr>sin_port := 0\<rparr>\<rparr>) w;
               (a, w) = sys (Getsockname cfd) w in
           if a_ret a \<noteq> 0 then Some (- 1, w)
           else do {
             (m, len) \<leftarrow> s5_set_addr (5 # replicate 261 0) 0 262 (a_addr a) False;
             if len < 0 then Some (- 1, w)
             else
               (let (r, w) = send (e_fd (items w v)) (take (nat len) m) w in
                if r < 0 then Some (- 1, w)
                else do {
                  (r, w) \<leftarrow> mod_etype v POLLRDHUP w;
                  Some (if r \<noteq> 0 then - 1 else 0, w) }) })) }"

section \<open>Accepting\<close>

definition transp_conn :: "nat \<Rightarrow> proc \<Rightarrow> (int \<times> proc) option" where
  "transp_conn v w =
     (let fd = e_fd (items w v);
          (a, w) = sys (Getsockopt fd SO_ORIGINAL_DST) w;
          (a, w) = (if a_ret a \<noteq> 0 then sys (Getsockopt fd IP6T_SO_ORIGINAL_DST) w else (a, w)) in
      if a_ret a \<noteq> 0 then Some (- 1, w)
      else
        (let remote = a_addr a; (s, w) = sys (Getsockname fd) w; self = a_addr s in
         if a_ret s < 0 then Some (- 1, w)
         else if sa_family self = sa_family remote \<and> sin_port self = sin_port remote \<and> addr_equ self remote
         then Some (- 1, w)
         else do {
           (r, w) \<leftarrow> connect_hook v remote On_connect w;
           Some (if r \<noteq> 0 then - 1 else 0, w) }))"

text \<open>One accepted socket.\<close>

definition accept_client :: "int \<Rightarrow> sockaddr_u \<Rightarrow> proc \<Rightarrow> proc option" where
  "accept_client c client w =
     (let w = snd (setsockopt c SO_KEEPALIVE [1] w); (r, w) = setsockopt c TCP_NODELAY [1] w in
      if r \<noteq> 0 then Some (close_fd c w)
      else do {
        (rval, w) \<leftarrow> add_event On_request c POLLIN w;
        (case rval of
           None \<Rightarrow> Some (close_fd c w)
         | Some v \<Rightarrow> do {
             let w = upd_ev v (\<lambda>e. e\<lparr>e_addr := client\<rparr>) w;
             if p_mode (params w) AND MODE_TRANSPARENT \<noteq> 0
             then do {
               (t, w) \<leftarrow> transp_conn v w;
               if t < 0 \<and> p_mode (params w) AND MODE_TRANSPARENT = p_mode (params w) then del_event v w
               else Some w }
             else Some w }) })"

partial_function (option) on_accept :: "nat \<Rightarrow> int \<Rightarrow> proc \<Rightarrow> (int \<times> proc) option" where
  [code]: "on_accept v et w =
     (let (a, w) = sys (Accept (e_fd (items w v))) w in
      if a_ret a < 0
      then
        (if get_e w = EAGAIN \<or> get_e w = EINPROGRESS then Some (0, w)
         else Some (- 1, w\<lparr>pl_brk := True\<rparr>))
      else do {
        w \<leftarrow> accept_client (a_ret a) (a_addr a) w;
        on_accept v et w })"

section \<open>The tunnel\<close>

definition wait_ms :: "proc \<Rightarrow> int" where
  "wait_ms w = (if p_await_int (params w) \<noteq> 0 then p_await_int (params w) else 10)"

text \<open>After a short write: stop reading from one side, wait until the other can be written.\<close>

definition wait_for_room :: "nat \<Rightarrow> nat \<Rightarrow> bool \<Rightarrow> proc \<Rightarrow> (int \<times> proc) option" where
  "wait_for_room v p wait w = do {
     w \<leftarrow> (if wait then set_timer v (wait_ms w) w else Some w);
     (r, w) \<leftarrow> mod_etype v 0 w;
     if r \<noteq> 0 then Some (- 1, w)
     else do {
       (r, w) \<leftarrow> mod_etype p POLLOUT w;
       Some (if r \<noteq> 0 then - 1 else 0, w) } }"

definition release_buff :: "nat \<Rightarrow> nat \<Rightarrow> proc \<Rightarrow> proc option" where
  "release_buff v p w = do {
     w \<leftarrow> buff_push (e_buff (items w v)) w;
     let w = upd_ev v (\<lambda>e. e\<lparr>e_buff := None\<rparr>) w;
     Some (remove_timer p (remove_timer v w)) }"

text \<open>Sending what is left in the buffer. The inner \<open>None\<close> goes on with receiving.\<close>

definition flush_buff :: "nat \<Rightarrow> nat \<Rightarrow> proc \<Rightarrow> (int option \<times> proc) option" where
  "flush_buff v p w =
     (case e_buff (items w v) of
        None \<Rightarrow> Some (None, w)
      | Some b \<Rightarrow> do {
          x \<leftarrow> bufs w b;
          let n = b_lock x - b_offset x;
          (sn, _, wait, w) \<leftarrow> tcp_send_hook p b (b_lock x) True w;
          if sn < 0 then Some (Some (- 1), w)
          else if sn < n \<or> wait
          then do {
            b \<leftarrow> e_buff (items w v);
            w \<leftarrow> upd_buf b (\<lambda>x. x\<lparr>b_offset := b_offset x + sn\<rparr>) w;
            (r, w) \<leftarrow> wait_for_room v p wait w;
            Some (Some r, w) }
          else do {
            w \<leftarrow> release_buff v p w;
            (r1, w) \<leftarrow> mod_etype v POLLIN w;
            if r1 \<noteq> 0 then Some (Some (- 1), w)
            else do {
              (r2, w) \<leftarrow> mod_etype p POLLIN w;
              Some (if r2 \<noteq> 0 then Some (- 1) else None, w) } } })"

partial_function (option) relay_loop :: "nat \<Rightarrow> nat \<Rightarrow> nat \<Rightarrow> proc \<Rightarrow> (int \<times> proc) option" where
  [code]: "relay_loop v p b w = do {
     (n, w) \<leftarrow> tcp_recv_hook v b w;
     if n = 0 then do { w \<leftarrow> release_buff v p w; Some (0, w) }
     else if n < 0 then Some (- 1, w)
     else do {
       (sn, n, wait, w) \<leftarrow> tcp_send_hook p b n False w;
       if sn < 0 then Some (- 1, w)
       else if sn < n \<or> wait
       then do {
         w \<leftarrow> upd_buf b (\<lambda>x. x\<lparr>b_lock := n mod 2 ^ 32, b_offset := sn\<rparr>) w;
         wait_for_room v p wait w }
       else do {
         x \<leftarrow> bufs w b;
         if n = int (b_size x) then relay_loop v p b w
         else do { w \<leftarrow> release_buff v p w; Some (0, w) } } } }"

definition tunnel_data :: "nat \<Rightarrow> nat \<Rightarrow> proc \<Rightarrow> (int \<times> proc) option" where
  "tunnel_data v p w = do {
     (r, w) \<leftarrow> flush_buff v p w;
     (case r of
        Some r \<Rightarrow> Some (r, w)
      | None \<Rightarrow> do {
          (b, w) \<leftarrow> buff_pop (p_bfsize (params w)) w;
          (case b of
             None \<Rightarrow> Some (- 1, w)
           | Some b \<Rightarrow> relay_loop v p b (upd_ev v (\<lambda>e. e\<lparr>e_buff := Some b\<rparr>) w)) }) }"

definition has_event :: "int \<Rightarrow> nat \<Rightarrow> bool" where
  "has_event et flag \<longleftrightarrow> nat (et mod 2 ^ 32) AND flag \<noteq> 0"

definition on_tunnel :: "nat \<Rightarrow> int \<Rightarrow> proc \<Rightarrow> (int \<times> proc) option" where
  "on_tunnel v et w =
     (case e_pair (items w v) of
        None \<Rightarrow> Some (- 1, w)
      | Some p \<Rightarrow> do {
          let w = (if has_event et (POLLIN OR POLLOUT) then remove_timer p (remove_timer v w) else w);
          let swap = (e_buff (items w v) = None \<and> e_buff (items w p) \<noteq> None);
          if et = int POLLTIMEOUT \<and> e_buff (items w v) = None \<and> e_buff (items w p) = None
          then
            (if p_timeout (params w) > 0 \<and> p_to_count_lim (params w) > 0 \<and> e_round_count (items w v) \<noteq> 0
             then on_timeout v w else Some (0, w))
          else if (et = int POLLTIMEOUT \<or> has_event et POLLOUT) \<and> swap
          then do { q \<leftarrow> e_pair (items w p); tunnel_data p q w }
          else tunnel_data v p w })"

section \<open>UDP\<close>

text \<open>
  A datagram from the client, in the buffer from \<open>base\<close> on: \<open>Inl r\<close> returns \<open>r\<close>,
  \<open>Inr None\<close> goes on with the next one, \<open>Inr (Some ns)\<close> is what sending gave.
\<close>

definition udp_from_client ::
    "nat \<Rightarrow> nat \<Rightarrow> mem \<Rightarrow> int \<Rightarrow> sockaddr_u \<Rightarrow> proc \<Rightarrow> ((int + int option) \<times> sockaddr_u \<times> proc) option" where
  "udp_from_client v p dat n addr w = do {
     (bad, w) \<leftarrow>
       (if sin_port (e_addr (items w v)) \<noteq> 0 then Some (None, w)
        else if \<not> addr_equ addr (e_addr (items w v)) then Some (Some 0, w)
        else
          (let (r, w) = call (Connect (e_fd (items w v)) addr) w in
           if r < 0 then Some (Some (- 1), w)
           else Some (None, upd_ev v (\<lambda>e. e\<lparr>e_addr := addr\<rparr>) w)));
     (case bad of
        Some r \<Rightarrow> Some (Inl r, addr, w)
      | None \<Rightarrow> do {
          frag \<leftarrow> ld dat 2;
          if frag \<noteq> 0 then Some (Inr None, addr, w)
          else do {
            (offs, addr, w) \<leftarrow> s5_get_addr dat 0 n addr SOCK_DGRAM w;
            if offs < 0 then Some (Inl (- 1), addr, w)
            else if p_block_quic (params w) \<and> htons (sin_port addr) = 443 then Some (Inr None, addr, w)
            else do {
              (bad, addr, w) \<leftarrow>
                (if sin_port (e_addr (items w p)) \<noteq> 0 then Some (False, addr, w)
                 else
                   (let fam = sa_family (p_baddr (params w));
                        addr = (if fam = AF_INET6 then map_fix addr True else addr) in
                    if fam \<noteq> sa_family addr then Some (True, addr, w)
                    else
                      (let (r, w) = call (Connect (e_fd (items w p)) addr) w in
                       if r < 0 then Some (True, addr, w)
                       else Some (False, addr, upd_ev p (\<lambda>e. e\<lparr>e_addr := addr\<rparr>) w))));
              if bad then Some (Inl (- 1), addr, w)
              else do {
                bs \<leftarrow> slice dat (nat offs) (nat (n - offs));
                (ns, w) \<leftarrow> udp_hook p bs (e_addr (items w p)) w;
                Some (Inr (Some ns), addr, w) } } } }) }"

text \<open>A datagram for the client: the SOCKS header goes in front of it.\<close>

definition udp_to_client ::
    "nat \<Rightarrow> nat \<Rightarrow> int \<Rightarrow> sockaddr_u \<Rightarrow> proc \<Rightarrow> ((int + int option) \<times> sockaddr_u \<times> proc) option" where
  "udp_to_client p b n addr w = do {
     let addr = map_fix addr False;
     x \<leftarrow> bufs w b;
     m \<leftarrow> memset (b_data x) 0 0 22;
     (m, offs) \<leftarrow> s5_set_addr m S_SIZE_I6 S_SIZE_I6 addr True;
     w \<leftarrow> upd_buf b (\<lambda>x. x\<lparr>b_data := m\<rparr>) w;
     if offs < 0 \<or> offs > S_SIZE_I6 then Some (Inl (- 1), addr, w)
     else do {
       bs \<leftarrow> get_bytes m (S_SIZE_I6 - offs) (nat (offs + n));
       let (ns, w) = send (e_fd (items w p)) bs w;
       Some (Inr (Some ns), addr, w) } }"

partial_function (option) udp_loop :: "nat \<Rightarrow> nat \<Rightarrow> nat \<Rightarrow> nat \<Rightarrow> nat \<Rightarrow> sockaddr_u \<Rightarrow> proc \<Rightarrow> (int \<times> proc) option" where
  [code]: "udp_loop v p b base data_len addr w =
     (let (a, w) = sys (Recvfrom (e_fd (items w v)) data_len) w; n = a_ret a in
      if n < 0
      then
        (if get_e w = EAGAIN then Some (0, w)
         else if get_e w = EMSGSIZE \<or> get_e w = ECONNREFUSED then udp_loop v p b base data_len addr w
         else Some (- 1, w))
      else do {
        let addr = copy_sa addr (a_addr a);
        x \<leftarrow> bufs w b;
        m \<leftarrow> memcpy (b_data x) base (take (nat n) (a_data a));
        w \<leftarrow> upd_buf b (\<lambda>x. x\<lparr>b_data := m\<rparr>) w;
        let w = upd_ev v (\<lambda>e. e\<lparr>e_recv_count := e_recv_count e + n\<rparr>) w;
        let w =
          (if e_round_sent (items w v) = 0
           then upd_ev p (\<lambda>e. e\<lparr>e_round_sent := 0\<rparr>)
                  (upd_ev v (\<lambda>e. e\<lparr>e_round_count := e_round_count e + 1, e_round_sent := e_round_sent e + n\<rparr>) w)
           else w);
        (r, addr, w) \<leftarrow>
          (if e_flag (items w v) = FLAG_CONN then udp_from_client v p m n addr w
           else udp_to_client p b n addr w);
        (case r of
           Inl r \<Rightarrow> Some (r, w)
         | Inr ns \<Rightarrow>
             if ns \<noteq> None \<and> the ns < 0 \<and> get_e w \<noteq> EMSGSIZE \<and> get_e w \<noteq> ECONNREFUSED then Some (- 1, w)
             else udp_loop v p b base data_len addr w) })"

definition on_udp_tunnel :: "nat \<Rightarrow> int \<Rightarrow> proc \<Rightarrow> (int \<times> proc) option" where
  "on_udp_tunnel v et w = do {
     (b, w) \<leftarrow> buff_ppop (p_bfsize (params w)) w;
     (case b of
        None \<Rightarrow> Some (- 1, w)
      | Some b \<Rightarrow> do {
          x \<leftarrow> bufs w b;
          q \<leftarrow> e_pair (items w v);
          if e_flag (items w v) = FLAG_CONN then udp_loop v q b 0 (b_size x) zero_addr w
          else do {
            p \<leftarrow> e_pair (items w q);
            udp_loop v p b 22 (to_size (int (b_size x) - 22)) zero_addr w } }) }"

section \<open>Requests\<close>

definition save_buffer :: "nat \<Rightarrow> nat \<Rightarrow> int \<Rightarrow> proc \<Rightarrow> (int \<times> proc) option" where
  "save_buffer v b n w = do {
     (b1, w) \<leftarrow> buff_pop (p_bfsize (params w)) w;
     let w = upd_ev v (\<lambda>e. e\<lparr>e_buff := b1\<rparr>) w;
     assert_c (b1 = Some b) w;
     b1 \<leftarrow> b1;
     let n = n mod 2 ^ 32;
     w \<leftarrow> upd_buf b1 (\<lambda>x. x\<lparr>b_lock := n\<rparr>) w;
     let w = upd_ev v (\<lambda>e. e\<lparr>e_recv_count := n, e_round_count := e_round_count e + 1\<rparr>) w;
     if \<not> p_auto_reconnect (params w) then Some (0, w)
     else do {
       (q, w) \<leftarrow> buff_pop (p_bfsize (params w)) w;
       let w = upd_ev v (\<lambda>e. e\<lparr>e_sq_buff := q\<rparr>) w;
       (case q of
          None \<Rightarrow> Some (- 1, w)
        | Some q \<Rightarrow> do {
            x \<leftarrow> bufs w b1;
            y \<leftarrow> bufs w q;
            bs \<leftarrow> slice (b_data x) 0 (nat n);
            new \<leftarrow> memcpy (b_data y) 0 bs;
            w \<leftarrow> upd_buf q (\<lambda>y. y\<lparr>b_lock := n, b_data := new\<rparr>) w;
            Some (0, w) }) } }"

text \<open>The commands of a SOCKS 5 request: the returned value, or the error to answer with.\<close>

definition s5_command :: "nat \<Rightarrow> mem \<Rightarrow> int \<Rightarrow> sockaddr_u \<Rightarrow> proc \<Rightarrow> ((int + int) \<times> sockaddr_u \<times> proc) option" where
  "s5_command v dat n dst w = do {
     cmd \<leftarrow> ld dat 1;
     if cmd = S_CMD_CONN then do {
       (e, dst, w) \<leftarrow> s5_get_addr dat 0 n dst SOCK_STREAM w;
       if e < 0 then Some (Inr e, dst, w)
       else do { (r, w) \<leftarrow> connect_hook v dst On_connect w; Some (Inl r, dst, w) } }
     else if cmd = S_CMD_AUDP \<and> p_udp (params w) then do {
       (e, dst, w) \<leftarrow> s5_get_addr dat 0 n dst SOCK_DGRAM w;
       if e < 0 then Some (Inr e, dst, w)
       else do { (r, w) \<leftarrow> udp_associate v dst w; Some (Inl r, dst, w) } }
     else Some (Inr (- S_ER_CMD), dst, w) }"

definition handle_s5 :: "nat \<Rightarrow> nat \<Rightarrow> int \<Rightarrow> sockaddr_u \<Rightarrow> proc \<Rightarrow> (int \<times> sockaddr_u \<times> proc) option" where
  "handle_s5 v b n dst w = do {
     x \<leftarrow> bufs w b;
     if e_flag (items w v) \<noteq> FLAG_S5
     then do {
       (r, w) \<leftarrow> auth_socks5 (e_fd (items w v)) (b_data x) (nat n) w;
       if r \<noteq> 0 then Some (- 1, dst, w)
       else Some (0, dst, upd_ev v (\<lambda>e. e\<lparr>e_flag := FLAG_S5\<rparr>) w) }
     else if n < S_SIZE_MIN then Some (- 1, dst, w)
     else do {
       (r, dst, w) \<leftarrow> s5_command v (b_data x) n dst w;
       (case r of
          Inl r \<Rightarrow> Some (r, dst, w)
        | Inr e \<Rightarrow> Some (1, dst, snd (resp_s5_error (e_fd (items w v)) (- e) w))) } }"

text \<open>
  The modes of \<open>on_request\<close> after SOCKS 5, on the data received: \<open>Inl\<close> is its
  \<open>return -1\<close>, \<open>Inr error\<close> goes on.
\<close>

definition ss_request :: "nat \<Rightarrow> nat \<Rightarrow> int \<Rightarrow> sockaddr_u \<Rightarrow> proc \<Rightarrow> ((unit + int) \<times> sockaddr_u \<times> proc) option" where
  "ss_request v b n dst w = do {
     x \<leftarrow> bufs w b;
     (req_size, dst, w) \<leftarrow> s5_get_addr (b_data x) (- 3) (n + 3) dst SOCK_STREAM w;
     if req_size < 0 then Some (Inl (), dst, w)
     else do {
       let k = req_size - 3;
       new \<leftarrow> (if k < 0 then None else memmove (b_data x) 0 (nat k) (nat (n - k)));
       w \<leftarrow> upd_buf b (\<lambda>x. x\<lparr>b_data := new\<rparr>) w;
       (r, w) \<leftarrow> save_buffer v b (n - k) w;
       Some (if r \<noteq> 0 then Inl () else Inr 0, dst, w) } }"

definition other_request :: "nat \<Rightarrow> nat \<Rightarrow> int \<Rightarrow> sockaddr_u \<Rightarrow> proc \<Rightarrow> ((unit + int) \<times> sockaddr_u \<times> proc) option" where
  "other_request v b n dst w = do {
     x \<leftarrow> bufs w b;
     first \<leftarrow> ld (b_data x) 0;
     let mode = p_mode (params w);
     connect \<leftarrow> (if mode AND MODE_HTTP \<noteq> 0 \<and> n > 7 then has_prefix (b_data x) 0 (bytes_of ''CONNECT'') else Some False);
     if mode AND MODE_SOCKS4 \<noteq> 0 \<and> first = S_VER4
     then do {
       (e, dst, w) \<leftarrow> s4_get_addr (b_data x) (nat n) dst (upd_ev v (\<lambda>e. e\<lparr>e_flag := FLAG_S4\<rparr>) w);
       Some (Inr e, dst, w) }
     else if connect
     then do {
       (e, dst, w) \<leftarrow> http_get_addr (b_data x) (nat n) dst (upd_ev v (\<lambda>e. e\<lparr>e_flag := FLAG_HTTP\<rparr>) w);
       Some (Inr e, dst, w) }
     else if mode AND MODE_SHADOWSOCKS \<noteq> 0 \<and> first \<le> S_ATP_I6 then ss_request v b n dst w
     else do {
       hello \<leftarrow> (if mode AND MODE_RAWTLS \<noteq> 0 then is_tls_chello (b_data x) (nat n) else Some False);
       if hello
       then do {
         (e, dst, w) \<leftarrow> tls_get_addr (b_data x) (nat n) dst w;
         if e \<noteq> 0 then Some (Inr e, dst, w)
         else do { (r, w) \<leftarrow> save_buffer v b n w; Some (if r \<noteq> 0 then Inl () else Inr 0, dst, w) } }
       else if mode AND MODE_TCP \<noteq> 0
       then do { (r, w) \<leftarrow> save_buffer v b n w; Some (if r \<noteq> 0 then Inl () else Inr 0, dst, w) }
       else Some (Inl (), dst, w) } }"

text \<open>The end of \<open>on_request\<close>: the answer to a request that failed.\<close>

definition finish_request :: "nat \<Rightarrow> int \<Rightarrow> proc \<Rightarrow> int \<times> proc" where
  "finish_request v error w =
     (if error \<noteq> 0 then (- 1, snd (resp_error (e_fd (items w v)) ENOENT (e_flag (items w v)) w)) else (0, w))"

definition on_request :: "nat \<Rightarrow> int \<Rightarrow> proc \<Rightarrow> (int \<times> proc) option" where
  "on_request v et w = do {
     (b, w) \<leftarrow> buff_ppop (p_bfsize (params w)) w;
     (case b of
        None \<Rightarrow> Some (- 1, w)
      | Some b \<Rightarrow> do {
          x \<leftarrow> bufs w b;
          let (n, bs, w) = recv (e_fd (items w v)) (b_size x) w;
          if n < 1 then Some (- 1, w)
          else do {
            new \<leftarrow> memcpy (b_data x) 0 bs;
            w \<leftarrow> upd_buf b (\<lambda>x. x\<lparr>b_data := new\<rparr>) w;
            first \<leftarrow> ld new 0;
            if p_mode (params w) AND MODE_SOCKS5 \<noteq> 0 \<and> first = S_VER5
            then do {
              (error, dst, w) \<leftarrow> handle_s5 v b n zero_addr w;
              Some (if error > 0 then (- 1, w) else finish_request v error w) }
            else do {
              (r, dst, w) \<leftarrow> other_request v b n zero_addr w;
              (case r of
                 Inl _ \<Rightarrow> Some (- 1, w)
               | Inr error \<Rightarrow> do {
                   (error, w) \<leftarrow> (if error = 0 then connect_hook v dst On_connect w else Some (error, w));
                   Some (finish_request v error w) }) } } }) }"

definition opt_value :: "answer \<Rightarrow> nat" where
  "opt_value a = (case a_events a of [] \<Rightarrow> 0 | (x, _) # _ \<Rightarrow> x)"

text \<open>The tail of \<open>on_connect\<close>: the answer to the client, or its data.\<close>

definition report_conn :: "nat \<Rightarrow> int \<Rightarrow> nat \<Rightarrow> proc \<Rightarrow> (int \<times> proc) option" where
  "report_conn v et error w = do {
     c \<leftarrow> e_pair (items w v);
     if error = 0 \<and> e_buff (items w c) \<noteq> None then on_tunnel v et w
     else
       (let (r, w) = resp_error (e_fd (items w c)) error (e_flag (items w c)) w in
        Some (if r < 0 \<or> error \<noteq> 0 then - 1 else 0, w)) }"

definition on_connect :: "nat \<Rightarrow> int \<Rightarrow> proc \<Rightarrow> (int \<times> proc) option" where
  "on_connect v et w =
     (if has_event et POLLERR
      then
        (let (a, w) = sys (Getsockopt (e_fd (items w v)) SO_ERROR) w;
             error = (if opt_value a = 0 then ECONNREFUSED else opt_value a) in
         if a_ret a \<noteq> 0 then Some (- 1, w)
         else do {
           (r, w) \<leftarrow> (if error \<in> {ECONNRESET, ECONNREFUSED, ETIMEDOUT} then on_connerr v w else Some (- 1, w));
           if r = 0 then Some (0, w) else report_conn v et error w })
      else do {
        (r, w) \<leftarrow> mod_etype v POLLIN w;
        if r \<noteq> 0 then Some (- 1, w)
        else do {
          c \<leftarrow> e_pair (items w v);
          (r, w) \<leftarrow> mod_etype c POLLIN w;
          if r \<noteq> 0 then Some (- 1, w)
          else report_conn v et 0
                 (upd_ev c (\<lambda>e. e\<lparr>e_cb := Some On_tunnel\<rparr>) (upd_ev v (\<lambda>e. e\<lparr>e_cb := Some On_tunnel\<rparr>) w)) } })"

definition on_ignore :: "nat \<Rightarrow> int \<Rightarrow> proc \<Rightarrow> (int \<times> proc) option" where
  "on_ignore v et w = Some (if has_event et (POLLHUP OR POLLERR OR POLLRDHUP) then - 1 else 0, w)"

section \<open>Callbacks\<close>

text \<open>The callbacks that do not belong to an upstream SOCKS proxy.\<close>

fun direct_cb :: handler where
  "direct_cb On_ctrl v et w = on_ctrl v et w"
| "direct_cb On_accept v et w = on_accept v et w"
| "direct_cb On_request v et w = on_request v et w"
| "direct_cb On_connect v et w = on_connect v et w"
| "direct_cb On_tunnel v et w = on_tunnel v et w"
| "direct_cb On_udp_tunnel v et w = on_udp_tunnel v et w"
| "direct_cb On_ignore v et w = on_ignore v et w"
| "direct_cb Recv_and_connect v et w = recv_and_connect v et w"
| "direct_cb _ v et w = None"

definition after_conn :: "nat \<Rightarrow> int \<Rightarrow> proc \<Rightarrow> (int \<times> proc) option" where
  "after_conn v et w = do { cb \<leftarrow> e_after_conn_cb (items w v); direct_cb cb v et w }"

definition on_socks_recv :: "nat \<Rightarrow> int \<Rightarrow> proc \<Rightarrow> (int \<times> proc) option" where
  "on_socks_recv v et w = do {
     let (n, bs, w) = recv (e_fd (items w v)) 262 w;
     r \<leftarrow> memcpy (replicate 262 0) 0 bs;
     if n < 2 \<or> r ! 0 \<noteq> S_VER5 \<or> int (unat (r ! 1)) \<noteq> S_ER_OK then after_conn v (int POLLERR) w
     else if e_conn_state (items w v) \<noteq> FLAG_S5
     then do {
       (m, len) \<leftarrow> s5_set_addr (r[1 := S_CMD_CONN]) 0 262 (e_addr (items w v)) False;
       bs \<leftarrow> get_bytes m 0 (nat len);
       let (s, w) = send (e_fd (items w v)) bs w;
       if s < 0 then after_conn v (int POLLERR) w
       else Some (0, upd_ev v (\<lambda>e. e\<lparr>e_conn_state := FLAG_S5\<rparr>) w) }
     else after_conn v (int POLLOUT) (upd_ev v (\<lambda>e. e\<lparr>e_cb := e_after_conn_cb e\<rparr>) w) }"

definition on_socks_conn :: "nat \<Rightarrow> int \<Rightarrow> proc \<Rightarrow> (int \<times> proc) option" where
  "on_socks_conn v et w =
     (let (s, w) = send (e_fd (items w v)) [S_VER5, 1, 0] w in
      if s < 0 then after_conn v et w
      else do {
        (r, w) \<leftarrow> mod_etype v POLLIN w;
        if r \<noteq> 0 then Some (- 1, w)
        else Some (0, upd_ev v (\<lambda>e. e\<lparr>e_cb := Some On_socks_recv\<rparr>) w) })"

definition run_cb :: handler where
  "run_cb cb v et w =
     (case cb of On_socks_conn \<Rightarrow> on_socks_conn v et w
      | On_socks_recv \<Rightarrow> on_socks_recv v et w
      | _ \<Rightarrow> direct_cb cb v et w)"

section \<open>Start and end\<close>

definition stop_server :: "int \<Rightarrow> proc \<Rightarrow> proc" where
  "stop_server srvfd w =
     (let w = w\<lparr>server_fd := - 1\<rparr> in if srvfd \<ge> 0 then close_fd srvfd w else w)"

text \<open>What \<open>start_event_loop\<close> does when the loop has ended.\<close>

definition end_event_loop :: "int \<Rightarrow> proc \<Rightarrow> proc option" where
  "end_event_loop srvfd w = do {
     w \<leftarrow> destroy_pool (w\<lparr>current_pool := False\<rparr>);
     Some (stop_server srvfd w) }"

definition start_event_loop :: "int \<Rightarrow> proc \<Rightarrow> (int \<times> proc) option" where
  "start_event_loop srvfd w = do {
     let w = w\<lparr>server_fd := srvfd\<rparr>;
     (ok, w) \<leftarrow> init_pool (p_max_open (params w) * 2 + 1) w;
     if \<not> ok then Some (- 1, stop_server srvfd w)
     else do {
       (v, w) \<leftarrow> add_event On_accept srvfd POLLIN (w\<lparr>current_pool := True\<rparr>);
       if v = None then do { w \<leftarrow> end_event_loop srvfd w; Some (- 1, w) }
       else do {
         w \<leftarrow> loop_event run_cb w;
         w \<leftarrow> end_event_loop srvfd w;
         Some (0, w) } } }"

text \<open>Called from a signal handler or from another thread, \<open>on_cancel\<close> asks the loop to end.\<close>

definition on_cancel :: "proc \<Rightarrow> proc" where
  "on_cancel w =
     (let fd = server_fd w;
          w = (if fd > 0 then (snd (call (Shutdown fd) w))\<lparr>server_fd := - 1\<rparr> else w)
      in if current_pool w then byedpi_wakeup (w\<lparr>pl_brk := True\<rparr>) else w)"

definition byedpi_stop :: "proc \<Rightarrow> proc" where
  "byedpi_stop w = on_cancel w"

definition listen_socket :: "sockaddr_u \<Rightarrow> proc \<Rightarrow> int \<times> proc" where
  "listen_socket srv w =
     (let (fd, w) = nb_socket (sa_family srv) SOCK_STREAM w in
      if fd < 0 then (- 1, w)
      else
        (let w = snd (socket_mod fd w); (r, w) = setsockopt fd SO_REUSEADDR [1] w;
             (fd, w) = close_on_error fd (r = - 1) w in
         if fd < 0 then (- 1, w)
         else
           (let (r, w) = call (Bind fd srv) w; (fd, w) = close_on_error fd (r < 0) w in
            if fd < 0 then (- 1, w)
            else (let (r, w) = call (Listen fd 10) w in close_on_error fd (r \<noteq> 0) w))))"

definition run :: "sockaddr_u \<Rightarrow> proc \<Rightarrow> (int \<times> proc) option" where
  "run srv w =
     (let w = snd (call Signals w); (fd, w) = listen_socket srv w in
      if fd < 0 then Some (- 1, w) else start_event_loop fd w)"

end
