(* ===== verification/Args.thy ===== *)
theory Args
  imports Proxy Cache_File
begin

text \<open>
  The option parser and the start of byedpi/main.c. \<open>parse_args\<close> is the loop over the
  options; its \<open>switch\<close> is split by groups of options. The state of the loop is the record
  \<open>args\<close>: the current group of options, whether a value was invalid, and the positions the
  options -A and -B keep to repeat a group.
\<close>

section \<open>Groups of options\<close>

definition set_params :: "(params \<Rightarrow> params) \<Rightarrow> proc \<Rightarrow> proc" where
  "set_params f w = w\<lparr>params := f (params w)\<rparr>"

text \<open>
  \<open>1 << id\<close> is a shift of an \<open>int\<close>: its sign is extended to 64 bits, and shifting by
  32 or more is undefined.
\<close>

definition group_bit :: "nat \<Rightarrow> 64 word option" where
  "group_bit i = (if i < 31 then Some (2 ^ i) else if i = 31 then Some (- (2 ^ 31)) else None)"

definition add_group :: "nat option \<Rightarrow> proc \<Rightarrow> (nat option \<times> proc) option" where
  "add_group prev w =
     (let (a, w) = alloc 1000 w in
      case a of
        None \<Rightarrow> Some (None, w)
      | Some d \<Rightarrow> do {
          let w = upd_dp d (\<lambda>_. zero_dp\<lparr>d_prev := prev\<rparr>) w;
          let w = (case prev of None \<Rightarrow> w | Some p \<Rightarrow> upd_dp p (\<lambda>g. g\<lparr>d_next := Some d\<rparr>) w);
          let i = p_dp_n (params w);
          b \<leftarrow> group_bit i;
          let w = upd_dp d (\<lambda>g. g\<lparr>d_id := i, d_bit := b, d_str := [0]\<rparr>) w;
          Some (Some d, set_params (\<lambda>p. p\<lparr>p_dp_n := i + 1, p_dp_full_mask := p_dp_full_mask p OR b\<rparr>) w) })"

definition reset_params :: "proc \<Rightarrow> proc" where
  "reset_params w =
     w\<lparr>params := zero_params\<lparr>p_await_int := 10, p_ipv6 := True, p_resolve := True, p_udp := True,
         p_max_open := 2048, p_bfsize := 65536, p_baddr := zero_addr\<lparr>sa_family := AF_INET6\<rparr>,
         p_laddr := zero_addr\<lparr>sa_family := AF_INET\<rparr>, p_debug := 0\<rparr>\<rparr>"

text \<open>What \<open>mem_destroy\<close> frees is not looked at here, only that it ends.\<close>

partial_function (option) clear_groups :: "nat option \<Rightarrow> proc \<Rightarrow> proc option" where
  [code]: "clear_groups dp w =
     (case dp of
        None \<Rightarrow> Some w
      | Some d \<Rightarrow> do {
          _ \<leftarrow> mem_destroy (d_hosts (groups w d));
          _ \<leftarrow> mem_destroy (d_ipset (groups w d));
          clear_groups (d_next (groups w d)) (upd_dp d (\<lambda>_. zero_dp) w) })"

definition clear_params :: "proc \<Rightarrow> proc option" where
  "clear_params w = do {
     let p = params w;
     let w = (if p_pid_fd p > 0 then close_fd (p_pid_fd p) w else w);
     let w = (case p_pid_file p of None \<Rightarrow> w | Some f \<Rightarrow> snd (call (Unlink f) w));
     _ \<leftarrow> mem_destroy (p_mempool p);
     let w = set_params (\<lambda>p. p\<lparr>p_mempool := None\<rparr>) w;
     let w = fold free_ptr (p_need_free p) w;
     let w = set_params (\<lambda>p. p\<lparr>p_need_free := []\<rparr>) w;
     w \<leftarrow> clear_groups (p_dp p) w;
     Some (set_params (\<lambda>p. p\<lparr>p_dp := None\<rparr>) w) }"

section \<open>The table of options\<close>

definition options :: "(string \<times> bool \<times> string) list" where
  "options =
     [(''daemon'', False, ''D''), (''pidfile'', True, ''w''), (''no-domain'', False, ''N''), (''no-ipv6'', False, ''X''),
      (''no-udp'', False, ''U''), (''help'', False, ''h''), (''version'', False, ''v''), (''ip'', True, ''i''),
      (''port'', True, ''p''), (''transparent'', False, ''E''), (''conn-ip'', True, ''I''), (''buf-size'', True, ''b''),
      (''max-conn'', True, ''c''), (''debug'', True, ''x''), (''tfo'', False, ''F''), (''auto'', True, ''A''),
      (''auto-mode'', True, ''L''), (''cache-ttl'', True, ''u''), (''timeout'', True, ''T''), (''copy'', True, ''B''),
      (''cache-file'', True, ''y''), (''proto'', True, ''K''), (''hosts'', True, ''H''), (''pf'', True, ''V''),
      (''round'', True, ''R''), (''split'', True, ''s''), (''disorder'', True, ''d''), (''oob'', True, ''o''),
      (''disoob'', True, ''q''), (''fake'', True, ''f''), (''md5sig'', False, ''S''), (''fake-sni'', True, ''n''),
      (''ttl'', True, ''t''), (''fake-data'', True, ''l''), (''fake-offset'', True, ''O''), (''fake-tls-mod'', True, ''Q''),
      (''oob-data'', True, ''e''), (''mod-http'', True, ''M''), (''tlsrec'', True, ''r''), (''tlsminor'', True, ''m''),
      (''udp-fake'', True, ''a''), (''block-quic'', False, ''J''), (''def-ttl'', True, ''g''), (''wait-send'', False, ''Z''),
      (''await-int'', True, ''W''), (''drop-sack'', False, ''Y''), (''protect-path'', True, ''P''), (''ipset'', True, ''j''),
      (''connect-to'', True, ''C''), (''comment'', True, ''#''), (''cache-merge'', True, ''/'')]"

text \<open>
  The array \<open>opt\<close> that is given to \<open>getopt_long\<close>: letters, with a colon after those that
  take an argument. The table ends with an entry of zeros.
\<close>

definition opt_string :: string where
  "opt_string = concat (map (\<lambda>(name, arg, c). c @ (if arg then '':'' else [])) options)"

definition chr :: "string \<Rightarrow> byte" where
  "chr c = hd (bytes_of c)"

section \<open>The state of the loop\<close>

record args =
  g_dp :: nat
  g_invalid :: bool
  g_all_limited :: bool
  g_curr_optind :: int
  g_optind :: int

text \<open>An option goes on with a new state, or ends \<open>parse_args\<close> with a status.\<close>

type_synonym opt_result = "((int + args) \<times> proc) option"

abbreviation go_on :: "args \<Rightarrow> proc \<Rightarrow> opt_result" where
  "go_on g w \<equiv> Some (Inr g, w)"

abbreviation bad_value :: "args \<Rightarrow> proc \<Rightarrow> opt_result" where
  "bad_value g w \<equiv> Some (Inr (g\<lparr>g_invalid := True\<rparr>), w)"

abbreviation stop_with :: "int \<Rightarrow> proc \<Rightarrow> opt_result" where
  "stop_with r w \<equiv> Some (Inl r, w)"

text \<open>A number that must fill the argument and lie in a range, and what is done with it.\<close>

definition number_opt :: "mem \<Rightarrow> int \<Rightarrow> int \<Rightarrow> (int \<Rightarrow> proc \<Rightarrow> proc) \<Rightarrow> args \<Rightarrow> proc \<Rightarrow> opt_result" where
  "number_opt arg lo hi f g w = do {
     (v, e) \<leftarrow> strtol0 arg 0;
     z \<leftarrow> ld arg e;
     if v < lo \<or> v > hi \<or> z \<noteq> 0 then bad_value g w else go_on g (f v w) }"

text \<open>
  A list of letters with commas: \<open>step\<close> handles the letter at a position and gives the
  position from which the next comma is searched, or \<open>None\<close> for an invalid one.
\<close>

type_synonym letter_step = "nat \<Rightarrow> proc \<Rightarrow> (nat \<times> proc) option option"

partial_function (option) letters :: "letter_step \<Rightarrow> mem \<Rightarrow> nat \<Rightarrow> proc \<Rightarrow> (bool \<times> proc) option" where
  [code]: "letters step arg p w = do {
     r \<leftarrow> step p w;
     (case r of
        None \<Rightarrow> Some (False, w)
      | Some (q, w) \<Rightarrow> do {
          c \<leftarrow> strchr arg q 44;
          (case c of None \<Rightarrow> Some (True, w) | Some c \<Rightarrow> letters step arg (c + 1) w) }) }"

definition letters_opt :: "letter_step \<Rightarrow> mem \<Rightarrow> args \<Rightarrow> proc \<Rightarrow> opt_result" where
  "letters_opt step arg g w = do {
     (ok, w) \<leftarrow> letters step arg 0 w;
     if ok then go_on g w else bad_value g w }"

text \<open>A step that sets flags by a table.\<close>

definition flag_step :: "(string \<times> nat) list \<Rightarrow> (nat \<Rightarrow> proc \<Rightarrow> proc) \<Rightarrow> mem \<Rightarrow> letter_step" where
  "flag_step tab f arg p w = do {
     c \<leftarrow> ld arg p;
     Some (case map_of (map (\<lambda>(s, v). (chr s, v)) tab) c of None \<Rightarrow> None | Some v \<Rightarrow> Some (p, f v w)) }"

section \<open>Network options\<close>

definition opt_network :: "byte \<Rightarrow> mem \<Rightarrow> args \<Rightarrow> proc \<Rightarrow> opt_result" where
  "opt_network c arg g w =
     (if c = chr ''N'' then go_on g (set_params (\<lambda>p. p\<lparr>p_resolve := False\<rparr>) w)
      else if c = chr ''X'' then go_on g (set_params (\<lambda>p. p\<lparr>p_ipv6 := False\<rparr>) w)
      else if c = chr ''U'' then go_on g (set_params (\<lambda>p. p\<lparr>p_udp := False\<rparr>) w)
      else if c = chr ''E'' then go_on g (set_params (\<lambda>p. p\<lparr>p_mode := MODE_TRANSPARENT\<rparr>) w)
      else if c = chr ''D'' then go_on g (set_params (\<lambda>p. p\<lparr>p_daemonize := True\<rparr>) w)
      else if c = chr ''w'' then go_on g (set_params (\<lambda>p. p\<lparr>p_pid_file := Some arg\<rparr>) w)
      else if c = chr ''h'' \<or> c = chr ''v'' then stop_with 1 (snd (call (Print [c]) w))
      else if c = chr ''i'' then do {
        (mode, a, w) \<leftarrow> get_addr_scheme arg (p_laddr (params w)) w;
        let w = set_params (\<lambda>p. p\<lparr>p_laddr := a\<rparr>) w;
        if mode < 0 then bad_value g w else go_on g (set_params (\<lambda>p. p\<lparr>p_mode := p_mode p OR nat mode\<rparr>) w) }
      else if c = chr ''p'' then
        number_opt arg 1 0xffff
          (\<lambda>v. set_params (\<lambda>p. p\<lparr>p_laddr := (p_laddr p)\<lparr>sin_port := htons (nat v)\<rparr>\<rparr>)) g w
      else if c = chr ''I'' then do {
        (r, a, w) \<leftarrow> get_addr arg (p_baddr (params w)) w;
        let w = set_params (\<lambda>p. p\<lparr>p_baddr := a\<rparr>) w;
        if r < 0 then bad_value g w else go_on g w }
      else if c = chr ''b'' then
        number_opt arg 1 (0x7fffffff div 4) (\<lambda>v. set_params (\<lambda>p. p\<lparr>p_bfsize := nat v\<rparr>)) g w
      else if c = chr ''c'' then
        number_opt arg 1 (0xffff div 2 - 1) (\<lambda>v. set_params (\<lambda>p. p\<lparr>p_max_open := nat v\<rparr>)) g w
      else do {
        (v, _) \<leftarrow> strtol0 arg 0;
        let w = set_params (\<lambda>p. p\<lparr>p_debug := to_int v\<rparr>) w;
        if to_int v < 0 then bad_value g w else go_on g w })"

section \<open>Groups, cache and limits\<close>

definition opt_cache_file :: "mem \<Rightarrow> args \<Rightarrow> proc \<Rightarrow> opt_result" where
  "opt_cache_file arg g w = do {
     let d = g_dp g;
     let w = upd_dp d (\<lambda>x. x\<lparr>d_cache_file := Some arg\<rparr>) w;
     if arg = [45, 0] then go_on g w
     else
       (let (a, w) = sys (Read_file arg) w in
        if a_ret a < 0 then go_on g w
        else do {
          pool \<leftarrow> p_mempool (params w);
          (pool, w) \<leftarrow> load_cache pool (a_data a) d w;
          go_on g (set_mempool pool w) }) }"

definition auto_modes :: "(string \<times> nat) list" where
  "auto_modes = [(''o'', AUTO_ONRECONN), (''s'', AUTO_SORT), (''n'', AUTO_NORECONN)]"

definition detects :: "(string \<times> nat) list" where
  "detects = [(''t'', DETECT_TORST), (''r'', DETECT_HTTP_LOCAT), (''s'', DETECT_TLS_ERR), (''c'', DETECT_CONNECT),
              (''n'', 0)]"

text \<open>
  A letter of -A. For \<open>p=<pri>\<close> the next comma is searched from the end of the number;
  without \<open>=\<close> it is searched from NULL.
\<close>

definition auto_step :: "nat \<Rightarrow> mem \<Rightarrow> letter_step" where
  "auto_step d arg p w = do {
     c \<leftarrow> ld arg p;
     if c = chr ''p'' then do {
       q \<leftarrow> strchr arg p 61;
       q \<leftarrow> q;
       let (v, _, e) = strtof (libc w) arg (q + 1);
       z \<leftarrow> ld arg e;
       if z \<noteq> 0 then Some None
       else do {
         pr \<leftarrow> d_prev (groups w d);
         Some (Some (e, upd_dp pr (\<lambda>x. x\<lparr>d_pri := v\<rparr>) w)) } }
     else flag_step detects (\<lambda>v. upd_dp d (\<lambda>x. x\<lparr>d_detect := d_detect x OR v\<rparr>)) arg p w }"

definition is_limited :: "desync_params \<Rightarrow> bool" where
  "is_limited x \<longleftrightarrow> d_hosts x \<noteq> None \<or> d_proto x \<noteq> 0 \<or> fst (d_pf x) \<noteq> 0 \<or> d_detect x \<noteq> 0 \<or> d_ipset x \<noteq> None"

definition opt_auto :: "mem \<Rightarrow> args \<Rightarrow> proc \<Rightarrow> opt_result" where
  "opt_auto arg g w =
     (if g_optind g < g_curr_optind g then go_on (g\<lparr>g_optind := g_curr_optind g\<rparr>) w
      else do {
        let g = (if is_limited (groups w (g_dp g)) then g else g\<lparr>g_all_limited := False\<rparr>);
        (d, w) \<leftarrow> add_group (Some (g_dp g)) w;
        (case d of
           None \<Rightarrow> stop_with (- 1) w
         | Some d \<Rightarrow> do {
             (ok, w) \<leftarrow> letters (auto_step d arg) arg 0 w;
             let w = (if d_detect (groups w d) \<noteq> 0 then set_params (\<lambda>p. p\<lparr>p_auto_reconnect := True\<rparr>) w else w);
             let w = upd_dp d (\<lambda>x. x\<lparr>d_optind := g_optind g\<rparr>) w;
             let g = g\<lparr>g_dp := d\<rparr>;
             if ok then go_on g w else bad_value g w }) })"

partial_function (option) find_group :: "nat option \<Rightarrow> int \<Rightarrow> proc \<Rightarrow> nat option option" where
  [code]: "find_group dp i w =
     (case dp of
        None \<Rightarrow> Some None
      | Some d \<Rightarrow> if int (d_id (groups w d)) = i then Some (Some d) else find_group (d_next (groups w d)) i w)"

definition opt_copy :: "mem \<Rightarrow> args \<Rightarrow> proc \<Rightarrow> opt_result" where
  "opt_copy arg g w =
     (if g_optind g < g_curr_optind g then go_on g w
      else do {
        c \<leftarrow> ld arg 0;
        if c = chr ''i'' then go_on g (upd_dp (g_dp g) (\<lambda>x. x\<lparr>d_pf := (htons 1, snd (d_pf x))\<rparr>) w)
        else do {
          (v, _) \<leftarrow> strtol0 arg 0;
          r \<leftarrow> find_group (p_dp (params w)) (v - 1) w;
          (case r of
             None \<Rightarrow> bad_value g w
           | Some d \<Rightarrow> go_on (g\<lparr>g_curr_optind := g_optind g, g_optind := d_optind (groups w d)\<rparr>) w) } })"

text \<open>-T: up to four numbers with colons between them.\<close>

definition opt_timeout :: "mem \<Rightarrow> args \<Rightarrow> proc \<Rightarrow> opt_result" where
  "opt_timeout arg g w = do {
     let (_, ms, e) = strtof (libc w) arg 0;
     let w = set_params (\<lambda>p. p\<lparr>p_timeout := ms\<rparr>) w;
     c \<leftarrow> ld arg e;
     let (w, e) = (if c = 58 then (let (_, ms, e) = strtof (libc w) arg (e + 1) in
                     (set_params (\<lambda>p. p\<lparr>p_ptimeout := ms\<rparr>) w, e)) else (w, e));
     c \<leftarrow> ld arg e;
     let (w, e) = (if c = 58 then (let (v, _, e) = strtof (libc w) arg (e + 1) in
                     (set_params (\<lambda>p. p\<lparr>p_to_count_lim := v\<rparr>) w, e)) else (w, e));
     c \<leftarrow> ld arg e;
     let (w, e) = (if c = 58 then (let (v, _, e) = strtof (libc w) arg (e + 1) in
                     (set_params (\<lambda>p. p\<lparr>p_to_bytes_lim := v\<rparr>) w, e)) else (w, e));
     c \<leftarrow> ld arg e;
     if c \<noteq> 0 then bad_value g w else go_on g w }"

definition protos :: "(string \<times> nat) list" where
  "protos = [(''t'', IS_TCP OR IS_HTTPS), (''h'', IS_TCP OR IS_HTTP), (''u'', IS_UDP), (''i'', IS_IPV4)]"

definition opt_limits :: "byte \<Rightarrow> mem \<Rightarrow> args \<Rightarrow> proc \<Rightarrow> opt_result" where
  "opt_limits c arg g w =
     (let d = g_dp g in
      if c = chr ''#'' then go_on g (upd_dp d (\<lambda>x. x\<lparr>d_str := arg\<rparr>) w)
      else if c = chr ''u'' then number_opt arg 1 (2 ^ 63 - 1) (\<lambda>v. upd_dp d (\<lambda>x. x\<lparr>d_cache_ttl := v\<rparr>)) g w
      else if c = chr ''/'' then number_opt arg 0 32 (\<lambda>v. set_params (\<lambda>p. p\<lparr>p_cache_pre := 32 - v\<rparr>)) g w
      else if c = chr ''T'' then opt_timeout arg g w
      else letters_opt (flag_step protos (\<lambda>v. upd_dp d (\<lambda>x. x\<lparr>d_proto := d_proto x OR v\<rparr>)) arg) arg g w)"

definition opt_hosts :: "mem \<Rightarrow> args \<Rightarrow> proc \<Rightarrow> opt_result" where
  "opt_hosts arg g w = do {
     let d = g_dp g;
     let (m, w) = (if d_hosts (groups w d) = None then alloc 24 w else (Some 0, w));
     if m = None then stop_with (- 1) w
     else do {
       let pool = (case d_hosts (groups w d) of None \<Rightarrow> mem_pool True False CMP_HOST | Some h \<Rightarrow> h);
       let w = upd_dp d (\<lambda>x. x\<lparr>d_hosts := Some pool\<rparr>) w;
       (dat, w) \<leftarrow> ftob arg w;
       (case dat of
          None \<Rightarrow> bad_value g w
        | Some bs \<Rightarrow> do {
            let (slot, w) = alloc 8 w;
            (case slot of
               None \<Rightarrow> stop_with (- 1) w
             | Some a \<Rightarrow> do {
                 let w = set_params (\<lambda>p. p\<lparr>p_need_free := p_need_free p @ [a]\<rparr>) w;
                 (ok, pool, _, w) \<leftarrow> parse_hosts pool bs (length bs) w;
                 let w = upd_dp d (\<lambda>x. x\<lparr>d_hosts := Some pool\<rparr>) w;
                 if ok then go_on g w else stop_with (- 1) w }) }) } }"

text \<open>The array \<open>ip\<close> of \<open>parse_ipset\<close> is not initialized: \<open>junk\<close> is what the stack holds.\<close>

definition opt_ipset :: "mem \<Rightarrow> mem \<Rightarrow> args \<Rightarrow> proc \<Rightarrow> opt_result" where
  "opt_ipset junk arg g w = do {
     (dat, w) \<leftarrow> ftob arg w;
     (case dat of
        None \<Rightarrow> bad_value g w
      | Some bs \<Rightarrow> do {
          let d = g_dp g;
          let (m, w) = (if d_ipset (groups w d) = None then alloc 24 w else (Some 0, w));
          if m = None then stop_with (- 1) w
          else do {
            let pool = (case d_ipset (groups w d) of None \<Rightarrow> mem_pool False False CMP_BITS | Some h \<Rightarrow> h);
            (ok, pool, w) \<leftarrow> parse_ipset pool bs (length bs) junk w;
            let w = upd_dp d (\<lambda>x. x\<lparr>d_ipset := Some pool\<rparr>) w;
            if ok then go_on g w else bad_value g w } }) }"

section \<open>Desync options\<close>

definition part_mode :: "byte \<Rightarrow> demode" where
  "part_mode c =
     (if c = chr ''s'' then DESYNC_SPLIT else if c = chr ''d'' then DESYNC_DISORDER
      else if c = chr ''o'' then DESYNC_OOB else if c = chr ''q'' then DESYNC_DISOOB else DESYNC_FAKE)"

text \<open>The new part is zeroed when its position is parsed; its mode is set afterwards.\<close>

definition opt_part :: "byte \<Rightarrow> mem \<Rightarrow> args \<Rightarrow> proc \<Rightarrow> opt_result" where
  "opt_part c arg g w = do {
     let (m, w) = alloc 40 w;
     if m = None then stop_with (- 1) w
     else do {
       r \<leftarrow> parse_offset no_part arg;
       (case r of
          None \<Rightarrow> bad_value g (upd_dp (g_dp g) (\<lambda>x. x\<lparr>d_parts := d_parts x @ [no_part]\<rparr>) w)
        | Some part \<Rightarrow> go_on g (upd_dp (g_dp g) (\<lambda>x. x\<lparr>d_parts := d_parts x @ [part\<lparr>pt_m := part_mode c\<rparr>]\<rparr>) w)) } }"

definition opt_tlsrec :: "mem \<Rightarrow> args \<Rightarrow> proc \<Rightarrow> opt_result" where
  "opt_tlsrec arg g w = do {
     let (m, w) = alloc 40 w;
     if m = None then stop_with (- 1) w
     else do {
       r \<leftarrow> parse_offset no_part arg;
       let part = (case r of None \<Rightarrow> no_part | Some p \<Rightarrow> p);
       let w = upd_dp (g_dp g) (\<lambda>x. x\<lparr>d_tlsrec := d_tlsrec x @ [part]\<rparr>) w;
       if r = None \<or> pt_pos part > 0xffff then bad_value g w else go_on g w } }"

text \<open>A letter of -Q; \<open>m=<size>\<close> takes a number.\<close>

definition fake_mod_step :: "nat \<Rightarrow> mem \<Rightarrow> letter_step" where
  "fake_mod_step d arg p w = do {
     c \<leftarrow> ld arg p;
     if c = chr ''m'' then do {
       q \<leftarrow> strchr arg p 61;
       (case q of
          None \<Rightarrow> Some None
        | Some q \<Rightarrow> do {
            (v, e) \<leftarrow> strtol0 arg (q + 1);
            z \<leftarrow> ld arg e;
            Some (if v > 0x7fffffff \<or> (z \<noteq> 0 \<and> z \<noteq> 44) then None
                  else Some (e, upd_dp d (\<lambda>x. x\<lparr>d_fake_tls_size := to_int v\<rparr>) w)) }) }
     else flag_step [(''r'', FM_RAND), (''o'', FM_ORIG)] (\<lambda>v. upd_dp d (\<lambda>x. x\<lparr>d_fake_mod := d_fake_mod x OR v\<rparr>)) arg p w }"

definition opt_fake :: "byte \<Rightarrow> mem \<Rightarrow> args \<Rightarrow> proc \<Rightarrow> opt_result" where
  "opt_fake c arg g w =
     (let d = g_dp g in
      if c = chr ''t'' then number_opt arg 1 255 (\<lambda>v. upd_dp d (\<lambda>x. x\<lparr>d_ttl := v\<rparr>)) g w
      else if c = chr ''S'' then go_on g (upd_dp d (\<lambda>x. x\<lparr>d_md5sig := True\<rparr>) w)
      else if c = chr ''O'' then do {
        r \<leftarrow> parse_offset (d_fake_offset (groups w d)) arg;
        (case r of
           None \<Rightarrow> bad_value g w
         | Some part \<Rightarrow> go_on g (upd_dp d (\<lambda>x. x\<lparr>d_fake_offset := part\<lparr>pt_m := DESYNC_SPLIT\<rparr>\<rparr>) w)) }
      else if c = chr ''Q'' then letters_opt (fake_mod_step d arg) arg g w
      else if c = chr ''n'' then do {
        let (m, w) = alloc 8 w;
        s \<leftarrow> c_string arg 0;
        if m = None then bad_value g w
        else go_on g (upd_dp d (\<lambda>x. x\<lparr>d_fake_sni_list := d_fake_sni_list x @ [s]\<rparr>) w) }
      else if c = chr ''l'' then
        (if pk_data (d_fake_data (groups w d)) \<noteq> None then go_on g w
         else do {
           (dat, w) \<leftarrow> ftob arg w;
           (case dat of
              None \<Rightarrow> bad_value g w
            | Some bs \<Rightarrow> go_on g (upd_dp d (\<lambda>x. x\<lparr>d_fake_data := (d_fake_data x)
                \<lparr>pk_data := Some bs, pk_size := int (length bs)\<rparr>\<rparr>) w)) })
      else do {
        len \<leftarrow> strlen arg 0;
        out \<leftarrow> parse_cform 1 arg len;
        (case out of
           [b] \<Rightarrow> go_on g (upd_dp d (\<lambda>x. x\<lparr>d_oob_char := (b, 1)\<rparr>) w)
         | _ \<Rightarrow> bad_value g w) })"

definition http_mods :: "(string \<times> nat) list" where
  "http_mods = [(''r'', MH_SPACE), (''h'', MH_HMIX), (''d'', MH_DMIX)]"

definition opt_tamper :: "byte \<Rightarrow> mem \<Rightarrow> args \<Rightarrow> proc \<Rightarrow> opt_result" where
  "opt_tamper c arg g w =
     (let d = g_dp g in
      if c = chr ''M'' then
        letters_opt (flag_step http_mods (\<lambda>v. upd_dp d (\<lambda>x. x\<lparr>d_mod_http := d_mod_http x OR v\<rparr>)) arg) arg g w
      else if c = chr ''r'' then opt_tlsrec arg g w
      else if c = chr ''m'' then
        number_opt arg 1 255 (\<lambda>v. upd_dp d (\<lambda>x. x\<lparr>d_tlsminor := word_of_int v, d_tlsminor_set := True\<rparr>)) g w
      else if c = chr ''a'' then
        number_opt arg 0 0x7fffffff (\<lambda>v. upd_dp d (\<lambda>x. x\<lparr>d_udp_fake_count := v\<rparr>)) g w
      else go_on g (set_params (\<lambda>p. p\<lparr>p_block_quic := True\<rparr>) w))"

section \<open>Ranges and the rest\<close>

text \<open>
  \<open>num[-num]\<close> up to a maximum: the first number is stored as soon as it is valid
  (\<open>Inl\<close> when the rest is invalid), the second only with a valid rest.
\<close>

definition parse_range :: "mem \<Rightarrow> int \<Rightarrow> (int option \<times> int option) option" where
  "parse_range arg hi = do {
     (v, e) \<leftarrow> strtol0 arg 0;
     if v \<le> 0 \<or> v > hi then Some (None, None)
     else do {
       c \<leftarrow> ld arg e;
       (v2, e) \<leftarrow> (if c = 45 then strtol0 arg (e + 1) else Some (v, e));
       z \<leftarrow> ld arg e;
       Some (Some v, if z \<noteq> 0 then None else Some v2) } }"

text \<open>Whether \<open>invalid\<close> is set for a second number out of range, although it is stored.\<close>

definition range_ok :: "int \<Rightarrow> int option \<times> int option \<Rightarrow> bool" where
  "range_ok hi r = (case r of (Some a, Some b) \<Rightarrow> 0 < b \<and> b \<le> hi | _ \<Rightarrow> False)"

definition opt_ranges :: "byte \<Rightarrow> mem \<Rightarrow> args \<Rightarrow> proc \<Rightarrow> opt_result" where
  "opt_ranges c arg g w =
     (let d = g_dp g; u16n = (\<lambda>v. htons (nat (v mod 65536))) in
      if c = chr ''V'' then do {
        r \<leftarrow> parse_range arg 0xffff;
        let w = (case fst r of None \<Rightarrow> w | Some v \<Rightarrow> upd_dp d (\<lambda>x. x\<lparr>d_pf := (u16n v, snd (d_pf x))\<rparr>) w);
        let w = (case snd r of None \<Rightarrow> w | Some v \<Rightarrow> upd_dp d (\<lambda>x. x\<lparr>d_pf := (fst (d_pf x), u16n v)\<rparr>) w);
        if range_ok 0xffff r then go_on g w else bad_value g w }
      else if c = chr ''R'' then do {
        r \<leftarrow> parse_range arg 0x7fffffff;
        let w = (case fst r of None \<Rightarrow> w | Some v \<Rightarrow> upd_dp d (\<lambda>x. x\<lparr>d_rounds := (v, snd (d_rounds x))\<rparr>) w);
        let w = (case snd r of None \<Rightarrow> w | Some v \<Rightarrow> upd_dp d (\<lambda>x. x\<lparr>d_rounds := (fst (d_rounds x), to_int v)\<rparr>) w);
        if range_ok 0x7fffffff r then go_on g w else bad_value g w }
      else number_opt arg 1 255 (\<lambda>v. set_params (\<lambda>p. p\<lparr>p_def_ttl := v, p_custom_ttl := True\<rparr>)) g w)"

definition opt_rest :: "byte \<Rightarrow> mem \<Rightarrow> args \<Rightarrow> proc \<Rightarrow> opt_result" where
  "opt_rest c arg g w =
     (let d = g_dp g in
      if c = chr ''Y'' then go_on g (upd_dp d (\<lambda>x. x\<lparr>d_drop_sack := True\<rparr>) w)
      else if c = chr ''Z'' then go_on g (set_params (\<lambda>p. p\<lparr>p_wait_send := True\<rparr>) w)
      else if c = chr ''W'' then do {
        (v, _) \<leftarrow> strtol10 arg 0;
        go_on g (set_params (\<lambda>p. p\<lparr>p_await_int := to_int v\<rparr>) w) }
      else if c = chr ''C'' then do {
        (r, a, w) \<leftarrow> get_addr_scheme arg (d_out_addr (groups w d)) w;
        let t = nat (r mod 65536);
        let w = upd_dp d (\<lambda>x. x\<lparr>d_out_type := (if t = 0 then MODE_SOCKS5 else t), d_out_addr := a\<rparr>) w;
        let w = set_params (\<lambda>p. p\<lparr>p_delay_conn := True\<rparr>) w;
        if t AND OUT_SUPPORT \<noteq> t \<or> sin_port a = 0 then bad_value g w else go_on g w }
      else if c = chr ''P'' then go_on g (set_params (\<lambda>p. p\<lparr>p_protect_path := Some arg\<rparr>) w)
      else if c = 0 then go_on g w
      else stop_with (- 1) w)"

section \<open>The loop\<close>

definition one_of :: "byte \<Rightarrow> string \<Rightarrow> bool" where
  "one_of c s \<longleftrightarrow> c \<in> set (bytes_of s)"

definition parse_option :: "mem \<Rightarrow> byte \<Rightarrow> mem \<Rightarrow> args \<Rightarrow> proc \<Rightarrow> opt_result" where
  "parse_option junk c arg g w =
     (let d = g_dp g in
      if one_of c ''NXUEDwhvipIbcx'' then opt_network c arg g w
      else if c = chr ''y'' then opt_cache_file arg g w
      else if c = chr ''F'' then go_on g (set_params (\<lambda>p. p\<lparr>p_tfo := True\<rparr>) w)
      else if c = chr ''L'' then
        letters_opt (flag_step auto_modes (\<lambda>v. upd_dp d (\<lambda>x. x\<lparr>d_auto_level := d_auto_level x OR v\<rparr>)) arg) arg g w
      else if c = chr ''A'' then opt_auto arg g w
      else if c = chr ''B'' then opt_copy arg g w
      else if one_of c ''#u/TK'' then opt_limits c arg g w
      else if c = chr ''H'' then opt_hosts arg g w
      else if c = chr ''j'' then opt_ipset junk arg g w
      else if one_of c ''sdoqf'' then opt_part c arg g w
      else if one_of c ''tSOQnle'' then opt_fake c arg g w
      else if one_of c ''MrmaJ'' then opt_tamper c arg g w
      else if one_of c ''VRg'' then opt_ranges c arg g w
      else opt_rest c arg g w)"

text \<open>
  \<open>while (!invalid && (rez = getopt_long(...)) != -1)\<close>: \<open>getopt_long\<close> moves
  \<open>optind\<close> on, -A and -B set it. \<open>Inl\<close> is a return from inside.
\<close>

partial_function (option) options_loop :: "mem \<Rightarrow> args \<Rightarrow> proc \<Rightarrow> opt_result" where
  [code]: "options_loop junk g w =
     (if g_invalid g then go_on g w
      else
        (let (c, arg, next) = getopt_long (libc w) (g_optind g) in
         case c of
           None \<Rightarrow> go_on (g\<lparr>g_optind := next\<rparr>) w
         | Some c \<Rightarrow> do {
             (r, w) \<leftarrow> parse_option junk c arg (g\<lparr>g_optind := next\<rparr>) w;
             (case r of Inl s \<Rightarrow> stop_with s w | Inr g \<Rightarrow> options_loop junk g w) }))"

definition ipv6_support :: "proc \<Rightarrow> bool \<times> proc" where
  "ipv6_support w =
     (let (fd, w) = call (Socket AF_INET6 SOCK_STREAM) w in if fd < 0 then (False, w) else (True, close_fd fd w))"

text \<open>The end of \<open>parse_args\<close>: a last group for the rest, and the defaults.\<close>

definition finish_args :: "args \<Rightarrow> proc \<Rightarrow> (int \<times> proc) option" where
  "finish_args g w =
     (if g_invalid g then Some (- 1, w)
      else do {
        (d, w) \<leftarrow> (if g_all_limited g then add_group (Some (g_dp g)) w else Some (Some (g_dp g), w));
        if d = None then Some (- 1, w)
        else do {
          let w = (if sa_family (p_baddr (params w)) \<noteq> AF_INET6 then set_params (\<lambda>p. p\<lparr>p_ipv6 := False\<rparr>) w else w);
          Some (0, if p_mode (params w) = 0 then set_params (\<lambda>p. p\<lparr>p_mode := MODE_SOCKS\<rparr>) w else w) } })"

definition parse_args :: "mem \<Rightarrow> int \<Rightarrow> proc \<Rightarrow> (int \<times> proc) option" where
  "parse_args junk optind w = do {
     let w = (if sin_port (p_laddr (params w)) = 0
              then set_params (\<lambda>p. p\<lparr>p_laddr := (p_laddr p)\<lparr>sin_port := htons 1080\<rparr>\<rparr>) w else w);
     let (v6, w) = ipv6_support w;
     let w = (if v6 then w else set_params (\<lambda>p. p\<lparr>p_baddr := (p_baddr p)\<lparr>sa_family := AF_INET\<rparr>\<rparr>) w);
     let (m, w) = alloc 24 w;
     if m = None then Some (- 1, w)
     else do {
       (d, w) \<leftarrow> add_group None (set_mempool (mem_pool False True CMP_BITS) w);
       (case d of
          None \<Rightarrow> Some (- 1, w)
        | Some d \<Rightarrow> do {
            let w = set_params (\<lambda>p. p\<lparr>p_dp := Some d\<rparr>) w;
            (r, w) \<leftarrow> options_loop junk
              \<lparr>g_dp = d, g_invalid = False, g_all_limited = True, g_curr_optind = 1, g_optind = optind\<rparr> w;
            (case r of Inl s \<Rightarrow> Some (s, w) | Inr g \<Rightarrow> finish_args g w) }) } }"

section \<open>Start\<close>

definition get_default_ttl :: "proc \<Rightarrow> int \<times> proc" where
  "get_default_ttl w =
     (let (fd, w) = call (Socket AF_INET SOCK_STREAM) w in
      if fd < 0 then (- 1, w)
      else
        (let (a, w) = sys (Getsockopt fd IP_TTL) w in
         (if a_ret a < 0 then - 1 else int (opt_value a), close_fd fd w)))"

definition init_pid_file :: "mem \<Rightarrow> proc \<Rightarrow> int \<times> proc" where
  "init_pid_file name w =
     (let (fd, w) = call (Open name) w in
      if fd < 0 then (- 1, w)
      else
        (let (r, w) = call (Lock fd) w in
         if r < 0 then (- 1, close_fd fd w)
         else
           (let (pid, w) = call Getpid w; (r, w) = call (Write fd (show_int pid)) w in
            if r < 0 then (- 1, close_fd fd w) else (fd, w))))"

definition start_process :: "proc \<Rightarrow> int \<times> proc" where
  "start_process w =
     (let w = snd (call Time w);
          (r, w) = (if p_daemonize (params w) then call Daemon w else (0, w)) in
      if r < 0 then (- 1, w)
      else
        (case p_pid_file (params w) of
           None \<Rightarrow> (0, w)
         | Some f \<Rightarrow>
             (let (fd, w) = init_pid_file f w; w = set_params (\<lambda>p. p\<lparr>p_pid_fd := fd\<rparr>) w in
              (if fd < 0 then - 1 else 0, w))))"

definition init :: "proc \<Rightarrow> int \<times> proc" where
  "init w =
     (if p_def_ttl (params w) \<noteq> 0 then start_process w
      else
        (let (t, w) = get_default_ttl w; w = set_params (\<lambda>p. p\<lparr>p_def_ttl := t\<rparr>) w in
         if t < 1 then (- 1, w) else start_process w))"

partial_function (option) dump_groups :: "nat option \<Rightarrow> proc \<Rightarrow> proc option" where
  [code]: "dump_groups dp w =
     (case dp of
        None \<Rightarrow> Some w
      | Some d \<Rightarrow>
          (case d_cache_file (groups w d) of
             None \<Rightarrow> dump_groups (d_next (groups w d)) w
           | Some f \<Rightarrow> do {
               let (fd, w) = (if f = [45, 0] then (1, w) else call (Open f) w);
               if fd < 0 then Some w
               else do {
                 pool \<leftarrow> p_mempool (params w);
                 text \<leftarrow> dump_cache pool d w;
                 dump_groups (d_next (groups w d)) (snd (call (Write_file f text) w)) } }))"

definition dump_all_cache :: "proc \<Rightarrow> proc option" where
  "dump_all_cache w = dump_groups (p_dp (params w)) w"

text \<open>The handler that \<open>run\<close> of proxy.c installs for SIGHUP; when it runs is up to the kernel.\<close>

definition on_hup :: "proc \<Rightarrow> proc option" where
  "on_hup w = dump_all_cache w"

text \<open>
  \<open>byedpi_main\<close> after the environment was looked at: parse, initialize, run, and in every
  case clear the parameters.
\<close>

definition run_main :: "mem \<Rightarrow> int \<Rightarrow> proc \<Rightarrow> (int \<times> proc) option" where
  "run_main junk optind w = do {
     (status, w) \<leftarrow> parse_args junk optind w;
     if status \<noteq> 0 then do { w \<leftarrow> clear_params w; Some (status - 1, w) }
     else do {
       let (r, w) = init w;
       (r, w) \<leftarrow> (if r < 0 then Some (r, w) else run (p_laddr (params w)) w);
       w \<leftarrow> dump_all_cache w;
       w \<leftarrow> clear_params w;
       if r < 0 then Some (- 1, w) else Some (0, w\<lparr>server_fd := - 1\<rparr>) } }"

text \<open>The port and the mode a Shadowsocks client gives in the environment.\<close>

definition plugin_env :: "proc \<Rightarrow> proc option" where
  "plugin_env w =
     (let (a, w) = sys (Getenv (bytes_of ''SS_LOCAL_PORT'')) w in
      if a_ret a = 0 then Some w
      else do {
        (v, e) \<leftarrow> strtol10 (a_data a) 0;
        z \<leftarrow> ld (a_data a) e;
        let w = (if z = 0 then set_params (\<lambda>p. p\<lparr>p_laddr := (p_laddr p)\<lparr>sin_port := htons (nat (v mod 65536))\<rparr>\<rparr>) w
                 else w);
        let (x, w) = call (Access (bytes_of ''protect_path'')) w;
        let w = (if x = 0 then set_params (\<lambda>p. p\<lparr>p_protect_path := Some (bytes_of ''protect_path'')\<rparr>) w else w);
        Some (set_params (\<lambda>p. p\<lparr>p_mode := p_mode p OR MODE_SHADOWSOCKS\<rparr>) w) })"

text \<open>
  The words of \<open>SS_PLUGIN_OPTIONS\<close>, at most 63 after the program's name: the last one
  keeps the rest of the line.
\<close>

function split_words :: "nat \<Rightarrow> mem \<Rightarrow> mem list" where
  "split_words k xs =
     (let ys = dropWhile (\<lambda>c. c = 32) xs in
      if ys = [] \<or> k = 0 then []
      else if k = 1 then [ys]
      else takeWhile (\<lambda>c. c \<noteq> 32) ys # split_words (k - 1) (dropWhile (\<lambda>c. c \<noteq> 32) ys))"
  by pat_completeness auto
termination
  by (relation "measure fst") auto

declare split_words.simps [simp del]

text \<open>
  \<open>byedpi_main\<close>. With options in the environment \<open>getopt_long\<close> is that of their words,
  which the parameter \<open>getopt_of\<close> gives.
\<close>

definition byedpi_main :: "(mem list \<Rightarrow> int \<Rightarrow> byte option \<times> mem \<times> int) \<Rightarrow> mem \<Rightarrow> int \<Rightarrow> proc \<Rightarrow> (int \<times> proc) option" where
  "byedpi_main getopt_of junk optind w = do {
     w \<leftarrow> plugin_env w;
     let (a, w) = sys (Getenv (bytes_of ''SS_PLUGIN_OPTIONS'')) w;
     let w = (if a_ret a = 0 then w
              else w\<lparr>libc := (libc w)\<lparr>getopt_long := getopt_of (split_words 63 (a_data a))\<rparr>\<rparr>);
     run_main junk optind w }"

end
