(* ===== verification/Options_Kept.thy ===== *)
theory Options_Kept
  imports Args
begin

text \<open>
  The options of main.c that leave the list of groups alone: all but -A. They set fields of the
  current group and of the parameters, allocate, read files and resolve addresses.
\<close>

section \<open>What leaves the list alone\<close>

text \<open>Links and bits of all groups, and what the parameters hold about them.\<close>

definition list_kept :: "proc \<Rightarrow> proc \<Rightarrow> bool" where
  "list_kept v w \<longleftrightarrow>
     (\<forall>d. d_next (groups w d) = d_next (groups v d) \<and> d_prev (groups w d) = d_prev (groups v d) \<and>
        d_bit (groups w d) = d_bit (groups v d)) \<and>
     p_dp (params w) = p_dp (params v) \<and> p_dp_n (params w) = p_dp_n (params v) \<and>
     p_dp_full_mask (params w) = p_dp_full_mask (params v) \<and> next_addr v \<le> next_addr w"

text \<open>What is kept up to one process is kept up to the other.\<close>

abbreviation kept_on :: "proc \<Rightarrow> proc \<Rightarrow> bool" where
  "kept_on w w' \<equiv> \<forall>v. list_kept v w \<longrightarrow> list_kept v w'"

named_theorems list_keeping \<open>operations that leave the list of groups alone\<close>

lemma list_kept_refl [simp]: "list_kept w w"
  by (simp add: list_kept_def)

lemma list_kept_params [simp]:
  "p_dp (f (params w)) = p_dp (params w) \<Longrightarrow> p_dp_n (f (params w)) = p_dp_n (params w) \<Longrightarrow>
   p_dp_full_mask (f (params w)) = p_dp_full_mask (params w) \<Longrightarrow>
   list_kept v (set_params f w) = list_kept v w"
  by (simp add: list_kept_def set_params_def)

lemma list_kept_dp [simp]:
  "d_next (f (groups w d)) = d_next (groups w d) \<Longrightarrow> d_prev (f (groups w d)) = d_prev (groups w d) \<Longrightarrow>
   d_bit (f (groups w d)) = d_bit (groups w d) \<Longrightarrow> list_kept v (upd_dp d f w) = list_kept v w"
  by (auto simp: list_kept_def upd_dp_def)

lemma list_kept_sys [simp]: "list_kept v (snd (sys c w)) = list_kept v w" "list_kept v (snd (call c w)) = list_kept v w"
  by (simp_all add: list_kept_def sys_def call_def Let_def)

lemma list_kept_more [simp]: "list_kept v (set_mempool h w) = list_kept v w" "list_kept v (upd_cache a g w) = list_kept v w"
  "list_kept v (w\<lparr>rand_pos := n\<rparr>) = list_kept v w"
  by (simp_all add: list_kept_def set_mempool_def upd_cache_def)

lemma sys_kept [list_keeping]: "sys c w = (a, w') \<Longrightarrow> kept_on w w'"
  using list_kept_sys(1) [of _ c w] by simp

lemma call_kept [list_keeping]: "call c w = (a, w') \<Longrightarrow> kept_on w w'"
  using list_kept_sys(2) [of _ c w] by simp

lemma alloc_kept [list_keeping]: "alloc n w = (a, w') \<Longrightarrow> kept_on w w'"
  by (auto simp: alloc_def list_kept_def call_def sys_def Let_def split: if_splits)

section \<open>Values\<close>

lemma if_E: "(if b then x else y) = z \<Longrightarrow> (x = z \<Longrightarrow> P) \<Longrightarrow> (y = z \<Longrightarrow> P) \<Longrightarrow> P"
  by (simp split: if_splits)

lemma bind_SomeE:
  assumes "x \<bind> f = Some y"
  obtains z where "x = Some z" "f z = Some y"
  using assms by (auto simp: bind_eq_Some_conv)

lemma data_from_str_kept [list_keeping]:
  "data_from_str m p w = Some (r, w') \<Longrightarrow> kept_on w w'"
  by (auto simp: data_from_str_def Let_def elim!: bind_SomeE dest!: list_keeping split: if_splits prod.splits)

lemma ftob_kept [list_keeping]: "ftob s w = Some (r, w') \<Longrightarrow> kept_on w w'"
  by (auto simp: ftob_def Let_def elim!: bind_SomeE dest!: list_keeping split: if_splits prod.splits)

lemma hosts_loop_kept:
  "hosts_loop hdr b n e s bad w = Some (ok, hdr', b', w') \<Longrightarrow> kept_on w w'"
proof (induction hdr b n e s bad w rule: hosts_loop.induct)
  case (1 hdr b n e s bad w)
  show ?case
    using 1(6)
    by (subst (asm) hosts_loop.simps)
      (use 1(1-5) in \<open>auto simp: Let_def dest!: alloc_kept split: if_splits option.splits prod.splits\<close>)
qed

lemma ipset_loop_kept:
  "ipset_loop hdr b n e s ip w = Some (ok, hdr', w') \<Longrightarrow> kept_on w w'"
proof (induction "Suc n - e" arbitrary: hdr e s ip w rule: less_induct)
  case less
  have step: "kept_on w w'" if "ipset_loop hdr b n (Suc e) s ip w = Some (ok, hdr', w')" "\<not> e > n" for hdr s ip w
    using less(1) [OF _ that(1)] that(2) by simp
  then have last: "kept_on w w'" if "ipset_loop hdr b n (Suc n) s ip w = Some (ok, hdr', w')" "e = n" for hdr s ip w
    using that by simp
  show ?case
    using less(2)
    by (subst (asm) ipset_loop.simps)
      (auto simp: Let_def dest!: alloc_kept dest: step last split: if_split_asm option.split_asm prod.split_asm)
qed

lemma parse_hosts_kept [list_keeping]:
  "parse_hosts hdr b n w = Some (ok, hdr', b', w') \<Longrightarrow> kept_on w w'"
  unfolding parse_hosts_def by (rule hosts_loop_kept)

lemma parse_ipset_kept [list_keeping]:
  "parse_ipset hdr b n ip w = Some (ok, hdr', w') \<Longrightarrow> kept_on w w'"
  unfolding parse_ipset_def by (rule ipset_loop_kept)

lemma get_addr_kept [list_keeping]: "get_addr s a w = Some (r, b, w') \<Longrightarrow> kept_on w w'"
  by (auto simp: get_addr_def Let_def elim!: bind_SomeE dest!: list_keeping split: if_splits prod.splits option.splits)

lemma get_addr_scheme_kept [list_keeping]:
  "get_addr_scheme s a w = Some (r, b, w') \<Longrightarrow> kept_on w w'"
  by (auto simp: get_addr_scheme_def Let_def elim!: bind_SomeE dest!: list_keeping)

lemma add_line_kept [list_keeping]: "add_line l d hdr w = Some (r, hdr', w') \<Longrightarrow> kept_on w w'"
  by (auto simp: add_line_def Let_def elim!: bind_SomeE dest!: list_keeping split: if_splits prod.splits option.splits)

lemma load_loop_kept:
  "load_loop xs d hdr w = Some (hdr', w') \<Longrightarrow> kept_on w w'"
proof (induction xs d hdr w rule: load_loop.induct)
  case (1 xs d hdr w)
  show ?case
    using 1(2)
    by (subst (asm) load_loop.simps)
      (use 1(1) in \<open>fastforce dest!: add_line_kept split: option.splits prod.splits if_splits\<close>)
qed

lemma load_cache_kept [list_keeping]:
  "load_cache hdr xs d w = Some (hdr', w') \<Longrightarrow> kept_on w w'"
  unfolding load_cache_def by (rule load_loop_kept)

section \<open>Options\<close>

text \<open>A step of a letter list, and an option, that leave the list alone.\<close>

definition step_keeps :: "letter_step \<Rightarrow> bool" where
  "step_keeps step \<longleftrightarrow> (\<forall>v p w q w'. step p w = Some (Some (q, w')) \<longrightarrow> list_kept v w \<longrightarrow> list_kept v w')"

lemma letters_kept:
  assumes "letters step arg p w = Some (ok, w')" and "step_keeps step"
  shows "kept_on w w'"
proof -
  have "step_keeps step \<longrightarrow> kept_on w (snd (ok, w'))"
    using assms(1)
    by (rule letters.raw_induct [rotated])
      (auto simp: step_keeps_def elim!: bind_SomeE split: option.split_asm)
  then show ?thesis using assms(2) by simp
qed

lemma letters_opt_kept [list_keeping]:
  "letters_opt step arg g w = Some (r, w') \<Longrightarrow> step_keeps step \<Longrightarrow> kept_on w w'"
  by (auto simp: letters_opt_def Let_def elim!: bind_SomeE dest: letters_kept split: if_splits)

lemma flag_step_keeps:
  "(\<And>v x w. list_kept v (f x w) = list_kept v w) \<Longrightarrow> step_keeps (flag_step tab f arg)"
  by (auto simp: step_keeps_def flag_step_def elim!: bind_SomeE split: option.splits)

lemma number_opt_kept [list_keeping]:
  "number_opt arg lo hi f g w = Some (r, w') \<Longrightarrow> (\<And>v x w. list_kept v (f x w) = list_kept v w) \<Longrightarrow>
   kept_on w w'"
  by (auto simp: number_opt_def elim!: bind_SomeE split: if_splits)


lemma number_opt_same:
  "number_opt arg lo hi f g w = Some (r, w') \<Longrightarrow> list_kept v w \<Longrightarrow> (\<And>x. list_kept v (f x w) = list_kept v w) \<Longrightarrow> list_kept v w'"
  by (auto simp: number_opt_def elim!: bind_SomeE split: if_splits)

lemma flags_same:
  "letters_opt (flag_step tab f arg) arg g w = Some (r, w') \<Longrightarrow> list_kept v w \<Longrightarrow>
   (\<And>v x w. list_kept v (f x w) = list_kept v w) \<Longrightarrow> list_kept v w'"
  using letters_opt_kept [OF _ flag_step_keeps] by blast

lemma opt_network_kept: "opt_network c arg g w = Some (r, w') \<Longrightarrow> kept_on w w'"
  unfolding opt_network_def
  by (fastforce simp: Let_def elim!: bind_SomeE dest!: get_addr_kept get_addr_scheme_kept intro: number_opt_same split: if_split_asm prod.split_asm)

lemma opt_cache_file_kept [list_keeping]: "opt_cache_file arg g w = Some (r, w') \<Longrightarrow> kept_on w w'"
  by (auto simp: opt_cache_file_def Let_def elim!: bind_SomeE dest!: list_keeping split: if_split_asm prod.split_asm)

lemma opt_copy_kept: "opt_copy arg g w = Some (r, w') \<Longrightarrow> kept_on w w'"
  by (auto simp: opt_copy_def elim!: bind_SomeE split: if_split_asm option.split_asm)

lemma opt_timeout_kept [list_keeping]: "opt_timeout arg g w = Some (r, w') \<Longrightarrow> kept_on w w'"
  by (auto simp: opt_timeout_def Let_def elim!: bind_SomeE split: if_split_asm prod.split_asm)

lemma opt_limits_kept: "opt_limits c arg g w = Some (r, w') \<Longrightarrow> kept_on w w'"
  unfolding opt_limits_def Let_def
  by (fastforce dest!: opt_timeout_kept intro: number_opt_same flags_same split: if_split_asm)

lemma opt_hosts_kept: "opt_hosts arg g w = Some (r, w') \<Longrightarrow> kept_on w w'"
  by (auto simp: opt_hosts_def Let_def elim!: bind_SomeE dest!: list_keeping
      split: if_split_asm prod.split_asm option.split_asm)

lemma opt_ipset_kept: "opt_ipset junk arg g w = Some (r, w') \<Longrightarrow> kept_on w w'"
  by (auto simp: opt_ipset_def Let_def elim!: bind_SomeE dest!: list_keeping
      split: if_split_asm prod.split_asm option.split_asm)

lemma opt_part_kept: "opt_part c arg g w = Some (r, w') \<Longrightarrow> kept_on w w'"
  by (auto simp: opt_part_def Let_def elim!: bind_SomeE dest!: list_keeping
      split: if_split_asm prod.split_asm option.split_asm)

lemma opt_tlsrec_kept: "opt_tlsrec arg g w = Some (r, w') \<Longrightarrow> kept_on w w'"
  by (auto simp: opt_tlsrec_def Let_def elim!: bind_SomeE dest!: list_keeping
      split: if_split_asm prod.split_asm option.split_asm)

lemma opt_fake_kept: "opt_fake c arg g w = Some (r, w') \<Longrightarrow> kept_on w w'"
proof -
  have m: "step_keeps (fake_mod_step d arg)" for d
    by (auto simp: step_keeps_def fake_mod_step_def flag_step_def Let_def elim!: bind_SomeE
        split: if_split_asm option.split_asm)
  assume "opt_fake c arg g w = Some (r, w')"
  then show ?thesis
    unfolding opt_fake_def Let_def
    by (elim if_E)
      (auto elim!: bind_SomeE dest!: ftob_kept alloc_kept letters_opt_kept [OF _ m] intro: number_opt_same
        split: if_split_asm prod.split_asm option.split_asm list.split_asm)
qed

lemma opt_tamper_kept: "opt_tamper c arg g w = Some (r, w') \<Longrightarrow> kept_on w w'"
  unfolding opt_tamper_def Let_def
  by (fastforce dest!: opt_tlsrec_kept intro: number_opt_same flags_same split: if_split_asm)

lemma opt_ranges_kept: "opt_ranges c arg g w = Some (r, w') \<Longrightarrow> kept_on w w'"
  unfolding opt_ranges_def Let_def
  by (fastforce elim!: bind_SomeE intro: number_opt_same split: if_split_asm option.split_asm)

lemma opt_rest_kept: "opt_rest c arg g w = Some (r, w') \<Longrightarrow> kept_on w w'"
  unfolding opt_rest_def Let_def
  by (fastforce elim!: bind_SomeE dest!: get_addr_scheme_kept split: if_split_asm prod.split_asm)

section \<open>Where an option goes on\<close>

text \<open>An option other than -A ends with a failure, or goes on with the same group.\<close>

definition stays :: "args \<Rightarrow> int + args \<Rightarrow> bool" where
  "stays g r \<longleftrightarrow> (case r of Inl s \<Rightarrow> s \<noteq> 0 | Inr g' \<Rightarrow> g_dp g' = g_dp g)"

lemma stays_simps [simp]: "stays g (Inl s) \<longleftrightarrow> s \<noteq> 0" "stays g (Inr g') \<longleftrightarrow> g_dp g' = g_dp g"
  by (simp_all add: stays_def)

named_theorems staying \<open>options that go on with the same group\<close>

lemma number_opt_stays [staying]: "number_opt arg lo hi f g w = Some (r, w') \<Longrightarrow> stays g r"
  by (auto simp: number_opt_def elim!: bind_SomeE split: if_split_asm)

lemma letters_opt_stays [staying]: "letters_opt step arg g w = Some (r, w') \<Longrightarrow> stays g r"
  by (auto simp: letters_opt_def elim!: bind_SomeE split: if_split_asm)

lemma opt_network_stays [staying]: "opt_network c arg g w = Some (r, w') \<Longrightarrow> stays g r"
  unfolding opt_network_def
  by (elim if_E) (auto simp: Let_def elim!: bind_SomeE intro: staying split: if_split_asm prod.split_asm)

lemma opt_cache_file_stays [staying]: "opt_cache_file arg g w = Some (r, w') \<Longrightarrow> stays g r"
  by (auto simp: opt_cache_file_def Let_def elim!: bind_SomeE split: if_split_asm prod.split_asm)

lemma opt_copy_stays [staying]: "opt_copy arg g w = Some (r, w') \<Longrightarrow> stays g r"
  by (auto simp: opt_copy_def elim!: bind_SomeE split: if_split_asm option.split_asm)

lemma opt_timeout_stays [staying]: "opt_timeout arg g w = Some (r, w') \<Longrightarrow> stays g r"
  by (auto simp: opt_timeout_def Let_def elim!: bind_SomeE split: if_split_asm prod.split_asm)

lemma opt_limits_stays [staying]: "opt_limits c arg g w = Some (r, w') \<Longrightarrow> stays g r"
  unfolding opt_limits_def Let_def by (elim if_E) (auto intro: staying)

lemma opt_hosts_stays [staying]: "opt_hosts arg g w = Some (r, w') \<Longrightarrow> stays g r"
  by (auto simp: opt_hosts_def Let_def elim!: bind_SomeE split: if_split_asm prod.split_asm option.split_asm)

lemma opt_ipset_stays [staying]: "opt_ipset junk arg g w = Some (r, w') \<Longrightarrow> stays g r"
  by (auto simp: opt_ipset_def Let_def elim!: bind_SomeE split: if_split_asm prod.split_asm option.split_asm)

lemma opt_part_stays [staying]: "opt_part c arg g w = Some (r, w') \<Longrightarrow> stays g r"
  by (auto simp: opt_part_def Let_def elim!: bind_SomeE split: if_split_asm prod.split_asm option.split_asm)

lemma opt_tlsrec_stays [staying]: "opt_tlsrec arg g w = Some (r, w') \<Longrightarrow> stays g r"
  by (auto simp: opt_tlsrec_def Let_def elim!: bind_SomeE split: if_split_asm prod.split_asm option.split_asm)

lemma opt_fake_stays [staying]: "opt_fake c arg g w = Some (r, w') \<Longrightarrow> stays g r"
  unfolding opt_fake_def Let_def
  by (elim if_E) (auto elim!: bind_SomeE intro: staying
      split: if_split_asm prod.split_asm option.split_asm list.split_asm)

lemma opt_tamper_stays [staying]: "opt_tamper c arg g w = Some (r, w') \<Longrightarrow> stays g r"
  unfolding opt_tamper_def Let_def by (elim if_E) (auto intro: staying)

lemma opt_ranges_stays [staying]: "opt_ranges c arg g w = Some (r, w') \<Longrightarrow> stays g r"
  unfolding opt_ranges_def Let_def
  by (elim if_E) (auto elim!: bind_SomeE intro: staying split: if_split_asm)

lemma opt_rest_stays [staying]: "opt_rest c arg g w = Some (r, w') \<Longrightarrow> stays g r"
  unfolding opt_rest_def Let_def
  by (elim if_E) (auto elim!: bind_SomeE split: if_split_asm prod.split_asm)

section \<open>All options but one\<close>

lemma parse_option_cases:
  assumes "parse_option junk c arg g w = Some (r, w')"
  shows "opt_auto arg g w = Some (r, w') \<or> kept_on w w' \<and> stays g r"
  using assms unfolding parse_option_def Let_def
  by (elim if_E)
    ((rule disjI1, assumption)
      | (rule disjI2, rule conjI, rule opt_network_kept opt_cache_file_kept opt_copy_kept opt_limits_kept opt_hosts_kept
          opt_ipset_kept opt_part_kept opt_fake_kept opt_tamper_kept opt_ranges_kept opt_rest_kept, assumption,
          rule staying, assumption)
      | fastforce intro: flags_same staying)+

end
