(* ===== verification/Groups_Props.thy ===== *)
theory Groups_Props
  imports Extend Linked Samples Packets_Tls_Props Packets_Http_Props
begin

text \<open>
  The list of option groups: \<open>find_dp\<close> of extend.c takes the first group that fits, and
  \<open>swop_groups\<close>, which \<open>on_trigger\<close> uses to sort the groups, keeps the list.
\<close>

section \<open>Masks\<close>

text \<open>The bits of several groups together.\<close>

definition bits :: "proc \<Rightarrow> nat list \<Rightarrow> 64 word" where
  "bits w ds = fold (\<lambda>d a. a OR d_bit (groups w d)) ds 0"

lemma fold_or: "fold (\<lambda>d a. a OR f d) ds (x :: 64 word) = x OR fold (\<lambda>d a. a OR f d) ds 0"
proof (induction ds arbitrary: x)
  case (Cons d ds)
  show ?case using Cons [of "x OR f d"] Cons [of "f d"] by (simp add: or.assoc)
qed simp

lemma bits_simps [simp]: "bits w [] = 0" "bits w (d # ds) = d_bit (groups w d) OR bits w ds"
  "bits w (xs @ ys) = bits w xs OR bits w ys"
  using fold_or [of "\<lambda>d. d_bit (groups w d)" ds "d_bit (groups w d)"]
    fold_or [of "\<lambda>d. d_bit (groups w d)" ys "bits w xs"]
  by (simp_all add: bits_def)

lemma bits_upd_ev [simp]: "bits (upd_ev c f w) ds = bits w ds"
  by (simp add: bits_def upd_ev_def)

lemma sub_mask: "m OR x = m \<Longrightarrow> x AND m = (x :: 64 word)"
  by (metis or.commute word_ao_absorbs(1))

lemma in_bits: "d \<in> set ds \<Longrightarrow> d_bit (groups w d) AND bits w ds = d_bit (groups w d)"
proof (induction ds)
  case (Cons x xs)
  then show ?case
    by (cases "d = x") (auto simp: word_ao_absorbs and.commute bit.conj_disj_distrib word_ao_absorbs(1) or.commute)
qed simp


text \<open>
  The groups of the list: linked in both directions, each with bits of its own, the mask of all
  of them in the parameters.
\<close>

definition groups_ok :: "proc \<Rightarrow> nat list \<Rightarrow> bool" where
  "groups_ok w ds \<longleftrightarrow> distinct ds \<and> p_dp (params w) = first_of ds None \<and>
     linked (\<lambda>d. d_next (groups w d)) (\<lambda>d. d_prev (groups w d)) None ds None \<and>
     (\<forall>d\<in>set ds. d_bit (groups w d) \<noteq> 0) \<and>
     (\<forall>d\<in>set ds. \<forall>e\<in>set ds. d \<noteq> e \<longrightarrow> d_bit (groups w d) AND d_bit (groups w e) = 0) \<and>
     p_dp_full_mask (params w) = bits w ds"

section \<open>The filters\<close>

lemma dp_fits_tried:
  "d_bit (groups w d) AND e_dp_mask client \<noteq> 0 \<Longrightarrow> dp_fits d init client buff dst w = Some False"
  by (simp add: dp_fits_def Let_def)

lemma dp_fits_mask:
  assumes "d_bit (groups w d) AND x = 0"
  shows "dp_fits d init (client\<lparr>e_dp_mask := e_dp_mask client OR x\<rparr>) buff dst (upd_ev c f w) =
    dp_fits d init client buff dst w"
  using assms
  by (simp add: dp_fits_def Let_def check_l34_def check_ip_def check_host_def assert_c_def upd_ev_def bit.conj_disj_distrib
      cong: if_cong option.case_cong)

text \<open>With the bytes of the request in the buffer the filters have an answer.\<close>

lemma check_proto_answers: "n \<le> length b \<Longrightarrow> check_proto_tcp p b n \<noteq> None"
  by (auto simp: check_proto_tcp_def is_http_inside is_tls_chello_inside ex_bool_eq split: if_splits)

lemma check_host_answers:
  assumes "n \<le> length b"
  shows "check_host h b n w \<noteq> None"
proof -
  obtain tl hs where t: "parse_tls b n = Some (tl, hs)" "case hs of None \<Rightarrow> tl = 0 | Some p \<Rightarrow> 59 \<le> p \<and> p + tl \<le> n"
    using parse_tls_inside [OF assms] by blast
  obtain r where r: "parse_http b n False = Some r" "case hh_pos r of None \<Rightarrow> hh_len r = 0 | Some p \<Rightarrow> p \<le> n \<and> int p + hh_len r \<le> int n"
    using parse_http_inside [OF assms] by blast
  show ?thesis using t r
    by (auto simp: check_host_def assert_c_def split: option.splits)
qed

lemma dp_fits_answers:
  assumes "case buff of None \<Rightarrow> True | Some (b, n) \<Rightarrow> n \<le> length b"
  shows "dp_fits d init client buff dst w \<noteq> None"
proof (cases buff)
  case (Some bn)
  then obtain b n where b: "buff = Some (b, n)" "n \<le> length b" using assms by (cases bn) simp
  have "(if d_proto (groups w d) = 0 then Some True else check_proto_tcp (d_proto (groups w d)) b n) \<noteq> None"
    using check_proto_answers [OF b(2)] by (cases "d_proto (groups w d) = 0") simp_all
  then show ?thesis using check_host_answers [OF b(2), of "the (d_hosts (groups w d))" w]
    by (auto simp: dp_fits_def Let_def b(1) ex_bool_eq split: option.splits)
qed (simp add: dp_fits_def Let_def ex_bool_eq)


section \<open>The first group that fits\<close>

text \<open>The groups met from a pointer on: past the end of the list the search starts over.\<close>

fun path :: "proc \<Rightarrow> nat option \<Rightarrow> nat list \<Rightarrow> bool" where
  "path w dp [] \<longleftrightarrow> True"
| "path w dp (d # ds) \<longleftrightarrow> (if dp = None then p_dp (params w) else dp) = Some d \<and> path w (d_next (groups w d)) ds"

lemma path_upd_ev [simp]: "path (upd_ev c f w) dp ds \<longleftrightarrow> path w dp ds"
  by (induction ds arbitrary: dp) (simp_all add: upd_ev_def)

lemma path_linked:
  assumes "linked (\<lambda>d. d_next (groups w d)) pv p ds q" and "path w q es"
  shows "path w (first_of ds q) (ds @ es)"
  using assms by (induction ds arbitrary: p) auto

text \<open>Setting the mask of the groups tried.\<close>

definition add_mask :: "nat \<Rightarrow> 64 word \<Rightarrow> proc \<Rightarrow> proc" where
  "add_mask c x w = upd_ev c (\<lambda>e. e\<lparr>e_dp_mask := e_dp_mask e OR x\<rparr>) w"

lemma add_mask_simps [simp]:
  "items (add_mask c x w) c = (items w c)\<lparr>e_dp_mask := e_dp_mask (items w c) OR x\<rparr>"
  "groups (add_mask c x w) = groups w" "params (add_mask c x w) = params w" "bufs (add_mask c x w) = bufs w"
  "add_mask c y (add_mask c x w) = add_mask c (x OR y) w" "path (add_mask c x w) dp ds \<longleftrightarrow> path w dp ds"
  "bits (add_mask c x w) ds = bits w ds"
  by (simp_all add: add_mask_def) (simp_all add: upd_ev_def or.assoc)

lemma add_mask_0: "e_dp_mask (items w c) OR x = e_dp_mask (items w c) \<Longrightarrow> add_mask c x w = w"
  by (simp add: add_mask_def upd_ev_def)

definition fits :: "nat option \<Rightarrow> nat \<Rightarrow> (mem \<times> nat) option \<Rightarrow> sockaddr_u \<Rightarrow> proc \<Rightarrow> nat \<Rightarrow> bool" where
  "fits init c buff dst w d \<longleftrightarrow> dp_fits d init (items w c) buff dst w = Some True"

lemma fits_tried: "d_bit (groups w d) AND e_dp_mask (items w c) \<noteq> 0 \<Longrightarrow> \<not> fits init c buff dst w d"
  by (simp add: fits_def dp_fits_tried)

lemma fits_add_mask: "d_bit (groups w d) AND x = 0 \<Longrightarrow> fits init c buff dst (add_mask c x w) d = fits init c buff dst w d"
  unfolding fits_def add_mask_simps(1) unfolding add_mask_def by (simp only: dp_fits_mask)

lemma find_dp_loop_first:
  assumes "path w dp ds" and "distinct ds" and "e_dp_mask (items w c) OR bits w ds = p_dp_full_mask (params w)"
    and "\<forall>d\<in>set ds. d_bit (groups w d) \<noteq> 0"
    and "\<forall>d\<in>set ds. \<forall>e\<in>set ds. d \<noteq> e \<longrightarrow> d_bit (groups w d) AND d_bit (groups w e) = 0"
    and "case buff of None \<Rightarrow> True | Some (b, n) \<Rightarrow> n \<le> length b"
  shows "find_dp_loop c init dp buff dst w =
    Some (find (fits init c buff dst w) ds, add_mask c (bits w (takeWhile (\<lambda>d. \<not> fits init c buff dst w d) ds)) w)"
  using assms(1-5)
proof (induction ds arbitrary: dp w)
  case Nil
  then show ?case by (subst find_dp_loop.simps) (simp add: add_mask_0)
next
  case (Cons d ds)
  let ?m = "e_dp_mask (items w c)" and ?f = "fits init c buff dst w"
  show ?case
  proof (cases "?m = p_dp_full_mask (params w)")
    case True
    have "\<not> ?f x" if "x \<in> set (d # ds)" for x
    proof -
      have "d_bit (groups w x) AND bits w (d # ds) = d_bit (groups w x)" using that by (rule in_bits)
      moreover have "bits w (d # ds) AND ?m = bits w (d # ds)"
        by (rule sub_mask) (use Cons.prems(3) True in \<open>simp only:\<close>)
      ultimately have "d_bit (groups w x) AND ?m = d_bit (groups w x)" by (metis and.assoc)
      then show ?thesis using that Cons.prems(4) by (metis fits_tried)
    qed
    then have "find ?f (d # ds) = None" and t: "takeWhile (\<lambda>d. \<not> ?f d) (d # ds) = d # ds"
      unfolding find_None_iff takeWhile_eq_all_conv by blast+
    moreover have "find_dp_loop c init dp buff dst w = Some (None, w)"
      using True by (subst find_dp_loop.simps) simp
    moreover have "add_mask c (bits w (d # ds)) w = w"
      by (rule add_mask_0) (use Cons.prems(3) True in \<open>simp only:\<close>)
    ultimately show ?thesis by (simp only: t)
  next
    case False
    obtain ok where ok: "dp_fits d init (items w c) buff dst w = Some ok"
      using dp_fits_answers [OF assms(6)] by fastforce
    have step: "find_dp_loop c init dp buff dst w =
        (if ok then Some (Some d, w)
         else find_dp_loop c init (d_next (groups w d)) buff dst (add_mask c (d_bit (groups w d)) w))"
      using False Cons.prems(1) ok by (subst find_dp_loop.simps) (auto simp: add_mask_def)
    show ?thesis
    proof (cases ok)
      case True
      then have "?f d" using ok by (simp add: fits_def)
      then show ?thesis using step True by (simp add: add_mask_0)
    next
      case nf: False
      let ?w = "add_mask c (d_bit (groups w d)) w"
      have "\<not> ?f d" using nf ok by (simp add: fits_def)
      moreover have eq: "fits init c buff dst ?w x = ?f x" if "x \<in> set ds" for x
        using that Cons.prems(2,5) by (intro fits_add_mask) auto
      then have "find (fits init c buff dst ?w) ds = find ?f ds"
        "takeWhile (\<lambda>x. \<not> fits init c buff dst ?w x) ds = takeWhile (\<lambda>x. \<not> ?f x) ds"
        by (auto intro: find_cong takeWhile_cong)
      moreover have "find_dp_loop c init (d_next (groups w d)) buff dst ?w =
          Some (find (fits init c buff dst ?w) ds, add_mask c (bits ?w (takeWhile (\<lambda>x. \<not> fits init c buff dst ?w x) ds)) ?w)"
        by (rule Cons.IH) (use Cons.prems in \<open>auto simp: or.assoc\<close>)
      ultimately show ?thesis using step nf by simp
    qed
  qed
qed


text \<open>The order of the search: from the client's group on, then from the start of the list.\<close>

definition search_order :: "nat option \<Rightarrow> nat list \<Rightarrow> nat list" where
  "search_order init ds =
     (case init of None \<Rightarrow> ds | Some d \<Rightarrow> dropWhile (\<lambda>x. x \<noteq> d) ds @ takeWhile (\<lambda>x. x \<noteq> d) ds)"

text \<open>The request the filters look at: the one given, or the one the client's buffer holds.\<close>

definition shown_request :: "nat \<Rightarrow> (mem \<times> nat) option \<Rightarrow> proc \<Rightarrow> (mem \<times> nat) option option" where
  "shown_request c buff w =
     (case (buff, e_buff (items w c)) of
        (None, Some b) \<Rightarrow> map_option (\<lambda>x. Some (b_data x, nat (b_lock x))) (bufs w b)
      | _ \<Rightarrow> Some buff)"

lemma search_order_set: "init = None \<or> init \<in> Some ` set ds \<Longrightarrow> set (search_order init ds) = set ds"
proof (cases init)
  case (Some d)
  have "set (takeWhile (\<lambda>x. x \<noteq> d) ds @ dropWhile (\<lambda>x. x \<noteq> d) ds) = set ds" by (simp only: takeWhile_dropWhile_id)
  then show ?thesis unfolding search_order_def Some option.case set_append by (simp only: Un_commute)
qed (simp add: search_order_def)

lemma search_order_bits: "bits w (search_order init ds) = bits w ds"
proof (cases init)
  case (Some d)
  have "bits w (takeWhile (\<lambda>x. x \<noteq> d) ds @ dropWhile (\<lambda>x. x \<noteq> d) ds) = bits w ds" by (simp only: takeWhile_dropWhile_id)
  then show ?thesis unfolding search_order_def Some option.case bits_simps by (simp only: or.commute)
qed (simp add: search_order_def)

lemma search_order_path:
  assumes "groups_ok w ds" and "init = None \<or> init \<in> Some ` set ds"
  shows "path w init (search_order init ds) \<and> distinct (search_order init ds)"
proof -
  let ?nx = "\<lambda>d. d_next (groups w d)" and ?pv = "\<lambda>d. d_prev (groups w d)"
  have g: "distinct ds" "p_dp (params w) = first_of ds None" "linked ?nx ?pv None ds None"
    using assms(1) by (simp_all add: groups_ok_def)
  have start: "path w None xs" if "ds = xs @ ys" for xs ys
  proof (cases xs)
    case (Cons x xs')
    have "linked ?nx ?pv (Some x) xs' (first_of ys None)" "?nx x = first_of xs' (first_of ys None)"
      using g(3) that Cons by simp_all
    then have "path w (?nx x) (xs' @ [])" using path_linked [of w ?pv "Some x" xs' "first_of ys None" "[]"] by simp
    then show ?thesis using g(2) that Cons by simp
  qed simp
  show ?thesis
  proof (cases init)
    case None
    then show ?thesis using start [of ds "[]"] g(1) by (simp add: search_order_def)
  next
    case (Some d)
    then obtain pre suf where d: "ds = pre @ d # suf" "d \<notin> set pre" using assms(2) by (auto dest: split_list_first)
    then have p: "\<And>x. x \<in> set pre \<Longrightarrow> x \<noteq> d" by blast
    have o: "search_order init ds = (d # suf) @ pre"
      using Some d p by (simp add: search_order_def dropWhile_append2 takeWhile_append2)
    have "linked ?nx ?pv (last_of pre None) (d # suf) None" using g(3) d(1) by simp
    from path_linked [OF this start [OF d(1)]] show ?thesis using o Some d(1) g(1) by auto
  qed
qed

text \<open>
  C11: The choice of a strategy: \<open>find_dp\<close> takes the first group, from the client's own on and
  around the list, that was not tried yet and that fits the trigger, the address, the protocol and the
  host; it marks as tried the groups it passed and nothing else; when none fits it returns none. It
  always returns, whatever the list and the mask.
\<close>

theorem find_dp_first_fit:
  assumes "groups_ok w ds" and "e_dp (items w c) = None \<or> e_dp (items w c) \<in> Some ` set ds"
    and "e_dp_mask (items w c) OR p_dp_full_mask (params w) = p_dp_full_mask (params w)"
    and "shown_request c buff w = Some r" and "case r of None \<Rightarrow> True | Some (b, n) \<Rightarrow> n \<le> length b"
    and "order = search_order (e_dp (items w c)) ds" and "fit = fits (e_dp (items w c)) c r dst w"
  shows "find_dp c buff dst w = Some (find fit order, add_mask c (bits w (takeWhile (\<lambda>d. \<not> fit d) order)) w)"
proof -
  have "find_dp c buff dst w = find_dp_loop c (e_dp (items w c)) (e_dp (items w c)) r dst w"
    using assms(4) by (cases buff; cases "e_buff (items w c)") (auto simp: find_dp_def shown_request_def)
  also have "\<dots> = Some (find fit order, add_mask c (bits w (takeWhile (\<lambda>d. \<not> fit d) order)) w)"
    unfolding assms(7)
  proof (rule find_dp_loop_first)
    show "path w (e_dp (items w c)) order" "distinct order"
      using search_order_path [OF assms(1,2)] assms(6) by simp_all
    show "e_dp_mask (items w c) OR bits w order = p_dp_full_mask (params w)"
      using assms(1,3,6) by (simp add: groups_ok_def search_order_bits)
  qed (use assms search_order_set [OF assms(2)] in \<open>simp_all add: groups_ok_def\<close>)
  finally show ?thesis .
qed

text \<open>Three groups: one for a trigger, one for TLS, one for everything.\<close>

definition three_groups :: proc where
  "three_groups = (fresh calm)
     \<lparr>groups := (\<lambda>d. if d = 100 then zero_dp\<lparr>d_bit := 1, d_detect := DETECT_TORST, d_next := Some 101\<rparr>
        else if d = 101 then zero_dp\<lparr>d_bit := 2, d_proto := IS_HTTPS, d_prev := Some 100, d_next := Some 102\<rparr>
        else if d = 102 then zero_dp\<lparr>d_bit := 4, d_prev := Some 101\<rparr> else zero_dp),
      params := zero_params\<lparr>p_dp := Some 100, p_dp_full_mask := 7\<rparr>\<rparr>"

lemma three_groups_ok: "groups_ok three_groups [100, 101, 102]"
  by (simp add: groups_ok_def three_groups_def zero_dp_def)

theorem find_dp_first_fit_witness:
  "map_option fst (find_dp 1 (Some ([71, 69, 84, 32], 4)) zero_addr three_groups) = Some (Some 102)"
proof -
  let ?w = three_groups and ?r = "Some ([71, 69, 84, 32], 4) :: (mem \<times> nat) option"
  have "find_dp 1 ?r zero_addr ?w = Some (find (fits (e_dp (items ?w 1)) 1 ?r zero_addr ?w) (search_order (e_dp (items ?w 1)) [100, 101, 102]),
      add_mask 1 (bits ?w (takeWhile (\<lambda>d. \<not> fits (e_dp (items ?w 1)) 1 ?r zero_addr ?w d) (search_order (e_dp (items ?w 1)) [100, 101, 102]))) ?w)"
    by (rule find_dp_first_fit [OF three_groups_ok _ _ _ _ refl refl])
      (simp_all add: three_groups_def fresh_def zero_eval_def shown_request_def)
  moreover have "find (fits (e_dp (items ?w 1)) 1 ?r zero_addr ?w) (search_order (e_dp (items ?w 1)) [100, 101, 102]) = Some 102"
    by code_simp
  ultimately show ?thesis by simp
qed


section \<open>Exchanging two groups\<close>

text \<open>The list with \<open>c\<close> and a later \<open>n\<close> exchanged, by the pointer fields.\<close>

lemma linked_exchange:
  assumes "linked nx pv None (as @ c # bs @ n # es) None" and "distinct (as @ c # bs @ n # es)"
    and nx': "\<And>x. nx' x = (if x = n then first_of bs (Some c) else if x = c then first_of es None
        else if last_of as None = Some x then Some n else if last_of bs None = Some x then Some c else nx x)"
    and pv': "\<And>x. pv' x = (if x = n then last_of as None else if x = c then last_of bs (Some n)
        else if first_of bs None = Some x then Some n else if first_of es None = Some x then Some c else pv x)"
  shows "linked nx' pv' None (as @ n # bs @ c # es) None"
proof -
  have l: "linked nx pv None as (Some c)" "linked nx pv (Some c) bs (Some n)" "linked nx pv (Some n) es None"
    using assms(1) by simp_all
  have d: "distinct as" "distinct bs" "distinct es" "c \<noteq> n"
    "\<And>x. x \<in> set as \<Longrightarrow> x \<noteq> c \<and> x \<noteq> n \<and> x \<notin> set bs \<and> x \<notin> set es"
    "\<And>x. x \<in> set bs \<Longrightarrow> x \<noteq> c \<and> x \<noteq> n \<and> x \<notin> set as \<and> x \<notin> set es"
    "\<And>x. x \<in> set es \<Longrightarrow> x \<noteq> c \<and> x \<noteq> n \<and> x \<notin> set as \<and> x \<notin> set bs"
    using assms(2) by auto
  have e: "x \<notin> set ys \<Longrightarrow> first_of ys None \<noteq> Some x" "x \<notin> set ys \<Longrightarrow> last_of ys None \<noteq> Some x" for x and ys :: "'a list"
    by (auto dest: first_of_in last_of_in)
  have "linked nx' pv' None as (Some n)"
    by (rule linked_relast [OF l(1) d(1)]) (simp_all add: d(5) e nx' pv')
  moreover have "linked nx' pv' (Some n) bs (Some c)"
  proof (rule linked_refirst [OF _ d(2)])
    show "linked nx' pv (Some c) bs (Some c)"
      by (rule linked_relast [OF l(2) d(2)]) (simp_all add: d(6) e nx')
  qed (simp_all add: d(6) e pv')
  moreover have "linked nx' pv' (Some c) es None"
    by (rule linked_refirst [OF l(3) d(3)]) (simp_all add: d(7) e nx' pv')
  ultimately show ?thesis using d(4) by (simp add: nx' pv')
qed


text \<open>
  What the function leaves in the fields of the groups, when the two are neighbours and when
  others are between them.
\<close>

definition swopped :: "nat \<Rightarrow> nat \<Rightarrow> (nat \<Rightarrow> nat option) \<Rightarrow> (nat \<Rightarrow> nat option) \<Rightarrow> proc \<Rightarrow> proc \<Rightarrow> bool" where
  "swopped c n nx pv w w' \<longleftrightarrow>
     (\<forall>x. groups w' x = (groups w x)\<lparr>d_next := nx x, d_prev := pv x,
        d_detect := d_detect (groups w (if x = c then n else if x = n then c else x)),
        d_auto_level := d_auto_level (groups w (if x = c then n else if x = n then c else x))\<rparr>) \<and>
     params w' = (params w)\<lparr>p_dp := (if p_dp (params w) = Some c then Some n else p_dp (params w))\<rparr>"

lemma upd_dp_simps [simp]:
  "groups (upd_dp d f w) = (groups w)(d := f (groups w d))" "params (upd_dp d f w) = params w"
  by (simp_all add: upd_dp_def)

lemma follow_simps [simp]:
  "groups (follow p f w) x = (if p = Some x then f (groups w x) else groups w x)" "params (follow p f w) = params w"
  by (simp_all add: follow_def split: option.split)

text \<open>The two groups with each other's pointers, and what pointed to them from outside.\<close>

definition crossed :: "nat \<Rightarrow> nat \<Rightarrow> proc \<Rightarrow> proc" where
  "crossed c n w =
     (let cp = groups w c; p = d_prev cp; q = d_next (groups w n);
          w = upd_dp c (\<lambda>x. x\<lparr>d_next := d_next (groups w n), d_prev := d_prev (groups w n)\<rparr>) w;
          w = upd_dp n (\<lambda>x. x\<lparr>d_prev := d_prev cp, d_next := d_next cp\<rparr>) w
      in follow q (\<lambda>x. x\<lparr>d_prev := Some c\<rparr>) (follow p (\<lambda>x. x\<lparr>d_next := Some n\<rparr>) w))"

lemma crossed_params [simp]: "params (crossed c n w) = params w"
  by (simp add: crossed_def Let_def)

lemma crossed_groups:
  assumes "c \<noteq> n" and "d_prev (groups w c) \<noteq> Some c" and "d_prev (groups w c) \<noteq> Some n" and "d_next (groups w n) \<noteq> Some c"
    and "d_next (groups w n) \<noteq> Some n" and "d_prev (groups w c) = d_next (groups w n) \<longrightarrow> d_prev (groups w c) = None"
  shows "groups (crossed c n w) x =
     (if x = c then (groups w c)\<lparr>d_next := d_next (groups w n), d_prev := d_prev (groups w n)\<rparr>
      else if x = n then (groups w n)\<lparr>d_next := d_next (groups w c), d_prev := d_prev (groups w c)\<rparr>
      else (groups w x)\<lparr>d_next := if d_prev (groups w c) = Some x then Some n else d_next (groups w x),
             d_prev := if d_next (groups w n) = Some x then Some c else d_prev (groups w x)\<rparr>)"
  using assms by (auto simp: crossed_def Let_def)

definition swop_triggers :: "nat \<Rightarrow> nat \<Rightarrow> proc \<Rightarrow> proc" where
  "swop_triggers c n w = upd_dp n (\<lambda>x. x\<lparr>d_detect := d_detect (groups w c), d_auto_level := d_auto_level (groups w c)\<rparr>)
     (upd_dp c (\<lambda>x. x\<lparr>d_detect := d_detect (groups w n), d_auto_level := d_auto_level (groups w n)\<rparr>) w)"

lemma swop_groups_steps:
  assumes "c \<noteq> n" and "d_prev (groups w c) \<noteq> Some c" and "d_prev (groups w c) \<noteq> Some n"
    and "d_next (groups w n) \<noteq> Some c" and "d_next (groups w n) \<noteq> Some n"
    and "d_prev (groups w c) = d_next (groups w n) \<longrightarrow> d_prev (groups w c) = None"
    and mid: "if d_next (groups w c) = Some n
      then v = upd_dp n (\<lambda>x. x\<lparr>d_next := Some c\<rparr>) (upd_dp c (\<lambda>x. x\<lparr>d_prev := Some n\<rparr>) (crossed c n w))
      else \<exists>a b. d_next (groups w c) = Some a \<and> d_prev (groups w n) = Some b \<and> a \<noteq> c \<and> b \<noteq> c \<and> b \<noteq> n \<and>
        v = upd_dp b (\<lambda>x. x\<lparr>d_next := Some c\<rparr>) (upd_dp a (\<lambda>x. x\<lparr>d_prev := Some n\<rparr>) (crossed c n w))"
  shows "\<exists>w'. swop_groups c n w = Some w' \<and> groups w' = groups (swop_triggers c n v) \<and>
    params w' = (params w)\<lparr>p_dp := (if p_dp (params w) = Some c then Some n else p_dp (params w))\<rparr>"
proof -
  define p where "p = d_prev (groups w c)"
  define q where "q = d_next (groups w n)"
  define w1 where "w1 = upd_dp c (\<lambda>x. x\<lparr>d_next := q, d_prev := d_prev (groups w n)\<rparr>) w"
  define w2 where "w2 = upd_dp n (\<lambda>x. x\<lparr>d_prev := p, d_next := d_next (groups w c)\<rparr>) w1"
  have 2: "d_prev (groups w2 n) = p" "d_next (groups w2 c) = q" using assms(1) by (simp_all add: w2_def w1_def)
  have 3: "d_next (groups (follow p (\<lambda>x. x\<lparr>d_next := Some n\<rparr>) w2) c) = q" using 2 assms(2) by (simp add: p_def)
  have x: "crossed c n w = follow q (\<lambda>x. x\<lparr>d_prev := Some c\<rparr>) (follow p (\<lambda>x. x\<lparr>d_next := Some n\<rparr>) w2)"
    by (simp add: crossed_def Let_def w2_def w1_def p_def q_def)
  note g = crossed_groups [OF assms(1-6)]
  have v: "(if d_next (groups w c) \<noteq> Some n
     then do {
       x \<leftarrow> d_next (groups (crossed c n w) n);
       let w = upd_dp x (\<lambda>x. x\<lparr>d_prev := Some n\<rparr>) (crossed c n w);
       y \<leftarrow> d_prev (groups w c);
       Some (upd_dp y (\<lambda>x. x\<lparr>d_next := Some c\<rparr>) w) }
     else Some (upd_dp n (\<lambda>x. x\<lparr>d_next := Some c\<rparr>) (upd_dp c (\<lambda>x. x\<lparr>d_prev := Some n\<rparr>) (crossed c n w)))) = Some v"
    using mid assms(1) by (auto simp: g Let_def split: if_splits)
  have pv: "params v = params w" using mid by (auto split: if_splits)
  have cp: "d_detect (groups v c) = d_detect (groups w c)" "d_auto_level (groups v c) = d_auto_level (groups w c)"
    using mid assms(1) by (auto simp: g split: if_splits)
  define w6 where "w6 = swop_triggers c n v"
  have w6: "w6 = upd_dp n (\<lambda>x. x\<lparr>d_detect := d_detect (groups w c), d_auto_level := d_auto_level (groups w c)\<rparr>)
     (upd_dp c (\<lambda>x. x\<lparr>d_detect := d_detect (groups v n), d_auto_level := d_auto_level (groups v n)\<rparr>) v)"
    by (simp add: w6_def swop_triggers_def cp)
  have "swop_groups c n w = Some (if p_dp (params w6) = Some c then w6\<lparr>params := (params w6)\<lparr>p_dp := Some n\<rparr>\<rparr> else w6)"
    unfolding swop_groups_def Let_def p_def [symmetric] q_def [symmetric] w1_def [symmetric] w2_def [symmetric] 2 3 x [symmetric]
    unfolding v [unfolded Let_def] w6 by (simp only: bind.bind_lunit)
  moreover have "params w6 = params w" by (simp add: w6 pv)
  ultimately show ?thesis by (auto simp: w6_def)
qed

text \<open>The order of the groups changes, their triggers stay at their places.\<close>

definition exchanged :: "nat \<Rightarrow> nat \<Rightarrow> nat \<Rightarrow> nat" where
  "exchanged c n x = (if x = c then n else if x = n then c else x)"

text \<open>Everything in a group but its place and its trigger.\<close>

definition settings :: "desync_params \<Rightarrow> desync_params" where
  "settings g = g\<lparr>d_next := None, d_prev := None, d_detect := 0, d_auto_level := 0\<rparr>"

lemma swop_groups_ok:
  assumes "linked (\<lambda>d. d_next (groups w d)) (\<lambda>d. d_prev (groups w d)) None (as @ c # bs @ n # es) None"
    and "distinct (as @ c # bs @ n # es)"
  shows "\<exists>w'. swop_groups c n w = Some w' \<and>
      linked (\<lambda>d. d_next (groups w' d)) (\<lambda>d. d_prev (groups w' d)) None (as @ n # bs @ c # es) None \<and>
      (\<forall>x. settings (groups w' x) = settings (groups w x) \<and> d_detect (groups w' x) = d_detect (groups w (exchanged c n x)) \<and>
           d_auto_level (groups w' x) = d_auto_level (groups w (exchanged c n x))) \<and>
      params w' = (params w)\<lparr>p_dp := (if p_dp (params w) = Some c then Some n else p_dp (params w))\<rparr>"
proof -
  have f: "d_prev (groups w c) = last_of as None" "d_next (groups w c) = first_of bs (Some n)"
    "d_prev (groups w n) = last_of bs (Some c)" "d_next (groups w n) = first_of es None"
    using assms(1) by simp_all
  have cn: "c \<noteq> n" using assms(2) by simp
  have P: "last_of as None \<noteq> Some c" "last_of as None \<noteq> Some n" "first_of es None \<noteq> Some c" "first_of es None \<noteq> Some n"
    using assms(2) by (auto dest!: first_of_in last_of_in)
  have PE: "last_of as None = first_of es None \<longrightarrow> last_of as None = None"
    using assms(2) by (cases es) (auto dest!: last_of_in)
  have pre: "c \<noteq> n" "d_prev (groups w c) \<noteq> Some c" "d_prev (groups w c) \<noteq> Some n" "d_next (groups w n) \<noteq> Some c"
    "d_next (groups w n) \<noteq> Some n" "d_prev (groups w c) = d_next (groups w n) \<longrightarrow> d_prev (groups w c) = None"
    using P PE cn f by simp_all
  note g = crossed_groups [OF pre]
  have fin: ?thesis
    if mid: "if d_next (groups w c) = Some n
        then v = upd_dp n (\<lambda>x. x\<lparr>d_next := Some c\<rparr>) (upd_dp c (\<lambda>x. x\<lparr>d_prev := Some n\<rparr>) (crossed c n w))
        else \<exists>a b. d_next (groups w c) = Some a \<and> d_prev (groups w n) = Some b \<and> a \<noteq> c \<and> b \<noteq> c \<and> b \<noteq> n \<and>
          v = upd_dp b (\<lambda>x. x\<lparr>d_next := Some c\<rparr>) (upd_dp a (\<lambda>x. x\<lparr>d_prev := Some n\<rparr>) (crossed c n w))"
      and nx: "\<And>x. d_next (groups v x) = (if x = n then first_of bs (Some c) else if x = c then first_of es None
        else if last_of as None = Some x then Some n else if last_of bs None = Some x then Some c else d_next (groups w x))"
      and pv: "\<And>x. d_prev (groups v x) = (if x = n then last_of as None else if x = c then last_of bs (Some n)
        else if first_of bs None = Some x then Some n else if first_of es None = Some x then Some c else d_prev (groups w x))"
      and rest: "\<And>x. settings (groups v x) = settings (groups w x) \<and> d_detect (groups v x) = d_detect (groups w x) \<and>
        d_auto_level (groups v x) = d_auto_level (groups w x)" for v
  proof -
    obtain w' where w': "swop_groups c n w = Some w'" "groups w' = groups (swop_triggers c n v)"
      "params w' = (params w)\<lparr>p_dp := (if p_dp (params w) = Some c then Some n else p_dp (params w))\<rparr>"
      using swop_groups_steps [OF pre mid] by blast
    have "d_next (groups w' x) = d_next (groups v x)" "d_prev (groups w' x) = d_prev (groups v x)" for x
      by (simp_all add: w'(2) swop_triggers_def)
    then have "linked (\<lambda>d. d_next (groups w' d)) (\<lambda>d. d_prev (groups w' d)) None (as @ n # bs @ c # es) None"
      by (intro linked_exchange [OF assms]) (simp_all only: nx pv)
    moreover have "settings (groups w' x) = settings (groups w x) \<and> d_detect (groups w' x) = d_detect (groups w (exchanged c n x)) \<and>
        d_auto_level (groups w' x) = d_auto_level (groups w (exchanged c n x))" for x
      using rest [of x] rest [of c] rest [of n] cn by (simp add: w'(2) swop_triggers_def exchanged_def settings_def)
    ultimately show ?thesis using w'(1,3) by blast
  qed
  show ?thesis
  proof (cases bs)
    case Nil
    show ?thesis
      by (rule fin [of "upd_dp n (\<lambda>x. x\<lparr>d_next := Some c\<rparr>) (upd_dp c (\<lambda>x. x\<lparr>d_prev := Some n\<rparr>) (crossed c n w))"])
        (use Nil f cn P in \<open>simp_all add: g settings_def\<close>)
  next
    case (Cons a bs')
    let ?b = "last bs"
    have b: "d_next (groups w c) = Some a" "d_prev (groups w n) = Some ?b" "?b \<in> set bs" "a \<in> set bs" "bs \<noteq> []"
      using f Cons by (simp_all add: last_of_def)
    have l: "last_of bs None = Some ?b" "first_of bs None = Some a" "first_of bs (Some c) = Some a" "last_of bs (Some n) = Some ?b"
      using Cons by (simp_all add: last_of_def)
    have o: "a \<noteq> c" "a \<noteq> n" "?b \<noteq> c" "?b \<noteq> n" "last_of as None \<noteq> Some a" "last_of as None \<noteq> Some ?b" "first_of es None \<noteq> Some a"
      "first_of es None \<noteq> Some ?b"
      using assms(2) b(3,4) by (auto dest!: first_of_in last_of_in)
    show ?thesis
      by (rule fin [of "upd_dp ?b (\<lambda>x. x\<lparr>d_next := Some c\<rparr>) (upd_dp a (\<lambda>x. x\<lparr>d_prev := Some n\<rparr>) (crossed c n w))"])
        (use b o l f cn P in \<open>auto simp: g settings_def\<close>)
  qed
qed


lemma settings_bit: "settings g = settings g' \<Longrightarrow> d_bit g = d_bit g'"
  by (drule arg_cong [where f = d_bit]) (simp add: settings_def)

lemma swop_groups_list:
  assumes "groups_ok w (as @ c # bs @ n # es)"
  shows "\<exists>w'. swop_groups c n w = Some w' \<and> groups_ok w' (as @ n # bs @ c # es) \<and>
      (\<forall>x. settings (groups w' x) = settings (groups w x)) \<and>
      map (\<lambda>d. (d_detect (groups w' d), d_auto_level (groups w' d))) (as @ n # bs @ c # es) =
      map (\<lambda>d. (d_detect (groups w d), d_auto_level (groups w d))) (as @ c # bs @ n # es)"
proof -
  let ?xs = "as @ c # bs @ n # es" and ?ys = "as @ n # bs @ c # es"
  have g: "linked (\<lambda>d. d_next (groups w d)) (\<lambda>d. d_prev (groups w d)) None ?xs None" "distinct ?xs"
    "p_dp (params w) = first_of ?xs None" "p_dp_full_mask (params w) = bits w ?xs"
    using assms by (simp_all only: groups_ok_def)
  obtain w' where w': "swop_groups c n w = Some w'"
    "linked (\<lambda>d. d_next (groups w' d)) (\<lambda>d. d_prev (groups w' d)) None ?ys None"
    "\<And>x. settings (groups w' x) = settings (groups w x)" "\<And>x. d_detect (groups w' x) = d_detect (groups w (exchanged c n x))"
    "\<And>x. d_auto_level (groups w' x) = d_auto_level (groups w (exchanged c n x))"
    "params w' = (params w)\<lparr>p_dp := (if p_dp (params w) = Some c then Some n else p_dp (params w))\<rparr>"
    using swop_groups_ok [OF g(1,2)] by blast
  have b: "d_bit (groups w' x) = d_bit (groups w x)" for x using w'(3) by (rule settings_bit)
  have "bits w' xs = bits w xs" for xs by (simp add: bits_def b)
  then have "p_dp_full_mask (params w') = bits w' ?ys" using g(4) w'(6) by (simp add: b ac_simps)
  moreover have "p_dp (params w') = first_of ?ys None"
    using g(2,3) w'(6) by (cases as) auto
  moreover have "distinct ?ys" "set ?ys = set ?xs" using g(2) by auto
  ultimately have "groups_ok w' ?ys" using assms w'(2) unfolding groups_ok_def by (simp only: b) simp
  moreover have "map (\<lambda>d. (d_detect (groups w' d), d_auto_level (groups w' d))) ?ys =
      map (\<lambda>d. (d_detect (groups w d), d_auto_level (groups w d))) ?xs"
    using g(2) by (auto simp: w'(4,5) exchanged_def)
  ultimately show ?thesis using w'(1,3) by blast
qed

text \<open>
  C21: Sorting the groups keeps their list: \<open>swop_groups\<close> on a group and any later one, neighbours
  or not, at the ends or not, exchanges the two in the doubly linked list, and keeps every setting of
  every group and the mask; the triggers and levels stay at their places in the list.
\<close>

theorem swop_groups_keeps_list:
  assumes "groups_ok w (as @ c # bs @ n # es)"
  shows "\<exists>w'. swop_groups c n w = Some w' \<and> groups_ok w' (as @ n # bs @ c # es) \<and>
      (\<forall>x. settings (groups w' x) = settings (groups w x)) \<and>
      map (\<lambda>d. (d_detect (groups w' d), d_auto_level (groups w' d))) (as @ n # bs @ c # es) =
      map (\<lambda>d. (d_detect (groups w d), d_auto_level (groups w d))) (as @ c # bs @ n # es)"
  by (rule swop_groups_list [OF assms])

theorem swop_groups_keeps_list_witness:
  "\<exists>w'. swop_groups 100 102 three_groups = Some w' \<and> groups_ok w' [102, 101, 100] \<and> d_detect (groups w' 102) = DETECT_TORST"
proof -
  have "groups_ok three_groups ([] @ 100 # [101] @ 102 # [])" using three_groups_ok by simp
  from swop_groups_keeps_list [OF this] show ?thesis by (auto simp: three_groups_def)
qed

end
