(* ===== verification/Options_Props.thy ===== *)
theory Options_Props
  imports Options_Kept Groups_Props
begin

text \<open>
  The option parser of main.c and the list of groups: whatever the options are, when
  \<open>parse_args\<close> succeeds the groups form the list that \<open>find_dp\<close> and \<open>swop_groups\<close>
  of extend.c rely on.
\<close>

section \<open>Groups with numbers\<close>

text \<open>The bits of the first groups: the 32nd has the sign of an \<open>int\<close>, which fills the rest.\<close>

definition full_mask :: "nat \<Rightarrow> 64 word" where
  "full_mask n = (if n \<le> 31 then mask n else - 1)"

lemma group_bit_full:
  assumes "group_bit n = Some b"
  shows "b \<noteq> 0" "full_mask n AND b = 0" "full_mask n OR b = full_mask (n + 1)" "n < 32"
proof -
  have "b \<noteq> 0 \<and> full_mask n AND b = 0 \<and> full_mask n OR b = full_mask (n + 1) \<and> n < 32"
  proof (cases "n < 31")
    case True
    then have b: "b = push_bit n 1" using assms by (simp add: group_bit_def push_bit_eq_mult split: if_splits)
    have "b \<noteq> 0" using True b by (simp add: push_bit_eq_mult)
    moreover have "mask n AND b = 0" "mask n OR b = mask (Suc n)"
      unfolding b by (rule bit_eqI; auto simp: bit_simps mask_Suc_exp)+
    ultimately show ?thesis using True by (simp add: full_mask_def)
  next
    case False
    then have n: "n = 31" and b: "b = - (2 ^ 31)" using assms by (simp_all add: group_bit_def split: if_splits)
    have "mask 31 = (0x7fffffff :: 64 word)" by (simp add: mask_eq_exp_minus_1)
    then show ?thesis using n by (simp add: full_mask_def b)
  qed
  then show "b \<noteq> 0" "full_mask n AND b = 0" "full_mask n OR b = full_mask (n + 1)" "n < 32" by auto
qed

text \<open>The list while it grows: the mask is given by the number of groups, and addresses are in use.\<close>

definition numbered :: "proc \<Rightarrow> nat list \<Rightarrow> bool" where
  "numbered w ds \<longleftrightarrow> groups_ok w ds \<and> p_dp_n (params w) = length ds \<and> length ds \<le> 32 \<and>
     p_dp_full_mask (params w) = full_mask (length ds) \<and> (\<forall>d\<in>set ds. d < next_addr w)"

lemma bits_cong: "(\<And>d. d \<in> set ds \<Longrightarrow> d_bit (groups w d) = d_bit (groups v d)) \<Longrightarrow> bits w ds = bits v ds"
  by (induction ds) simp_all

lemma groups_ok_cong:
  assumes "\<And>d. d \<in> set ds \<Longrightarrow> d_next (groups w d) = d_next (groups v d) \<and> d_prev (groups w d) = d_prev (groups v d) \<and>
      d_bit (groups w d) = d_bit (groups v d)"
    and "p_dp (params w) = p_dp (params v)" "p_dp_full_mask (params w) = p_dp_full_mask (params v)"
  shows "groups_ok w ds = groups_ok v ds"
  using assms bits_cong [of ds w v] linked_cong [of ds "\<lambda>d. d_next (groups w d)" "\<lambda>d. d_next (groups v d)"
      "\<lambda>d. d_prev (groups w d)" "\<lambda>d. d_prev (groups v d)" None None]
  by (simp add: groups_ok_def)

lemma numbered_kept: "list_kept v w \<Longrightarrow> numbered v ds \<Longrightarrow> numbered w ds"
  using groups_ok_cong [of ds w v] by (auto simp: numbered_def list_kept_def)

section \<open>A new group\<close>

lemma alloc_new: "alloc n w = (Some d, w') \<Longrightarrow> d = next_addr w \<and> next_addr w' = Suc d"
  by (auto simp: alloc_def call_def sys_def Let_def split: if_splits)

lemma upd_dp_fields [simp]:
  "groups (upd_dp d f w) = (groups w)(d := f (groups w d))" "params (upd_dp d f w) = params w"
  "next_addr (upd_dp d f w) = next_addr w" "groups (set_params h w) = groups w"
  "params (set_params h w) = h (params w)" "next_addr (set_params h w) = next_addr w"
  by (simp_all add: upd_dp_def set_params_def)

lemma add_group_numbered:
  assumes "numbered w ds" and "ds \<noteq> []" and "add_group (Some (last ds)) w = Some (r, w')"
  shows "numbered w' (ds @ (case r of None \<Rightarrow> [] | Some d \<Rightarrow> [d]))"
proof -
  obtain a v where a: "alloc 1000 w = (a, v)" by (cases "alloc 1000 w")
  have v: "numbered v ds" using numbered_kept [of w v ds] alloc_kept [OF a] assms(1) by simp
  show ?thesis
  proof (cases a)
    case None
    then show ?thesis using assms(3) a v by (simp add: add_group_def)
  next
    case (Some d)
    let ?p = "last ds"
    from assms(3) a Some obtain b where b: "group_bit (p_dp_n (params v)) = Some b" and r: "r = Some d"
      and w': "groups w' = (groups v)(d := zero_dp\<lparr>d_prev := Some ?p\<rparr>, ?p := (groups w' ?p), d := groups w' d)"
      and p: "?p \<noteq> d \<Longrightarrow> groups w' ?p = (groups v ?p)\<lparr>d_next := Some d\<rparr>"
      and d: "?p \<noteq> d \<Longrightarrow> d_prev (groups w' d) = Some ?p \<and> d_next (groups w' d) = None \<and> d_bit (groups w' d) = b"
      and par: "params w' = (params v)\<lparr>p_dp_n := p_dp_n (params v) + 1,
          p_dp_full_mask := p_dp_full_mask (params v) OR b\<rparr>"
      and nxt: "next_addr w' = next_addr v"
      by (auto simp: add_group_def Let_def zero_dp_def elim!: bind_SomeE)
    have new: "d \<notin> set ds" "d < next_addr v"
      using alloc_new [OF a [unfolded Some]] assms(1) by (auto simp: numbered_def)
    then have "?p \<noteq> d" using assms(2) last_in_set by blast
    note p = p [OF this] and d = d [OF this]
    have old: "groups w' x = (if x = ?p then (groups v x)\<lparr>d_next := Some d\<rparr> else groups v x)" if "x \<noteq> d" for x
      using that p by (subst w') auto
    then have old: "groups w' x = (if x = ?p then (groups v x)\<lparr>d_next := Some d\<rparr> else groups v x)" if "x \<in> set ds" for x
      using that new(1) by (cases "x = d") simp_all
    note B = group_bit_full [OF b]
    have n: "p_dp_n (params v) = length ds" "p_dp_full_mask (params v) = full_mask (length ds)"
      "bits v ds = full_mask (length ds)"
      using v by (auto simp: numbered_def groups_ok_def)
    have apart: "d_bit (groups v x) AND b = 0" if "x \<in> set ds" for x
      using in_bits [OF that, of v] B(2) n by (metis and.assoc and_zero_eq)
    have bit_old: "d_bit (groups w' x) = d_bit (groups v x)" if "x \<in> set ds" for x
      using old [OF that] by simp
    then have bits: "bits w' ds = bits v ds"
      by (rule bits_cong)
    have "linked (\<lambda>d. d_next (groups w' d)) (\<lambda>d. d_prev (groups w' d)) None ds (Some d)"
      by (rule linked_relast [of "\<lambda>d. d_next (groups v d)" "\<lambda>d. d_prev (groups v d)" _ _ None])
        (use v old assms(2) in \<open>auto simp: numbered_def groups_ok_def last_of_def\<close>)
    moreover have "first_of ds (Some d) = first_of ds None" using assms(2) by (cases ds) simp_all
    ultimately have "groups_ok w' (ds @ [d])"
      using v new assms(2) d B bits apart n
      by (auto simp: groups_ok_def numbered_def par bit_old last_of_def and.commute)
    then show ?thesis
      using r v new B n by (auto simp: numbered_def par nxt)
  qed
qed

lemma first_group_numbered:
  assumes "add_group None w = Some (Some d, w')" and "p_dp_n (params w) = 0" "p_dp_full_mask (params w) = 0"
  shows "numbered (set_params (\<lambda>p. p\<lparr>p_dp := Some d\<rparr>) w') [d]"
proof -
  obtain v where a: "alloc 1000 w = (Some d, v)" and "params v = params w"
    using assms(1) by (auto simp: add_group_def alloc_def call_def sys_def Let_def elim!: bind_SomeE split: if_splits)
  then show ?thesis
    using assms alloc_new [OF a]
    by (auto simp: add_group_def Let_def group_bit_def zero_dp_def numbered_def groups_ok_def full_mask_def mask_Suc_0
        elim!: bind_SomeE)
qed

section \<open>The loop over the options\<close>

text \<open>The state of the loop: the current group is the last of the list.\<close>

definition parsing :: "args \<Rightarrow> proc \<Rightarrow> nat list \<Rightarrow> bool" where
  "parsing g w ds \<longleftrightarrow> numbered w ds \<and> ds \<noteq> [] \<and> g_dp g = last ds"

lemma auto_step_keeps: "step_keeps (auto_step d arg)"
  by (auto simp: step_keeps_def auto_step_def flag_step_def Let_def elim!: bind_SomeE
      split: if_split_asm option.split_asm prod.split_asm)

lemma opt_auto_parsing:
  assumes "parsing g w ds" and "opt_auto arg g w = Some (r, w')"
  shows "case r of Inl s \<Rightarrow> s \<noteq> 0 | Inr g' \<Rightarrow> \<exists>ds'. parsing g' w' ds'"
proof (cases "g_optind g < g_curr_optind g")
  case True
  then show ?thesis using assms by (auto simp: opt_auto_def parsing_def intro!: exI [of _ ds])
next
  case False
  let ?g = "if is_limited (groups w (g_dp g)) then g else g\<lparr>g_all_limited := False\<rparr>"
  let ?rest = "\<lambda>(a, v). case a of
      None \<Rightarrow> stop_with (- 1) v
    | Some d \<Rightarrow> do {
        (ok, u) \<leftarrow> letters (auto_step d arg) arg 0 v;
        let u = (if d_detect (groups u d) \<noteq> 0 then set_params (\<lambda>p. p\<lparr>p_auto_reconnect := True\<rparr>) u else u);
        let u = upd_dp d (\<lambda>x. x\<lparr>d_optind := g_optind ?g\<rparr>) u;
        let g = ?g\<lparr>g_dp := d\<rparr>;
        if ok then go_on g u else bad_value g u }"
  have "add_group (Some (g_dp ?g)) w \<bind> ?rest = Some (r, w')"
    using assms(2) False unfolding opt_auto_def Let_def by (simp split del: if_split)
  then obtain z where z: "add_group (Some (g_dp ?g)) w = Some z" "?rest z = Some (r, w')"
    by (rule bind_SomeE)
  obtain a v where "z = (a, v)" by (cases z)
  note a = z(1) [unfolded this] and r = z(2) [unfolded this prod.case]
  have v: "numbered v (ds @ (case a of None \<Rightarrow> [] | Some d \<Rightarrow> [d]))"
    by (rule add_group_numbered) (use assms(1) a in \<open>auto simp: parsing_def split: if_split_asm\<close>)
  show ?thesis
  proof (cases a)
    case (Some d)
    with r obtain ok u where u: "letters (auto_step d arg) arg 0 v = Some (ok, u)"
      and g': "\<exists>g'. r = Inr g' \<and> g_dp g' = d \<and> list_kept u w'"
      by (auto simp: Let_def elim!: bind_SomeE split: if_split_asm)
    have "list_kept v u" using letters_kept [OF u auto_step_keeps] by simp
    then have "numbered u (ds @ [d])" using numbered_kept v Some by auto
    with g' show ?thesis using numbered_kept by (fastforce simp: parsing_def)
  qed (use r in auto)
qed

text \<open>Every other option keeps the list and the current group.\<close>

lemma parse_option_parsing:
  assumes "parsing g w ds" and "parse_option junk c arg g w = Some (r, w')"
  shows "case r of Inl s \<Rightarrow> s \<noteq> 0 | Inr g' \<Rightarrow> \<exists>ds'. parsing g' w' ds'"
proof (cases "opt_auto arg g w = Some (r, w')")
  case True
  then show ?thesis by (rule opt_auto_parsing [OF assms(1)])
next
  case False
  then have "list_kept w w'" "stays g r" using parse_option_cases [OF assms(2)] by auto
  then show ?thesis
    using assms(1) numbered_kept by (fastforce simp: stays_def parsing_def split: sum.splits)
qed

lemma options_loop_parsing:
  assumes "options_loop junk g w = Some (r, w')" and "parsing g w ds"
  shows "case r of Inl s \<Rightarrow> s \<noteq> 0 | Inr g' \<Rightarrow> \<exists>ds'. parsing g' w' ds'"
proof -
  have "\<forall>ds. parsing g w ds \<longrightarrow> (case fst (r, w') of Inl s \<Rightarrow> s \<noteq> 0 | Inr g' \<Rightarrow> \<exists>ds'. parsing g' (snd (r, w')) ds')"
    using assms(1)
  proof (rule options_loop.raw_induct [rotated])
    fix loop junk g w y
    assume IH: "\<And>junk g w y. loop junk g w = Some y \<Longrightarrow>
        \<forall>ds. parsing g w ds \<longrightarrow> (case fst y of Inl s \<Rightarrow> s \<noteq> 0 | Inr g' \<Rightarrow> \<exists>ds'. parsing g' (snd y) ds')"
      and y: "(if g_invalid g then go_on g w
        else let (c, arg, next) = getopt_long (libc w) (g_optind g)
          in case c of None \<Rightarrow> go_on (g\<lparr>g_optind := next\<rparr>) w
             | Some c \<Rightarrow> parse_option junk c arg (g\<lparr>g_optind := next\<rparr>) w \<bind>
                 (\<lambda>(r, w). case r of Inl s \<Rightarrow> stop_with s w | Inr g \<Rightarrow> loop junk g w)) = Some y"
    have here: "\<exists>ds'. parsing (g\<lparr>g_optind := i\<rparr>) w ds'" if "parsing g w ds" for i ds
      using that by (auto simp: parsing_def intro!: exI [of _ ds])
    show "\<forall>ds. parsing g w ds \<longrightarrow> (case fst y of Inl s \<Rightarrow> s \<noteq> 0 | Inr g' \<Rightarrow> \<exists>ds'. parsing g' (snd y) ds')"
    proof (intro allI impI)
      fix ds assume p: "parsing g w ds"
      obtain c arg i where i: "getopt_long (libc w) (g_optind g) = (c, arg, i)" by (cases "getopt_long (libc w) (g_optind g)")
      obtain ds' where p': "parsing (g\<lparr>g_optind := i\<rparr>) w ds'" using here [OF p] by blast
      show "case fst y of Inl s \<Rightarrow> s \<noteq> 0 | Inr g' \<Rightarrow> \<exists>ds'. parsing g' (snd y) ds'"
      proof (cases "g_invalid g \<or> c = None")
        case True
        then show ?thesis using y p p' i by (auto split: if_split_asm)
      next
        case False
        then obtain c' r v where v: "parse_option junk c' arg (g\<lparr>g_optind := i\<rparr>) w = Some (r, v)"
          and r: "(case r of Inl s \<Rightarrow> stop_with s v | Inr g \<Rightarrow> loop junk g v) = Some y"
          using y i by (auto elim!: bind_SomeE)
        from parse_option_parsing [OF p' v] r show ?thesis
          by (auto split: sum.split_asm dest: IH)
      qed
    qed
  qed
  then show ?thesis using assms(2) by (auto split: sum.splits)
qed

lemma finish_args_groups:
  assumes "parsing g w ds" and "finish_args g w = Some (0, w')"
  shows "\<exists>ds. numbered w' ds \<and> ds \<noteq> []"
proof -
  obtain d v where d: "(if g_all_limited g then add_group (Some (g_dp g)) w else Some (Some (g_dp g), w)) = Some (Some d, v)"
    and v: "list_kept v w'"
    using assms(2) by (auto simp: finish_args_def Let_def elim!: bind_SomeE split: if_split_asm)
  have "\<exists>ds. numbered v ds \<and> ds \<noteq> []"
    using d assms(1) add_group_numbered [of w ds "Some d" v] by (fastforce simp: parsing_def split: if_split_asm)
  then show ?thesis using numbered_kept [OF v] by blast
qed

text \<open>
  C10: The strategies that the command line describes. Whatever the arguments are, when
  \<open>parse_args\<close> succeeds the groups of options form a doubly linked list without repetitions that
  starts at \<open>params.dp\<close>, at most 32 of them, every group with bits of its own, and
  \<open>dp_full_mask\<close> is the union of these bits: the state that \<open>find_dp\<close> and
  \<open>swop_groups\<close> rely on.
\<close>

theorem parse_args_groups:
  assumes "parse_args junk optind w = Some (0, w')"
    and "p_dp_n (params w) = 0" and "p_dp_full_mask (params w) = 0"
  shows "\<exists>ds. groups_ok w' ds \<and> ds \<noteq> [] \<and> length ds \<le> 32 \<and> p_dp_n (params w') = length ds"
proof -
  have params0: "p_dp_n (params x) = 0 \<and> p_dp_full_mask (params x) = 0" if "list_kept w x" for x
    using that assms(2,3) by (simp add: list_kept_def)
  from assms(1) obtain v d u r where d: "add_group None v = Some (Some d, u)" and v: "list_kept w v"
    and r: "options_loop junk \<lparr>g_dp = d, g_invalid = False, g_all_limited = True, g_curr_optind = 1, g_optind = optind\<rparr>
        (set_params (\<lambda>p. p\<lparr>p_dp := Some d\<rparr>) u) = Some r"
    and f: "case r of (Inl s, x) \<Rightarrow> s = 0 | (Inr g, x) \<Rightarrow> finish_args g x = Some (0, w')"
    by (auto simp: parse_args_def ipv6_support_def close_fd_def Let_def elim!: bind_SomeE
        dest!: alloc_kept call_kept split: if_split_asm prod.split_asm option.split_asm sum.split_asm)
  obtain q x where q: "r = (q, x)" by (cases r)
  have "parsing \<lparr>g_dp = d, g_invalid = False, g_all_limited = True, g_curr_optind = 1, g_optind = optind\<rparr>
      (set_params (\<lambda>p. p\<lparr>p_dp := Some d\<rparr>) u) [d]"
    using first_group_numbered [OF d] params0 [OF v] by (simp add: parsing_def)
  from options_loop_parsing [OF r [unfolded q] this] f q
  have "\<exists>ds. numbered w' ds \<and> ds \<noteq> []"
    using finish_args_groups by (auto split: sum.splits)
  then show ?thesis by (auto simp: numbered_def)
qed

text \<open>The command line \<open>-A none\<close> and nothing else.\<close>

definition auto_none :: proc where
  "auto_none = (fresh calm)\<lparr>libc := no_libc\<lparr>getopt_long :=
     (\<lambda>i. if i = 1 then (Some (chr ''A''), bytes_of ''none'' @ [0], 3) else (None, [], i))\<rparr>\<rparr>"

theorem parse_args_groups_witness:
  "\<exists>w' ds. parse_args [] 1 auto_none = Some (0, w') \<and> groups_ok w' ds \<and> ds \<noteq> []"
proof -
  have "map_option fst (parse_args [] 1 auto_none) = Some 0"
    by (simp add: parse_args_def ipv6_support_def close_fd_def alloc_def call_def sys_def samples auto_none_def
        zero_params_def set_params_def set_mempool_def add_group_def group_bit_def upd_dp_def zero_dp_def
        options_loop.simps finish_args_def parse_option_def opt_auto_def one_of_def is_limited_def
        letters.simps auto_step_def flag_step_def detects_def ld_def chr_def bytes_of_def strchr.simps Let_def
        no_libc_def zero_addr_def)
  then obtain w' where w: "parse_args [] 1 auto_none = Some (0, w')" by auto
  from parse_args_groups [OF w] show ?thesis
    using w by (auto simp: auto_none_def samples zero_params_def)
qed

end
