(* ===== verification/Tunnel_State.thy ===== *)
theory Tunnel_State
  imports Proxy Desync_Props Lists_Props "HOL-Library.Sublist"
begin

text \<open>
  The state of a tunnel of proxy.c and what its steps leave alone. \<open>received fd tr\<close> are the bytes that a
  trace has taken from the connection \<open>fd\<close>, as \<open>stream fd tr\<close> of Desync_Props are those it has put
  into one. \<open>relay_ok\<close> is the invariant of a tunnel whose first rounds are over, \<open>relay_step\<close> relates the
  bytes that came in to those that went out and those kept.
\<close>

section \<open>Received bytes\<close>

definition taken :: "int \<Rightarrow> syscall \<times> answer \<Rightarrow> mem" where
  "taken fd x = (case x of (Recv f n, a) \<Rightarrow> (if f = fd then take (nat (a_ret a)) (a_data a) else []) | _ \<Rightarrow> [])"

definition received :: "int \<Rightarrow> event_trace \<Rightarrow> mem" where
  "received fd tr = concat (map (taken fd) tr)"

lemma received_append [simp]: "received fd (tr @ ts) = received fd tr @ received fd ts"
  "received fd [] = []" "received fd (x # tr) = taken fd x @ received fd tr"
  by (simp_all add: received_def)

text \<open>
  The connections hold: a call on them fails only because it would block, \<open>recv\<close> stores what it
  counts, and a peer sends no more than \<open>limit\<close> bytes.
\<close>

definition blocks :: "answer \<Rightarrow> bool" where
  "blocks a \<longleftrightarrow> (a_ret a < 0 \<longrightarrow> a_errno a = EAGAIN)"

definition net_ok :: "nat \<Rightarrow> kernel \<Rightarrow> bool" where
  "net_ok limit k \<longleftrightarrow> send_ok k \<and>
     (\<forall>tr fd bs. blocks (k tr (Send fd bs))) \<and>
     (\<forall>tr fd n. blocks (k tr (Recv fd n)) \<and> a_ret (k tr (Recv fd n)) \<le> int n \<and>
        nat (a_ret (k tr (Recv fd n))) \<le> length (a_data (k tr (Recv fd n))) \<and>
        (0 < a_ret (k tr (Recv fd n)) \<longrightarrow> length (received fd tr) + nat (a_ret (k tr (Recv fd n))) \<le> limit))"

section \<open>What the tunnel leaves alone\<close>

definition same_role :: "eval \<Rightarrow> eval \<Rightarrow> bool" where
  "same_role e e' \<longleftrightarrow> e_fd e' = e_fd e \<and> e_pair e' = e_pair e \<and> e_buff e' = e_buff e \<and> e_sq_buff e' = e_sq_buff e \<and>
     e_flag e' = e_flag e \<and> e_dp e' = e_dp e \<and> e_mark e' = e_mark e \<and> e_recv_count e \<le> e_recv_count e' \<and>
     e_round_count e \<le> e_round_count e'"

definition still :: "proc \<Rightarrow> proc \<Rightarrow> bool" where
  "still w w' \<longleftrightarrow> kernel w' = kernel w \<and> params w' = params w \<and> groups w' = groups w \<and> ndebug w' = ndebug w \<and>
     bufs w' = bufs w \<and> root_buff w' = root_buff w \<and> buff_count w' = buff_count w \<and> next_addr w' = next_addr w \<and>
     (\<forall>u. same_role (items w u) (items w' u))"

text \<open>Nothing is sent or received either.\<close>

definition idle :: "proc \<Rightarrow> proc \<Rightarrow> bool" where
  "idle w w' \<longleftrightarrow> still w w' \<and>
     (\<forall>fd. stream fd (trace w') = stream fd (trace w) \<and> received fd (trace w') = received fd (trace w))"

lemma same_role_refl [simp]: "same_role e e"
  by (simp add: same_role_def)

lemma same_role_trans: "same_role e e1 \<Longrightarrow> same_role e1 e2 \<Longrightarrow> same_role e e2"
  by (auto simp: same_role_def)

lemma still_refl [simp]: "still w w"
  by (simp add: still_def)

lemma still_trans: "still w w1 \<Longrightarrow> still w1 w2 \<Longrightarrow> still w w2"
  unfolding still_def using same_role_trans by metis

lemma idle_refl [simp]: "idle w w"
  by (simp add: idle_def)

lemma idle_trans: "idle w w1 \<Longrightarrow> idle w1 w2 \<Longrightarrow> idle w w2"
  unfolding idle_def using still_trans by metis

lemma idle_sys: "(\<And>fd bs. c \<noteq> Send fd bs) \<Longrightarrow> (\<And>fd n. c \<noteq> Recv fd n) \<Longrightarrow> idle w (snd (sys c w))"
  by (auto simp: idle_def still_def sys_def Let_def accepted_def taken_def split: syscall.splits)

lemma idle_call: "(\<And>fd bs. c \<noteq> Send fd bs) \<Longrightarrow> (\<And>fd n. c \<noteq> Recv fd n) \<Longrightarrow> idle w (snd (call c w))"
  using idle_sys [of c w] by (simp add: call_def Let_def split_def)

lemma idle_upd_ev: "same_role (items w v) (f (items w v)) \<Longrightarrow> idle w (upd_ev v f w)"
  by (simp add: idle_def still_def upd_ev_def)

lemma idle_setsockopt: "idle w (snd (setsockopt fd opt x w))"
  by (simp add: setsockopt_def idle_call)

lemma same_role_links:
  "same_role e (e'\<lparr>e_tv_prev := x\<rparr>) \<longleftrightarrow> same_role e e'" "same_role e (e'\<lparr>e_tv_next := x\<rparr>) \<longleftrightarrow> same_role e e'"
  "same_role e (e'\<lparr>e_tv_ms := m\<rparr>) \<longleftrightarrow> same_role e e'"
  by (simp_all add: same_role_def)

lemma idle_remove_timer: "idle w (remove_timer v w)"
proof -
  have "same_role (items w u) (items (remove_timer v w) u)" for u
    by (auto simp: remove_timer_def Let_def set_next_def set_prev_def same_role_links split: option.splits)
  then show ?thesis by (simp add: idle_def still_def remove_timer_def Let_def)
qed

lemma mod_etype_idle:
  assumes "0 < e_fd (items w v)"
  shows "\<exists>r w'. mod_etype v t w = Some (r, w') \<and> idle w w'"
  using assms idle_call [of "Epoll_ctl_mod (pl_efd w) (e_fd (items w v)) t v" w]
  by (cases "call (Epoll_ctl_mod (pl_efd w) (e_fd (items w v)) t v) w") (auto simp: mod_etype_def assert_c_def)

section \<open>A settled tunnel\<close>

text \<open>
  The client \<open>c\<close> and the remote side \<open>r\<close>: the first request is not kept any more, the
  answers are not watched, and the rounds that the group of the client works on are over.
\<close>

definition past_rounds :: "int \<times> int \<Rightarrow> nat \<Rightarrow> bool" where
  "past_rounds nr k \<longleftrightarrow> 1 < k \<and> snd nr < int k"

definition joined :: "proc \<Rightarrow> nat \<Rightarrow> nat \<Rightarrow> bool" where
  "joined w c r \<longleftrightarrow> e_pair (items w c) = Some r \<and> e_pair (items w r) = Some c \<and> c \<noteq> r \<and>
     0 < e_fd (items w c) \<and> 0 < e_fd (items w r) \<and> e_fd (items w c) \<noteq> e_fd (items w r) \<and>
     e_flag (items w c) \<noteq> FLAG_CONN \<and> e_flag (items w r) = FLAG_CONN \<and> e_sq_buff (items w c) = None \<and>
     \<not> e_mark (items w c) \<and> 0 < e_recv_count (items w c) \<and>
     (\<exists>d. e_dp (items w c) = Some d \<and> past_rounds (d_rounds (groups w d)) (e_round_count (items w c)))"

definition settled :: "proc \<Rightarrow> nat \<Rightarrow> nat \<Rightarrow> bool" where
  "settled w v p \<longleftrightarrow> joined w v p \<or> joined w p v"

lemma joined_still: "still w w' \<Longrightarrow> joined w c r \<Longrightarrow> joined w' c r"
  unfolding joined_def past_rounds_def still_def same_role_def by (smt (verit) of_nat_less_iff order_less_le_trans of_nat_mono)

lemma settled_still: "still w w' \<Longrightarrow> settled w v p \<Longrightarrow> settled w' v p"
  unfolding settled_def using joined_still by blast

lemma settled_parts:
  assumes "settled w v p"
  shows "e_pair (items w v) = Some p" "e_pair (items w p) = Some v" "v \<noteq> p" "0 < e_fd (items w v)" "0 < e_fd (items w p)"
    "e_fd (items w v) \<noteq> e_fd (items w p)" "settled w p v"
  using assms by (auto simp: settled_def joined_def)

lemma past_rounds_check: "past_rounds nr k \<Longrightarrow> \<not> check_round nr (int k)"
  by (auto simp: past_rounds_def check_round_def)

section \<open>Sending\<close>

lemma net_ok_send:
  assumes "net_ok limit (kernel w)" and "send fd bs w = (s, w')"
  shows "still w w'" "stream fd (trace w') = stream fd (trace w) @ take (nat s) bs" "s \<le> int (length bs)"
    "f \<noteq> fd \<Longrightarrow> stream f (trace w') = stream f (trace w)" "received f (trace w') = received f (trace w)"
    "s < 0 \<Longrightarrow> get_e w' = EAGAIN"
  using assms
  by (auto simp: net_ok_def send_ok_def blocks_def send_def call_def sys_def Let_def still_def accepted_def taken_def get_e_def)

text \<open>Past its rounds a connection gets what the buffer holds, from the offset on, in one plain send.\<close>

lemma tcp_send_plain:
  assumes "settled w v p" and "net_ok limit (kernel w)" and "bufs w b = Some x" and "0 \<le> b_offset x" and "b_offset x \<le> n"
    and "n \<le> int (length (b_data x))" and "e_flag (items w v) \<noteq> FLAG_CONN \<longrightarrow> n < e_recv_count (items w v)"
    and "send (e_fd (items w p)) (take (nat (n - b_offset x)) (drop (nat (b_offset x)) (b_data x))) w = (s, w1)"
  shows "tcp_send_hook p b n alias w =
     (if s < 0 then Some (0, n, False, w1)
      else Some (s, n, False, upd_ev v (\<lambda>e. e\<lparr>e_round_sent := e_round_sent e + s\<rparr>) w1))"
proof -
  note parts = settled_parts [OF assms(1)] and ns = net_ok_send [OF assms(2,8)]
  have g: "get_bytes (b_data x) (b_offset x) (nat (n - b_offset x)) = Some (take (nat (n - b_offset x)) (drop (nat (b_offset x)) (b_data x)))"
    using assms(4-6) unfolding get_bytes_def by (simp add: slice_inside)
  have pr: "e_pair (items w1 p) = Some v" using ns(1) parts(2) by (simp add: still_def same_role_def)
  show ?thesis
  proof (cases "e_flag (items w p) = FLAG_CONN")
    case False
    then show ?thesis
      using assms(3,5,8) g ns(6) pr by (simp add: tcp_send_hook_def Let_def)
  next
    case True
    then have j: "joined w v p" using assms(1) by (auto simp: settled_def joined_def)
    then obtain d where d: "e_dp (items w v) = Some d" "past_rounds (d_rounds (groups w d)) (e_round_count (items w v))"
      by (auto simp: joined_def)
    have "e_recv_count (items w v) \<noteq> n" using assms(7) j by (auto simp: joined_def)
    then show ?thesis
      using True d(1) past_rounds_check [OF d(2)] assms(3,5,8) g ns(6) pr parts(2) by (simp add: tcp_send_hook_def Let_def)
  qed
qed

lemma tcp_send_settled:
  assumes "settled w v p" and "net_ok limit (kernel w)" and "bufs w b = Some x" and "0 \<le> b_offset x" and "b_offset x \<le> n"
    and "n \<le> int (length (b_data x))" and "e_flag (items w v) \<noteq> FLAG_CONN \<longrightarrow> n < e_recv_count (items w v)"
  shows "\<exists>sn w'. tcp_send_hook p b n alias w = Some (sn, n, False, w') \<and> still w w' \<and> 0 \<le> sn \<and> sn \<le> n - b_offset x \<and>
    stream (e_fd (items w p)) (trace w') = stream (e_fd (items w p)) (trace w) @ take (nat sn) (drop (nat (b_offset x)) (b_data x)) \<and>
    stream (e_fd (items w v)) (trace w') = stream (e_fd (items w v)) (trace w) \<and>
    (\<forall>f. received f (trace w') = received f (trace w))"
proof -
  note parts = settled_parts [OF assms(1)]
  define bs where "bs = take (nat (n - b_offset x)) (drop (nat (b_offset x)) (b_data x))"
  have len: "int (length bs) = n - b_offset x" using assms(4-6) by (simp add: bs_def)
  obtain s w1 where s: "send (e_fd (items w p)) bs w = (s, w1)" by fastforce
  note ns = net_ok_send [OF assms(2) s]
  note hook = tcp_send_plain [OF assms s [unfolded bs_def]]
  define w2 where "w2 = (if s < 0 then w1 else upd_ev v (\<lambda>e. e\<lparr>e_round_sent := e_round_sent e + s\<rparr>) w1)"
  have "idle w1 w2" by (simp add: w2_def idle_upd_ev same_role_def)
  then have "still w w2" "\<forall>f. stream f (trace w2) = stream f (trace w1)" "\<forall>f. received f (trace w2) = received f (trace w1)"
    using still_trans [OF ns(1)] by (simp_all add: idle_def)
  moreover have "take (nat s) bs = take (nat s) (drop (nat (b_offset x)) (b_data x))" if "0 \<le> s"
    using ns(3) len that by (simp add: bs_def min_def)
  ultimately show ?thesis
    using hook ns len parts(6) assms(5)
    by (intro exI [of _ "max 0 s"] exI [of _ w2]) (auto simp: w2_def)
qed

section \<open>Receiving\<close>

lemma net_ok_recv:
  assumes "net_ok limit (kernel w)" and "recv fd n w = (r, bs, w')"
  shows "still w w'" "received fd (trace w') = received fd (trace w) @ bs" "length bs = nat r" "r \<le> int n"
    "f \<noteq> fd \<Longrightarrow> received f (trace w') = received f (trace w)" "stream f (trace w') = stream f (trace w)"
    "r < 0 \<Longrightarrow> get_e w' = EAGAIN" "0 < r \<Longrightarrow> length (received fd (trace w')) \<le> limit"
proof -
  define a where "a = kernel w (trace w) (Recv fd n)"
  have a: "a_ret a < 0 \<longrightarrow> a_errno a = EAGAIN" "a_ret a \<le> int n" "nat (a_ret a) \<le> length (a_data a)"
    "0 < a_ret a \<longrightarrow> length (received fd (trace w)) + nat (a_ret a) \<le> limit"
    using assms(1) unfolding net_ok_def blocks_def a_def by blast+
  have w': "w' = w\<lparr>trace := trace w @ [(Recv fd n, a)], errno := (if a_ret a < 0 then a_errno a else errno w)\<rparr>"
    and r: "r = a_ret a" and bs: "bs = take (nat (a_ret a)) (a_data a)"
    using assms(2) by (auto simp: recv_def sys_def Let_def a_def)
  show "length bs = nat r" "r \<le> int n" using a r bs by simp_all
  show "still w w'" "received fd (trace w') = received fd (trace w) @ bs"
    "f \<noteq> fd \<Longrightarrow> received f (trace w') = received f (trace w)" "stream f (trace w') = stream f (trace w)"
    "r < 0 \<Longrightarrow> get_e w' = EAGAIN"
    using a(1) by (simp_all add: w' r bs still_def taken_def accepted_def get_e_def)
  show "0 < r \<Longrightarrow> length (received fd (trace w')) \<le> limit"
    using a by (simp add: w' r taken_def)
qed

lemma on_fin_settled:
  assumes "settled w v p"
  shows "on_fin v w = Some (- 1, w)"
  using assms by (auto simp: settled_def joined_def on_fin_def)

lemma start_round_idle:
  assumes "0 \<le> n"
  shows "idle w (start_round v n w)"
proof -
  define w1 where "w1 = upd_ev v (\<lambda>e. e\<lparr>e_recv_count := e_recv_count e + n\<rparr>) w"
  define w2 where "w2 = upd_ev v (\<lambda>e. e\<lparr>e_round_count := e_round_count e + 1\<rparr>) w1"
  have 1: "idle w w1" using assms by (simp add: w1_def idle_upd_ev same_role_def)
  have 2: "idle w w2" by (rule idle_trans [OF 1]) (simp add: w2_def idle_upd_ev same_role_def)
  have 3: "idle w (upd_ev u (\<lambda>e. e\<lparr>e_round_sent := 0, e_part_sent := 0\<rparr>) w2)" for u
    by (rule idle_trans [OF 2]) (simp add: idle_upd_ev same_role_def)
  show ?thesis
    unfolding start_round_def Let_def w1_def [symmetric] w2_def [symmetric]
    using 1 2 3 by (simp split: option.split)
qed

lemma start_round_count: "e_recv_count (items (start_round v n w) v) = e_recv_count (items w v) + n"
  by (auto simp: start_round_def Let_def upd_ev_def split: option.split)

lemma last_round_idle:
  assumes "settled w v p"
  shows "\<exists>err w'. last_round v w = Some (err, w') \<and> idle w w'"
proof (cases "e_flag (items w v) = FLAG_CONN \<and> e_round_sent (items w v) = 0")
  case False
  then show ?thesis by (auto simp: last_round_def)
next
  case True
  then obtain d where d: "e_pair (items w v) = Some p" "e_dp (items w p) = Some d"
    using assms by (auto simp: settled_def joined_def)
  have "\<exists>x w'. cancel_setup v w = Some (x, w') \<and> idle w w'"
    using d idle_setsockopt [of w "e_fd (items w v)" SO_DETACH_FILTER "[0]"]
    by (auto simp: cancel_setup_def post_desync_def Let_def split: prod.splits)
  then show ?thesis using True d by (auto simp: last_round_def Let_def)
qed

lemma remote_data_settled:
  assumes "joined w c v" and "bufs w b = Some x"
  shows "\<exists>w'. remote_data v b n w = Some (False, w') \<and> idle w w'"
proof -
  have j: "e_pair (items w v) = Some c" "\<not> e_mark (items w c)" "e_sq_buff (items w c) = None"
    using assms(1) by (simp_all add: joined_def)
  define t where "t = snd (set_timeout (e_fd (items w v)) (p_timeout (params w)) w)"
  define w' where "w' = (if e_to_count (items w v) \<ge> 0 \<and> p_timeout (params w) \<noteq> 0 \<and> p_to_bytes_lim (params w) \<noteq> 0
           \<and> e_recv_count (items w v) > p_to_bytes_lim (params w) then upd_ev v (\<lambda>e. e\<lparr>e_to_count := - 1\<rparr>) t else w)"
  have "idle w t" using idle_setsockopt [of w] by (simp add: t_def set_timeout_def Let_def split_def)
  then have i: "idle w w'" by (auto simp: w'_def same_role_def intro!: idle_trans [of w t] idle_upd_ev)
  then have "e_sq_buff (items w' c) = None" using j(3) by (simp add: idle_def still_def same_role_def)
  then have "remote_data v b n w = Some (False, w')"
    unfolding remote_data_def j(1) assms(2) bind.bind_lunit Let_def if_not_P [OF j(2)] t_def [symmetric] w'_def [symmetric]
    by simp
  then show ?thesis using i by blast
qed

lemma received_data_settled:
  assumes "settled w v p" and "bufs w b = Some x" and "e_flag (items w v) \<noteq> FLAG_CONN \<longrightarrow> n < e_recv_count (items w v)"
  shows "\<exists>w'. (if e_flag (items w v) = FLAG_CONN
       then do { (stop, w) \<leftarrow> remote_data v b n w; Some (if stop then 0 else n, w) }
       else do { (err, w) \<leftarrow> client_data v b n w; Some (if err then - 1 else n, w) }) = Some (n, w') \<and> idle w w'"
proof (cases "e_flag (items w v) = FLAG_CONN")
  case True
  then have "joined w p v" using assms(1) by (auto simp: settled_def joined_def)
  from remote_data_settled [OF this assms(2), of n] obtain w' where "remote_data v b n w = Some (False, w')" "idle w w'"
    by blast
  then show ?thesis using True by simp
next
  case False
  then have "joined w v p" using assms(1) by (auto simp: settled_def joined_def)
  then have "e_sq_buff (items w v) = None" by (simp add: joined_def)
  then show ?thesis using False assms(3) by (auto simp: client_data_def)
qed

text \<open>
  What a receive leaves behind: the bytes taken lie at the start of the buffer, and their number is
  returned, unless the connection ends here.
\<close>

definition got_into :: "nat \<Rightarrow> nat \<Rightarrow> nat \<Rightarrow> buffer \<Rightarrow> proc \<Rightarrow> int \<Rightarrow> mem \<Rightarrow> mem \<Rightarrow> proc \<Rightarrow> bool" where
  "got_into limit v b x w n got new w' \<longleftrightarrow>
     still (w\<lparr>bufs := bufs w'\<rparr>) w' \<and> bufs w' = (bufs w)(b \<mapsto> x\<lparr>b_data := new\<rparr>) \<and> length new = length (b_data x) \<and>
     received (e_fd (items w v)) (trace w') = received (e_fd (items w v)) (trace w) @ got \<and>
     (\<forall>f. f \<noteq> e_fd (items w v) \<longrightarrow> received f (trace w') = received f (trace w)) \<and>
     (\<forall>f. stream f (trace w') = stream f (trace w)) \<and> (n = 0 \<longrightarrow> got = []) \<and>
     (0 < n \<longrightarrow> n = int (length got) \<and> take (nat n) new = got \<and> n \<le> int (b_size x) \<and>
        length (received (e_fd (items w v)) (trace w')) \<le> limit \<and>
        (e_flag (items w v) \<noteq> FLAG_CONN \<longrightarrow> n < e_recv_count (items w' v)))"

lemma got_nothing:
  assumes "still w w'" and "bufs w b = Some x" and "n \<le> 0"
    and "\<And>f. received f (trace w') = received f (trace w)" and "\<And>f. stream f (trace w') = stream f (trace w)"
  shows "got_into limit v b x w n [] (b_data x) w'"
proof -
  have "bufs w' = bufs w" using assms(1) by (simp add: still_def)
  then show ?thesis using assms by (simp add: got_into_def fun_upd_idem)
qed

lemma still_buffer:
  assumes "still w w1" and "upd_buf b f w1 = Some w2" and "bufs w b = Some x"
  shows "w2 = w1\<lparr>bufs := (bufs w)(b \<mapsto> f x)\<rparr>" "still (w\<lparr>bufs := bufs w2\<rparr>) w2" "bufs w2 = (bufs w)(b \<mapsto> f x)"
proof -
  have "bufs w1 = bufs w" using assms(1) by (simp add: still_def)
  then show w2: "w2 = w1\<lparr>bufs := (bufs w)(b \<mapsto> f x)\<rparr>" using assms(2,3) by (simp add: upd_buf_def)
  show "still (w\<lparr>bufs := bufs w2\<rparr>) w2" "bufs w2 = (bufs w)(b \<mapsto> f x)" using assms(1) by (simp_all add: w2 still_def)
qed

lemma tcp_recv_settled:
  assumes "settled w v p" and "net_ok limit (kernel w)" and "bufs w b = Some x" and "length (b_data x) = b_size x"
  shows "\<exists>n got new w'. tcp_recv_hook v b w = Some (n, w') \<and> got_into limit v b x w n got new w'"
proof -
  let ?fd = "e_fd (items w v)"
  obtain n bs w1 where r: "recv ?fd (b_size x) w = (n, bs, w1)" by (cases "recv ?fd (b_size x) w")
  note nr = net_ok_recv [OF assms(2) r]
  have s1: "settled w1 v p" by (rule settled_still [OF nr(1) assms(1)])
  have none: "got_into limit v b x w k [] (b_data x) w1" if "n \<le> 0" "k \<le> 0" for k
  proof (rule got_nothing [OF nr(1) assms(3) that(2)])
    have "bs = []" using nr(3) that by simp
    then show "received f (trace w1) = received f (trace w)" for f using nr(2,5) by (cases "f = ?fd") auto
  qed (rule nr(6))
  consider "n = 0" | "n < 0" | "0 < n" by linarith
  then show ?thesis
  proof cases
    case 1
    then have "tcp_recv_hook v b w = Some (- 1, w1)"
      using assms(3) r on_fin_settled [OF s1] by (simp add: tcp_recv_hook_def Let_def)
    moreover have "got_into limit v b x w (- 1) [] (b_data x) w1" using 1 by (intro none) simp_all
    ultimately show ?thesis by blast
  next
    case 2
    then have "tcp_recv_hook v b w = Some (0, w1)"
      using assms(3) r nr(7) by (simp add: tcp_recv_hook_def Let_def)
    moreover have "got_into limit v b x w 0 [] (b_data x) w1" using 2 by (intro none) simp_all
    ultimately show ?thesis by blast
  next
    case 3
    have le: "length bs \<le> length (b_data x)" using 3 nr(3,4) assms(4) by simp
    define new where "new = bs @ drop (length bs) (b_data x)"
    have new: "memcpy (b_data x) 0 bs = Some new" using le by (simp add: memcpy_def new_def)
    have b1: "bufs w1 b = Some x" using nr(1) assms(3) by (simp add: still_def)
    obtain w2 where w2: "upd_buf b (\<lambda>x. x\<lparr>b_data := new\<rparr>) w1 = Some w2" using b1 by (simp add: upd_buf_def)
    note sb = still_buffer [OF nr(1) w2 assms(3)]
    define w3 where "w3 = start_round v n w2"
    have i3: "idle w2 w3" using 3 by (simp add: w3_def start_round_idle)
    have s2: "settled w2 v p" using s1 unfolding sb(1) by (simp add: settled_def joined_def)
    have s3: "settled w3 v p" using settled_still [of w2 w3] i3 s2 by (simp add: idle_def)
    have c3: "n < e_recv_count (items w3 v)" if "e_flag (items w v) \<noteq> FLAG_CONN"
    proof -
      have "e_flag (items w2 v) \<noteq> FLAG_CONN" using that nr(1) by (simp add: sb(1) still_def same_role_def)
      then have "0 < e_recv_count (items w2 v)" using s2 by (auto simp: settled_def joined_def)
      then show ?thesis by (simp add: w3_def start_round_count)
    qed
    obtain err w4 where l: "last_round v w3 = Some (err, w4)" "idle w3 w4" using last_round_idle [OF s3] by blast
    have i4: "idle w2 w4" by (rule idle_trans [OF i3 l(2)])
    have s4: "settled w4 v p" using settled_still [of w2 w4] i4 s2 by (simp add: idle_def)
    have f4: "e_flag (items w4 v) = e_flag (items w v)" using i4 nr(1) by (simp add: sb(1) idle_def still_def same_role_def)
    have b4: "bufs w4 b = Some (x\<lparr>b_data := new\<rparr>)" using i4 sb(3) by (simp add: idle_def still_def)
    have c4: "n < e_recv_count (items w4 v)" if "e_flag (items w v) \<noteq> FLAG_CONN"
      using c3 [OF that] l(2) by (auto simp: idle_def still_def same_role_def intro: order_less_le_trans)
    obtain w5 where w5: "(if e_flag (items w4 v) = FLAG_CONN
       then do { (stop, w) \<leftarrow> remote_data v b n w4; Some (if stop then 0 else n, w) }
       else do { (err, w) \<leftarrow> client_data v b n w4; Some (if err then - 1 else n, w) }) = Some (n, w5)" "idle w4 w5"
      using received_data_settled [OF s4 b4] c4 f4 by auto
    have eq: "tcp_recv_hook v b w = (if err then Some (- 1, w4) else Some (n, w5))"
      using 3 assms(3) r new w2 l(1) w5(1) by (simp add: tcp_recv_hook_def Let_def w3_def [symmetric])
    define w6 where "w6 = (if err then w4 else w5)"
    have i6: "idle w2 w6" using i4 idle_trans [OF i4 w5(2)] by (simp add: w6_def)
    have "got_into limit v b x w (if err then - 1 else n) bs new w6"
    proof -
      have b6: "bufs w6 = bufs w2" using i6 by (simp add: idle_def still_def)
      have "still (w\<lparr>bufs := bufs w6\<rparr>) w6" unfolding b6 using still_trans [OF sb(2)] i6 by (simp add: idle_def)
      moreover have "e_recv_count (items w4 v) \<le> e_recv_count (items w6 v)"
        using w5(2) by (simp add: w6_def idle_def still_def same_role_def)
      moreover have "received f (trace w6) = received f (trace w1)" "stream f (trace w6) = stream f (trace w1)" for f
        using i6 by (simp_all add: idle_def sb(1))
      ultimately show ?thesis
        using 3 nr le c4 b6 sb(3) by (auto simp: got_into_def new_def)
    qed
    moreover have "tcp_recv_hook v b w = Some (if err then - 1 else n, w6)" using eq by (simp add: w6_def)
    ultimately show ?thesis by blast
  qed
qed

section \<open>The state of a tunnel\<close>

text \<open>What is kept of the bytes from \<open>v\<close>, because the other side could not take them yet.\<close>

definition pend :: "proc \<Rightarrow> nat \<Rightarrow> mem" where
  "pend w v = (case e_buff (items w v) of None \<Rightarrow> []
     | Some b \<Rightarrow> (case bufs w b of None \<Rightarrow> []
         | Some x \<Rightarrow> drop (nat (b_offset x)) (take (nat (b_lock x)) (b_data x))))"

text \<open>The buffers, free ones and those in use.\<close>

definition stored :: "proc \<Rightarrow> nat list \<Rightarrow> bool" where
  "stored w bs \<longleftrightarrow> free_bufs w bs \<and> 0 < p_bfsize (params w) \<and> p_bfsize (params w) < 2 ^ 32 \<and>
     (\<forall>b x. bufs w b = Some x \<longrightarrow> 0 < b_size x \<and> b_size x < 2 ^ 32 \<and> length (b_data x) = b_size x \<and>
        (b \<in> set bs \<longrightarrow> b_offset x = 0 \<and> b_lock x = 0))"

definition bounds_ok :: "eval \<Rightarrow> buffer \<Rightarrow> bool" where
  "bounds_ok e x \<longleftrightarrow> 0 \<le> b_offset x \<and> b_offset x \<le> b_lock x \<and> b_lock x \<le> int (b_size x) \<and>
     (e_flag e \<noteq> FLAG_CONN \<longrightarrow> b_lock x < e_recv_count e)"

definition held :: "proc \<Rightarrow> nat list \<Rightarrow> nat \<Rightarrow> bool" where
  "held w bs v \<longleftrightarrow> (\<forall>b. e_buff (items w v) = Some b \<longrightarrow>
     b \<notin> set bs \<and> (\<exists>x. bufs w b = Some x \<and> bounds_ok (items w v) x))"

definition relay_ok :: "nat \<Rightarrow> proc \<Rightarrow> nat \<Rightarrow> nat \<Rightarrow> bool" where
  "relay_ok limit w v p \<longleftrightarrow> settled w v p \<and> net_ok limit (kernel w) \<and>
     (\<exists>bs. stored w bs \<and> held w bs v \<and> held w bs p) \<and> (e_buff (items w v) \<noteq> None \<longrightarrow> e_buff (items w v) \<noteq> e_buff (items w p))"

text \<open>
  One direction: what came in and what was kept before is what went out and what is kept now. When
  the step ends the connection, what went out is still the beginning of it.
\<close>

definition passed :: "nat \<Rightarrow> nat \<Rightarrow> proc \<Rightarrow> int \<Rightarrow> proc \<Rightarrow> bool" where
  "passed v p w r w' \<longleftrightarrow> (\<exists>got. received (e_fd (items w v)) (trace w') = received (e_fd (items w v)) (trace w) @ got \<and>
     prefix (stream (e_fd (items w p)) (trace w')) (stream (e_fd (items w p)) (trace w) @ pend w v @ got) \<and>
     (0 \<le> r \<longrightarrow> stream (e_fd (items w p)) (trace w') @ pend w' v = stream (e_fd (items w p)) (trace w) @ pend w v @ got))"

definition relay_step :: "nat \<Rightarrow> nat \<Rightarrow> nat \<Rightarrow> proc \<Rightarrow> int \<Rightarrow> proc \<Rightarrow> bool" where
  "relay_step limit v p w r w' \<longleftrightarrow> kernel w' = kernel w \<and> params w' = params w \<and> e_fd (items w' v) = e_fd (items w v) \<and>
     e_fd (items w' p) = e_fd (items w p) \<and> passed v p w r w' \<and> passed p v w r w' \<and> (0 \<le> r \<longrightarrow> relay_ok limit w' v p)"

lemma relay_okD:
  assumes "relay_ok limit w v p"
  shows "settled w v p" "net_ok limit (kernel w)" "relay_ok limit w p v"
  using assms unfolding relay_ok_def using settled_parts(7) by metis+

lemma passed_trans:
  assumes "passed v p w 0 w1" and "passed v p w1 r w'" and "e_fd (items w1 v) = e_fd (items w v)" "e_fd (items w1 p) = e_fd (items w p)"
  shows "passed v p w r w'"
proof -
  obtain g where g: "received (e_fd (items w v)) (trace w1) = received (e_fd (items w v)) (trace w) @ g"
    "stream (e_fd (items w p)) (trace w1) @ pend w1 v = stream (e_fd (items w p)) (trace w) @ pend w v @ g"
    using assms(1) unfolding passed_def by auto
  obtain h where "received (e_fd (items w v)) (trace w') = received (e_fd (items w v)) (trace w1) @ h"
    "prefix (stream (e_fd (items w p)) (trace w')) (stream (e_fd (items w p)) (trace w1) @ pend w1 v @ h)"
    "0 \<le> r \<longrightarrow> stream (e_fd (items w p)) (trace w') @ pend w' v = stream (e_fd (items w p)) (trace w1) @ pend w1 v @ h"
    using assms(2) unfolding passed_def assms(3,4) by auto
  then show ?thesis
    unfolding passed_def using g by (intro exI [of _ "g @ h"]) (metis append.assoc)
qed

lemma relay_step_trans:
  assumes "relay_step limit v p w r1 w1" and "0 \<le> r1" and "relay_step limit v p w1 r w'"
  shows "relay_step limit v p w r w'"
proof -
  have "passed v p w 0 w1" "passed p v w 0 w1" using assms(1,2) by (auto simp: relay_step_def passed_def)
  then have "passed v p w r w'" "passed p v w r w'"
    using assms(1,3) passed_trans unfolding relay_step_def by blast+
  then show ?thesis using assms(1,3) by (simp add: relay_step_def)
qed

lemma relay_step_sym: "relay_step limit v p w r w' \<Longrightarrow> relay_step limit p v w r w'"
  unfolding relay_step_def using relay_okD(3) by blast

lemma passed_same:
  assumes "received (e_fd (items w v)) (trace w') = received (e_fd (items w v)) (trace w)"
    and "stream (e_fd (items w p)) (trace w') = stream (e_fd (items w p)) (trace w)" and "pend w' v = pend w v"
  shows "passed v p w r w'"
  using assms by (auto simp: passed_def)

text \<open>A step that changes at most the buffer of \<open>v\<close>.\<close>

definition same_tail :: "buffer \<Rightarrow> buffer \<Rightarrow> bool" where
  "same_tail x y \<longleftrightarrow> b_size y = b_size x \<and> b_next y = b_next x \<and> length (b_data y) = length (b_data x)"

lemma bounds_ok_same_role: "same_role e e' \<Longrightarrow> bounds_ok e x \<Longrightarrow> bounds_ok e' x"
  by (auto simp: same_role_def bounds_ok_def)

lemma relay_ok_buffer:
  assumes "relay_ok limit w v p" and "e_buff (items w v) = Some b" and "bufs w b = Some x" and "same_tail x y"
    and "still (w\<lparr>bufs := bufs w'\<rparr>) w'" and "bufs w' = (bufs w)(b \<mapsto> y)" and "bounds_ok (items w' v) y"
  shows "relay_ok limit w' v p" "pend w' p = pend w p" "pend w' v = drop (nat (b_offset y)) (take (nat (b_lock y)) (b_data y))"
proof -
  have st: "kernel w' = kernel w" "params w' = params w" "root_buff w' = root_buff w" "buff_count w' = buff_count w"
    "next_addr w' = next_addr w" and role: "same_role (items w u) (items w' u)" for u
    using assms(5) by (simp_all add: still_def)
  have eb: "e_buff (items w' u) = e_buff (items w u)" for u using role [of u] by (simp add: same_role_def)
  have ne: "e_buff (items w p) \<noteq> Some b" using assms(1,2) by (auto simp: relay_ok_def)
  obtain bs where bs: "stored w bs" "held w bs v" "held w bs p" using assms(1) by (auto simp: relay_ok_def)
  have out: "b \<notin> set bs" using bs(2) assms(2) by (auto simp: held_def)
  have "free_bufs w' bs"
  proof -
    have f: "free_bufs w bs" using bs(1) by (simp add: stored_def)
    have "chain (bufs w') b_next (root_buff w') bs \<longleftrightarrow> chain (bufs w) b_next (root_buff w) bs"
      unfolding st(3) by (rule chain_cong) (use out in \<open>auto simp: assms(6)\<close>)
    then show ?thesis using f assms(3) by (auto simp: free_bufs_def st assms(6))
  qed
  then have "stored w' bs" using bs(1) assms(3,4) out by (auto simp: stored_def st assms(6) same_tail_def)
  moreover have "held w' bs v" using assms(2,7) out by (simp add: held_def eb assms(6))
  moreover have "held w' bs p"
    using bs(3) ne bounds_ok_same_role [OF role] by (auto simp: held_def eb assms(6))
  moreover have "settled w' v p"
  proof -
    have "settled (w\<lparr>bufs := bufs w'\<rparr>) v p" using relay_okD(1) [OF assms(1)] by (simp add: settled_def joined_def)
    then show ?thesis by (rule settled_still [OF assms(5)])
  qed
  ultimately show "relay_ok limit w' v p" using assms(1,2) ne by (auto simp: relay_ok_def eb st)
  show "pend w' p = pend w p" using ne by (auto simp: pend_def eb assms(6) split: option.split)
  show "pend w' v = drop (nat (b_offset y)) (take (nat (b_lock y)) (b_data y))"
    using assms(2) by (simp add: pend_def eb assms(6))
qed

lemma relay_step_idle:
  assumes "relay_ok limit w v p" and "idle w w'"
  shows "relay_step limit v p w r w'"
proof -
  have st: "still w w'" and tr: "\<And>fd. stream fd (trace w') = stream fd (trace w)" "\<And>fd. received fd (trace w') = received fd (trace w)"
    using assms(2) by (simp_all add: idle_def)
  have role: "same_role (items w u) (items w' u)" for u using st by (simp add: still_def)
  have eb: "e_buff (items w' u) = e_buff (items w u)" "e_fd (items w' u) = e_fd (items w u)" for u
    using role [of u] by (simp_all add: same_role_def)
  have bf: "bufs w' = bufs w" using st by (simp add: still_def)
  have pe: "pend w' u = pend w u" for u unfolding pend_def eb bf by (rule refl)
  obtain bs where bs: "stored w bs" "held w bs v" "held w bs p" using assms(1) by (auto simp: relay_ok_def)
  have "stored w' bs" using bs(1) st by (simp add: stored_def free_bufs_def still_def)
  moreover have "held w' bs v" "held w' bs p"
    using bs(2,3) st bounds_ok_same_role [OF role] by (auto simp: held_def eb still_def)
  ultimately have "relay_ok limit w' v p"
    using assms(1) settled_still [OF st] st by (auto simp: relay_ok_def eb still_def)
  then show ?thesis
    using st by (simp add: relay_step_def passed_same tr pe eb still_def)
qed

section \<open>Buffers of a tunnel\<close>

text \<open>Nothing moves, and \<open>v\<close> keeps nothing any more.\<close>

definition emptied :: "nat \<Rightarrow> nat \<Rightarrow> nat \<Rightarrow> proc \<Rightarrow> proc \<Rightarrow> bool" where
  "emptied limit v p w w' \<longleftrightarrow> relay_ok limit w' v p \<and> pend w' v = [] \<and> pend w' p = pend w p \<and> kernel w' = kernel w \<and>
     params w' = params w \<and> (\<forall>u. e_fd (items w' u) = e_fd (items w u)) \<and>
     (\<forall>fd. stream fd (trace w') = stream fd (trace w) \<and> received fd (trace w') = received fd (trace w))"

lemma emptied_step: "emptied limit v p w w' \<Longrightarrow> pend w v = [] \<Longrightarrow> relay_step limit v p w k w'"
  by (simp add: emptied_def relay_step_def passed_same)

lemma emptied_idle:
  assumes "emptied limit v p w w1" and "idle w1 w'"
  shows "emptied limit v p w w'"
proof -
  have ok: "relay_ok limit w1 v p" using assms(1) by (simp add: emptied_def)
  have st: "still w1 w'" using assms(2) by (simp add: idle_def)
  have role: "same_role (items w1 u) (items w' u)" for u using st by (simp add: still_def)
  have eb: "e_buff (items w' u) = e_buff (items w1 u)" "e_fd (items w' u) = e_fd (items w1 u)" for u
    using role [of u] by (simp_all add: same_role_def)
  have bf: "bufs w' = bufs w1" using st by (simp add: still_def)
  have pe: "pend w' u = pend w1 u" for u unfolding pend_def eb bf by (rule refl)
  have "relay_ok limit w' v p" using relay_step_idle [OF ok assms(2), of 0] by (simp add: relay_step_def)
  then show ?thesis using assms st by (simp add: emptied_def pe eb idle_def still_def)
qed

lemma rebuffer_ok:
  assumes "relay_ok limit w v p" and "kernel w' = kernel w" and "params w' = params w"
    and "groups w' = groups w" and "items w' = (items w)(v := (items w v)\<lparr>e_buff := r\<rparr>)"
    and "\<And>fd. stream fd (trace w') = stream fd (trace w)" and "\<And>fd. received fd (trace w') = received fd (trace w)"
    and "stored w' cs" and "\<And>b. r = Some b \<Longrightarrow> b \<notin> set cs \<and> (\<exists>x. bufs w' b = Some x \<and> b_offset x = 0 \<and> b_lock x = 0)"
    and "\<And>c. e_buff (items w p) = Some c \<Longrightarrow> bufs w' c = bufs w c \<and> c \<notin> set cs \<and> r \<noteq> Some c"
  shows "emptied limit v p w w'"
proof -
  note d = relay_okD [OF assms(1)]
  have ne: "v \<noteq> p" using settled_parts(3) [OF d(1)] .
  obtain bs where bs: "held w bs p" using assms(1) by (auto simp: relay_ok_def)
  have set: "settled w' v p" using d(1) by (auto simp: settled_def joined_def assms(4,5))
  have pos: "e_flag (items w v) \<noteq> FLAG_CONN \<longrightarrow> 0 < e_recv_count (items w v)"
    using d(1) by (auto simp: settled_def joined_def)
  have "held w' cs v"
    using assms(9) pos by (fastforce simp: held_def assms(5) bounds_ok_def)
  moreover have "held w' cs p"
    using bs assms(10) ne by (auto simp: held_def assms(5))
  moreover have "r \<noteq> None \<longrightarrow> r \<noteq> e_buff (items w p)" using assms(10) by (cases "e_buff (items w p)") auto
  ultimately have ok: "relay_ok limit w' v p"
    using d(2) set assms(8) ne by (auto simp: relay_ok_def assms(2,5))
  have "pend w' p = pend w p" using assms(10) ne by (auto simp: pend_def assms(5) split: option.split)
  moreover have "pend w' v = []" using assms(9) by (fastforce simp: pend_def assms(5) split: option.split)
  ultimately show ?thesis
    using ok ne by (simp add: emptied_def assms(2,3,5,6,7))
qed

text \<open>Taking and giving back a buffer: the pool stays in order, and the buffers in use stay as they are.\<close>

definition unmoved :: "proc \<Rightarrow> proc \<Rightarrow> bool" where
  "unmoved w w' \<longleftrightarrow> kernel w' = kernel w \<and> params w' = params w \<and> groups w' = groups w \<and> items w' = items w \<and>
     (\<forall>fd. stream fd (trace w') = stream fd (trace w) \<and> received fd (trace w') = received fd (trace w))"

definition empty_buf :: "proc \<Rightarrow> nat \<Rightarrow> bool" where
  "empty_buf w b \<longleftrightarrow> (\<exists>x. bufs w b = Some x \<and> b_offset x = 0 \<and> b_lock x = 0)"

definition same_size :: "proc \<Rightarrow> proc \<Rightarrow> bool" where
  "same_size w w' \<longleftrightarrow> (\<forall>b y. bufs w' b = Some y \<longrightarrow> b_size y = p_bfsize (params w) \<or> (\<exists>x. bufs w b = Some x \<and> b_size y = b_size x))"

lemma give_stored:
  assumes "stored w bs" and "bufs w b = Some x" and "b \<notin> set bs"
  shows "\<exists>w' cs. buff_push (Some b) w = Some w' \<and> stored w' cs \<and> set cs \<subseteq> insert b (set bs) \<and> unmoved w w' \<and> same_size w w' \<and>
    (\<forall>c. c \<noteq> b \<longrightarrow> bufs w' c = bufs w c)"
proof -
  have f: "free_bufs w bs" "live_buf w b" using assms(1,2) by (auto simp: stored_def)
  obtain w1 cs where 1: "buff_push (Some b) w = Some w1" "free_bufs w1 cs" "cs = (if length bs < 8 then b # bs else bs)"
    "\<And>x. x \<noteq> b \<Longrightarrow> live_buf w1 x \<longleftrightarrow> live_buf w x"
    using rb.give_ok [OF f(1,2) assms(3)] by blast
  have fr: "w1 = w\<lparr>bufs := bufs w1, root_buff := root_buff w1, buff_count := buff_count w1\<rparr>"
    by (rule buff_push_frame [OF 1(1)])
  have it: "items w1 = items w" "kernel w1 = kernel w" "params w1 = params w" "groups w1 = groups w" "trace w1 = trace w"
    by (subst fr, simp)+
  have other: "bufs w1 c = bufs w c" if "c \<noteq> b" for c
    using 1(1) assms(2) that by (auto simp: buff_push_def split: if_splits)
  have own: "bufs w1 b = Some y \<Longrightarrow> b_size y = b_size x \<and> b_data y = b_data x \<and> b_offset y = 0 \<and> b_lock y = 0" for y
    using 1(1) assms(2) by (auto simp: buff_push_def split: if_splits)
  have "stored w1 cs"
    unfolding stored_def it(3)
  proof (intro conjI allI impI)
    fix c y assume c: "bufs w1 c = Some y"
    show "0 < b_size y" "b_size y < 2 ^ 32" "length (b_data y) = b_size y"
      using c own [of y] other [of c] assms(1,2) by (cases "c = b"; auto simp: stored_def)+
    assume "c \<in> set cs"
    then show "b_offset y = 0" "b_lock y = 0"
      using c own [of y] other [of c] assms(1) 1(3) by (cases "c = b"; auto simp: stored_def split: if_splits)+
  qed (use assms(1) 1(2) in \<open>auto simp: stored_def\<close>)
  moreover have "same_size w w1"
    unfolding same_size_def
  proof (intro allI impI)
    fix c y assume "bufs w1 c = Some y"
    then show "b_size y = p_bfsize (params w) \<or> (\<exists>x. bufs w c = Some x \<and> b_size y = b_size x)"
      using own [of y] other [of c] assms(2) by (cases "c = b") auto
  qed
  moreover have "unmoved w w1" by (simp add: unmoved_def it)
  ultimately show ?thesis using 1 other by (intro exI [of _ w1] exI [of _ cs]) auto
qed

lemma take_stored:
  assumes "stored w bs"
  shows "\<exists>r w'. buff_pop (p_bfsize (params w)) w = Some (r, w') \<and> stored w' (tl bs) \<and> unmoved w w' \<and> same_size w w' \<and>
    (\<forall>c. live_buf w c \<longrightarrow> bufs w' c = bufs w c \<and> (c \<notin> set bs \<longrightarrow> r \<noteq> Some c)) \<and>
    (\<forall>b. r = Some b \<longrightarrow> b \<notin> set (tl bs) \<and> empty_buf w' b) \<and>
    (gives_memory (kernel w) \<longrightarrow> r \<noteq> None)"
proof -
  let ?n = "p_bfsize (params w)"
  have f: "free_bufs w bs" using assms by (simp add: stored_def)
  obtain r w1 where 1: "buff_pop ?n w = Some (r, w1)" "free_bufs w1 (tl bs)"
    "\<And>b. r = Some b \<Longrightarrow> live_buf w1 b \<and> b \<notin> set (tl bs) \<and> (bs = [] \<longrightarrow> \<not> live_buf w b) \<and> (bs \<noteq> [] \<longrightarrow> b = hd bs)"
    using rb.take_ok [OF f, of ?n] by metis
  have root: "root_buff w = first_of bs None" using free_bufs_parts(6) [OF f] .
  show ?thesis
  proof (cases bs)
    case (Cons b cs)
    then obtain x where x: "bufs w b = Some x" using rb.alive [OF f] by auto
    have w1: "r = Some b" "w1 = w\<lparr>root_buff := b_next x, buff_count := buff_count w - 1\<rparr>"
      using 1(1) Cons root x by (auto simp: buff_pop_def)
    have "stored w1 cs" "empty_buf w1 b" using assms 1(2) Cons x by (auto simp: stored_def empty_buf_def w1)
    moreover have "b \<notin> set cs" using rb.bounded [OF f] Cons by simp
    moreover have "unmoved w w1" "same_size w w1" by (simp_all add: unmoved_def same_size_def w1(2))
    ultimately show ?thesis using 1(1) w1 Cons by auto
  next
    case Nil
    obtain a e where s: "sys (Malloc (40 + ?n)) w = (a, w\<lparr>trace := trace w @ [(Malloc (40 + ?n), a)], errno := e\<rparr>)"
      and a: "a = kernel w (trace w) (Malloc (40 + ?n))" by (rule sys_cases)
    have none: "root_buff w = None" using root Nil by simp
    show ?thesis
    proof (cases "a_ret a \<le> 0")
      case True
      then have w1: "r = None" "w1 = w\<lparr>trace := trace w @ [(Malloc (40 + ?n), a)], errno := e\<rparr>"
        using 1(1) none s by (simp_all add: buff_pop_def)
      have "\<not> gives_memory (kernel w)" using True a by (auto simp: gives_memory_def not_less)
      moreover have "stored w1 []" using assms Nil by (auto simp: stored_def free_bufs_def w1(2))
      ultimately show ?thesis
        using 1(1) w1 Nil by (simp add: unmoved_def same_size_def accepted_def taken_def)
    next
      case False
      define b where "b = next_addr w"
      define x where "x = \<lparr>b_size = ?n, b_offset = 0, b_lock = 0, b_next = None, b_data = take ?n (a_data a @ replicate ?n 0)\<rparr>"
      have w1: "r = Some b" "w1 = w\<lparr>trace := trace w @ [(Malloc (40 + ?n), a)], errno := e, next_addr := b + 1, bufs := (bufs w)(b \<mapsto> x)\<rparr>"
        using 1(1) none s False by (simp_all add: buff_pop_def Let_def b_def x_def)
      have new: "\<not> live_buf w b" using 1(3) [OF w1(1)] Nil by simp
      have "stored w1 []" "same_size w w1" "empty_buf w1 b" "unmoved w w1"
        using assms 1(2) Nil by (auto simp: stored_def w1 x_def same_size_def empty_buf_def unmoved_def accepted_def taken_def)
      then show ?thesis using 1(1) w1 new Nil by auto
    qed
  qed
qed

lemma stored_upd_ev [simp]: "stored (upd_ev v f w) bs = stored w bs"
  by (simp add: upd_ev_def stored_def free_bufs_def)

lemma rebuffer_unmoved:
  assumes "relay_ok limit w v p" and "unmoved w w1" and "stored w1 cs"
    and "\<And>b. r = Some b \<Longrightarrow> b \<notin> set cs \<and> empty_buf w1 b"
    and "\<And>c. e_buff (items w p) = Some c \<Longrightarrow> bufs w1 c = bufs w c \<and> c \<notin> set cs \<and> r \<noteq> Some c"
  shows "emptied limit v p w (upd_ev v (\<lambda>e. e\<lparr>e_buff := r\<rparr>) w1)"
proof (rule rebuffer_ok [OF assms(1)])
  show "stored (upd_ev v (\<lambda>e. e\<lparr>e_buff := r\<rparr>) w1) cs" using assms(3) by simp
qed (use assms(2,4,5) in \<open>auto simp: unmoved_def upd_ev_def empty_buf_def\<close>)

lemma release_ok:
  assumes "relay_ok limit w v p" and "e_buff (items w v) = Some b"
  shows "\<exists>w'. release_buff v p w = Some w' \<and> emptied limit v p w w' \<and> e_buff (items w' v) = None"
proof -
  obtain bs where bs: "stored w bs" "held w bs v" "held w bs p" and ne: "e_buff (items w p) \<noteq> Some b"
    using assms(1,2) by (auto simp: relay_ok_def)
  obtain x where x: "bufs w b = Some x" "b \<notin> set bs" using bs(2) assms(2) by (auto simp: held_def)
  obtain w1 cs where 1: "buff_push (Some b) w = Some w1" "stored w1 cs" "set cs \<subseteq> insert b (set bs)" "unmoved w w1"
    "\<And>c. c \<noteq> b \<Longrightarrow> bufs w1 c = bufs w c"
    using give_stored [OF bs(1) x] by metis
  define w2 where "w2 = upd_ev v (\<lambda>e. e\<lparr>e_buff := None\<rparr>) w1"
  have step: "emptied limit v p w w2"
    unfolding w2_def
  proof (rule rebuffer_unmoved [OF assms(1) 1(4,2)])
    fix c assume c: "e_buff (items w p) = Some c"
    then have "c \<noteq> b" "c \<notin> set bs" using ne bs(3) by (auto simp: held_def)
    then show "bufs w1 c = bufs w c \<and> c \<notin> set cs \<and> None \<noteq> Some c" using 1(3,5) by auto
  qed simp
  define w3 where "w3 = remove_timer p (remove_timer v w2)"
  have i: "idle w2 w3" unfolding w3_def by (rule idle_trans [OF idle_remove_timer idle_remove_timer])
  have "emptied limit v p w w3" by (rule emptied_idle [OF step i])
  moreover have "release_buff v p w = Some w3"
    using 1(1) assms(2) by (simp add: release_buff_def w2_def w3_def)
  moreover have "e_buff (items w3 v) = None"
    using i by (simp add: idle_def still_def same_role_def w2_def upd_ev_def)
  ultimately show ?thesis by blast
qed

lemma fetch_ok:
  assumes "relay_ok limit w v p" and "e_buff (items w v) = None"
  shows "\<exists>r w1. buff_pop (p_bfsize (params w)) w = Some (r, w1) \<and>
    (case r of None \<Rightarrow> relay_step limit v p w (- 1) w1
     | Some b \<Rightarrow> relay_step limit v p w 0 (upd_ev v (\<lambda>e. e\<lparr>e_buff := Some b\<rparr>) w1) \<and>
         (\<exists>x. bufs w1 b = Some x \<and> b_offset x = 0 \<and> b_lock x = 0))"
proof -
  obtain bs where bs: "stored w bs" "held w bs p" using assms(1) by (auto simp: relay_ok_def)
  obtain r w1 where 1: "buff_pop (p_bfsize (params w)) w = Some (r, w1)" "stored w1 (tl bs)" "unmoved w w1"
    "\<And>c. live_buf w c \<Longrightarrow> bufs w1 c = bufs w c \<and> (c \<notin> set bs \<longrightarrow> r \<noteq> Some c)"
    "\<And>b. r = Some b \<Longrightarrow> b \<notin> set (tl bs) \<and> empty_buf w1 b"
    using take_stored [OF bs(1)] by metis
  have pe: "pend w v = []" using assms(2) by (simp add: pend_def)
  have "emptied limit v p w (upd_ev v (\<lambda>e. e\<lparr>e_buff := r\<rparr>) w1)"
  proof (rule rebuffer_unmoved [OF assms(1) 1(3,2,5)])
    fix c assume "e_buff (items w p) = Some c"
    then have "live_buf w c" "c \<notin> set bs" using bs(2) by (auto simp: held_def)
    then show "bufs w1 c = bufs w c \<and> c \<notin> set (tl bs) \<and> r \<noteq> Some c" using 1(4) [of c] by (cases bs) auto
  qed
  then have step: "relay_step limit v p w k (upd_ev v (\<lambda>e. e\<lparr>e_buff := r\<rparr>) w1)" for k using pe by (rule emptied_step)
  have "(items w v)\<lparr>e_buff := None\<rparr> = items w v" using assms(2) by (cases "items w v") simp
  then have "upd_ev v (\<lambda>e. e\<lparr>e_buff := None\<rparr>) w1 = w1"
    using 1(3) by (simp add: unmoved_def upd_ev_def fun_upd_idem)
  then show ?thesis using 1(1,5) step by (cases r) (auto simp: empty_buf_def)
qed

end
