(* ===== verification/Tunnel_Props.thy ===== *)
theory Tunnel_Props
  imports Tunnel_State
begin

text \<open>
  What the tunnel of proxy.c passes on. Once the first rounds of a connection are over, everything that
  comes in on one side goes out on the other, in order, each byte once; what could not be written yet is
  kept in a buffer. With both buffers in use a side that can be written may be left waiting.
\<close>

section \<open>The relay\<close>

lemma relay_stepI:
  assumes "kernel w' = kernel w \<and> params w' = params w"
    and "e_fd (items w' v) = e_fd (items w v)" and "e_fd (items w' p) = e_fd (items w p)"
    and "received (e_fd (items w v)) (trace w') = received (e_fd (items w v)) (trace w) @ got"
    and "stream (e_fd (items w p)) (trace w') = stream (e_fd (items w p)) (trace w) @ out"
    and "received (e_fd (items w p)) (trace w') = received (e_fd (items w p)) (trace w)"
    and "stream (e_fd (items w v)) (trace w') = stream (e_fd (items w v)) (trace w)"
    and "pend w' p = pend w p" and "prefix out (pend w v @ got)"
    and "0 \<le> r \<Longrightarrow> out @ pend w' v = pend w v @ got" and "0 \<le> r \<Longrightarrow> relay_ok limit w' v p"
  shows "relay_step limit v p w r w'"
proof -
  have "passed v p w r w'" using assms(4,5,9,10) by (auto simp: passed_def)
  moreover have "passed p v w r w'" by (rule passed_same) (rule assms)+
  ultimately show ?thesis using assms(1-3,11) by (simp add: relay_step_def)
qed

lemma wait_ok:
  assumes "settled w v p"
  shows "\<exists>r w'. wait_for_room v p False w = Some (r, w') \<and> idle w w'"
proof -
  obtain r1 w1 where 1: "mod_etype v 0 w = Some (r1, w1)" "idle w w1"
    using mod_etype_idle settled_parts(4) [OF assms] by blast
  then have "settled w1 v p" using settled_still assms by (auto simp: idle_def)
  then obtain r2 w2 where 2: "mod_etype p POLLOUT w1 = Some (r2, w2)" "idle w1 w2"
    using mod_etype_idle settled_parts(5) by blast
  show ?thesis using 1 2 idle_trans [OF 1(2) 2(2)] by (cases "r1 = 0") (simp_all add: wait_for_room_def)
qed

text \<open>The first half of a round: \<open>got\<close> has been taken from \<open>v\<close> and not been sent yet.\<close>

definition took :: "nat \<Rightarrow> nat \<Rightarrow> proc \<Rightarrow> mem \<Rightarrow> proc \<Rightarrow> bool" where
  "took v p w got w1 \<longleftrightarrow> (kernel w1 = kernel w \<and> params w1 = params w) \<and>
     e_fd (items w1 v) = e_fd (items w v) \<and> e_fd (items w1 p) = e_fd (items w p) \<and>
     received (e_fd (items w v)) (trace w1) = received (e_fd (items w v)) (trace w) @ got \<and>
     received (e_fd (items w p)) (trace w1) = received (e_fd (items w p)) (trace w) \<and>
     (\<forall>f. stream f (trace w1) = stream f (trace w)) \<and> pend w v = [] \<and> pend w1 v = [] \<and> pend w1 p = pend w p"

text \<open>The buffer in use is empty, as far as the record says.\<close>

definition in_use :: "nat \<Rightarrow> nat \<Rightarrow> buffer \<Rightarrow> proc \<Rightarrow> bool" where
  "in_use v b x w \<longleftrightarrow> e_buff (items w v) = Some b \<and> bufs w b = Some x \<and> b_offset x = 0 \<and> b_lock x = 0"

lemma in_use_pend: "in_use v b x w \<Longrightarrow> pend w v = []"
  by (simp add: in_use_def pend_def)

lemma took_step:
  assumes "took v p w got w1" and "relay_ok limit w1 v p" and "r < 0 \<or> got = []"
  shows "relay_step limit v p w r w1"
  using assms by (intro relay_stepI [of w1 w v p got "[]"]) (auto simp: took_def)

lemma relay_recv:
  assumes "relay_ok limit w v p" and "in_use v b x w"
  shows "\<exists>n got x1 w1. tcp_recv_hook v b w = Some (n, w1) \<and> took v p w got w1 \<and> relay_ok limit w1 v p \<and> in_use v b x1 w1 \<and>
    (n = 0 \<longrightarrow> got = []) \<and> (0 < n \<longrightarrow> n = int (length got) \<and> take (nat n) (b_data x1) = got \<and> n \<le> int (b_size x1) \<and>
      length (received (e_fd (items w v)) (trace w1)) \<le> limit \<and>
      (e_flag (items w1 v) \<noteq> FLAG_CONN \<longrightarrow> n < e_recv_count (items w1 v)))"
proof -
  let ?fv = "e_fd (items w v)" and ?fp = "e_fd (items w p)"
  note d = relay_okD [OF assms(1)]
  note parts = settled_parts [OF d(1)]
  have u: "e_buff (items w v) = Some b" "bufs w b = Some x" "b_offset x = 0" "b_lock x = 0"
    using assms(2) by (simp_all add: in_use_def)
  have len: "length (b_data x) = b_size x" using assms(1) u(2) by (auto simp: relay_ok_def stored_def)
  obtain n got new w1 where rc: "tcp_recv_hook v b w = Some (n, w1)" and gi: "got_into limit v b x w n got new w1"
    using tcp_recv_settled [OF d(1,2) u(2) len] by blast
  define x1 where "x1 = x\<lparr>b_data := new\<rparr>"
  have g: "still (w\<lparr>bufs := bufs w1\<rparr>) w1" "bufs w1 = (bufs w)(b \<mapsto> x1)" "length new = length (b_data x)"
    "received ?fv (trace w1) = received ?fv (trace w) @ got" "received ?fp (trace w1) = received ?fp (trace w)"
    "\<And>f. stream f (trace w1) = stream f (trace w)"
    using gi parts(6) [symmetric] unfolding got_into_def x1_def by blast+
  have n: "n = 0 \<longrightarrow> got = []" "0 < n \<longrightarrow> n = int (length got) \<and> take (nat n) new = got \<and> n \<le> int (b_size x) \<and>
      length (received ?fv (trace w1)) \<le> limit \<and> (e_flag (items w v) \<noteq> FLAG_CONN \<longrightarrow> n < e_recv_count (items w1 v))"
    using gi unfolding got_into_def by blast+
  have role: "same_role (items w u) (items w1 u)" for u using g(1) by (simp add: still_def)
  have fd1: "e_fd (items w1 u) = e_fd (items w u)" "e_buff (items w1 u) = e_buff (items w u)" "e_flag (items w1 u) = e_flag (items w u)" for u
    using role [of u] by (simp_all add: same_role_def)
  have tail: "same_tail x x1" using g(3) by (simp add: same_tail_def x1_def)
  have "0 < e_recv_count (items w v)" if "e_flag (items w v) \<noteq> FLAG_CONN"
    using that d(1) by (auto simp: settled_def joined_def)
  then have "bounds_ok (items w1 v) x1"
    using role [of v] u by (auto simp: bounds_ok_def x1_def same_role_def)
  note b1 = relay_ok_buffer [OF assms(1) u(1,2) tail g(1,2) this]
  have i1: "in_use v b x1 w1" using u g(2) fd1 by (simp add: in_use_def x1_def)
  moreover have "took v p w got w1"
    using g b1(2) in_use_pend [OF assms(2)] in_use_pend [OF i1] by (simp add: took_def fd1 still_def)
  moreover have "b_data x1 = new" "b_size x1 = b_size x" by (simp_all add: x1_def)
  ultimately show ?thesis using rc b1(1) n fd1(3) by (intro exI [of _ n] exI [of _ got] exI [of _ x1] exI [of _ w1]) simp
qed

text \<open>The second half: what goes out, and what is kept of it.\<close>

lemma relay_send:
  assumes "took v p w got w1" and "relay_ok limit w1 v p" and "in_use v b x w1" and "0 < n" and "n = int (length got)"
    and "take (nat n) (b_data x) = got" and "n \<le> int (b_size x)" and "e_flag (items w1 v) \<noteq> FLAG_CONN \<longrightarrow> n < e_recv_count (items w1 v)"
  shows "\<exists>sn w2. tcp_send_hook p b n False w1 = Some (sn, n, False, w2) \<and> 0 \<le> sn \<and> sn \<le> n \<and>
    (if sn < n then \<exists>w3. upd_buf b (\<lambda>x. x\<lparr>b_lock := n mod 2 ^ 32, b_offset := sn\<rparr>) w2 = Some w3 \<and> relay_step limit v p w 0 w3
     else relay_step limit v p w 0 w2 \<and> in_use v b x w2 \<and> received (e_fd (items w v)) (trace w2) = received (e_fd (items w v)) (trace w1))"
proof -
  let ?fv = "e_fd (items w v)" and ?fp = "e_fd (items w p)"
  note d = relay_okD [OF assms(2)]
  have u: "e_buff (items w1 v) = Some b" "bufs w1 b = Some x" "b_offset x = 0" "b_lock x = 0"
    using assms(3) by (simp_all add: in_use_def)
  have len: "length (b_data x) = b_size x" "b_size x < 2 ^ 32" using assms(2) u(2) by (auto simp: relay_ok_def stored_def)
  have t: "kernel w1 = kernel w \<and> params w1 = params w" "e_fd (items w1 v) = ?fv" "e_fd (items w1 p) = ?fp"
    "received ?fv (trace w1) = received ?fv (trace w) @ got" "received ?fp (trace w1) = received ?fp (trace w)"
    "\<And>f. stream f (trace w1) = stream f (trace w)" "pend w v = []" "pend w1 p = pend w p"
    using assms(1) by (simp_all add: took_def)
  have "0 \<le> b_offset x" "b_offset x \<le> n" "n \<le> int (length (b_data x))" using u assms(4,7) len(1) by simp_all
  from tcp_send_settled [OF d(1,2) u(2) this assms(8), of False] obtain sn w2 where
    s: "tcp_send_hook p b n False w1 = Some (sn, n, False, w2)" "still w1 w2" "0 \<le> sn" "sn \<le> n"
      "stream ?fp (trace w2) = stream ?fp (trace w) @ take (nat sn) (b_data x)" "stream ?fv (trace w2) = stream ?fv (trace w)"
      "\<And>f. received f (trace w2) = received f (trace w1)"
    unfolding u(3) t(2,3,6) by auto
  have tk: "take (nat sn) (b_data x) = take (nat sn) got" using s(3,4) assms(6) by (metis min.absorb1 nat_mono take_take)
  have st2: "still (w1\<lparr>bufs := bufs w2\<rparr>) w2" "bufs w2 = (bufs w1)(b \<mapsto> x)" using s(2) u(2) by (auto simp: still_def)
  have role: "same_role (items w1 u) (items w2 u)" for u using s(2) by (simp add: still_def)
  show ?thesis
  proof (cases "sn < n")
    case True
    define y where "y = x\<lparr>b_lock := n, b_offset := sn\<rparr>"
    have "n mod 2 ^ 32 = n" using assms(4,7) len(2) by simp
    then obtain w3 where w3: "upd_buf b (\<lambda>x. x\<lparr>b_lock := n mod 2 ^ 32, b_offset := sn\<rparr>) w2 = Some w3"
      "w3 = w2\<lparr>bufs := (bufs w1)(b \<mapsto> y)\<rparr>"
      using st2(2) by (simp add: upd_buf_def y_def)
    have st3: "still (w1\<lparr>bufs := bufs w3\<rparr>) w3" using s(2) by (simp add: w3(2) still_def)
    have "bounds_ok (items w1 v) y" using s(3,4) assms(7,8) by (auto simp: bounds_ok_def y_def)
    then have bo: "bounds_ok (items w3 v) y" using bounds_ok_same_role [OF role] by (simp add: w3(2))
    have ty: "same_tail x y" by (simp add: same_tail_def y_def)
    have b3: "bufs w3 = (bufs w1)(b \<mapsto> y)" by (simp add: w3(2))
    note r3 = relay_ok_buffer [OF assms(2) u(1,2) ty st3 b3 bo]
    have "pend w3 v = drop (nat sn) got" using r3(3) assms(6) by (simp add: y_def)
    then have "relay_step limit v p w 0 w3"
      using r3(1,2) t s tk role
      by (intro relay_stepI [of w3 w v p got "take (nat sn) got"]) (simp_all add: w3(2) same_role_def take_is_prefix still_def)
    then show ?thesis using s(1,3,4) True w3(1) by auto
  next
    case False
    have "bounds_ok (items w1 v) x" using u assms(4,8) by (auto simp: bounds_ok_def)
    then have "bounds_ok (items w2 v) x" using bounds_ok_same_role [OF role] by blast
    moreover have "same_tail x x" by (simp add: same_tail_def)
    ultimately have r2: "relay_ok limit w2 v p" "pend w2 p = pend w1 p"
      using relay_ok_buffer [OF assms(2) u(1,2) _ st2] by blast+
    have i2: "in_use v b x w2" using u st2(2) role [of v] by (simp add: in_use_def same_role_def)
    have "relay_step limit v p w 0 w2"
      using r2 t s tk role in_use_pend [OF i2] False assms(5)
      by (intro relay_stepI [of w2 w v p got got]) (simp_all add: same_role_def still_def)
    then show ?thesis using s i2 False by auto
  qed
qed

lemma relay_loop_ok:
  assumes "relay_ok limit w v p" and "in_use v b x w"
  shows "\<exists>r w'. relay_loop v p b w = Some (r, w') \<and> relay_step limit v p w r w'"
  using assms
proof (induction "limit - length (received (e_fd (items w v)) (trace w))" arbitrary: w x rule: less_induct)
  case less
  let ?fv = "e_fd (items w v)"
  obtain n got x1 w1 where rc: "tcp_recv_hook v b w = Some (n, w1)" "took v p w got w1" "relay_ok limit w1 v p" "in_use v b x1 w1"
    "n = 0 \<longrightarrow> got = []" and n: "0 < n \<longrightarrow> n = int (length got) \<and> take (nat n) (b_data x1) = got \<and> n \<le> int (b_size x1) \<and>
      length (received ?fv (trace w1)) \<le> limit \<and> (e_flag (items w1 v) \<noteq> FLAG_CONN \<longrightarrow> n < e_recv_count (items w1 v))"
    using relay_recv [OF less.prems] by blast
  have freed: "\<exists>w''. release_buff v p w' = Some w'' \<and> relay_step limit v p w 0 w''"
    if "relay_step limit v p w 0 w'" "in_use v b x1 w'" for w'
  proof -
    have "relay_ok limit w' v p" using that(1) by (simp add: relay_step_def)
    then show ?thesis
      using release_ok [of limit w' v p b] that relay_step_trans [OF that(1) order.refl] emptied_step in_use_pend
      unfolding in_use_def by (metis (no_types, lifting))
  qed
  consider "n = 0" | "n < 0" | "0 < n" by linarith
  then show ?case
  proof cases
    case 1
    then obtain w2 where "release_buff v p w1 = Some w2" "relay_step limit v p w 0 w2"
      using freed [OF took_step [OF rc(2,3)] rc(4)] rc(5) by auto
    then show ?thesis using 1 rc(1) by (auto simp: relay_loop.simps)
  next
    case 2
    then show ?thesis using rc(1) took_step [OF rc(2,3)] by (auto simp: relay_loop.simps)
  next
    case 3
    with n have n: "n = int (length got)" "take (nat n) (b_data x1) = got" "n \<le> int (b_size x1)"
      "length (received ?fv (trace w1)) \<le> limit" "e_flag (items w1 v) \<noteq> FLAG_CONN \<longrightarrow> n < e_recv_count (items w1 v)" by blast+
    obtain sn w2 where s: "tcp_send_hook p b n False w1 = Some (sn, n, False, w2)" "0 \<le> sn" "sn \<le> n"
      "if sn < n then \<exists>w3. upd_buf b (\<lambda>x. x\<lparr>b_lock := n mod 2 ^ 32, b_offset := sn\<rparr>) w2 = Some w3 \<and> relay_step limit v p w 0 w3
       else relay_step limit v p w 0 w2 \<and> in_use v b x1 w2 \<and> received ?fv (trace w2) = received ?fv (trace w1)"
      using relay_send [OF rc(2-4) 3 n(1-3,5)] by blast
    consider (short) "sn < n" | (full) "sn = n" "n = int (b_size x1)" | (last) "sn = n" "n \<noteq> int (b_size x1)" using s(3) by linarith
    then show ?thesis
    proof cases
      case short
      then obtain w3 where w3: "upd_buf b (\<lambda>x. x\<lparr>b_lock := n mod 2 ^ 32, b_offset := sn\<rparr>) w2 = Some w3" "relay_step limit v p w 0 w3"
        using s(4) by auto
      then have ok: "relay_ok limit w3 v p" by (simp add: relay_step_def)
      obtain r w4 where w4: "wait_for_room v p False w3 = Some (r, w4)" "idle w3 w4" using wait_ok relay_okD(1) [OF ok] by blast
      have "relay_loop v p b w = Some (r, w4)"
        using 3 rc(1) s(1,2) short w3(1) w4(1) by (subst relay_loop.simps) simp
      then show ?thesis using relay_step_trans [OF w3(2) order.refl relay_step_idle [OF ok w4(2)]] by blast
    next
      case full
      then have s2: "relay_step limit v p w 0 w2" "in_use v b x1 w2" "received ?fv (trace w2) = received ?fv (trace w1)"
        using s(4) by auto
      then have ok: "relay_ok limit w2 v p" and fd: "e_fd (items w2 v) = ?fv" by (simp_all add: relay_step_def)
      have "length (received ?fv (trace w2)) = length (received ?fv (trace w)) + length got" using s2(3) rc(2) by (simp add: took_def)
      then have "limit - length (received (e_fd (items w2 v)) (trace w2)) < limit - length (received ?fv (trace w))"
        using n(1,4) 3 s2(3) fd by (simp only: s2(3))
      from less.hyps [OF this ok s2(2)] obtain r w' where l: "relay_loop v p b w2 = Some (r, w')" "relay_step limit v p w2 r w'" by blast
      have "relay_loop v p b w = Some (r, w')"
        using 3 rc(1) s(1,2) full s2(2) l(1) by (subst relay_loop.simps) (simp add: in_use_def)
      then show ?thesis using relay_step_trans [OF s2(1) order.refl l(2)] by blast
    next
      case last
      then have s2: "relay_step limit v p w 0 w2" "in_use v b x1 w2" using s(4) by auto
      then obtain w3 where w3: "release_buff v p w2 = Some w3" "relay_step limit v p w 0 w3" using freed by blast
      have "relay_loop v p b w = Some (0, w3)"
        using 3 rc(1) s(1,2) last s2(2) w3(1) by (subst relay_loop.simps) (simp add: in_use_def)
      then show ?thesis using w3(2) by blast
    qed
  qed
qed

text \<open>What was kept is written first; then both sides are read again.\<close>

lemma flush_ok:
  assumes "relay_ok limit w v p"
  shows "\<exists>r w'. flush_buff v p w = Some (r, w') \<and>
    (case r of None \<Rightarrow> relay_step limit v p w 0 w' \<and> e_buff (items w' v) = None | Some k \<Rightarrow> relay_step limit v p w k w')"
proof (cases "e_buff (items w v)")
  case None
  then show ?thesis using relay_step_idle [OF assms idle_refl] by (auto simp: flush_buff_def)
next
  case (Some b)
  let ?fv = "e_fd (items w v)" and ?fp = "e_fd (items w p)"
  note d = relay_okD [OF assms]
  obtain x where x: "bufs w b = Some x" "bounds_ok (items w v) x" "length (b_data x) = b_size x"
    using assms Some by (auto simp: relay_ok_def held_def stored_def)
  define n where "n = b_lock x"
  have pw: "pend w v = drop (nat (b_offset x)) (take (nat n) (b_data x))" using Some x(1) by (simp add: pend_def n_def)
  obtain sn w1 where s: "tcp_send_hook p b n True w = Some (sn, n, False, w1)" "still w w1" "0 \<le> sn" "sn \<le> n - b_offset x"
    "stream ?fp (trace w1) = stream ?fp (trace w) @ take (nat sn) (drop (nat (b_offset x)) (b_data x))"
    "stream ?fv (trace w1) = stream ?fv (trace w)" "\<And>f. received f (trace w1) = received f (trace w)"
    using tcp_send_settled [OF d(1,2) x(1), of n True] x(2,3) by (auto simp: bounds_ok_def n_def)
  define out where "out = take (nat sn) (drop (nat (b_offset x)) (b_data x))"
  have out: "out = take (nat sn) (pend w v)"
  proof -
    have "0 \<le> b_offset x" "b_offset x \<le> n" using x(2) by (simp_all add: bounds_ok_def n_def)
    then have "nat sn \<le> nat n - nat (b_offset x)" using s(3,4) by linarith
    then show ?thesis by (simp add: out_def pw drop_take min_def)
  qed
  have role: "same_role (items w u) (items w1 u)" for u using s(2) by (simp add: still_def)
  have bf: "bufs w1 = bufs w" using s(2) by (simp add: still_def)
  have eb: "e_buff (items w1 v) = Some b" using role [of v] Some by (simp add: same_role_def)
  show ?thesis
  proof (cases "sn < n - b_offset x")
    case True
    define y where "y = x\<lparr>b_offset := b_offset x + sn\<rparr>"
    obtain w2 where w2: "upd_buf b (\<lambda>x. x\<lparr>b_offset := b_offset x + sn\<rparr>) w1 = Some w2" "w2 = w1\<lparr>bufs := (bufs w)(b \<mapsto> y)\<rparr>"
      using bf x(1) by (simp add: upd_buf_def y_def)
    have "still (w\<lparr>bufs := bufs w2\<rparr>) w2" "bufs w2 = (bufs w)(b \<mapsto> y)" using s(2) by (simp_all add: w2(2) still_def)
    moreover have "same_tail x y" by (simp add: same_tail_def y_def)
    moreover have "bounds_ok (items w2 v) y"
    proof -
      have "bounds_ok (items w v) y" using x(2) s(3) True by (auto simp: bounds_ok_def y_def n_def)
      then show ?thesis using bounds_ok_same_role [OF role] by (simp add: w2(2))
    qed
    ultimately have r: "relay_ok limit w2 v p" "pend w2 p = pend w p" "pend w2 v = drop (nat (b_offset x + sn)) (take (nat n) (b_data x))"
      using relay_ok_buffer [OF assms Some x(1), of y w2] by (simp_all add: y_def n_def)
    have "nat (b_offset x + sn) = nat sn + nat (b_offset x)" using s(3) x(2) by (simp add: bounds_ok_def nat_add_distrib)
    then have "pend w2 v = drop (nat sn) (pend w v)" by (simp add: r(3) pw)
    then have "out @ pend w2 v = pend w v" by (simp add: out)
    then have s2: "relay_step limit v p w 0 w2"
      using r(1,2) s role
      by (intro relay_stepI [of w2 w v p "[]" out]) (simp_all add: w2(2) same_role_def still_def out_def [symmetric] out take_is_prefix)
    obtain k w3 where w3: "wait_for_room v p False w2 = Some (k, w3)" "idle w2 w3"
      using wait_ok relay_okD(1) [OF r(1)] by blast
    have "flush_buff v p w = Some (Some k, w3)"
      using Some x(1) s(1,3) True w2(1) w3(1) eb by (simp add: flush_buff_def Let_def n_def)
    then show ?thesis using relay_step_trans [OF s2 order.refl relay_step_idle [OF r(1) w3(2)]] by auto
  next
    case False
    then have sn: "sn = n - b_offset x" using s(4) by simp
    have all: "out = pend w v" using out sn x(2) unfolding pw by (simp add: bounds_ok_def n_def nat_diff_distrib)
    have "bounds_ok (items w1 v) x" using bounds_ok_same_role [OF role] x(2) by blast
    moreover have "still (w\<lparr>bufs := bufs w1\<rparr>) w1" "bufs w1 = (bufs w)(b \<mapsto> x)" "same_tail x x"
      using s(2) bf x(1) by (auto simp: still_def same_tail_def)
    ultimately have r1: "relay_ok limit w1 v p" "pend w1 p = pend w p"
      using relay_ok_buffer [OF assms Some x(1)] by blast+
    obtain w2 where w2: "release_buff v p w1 = Some w2" "emptied limit v p w1 w2" "e_buff (items w2 v) = None"
      using release_ok [OF r1(1) eb] by blast
    have s2: "relay_step limit v p w 0 w2"
      using w2(2) r1 s role all
      by (intro relay_stepI [of w2 w v p "[]" out]) (simp_all add: emptied_def same_role_def still_def out_def [symmetric])
    have ok2: "relay_ok limit w2 v p" using w2(2) by (simp add: emptied_def)
    note parts2 = settled_parts [OF relay_okD(1) [OF ok2]]
    obtain k1 w3 where 3: "mod_etype v POLLIN w2 = Some (k1, w3)" "idle w2 w3" using mod_etype_idle parts2(4) by blast
    have "settled w3 v p" using settled_still relay_okD(1) [OF ok2] 3(2) by (auto simp: idle_def)
    then obtain k2 w4 where 4: "mod_etype p POLLIN w3 = Some (k2, w4)" "idle w3 w4" using mod_etype_idle settled_parts(5) by blast
    have fl: "flush_buff v p w = (if k1 \<noteq> 0 then Some (Some (- 1), w3) else Some (if k2 \<noteq> 0 then Some (- 1) else None, w4))"
      using Some x(1) s(1,3) sn w2(1) 3(1) 4(1) by (simp add: flush_buff_def Let_def n_def)
    have i4: "idle w2 w4" by (rule idle_trans [OF 3(2) 4(2)])
    then have "e_buff (items w4 v) = None" using w2(3) by (simp add: idle_def still_def same_role_def)
    then show ?thesis
      using fl relay_step_trans [OF s2 order.refl relay_step_idle [OF ok2 3(2)]]
        relay_step_trans [OF s2 order.refl relay_step_idle [OF ok2 i4]] by auto
  qed
qed

lemma tunnel_data_ok:
  assumes "relay_ok limit w v p"
  shows "\<exists>r w'. tunnel_data v p w = Some (r, w') \<and> relay_step limit v p w r w'"
proof -
  obtain k w1 where 1: "flush_buff v p w = Some (k, w1)"
    "case k of None \<Rightarrow> relay_step limit v p w 0 w1 \<and> e_buff (items w1 v) = None | Some r \<Rightarrow> relay_step limit v p w r w1"
    using flush_ok [OF assms] by blast
  show ?thesis
  proof (cases k)
    case (Some r)
    then show ?thesis using 1 by (simp add: tunnel_data_def)
  next
    case None
    then have s1: "relay_step limit v p w 0 w1" "e_buff (items w1 v) = None" using 1(2) by simp_all
    then have "relay_ok limit w1 v p" by (simp add: relay_step_def)
    from fetch_ok [OF this s1(2)] obtain q w2 where 2: "buff_pop (p_bfsize (params w1)) w1 = Some (q, w2)"
      "case q of None \<Rightarrow> relay_step limit v p w1 (- 1) w2
       | Some b \<Rightarrow> relay_step limit v p w1 0 (upd_ev v (\<lambda>e. e\<lparr>e_buff := Some b\<rparr>) w2) \<and>
           (\<exists>x. bufs w2 b = Some x \<and> b_offset x = 0 \<and> b_lock x = 0)" by blast
    show ?thesis
    proof (cases q)
      case None
      then show ?thesis
        using 1(1) 2 \<open>k = None\<close> relay_step_trans [OF s1(1) order.refl, of "- 1" w2] by (simp add: tunnel_data_def)
    next
      case (Some b)
      define w3 where "w3 = upd_ev v (\<lambda>e. e\<lparr>e_buff := Some b\<rparr>) w2"
      obtain x where x: "relay_step limit v p w1 0 w3" "bufs w2 b = Some x" "b_offset x = 0" "b_lock x = 0"
        using 2(2) Some by (auto simp: w3_def)
      have "relay_ok limit w3 v p" "in_use v b x w3"
        using x by (simp_all add: relay_step_def in_use_def w3_def upd_ev_def)
      from relay_loop_ok [OF this] obtain r w' where l: "relay_loop v p b w3 = Some (r, w')" "relay_step limit v p w3 r w'"
        by blast
      have "tunnel_data v p w = Some (r, w')"
        using 1(1) 2(1) \<open>k = None\<close> Some l(1) by (simp add: tunnel_data_def w3_def)
      then show ?thesis
        using relay_step_trans [OF relay_step_trans [OF s1(1) order.refl x(1)] order.refl l(2)] by blast
    qed
  qed
qed

lemma on_tunnel_ok:
  assumes "relay_ok limit w v p" and "et \<noteq> int POLLTIMEOUT \<or> p_timeout (params w) = 0"
  shows "\<exists>r w'. on_tunnel v et w = Some (r, w') \<and> relay_step limit v p w r w'"
proof -
  define w1 where "w1 = (if has_event et (POLLIN OR POLLOUT) then remove_timer p (remove_timer v w) else w)"
  have "idle w w1" using idle_trans [OF idle_remove_timer idle_remove_timer] by (simp add: w1_def)
  then have s1: "relay_step limit v p w r w1" for r using relay_step_idle [OF assms(1)] by blast
  from s1 [of 0] have ok: "relay_ok limit w1 v p" "params w1 = params w" by (simp_all add: relay_step_def)
  have ok': "relay_ok limit w1 p v" by (rule relay_okD(3) [OF ok(1)])
  have pr: "e_pair (items w v) = Some p" "e_pair (items w1 p) = Some v"
    using settled_parts(1,2) [OF relay_okD(1)] assms(1) ok(1) by blast+
  obtain r w2 where 2: "tunnel_data v p w1 = Some (r, w2)" "relay_step limit v p w1 r w2"
    using tunnel_data_ok [OF ok(1)] by blast
  obtain r' w3 where 3: "tunnel_data p v w1 = Some (r', w3)" "relay_step limit v p w1 r' w3"
    using tunnel_data_ok [OF ok'] relay_step_sym by blast
  have "on_tunnel v et w \<in> {Some (0, w1), Some (r, w2), Some (r', w3)}"
    unfolding on_tunnel_def pr(1) option.case Let_def w1_def [symmetric]
    using pr(2) 2(1) 3(1) assms(2) ok(2) by auto
  then show ?thesis
    using s1 relay_step_trans [OF s1 order.refl 2(2)] relay_step_trans [OF s1 order.refl 3(2)] by blast
qed

section \<open>Any sequence of events\<close>

text \<open>The events of the two sides, as the loop delivers them, until one ends the connection.\<close>

fun tunnel_run :: "(nat \<times> int) list \<Rightarrow> proc \<Rightarrow> (int \<times> proc) option" where
  "tunnel_run [] w = Some (0, w)"
| "tunnel_run ((u, et) # es) w = do { (r, w) \<leftarrow> on_tunnel u et w; if r < 0 then Some (r, w) else tunnel_run es w }"

lemma tunnel_run_ok:
  assumes "relay_ok limit w v p" and "\<forall>(u, et)\<in>set es. (u = v \<or> u = p) \<and> (et \<noteq> int POLLTIMEOUT \<or> p_timeout (params w) = 0)"
  shows "\<exists>r w'. tunnel_run es w = Some (r, w') \<and> relay_step limit v p w r w'"
  using assms
proof (induction es arbitrary: w)
  case Nil
  then show ?case using relay_step_idle [OF _ idle_refl] by auto
next
  case (Cons e es)
  obtain u et where e: "e = (u, et)" by fastforce
  have u: "u = v \<or> u = p" and et: "et \<noteq> int POLLTIMEOUT \<or> p_timeout (params w) = 0" using Cons.prems(2) e by auto
  from u have "\<exists>r w1. on_tunnel u et w = Some (r, w1) \<and> relay_step limit v p w r w1"
  proof
    assume "u = v"
    then show ?thesis using on_tunnel_ok [OF Cons.prems(1) et] by simp
  next
    assume "u = p"
    then show ?thesis using on_tunnel_ok [OF relay_okD(3) [OF Cons.prems(1)] et] relay_step_sym by blast
  qed
  then obtain r w1 where 1: "on_tunnel u et w = Some (r, w1)" "relay_step limit v p w r w1" by blast
  show ?case
  proof (cases "r < 0")
    case True
    then show ?thesis using 1 e by auto
  next
    case False
    then have "relay_ok limit w1 v p" "params w1 = params w" using 1(2) by (simp_all add: relay_step_def)
    then obtain r' w' where "tunnel_run es w1 = Some (r', w')" "relay_step limit v p w1 r' w'"
      using Cons.IH [of w1] Cons.prems(2) by auto
    then show ?thesis using 1 e False relay_step_trans [OF 1(2)] by auto
  qed
qed

text \<open>
  C2: A settled tunnel passes everything on. Settled (\<open>relay_ok\<close>) means that the client has sent, its first
  request is not kept any more, its answers are not watched, and the rounds its group works on are
  over; the buffers are well formed and different; and the sockets fail only by blocking (\<open>EAGAIN\<close>), never by a reset,
  take and give at most what was asked, and bring a bounded number of bytes. For every sequence of events of
  the two sides, without the timeout event unless no timeout is set (\<open>p_timeout = 0\<close>), and however little
  the sockets take at a time: every call of \<open>on_tunnel\<close> returns, and in both directions the bytes that were written to one
  side, followed by those kept in the buffer, are exactly the bytes read from the other, in order. If a call
  ends the connection, what was written is still a beginning of what was read: nothing is repeated,
  reordered or made up. (In the first rounds this does not hold: \<open>full_socket_loses_part\<close> of Desync_Props.)
\<close>

theorem tunnel_relays:
  assumes "relay_ok limit w v p" and "\<forall>(u, et)\<in>set es. (u = v \<or> u = p) \<and> (et \<noteq> int POLLTIMEOUT \<or> p_timeout (params w) = 0)"
  shows "\<exists>r w'. tunnel_run es w = Some (r, w') \<and>
    (\<forall>(a, b)\<in>{(v, p), (p, v)}. \<exists>got.
       received (e_fd (items w a)) (trace w') = received (e_fd (items w a)) (trace w) @ got \<and>
       prefix (stream (e_fd (items w b)) (trace w')) (stream (e_fd (items w b)) (trace w) @ pend w a @ got) \<and>
       (0 \<le> r \<longrightarrow> stream (e_fd (items w b)) (trace w') @ pend w' a = stream (e_fd (items w b)) (trace w) @ pend w a @ got))"
  using tunnel_run_ok [OF assms] unfolding relay_step_def passed_def by fast

text \<open>The remote side sends three bytes; the sockets take two at a time.\<close>

definition chat :: kernel where
  "chat tr c = (case c of
      Send fd bs \<Rightarrow> ok_answer (min 2 (int (length bs)))
    | Recv fd n \<Rightarrow> if fd = 9 \<and> received 9 tr = [] \<and> 3 \<le> n then (ok_answer 3)\<lparr>a_data := [65, 66, 67]\<rparr>
        else (ok_answer (- 1))\<lparr>a_errno := EAGAIN\<rparr>
    | _ \<Rightarrow> calm tr c)"

definition relaying :: "kernel \<Rightarrow> proc" where
  "relaying k = (fresh k)\<lparr>
     items := (\<lambda>v. if v = 1 then zero_eval\<lparr>e_fd := 9, e_index := 1, e_pair := Some 2, e_flag := FLAG_CONN\<rparr>
       else if v = 2 then zero_eval\<lparr>e_fd := 10, e_index := 2, e_pair := Some 1, e_dp := Some 7, e_recv_count := 5,
         e_round_count := 2\<rparr> else zero_eval\<lparr>e_fd := - 1\<rparr>),
     params := zero_params\<lparr>p_bfsize := 8\<rparr>\<rparr>"

lemma relaying_ok:
  assumes "net_ok limit k"
  shows "relay_ok limit (relaying k) 1 2"
proof -
  have "joined (relaying k) 2 1"
    by (simp add: joined_def relaying_def fresh_def zero_eval_def past_rounds_def zero_dp_def FLAG_CONN_def)
  moreover have "stored (relaying k) []" by (simp add: stored_def free_bufs_def relaying_def fresh_def)
  moreover have "held (relaying k) [] 1" "held (relaying k) [] 2" by (simp_all add: held_def relaying_def fresh_def zero_eval_def)
  moreover have "e_buff (items (relaying k) 1) = None" by (simp add: relaying_def zero_eval_def)
  moreover have "kernel (relaying k) = k" by (simp add: relaying_def fresh_def)
  ultimately show ?thesis using assms unfolding relay_ok_def settled_def by auto
qed

lemma chat_ok: "net_ok 3 chat"
  by (auto simp: net_ok_def send_ok_def blocks_def chat_def ok_answer_def)

theorem tunnel_relays_witness:
  "\<exists>r w' got. tunnel_run [(1, int POLLIN), (2, int POLLOUT)] (relaying chat) = Some (r, w') \<and>
     received 9 (trace w') = got \<and> prefix (stream 10 (trace w')) got \<and> (0 \<le> r \<longrightarrow> stream 10 (trace w') @ pend w' 1 = got)"
proof -
  have "e_fd (items (relaying chat) 1) = 9" "e_fd (items (relaying chat) 2) = 10" "trace (relaying chat) = []"
    "pend (relaying chat) 1 = []" "p_timeout (params (relaying chat)) = 0"
    by (simp_all add: relaying_def fresh_def zero_eval_def pend_def zero_params_def)
  then show ?thesis
    using tunnel_relays [OF relaying_ok [OF chat_ok], of "[(1, int POLLIN), (2, int POLLOUT)]"] by auto
qed

section \<open>Both buffers in use\<close>

text \<open>The calls between two processes, as in Desync_Props, for steps that only add to the trace.\<close>

lemma mod_etype_call:
  assumes "0 < e_fd (items w v)" and "\<And>tr. a_ret (kernel w tr (Epoll_ctl_mod (pl_efd w) (e_fd (items w v)) t v)) = 0"
  shows "\<exists>a. mod_etype v t w = Some (0, w\<lparr>trace := trace w @ [(Epoll_ctl_mod (pl_efd w) (e_fd (items w v)) t v, a)]\<rparr>)"
  using assms by (auto simp: mod_etype_def assert_c_def call_def sys_def Let_def)

text \<open>
  C40: A writable socket is left waiting. In a settled tunnel both sides hold a buffer, the one of side \<open>v\<close> with
  bytes for the other side \<open>p\<close>; every send to \<open>p\<close> would block, and \<open>epoll_ctl\<close> succeeds. Then the event that says that
  \<open>v\<close> can be written (not a timeout) is taken for the buffer of \<open>v\<close> itself: the call tries to send its bytes to \<open>p\<close>, which
  is refused, then stops watching \<open>v\<close> and watches \<open>p\<close> for writing. Nothing is written to \<open>v\<close>, though it is ready, and the
  bytes that wait for it in the buffer of \<open>p\<close>, if any, stay there; these three calls are all that is done.
\<close>

theorem writable_side_waits:
  assumes "relay_ok limit w v p" and "e_buff (items w v) = Some b" and "pend w v \<noteq> []" and "e_buff (items w p) \<noteq> None"
    and "has_event et POLLOUT" and "et \<noteq> int POLLTIMEOUT"
    and "\<And>tr bs. a_ret (kernel w tr (Send (e_fd (items w p)) bs)) < 0"
    and "\<And>tr u t. a_ret (kernel w tr (Epoll_ctl_mod (pl_efd w) (e_fd (items w u)) t u)) = 0"
  shows "\<exists>w'. on_tunnel v et w = Some (0, w') \<and> pend w' p = pend w p \<and>
    stream (e_fd (items w v)) (trace w') = stream (e_fd (items w v)) (trace w) \<and>
    calls w w' = [Send (e_fd (items w p)) (pend w v), Epoll_ctl_mod (pl_efd w) (e_fd (items w v)) 0 v,
      Epoll_ctl_mod (pl_efd w) (e_fd (items w p)) POLLOUT p]"
proof -
  define w1 where "w1 = (if has_event et (POLLIN OR POLLOUT) then remove_timer p (remove_timer v w) else w)"
  have i1: "idle w w1" using idle_trans [OF idle_remove_timer idle_remove_timer] by (simp add: w1_def)
  have tr1: "trace w1 = trace w" "pl_efd w1 = pl_efd w" by (simp_all add: w1_def remove_timer_def Let_def)
  have "relay_step limit v p w 0 w1" by (rule relay_step_idle [OF assms(1) i1])
  then have ok: "relay_ok limit w1 v p" by (simp add: relay_step_def)
  note d = relay_okD [OF ok]
  have k1: "kernel w1 = kernel w" "bufs w1 = bufs w" using i1 by (simp_all add: idle_def still_def)
  have role: "same_role (items w u) (items w1 u)" for u using i1 by (simp add: idle_def still_def)
  have e1: "e_fd (items w1 u) = e_fd (items w u)" "e_buff (items w1 u) = e_buff (items w u)" "e_pair (items w1 u) = e_pair (items w u)" for u
    using role [of u] by (simp_all add: same_role_def)
  obtain x where x: "bufs w1 b = Some x" "bounds_ok (items w1 v) x" "length (b_data x) = b_size x"
    using ok assms(2) e1(2) [of v] by (auto simp: relay_ok_def held_def stored_def)
  define n where "n = b_lock x"
  have pw: "pend w v = drop (nat (b_offset x)) (take (nat n) (b_data x))"
    using assms(2) x(1) k1(2) by (simp add: pend_def n_def)
  then have bs: "pend w v = take (nat (n - b_offset x)) (drop (nat (b_offset x)) (b_data x))"
    using x(2) by (simp add: drop_take bounds_ok_def n_def nat_diff_distrib)
  have more: "b_offset x < n" using assms(3) unfolding pw by (cases "b_offset x < n") auto
  obtain s w2 where s: "send (e_fd (items w1 p)) (pend w v) w1 = (s, w2)" by fastforce
  then obtain a where w2: "w2 = w1\<lparr>trace := trace w @ [(Send (e_fd (items w p)) (pend w v), a)], errno := errno w2\<rparr>" and neg: "s < 0"
    using assms(7) by (auto simp: send_def call_def sys_def Let_def e1 k1 tr1)
  have hook: "tcp_send_hook p b n True w1 = Some (0, n, False, w2)"
    using tcp_send_plain [OF d(1,2) x(1) _ _ _ _ s [unfolded bs], of True] neg x(2,3) by (simp add: bounds_ok_def n_def)
  have st2: "items w2 = items w1" "bufs w2 = bufs w1" "kernel w2 = kernel w" "pl_efd w2 = pl_efd w"
    by (subst w2; simp add: k1 tr1)+
  define w3 where "w3 = w2\<lparr>bufs := (bufs w1)(b \<mapsto> x\<lparr>b_offset := b_offset x + 0\<rparr>)\<rparr>"
  have w3: "upd_buf b (\<lambda>x. x\<lparr>b_offset := b_offset x + 0\<rparr>) w2 = Some w3"
    using x(1) st2(2) by (simp add: upd_buf_def w3_def)
  have i3: "items w3 = items w1" "kernel w3 = kernel w" "pl_efd w3 = pl_efd w" by (simp_all add: w3_def st2)
  have b3: "bufs w3 = bufs w1" using x(1) by (simp add: w3_def fun_upd_idem)
  have pos: "0 < e_fd (items w3 v)" "0 < e_fd (items w3 p)" using settled_parts(4,5) [OF d(1)] i3(1) by simp_all
  from mod_etype_call [OF pos(1), of 0] obtain a1 where m1: "mod_etype v 0 w3 =
      Some (0, w3\<lparr>trace := trace w3 @ [(Epoll_ctl_mod (pl_efd w3) (e_fd (items w3 v)) 0 v, a1)]\<rparr>)"
    using assms(8) by (auto simp: i3 e1)
  define w4 where "w4 = w3\<lparr>trace := trace w3 @ [(Epoll_ctl_mod (pl_efd w) (e_fd (items w v)) 0 v, a1)]\<rparr>"
  have "0 < e_fd (items w4 p)" using pos(2) by (simp add: w4_def)
  from mod_etype_call [OF this, of POLLOUT] obtain a2 where m2: "mod_etype p POLLOUT w4 =
      Some (0, w4\<lparr>trace := trace w4 @ [(Epoll_ctl_mod (pl_efd w4) (e_fd (items w4 p)) POLLOUT p, a2)]\<rparr>)"
    using assms(8) by (auto simp: w4_def i3 e1)
  define w' where "w' = w4\<lparr>trace := trace w4 @ [(Epoll_ctl_mod (pl_efd w) (e_fd (items w p)) POLLOUT p, a2)]\<rparr>"
  have wait: "wait_for_room v p False w3 = Some (0, w')"
    using m1 m2 by (simp add: wait_for_room_def w4_def w'_def i3 e1)
  have eb: "e_buff (items w1 v) = Some b" "e_buff (items w2 v) = Some b" using assms(2) e1 st2(1) by simp_all
  have "flush_buff v p w1 = Some (Some 0, w')"
    using eb x(1) hook more w3 wait by (simp add: flush_buff_def Let_def n_def)
  then have "tunnel_data v p w1 = Some (0, w')" by (simp add: tunnel_data_def)
  moreover have "on_tunnel v et w = tunnel_data v p w1"
    using assms(2,4,6) settled_parts(1) [OF relay_okD(1) [OF assms(1)]] e1
    unfolding on_tunnel_def Let_def by (simp add: w1_def [symmetric])
  moreover have tr: "trace w' = trace w @ [(Send (e_fd (items w p)) (pend w v), a),
      (Epoll_ctl_mod (pl_efd w) (e_fd (items w v)) 0 v, a1), (Epoll_ctl_mod (pl_efd w) (e_fd (items w p)) POLLOUT p, a2)]"
    by (simp add: w'_def w4_def w3_def) (subst w2, simp)
  moreover have "pend w' p = pend w p"
  proof -
    have "items w' = items w1" "bufs w' = bufs w" by (simp_all add: w'_def w4_def i3 b3 k1)
    then show ?thesis by (simp only: pend_def e1)
  qed
  ultimately show ?thesis using settled_parts(6) [OF relay_okD(1) [OF assms(1)]] by (auto simp: calls_def accepted_def)
qed

text \<open>
  The state is reached when both sides can be read and neither written: the client never reads, the remote
  side is ready again after a first refusal.
\<close>

definition stuck :: kernel where
  "stuck tr c = (case c of
      Send fd bs \<Rightarrow> if fd = 9 \<and> list_ex (\<lambda>(c, a). case c of Send f b \<Rightarrow> f = 9 | _ \<Rightarrow> False) tr then ok_answer (int (length bs))
        else (ok_answer (- 1))\<lparr>a_errno := EAGAIN\<rparr>
    | Recv fd n \<Rightarrow> if received fd tr = [] \<and> 3 \<le> n then (ok_answer 3)\<lparr>a_data := (if fd = 9 then [65, 66, 67] else [88, 89, 90])\<rparr>
        else (ok_answer (- 1))\<lparr>a_errno := EAGAIN\<rparr>
    | _ \<Rightarrow> calm tr c)"

lemma stuck_ok: "net_ok 3 stuck"
  by (auto simp: net_ok_def send_ok_def blocks_def stuck_def ok_answer_def)

lemma stuck_reached:
  "map_option (\<lambda>(r, w). (r, e_buff (items w 1), e_buff (items w 2), pend w 1, pend w 2))
     (tunnel_run [(1, int POLLIN), (2, int POLLIN)] (relaying stuck)) =
   Some (0, Some 100, Some 101, [65, 66, 67], [88, 89, 90])"
  by code_simp

theorem writable_side_waits_witness:
  "\<exists>w w'. tunnel_run [(1, int POLLIN), (2, int POLLIN)] (relaying stuck) = Some (0, w) \<and>
     on_tunnel 1 (int POLLOUT) w = Some (0, w') \<and> pend w' 2 = [88, 89, 90] \<and> stream 9 (trace w') = stream 9 (trace w)"
proof -
  let ?es = "[(1, int POLLIN), (2, int POLLIN)]"
  have "p_timeout (params (relaying stuck)) = 0" by (simp add: relaying_def zero_params_def)
  then obtain r w where run: "tunnel_run ?es (relaying stuck) = Some (r, w)" "relay_step 3 1 2 (relaying stuck) r w"
    using tunnel_run_ok [OF relaying_ok [OF stuck_ok], of ?es] by auto
  then have w: "r = 0" "e_buff (items w 1) = Some 100" "e_buff (items w 2) = Some 101" "pend w 1 = [65, 66, 67]" "pend w 2 = [88, 89, 90]"
    using stuck_reached by simp_all
  have fd: "e_fd (items w 1) = 9" "e_fd (items w 2) = 10" and k: "kernel w = stuck" and ok: "relay_ok 3 w 1 2"
    using run(2) w(1) by (simp_all add: relay_step_def relaying_def fresh_def zero_eval_def)
  show ?thesis
    using writable_side_waits [OF ok w(2), of "int POLLOUT"] run(1) w fd
    by (auto simp: k stuck_def has_event_def POLLOUT_def POLLTIMEOUT_def ok_answer_def calm_def)
qed

end
