(* ===== verification/Request_Props.thy ===== *)
theory Request_Props
  imports Tunnel_Props
begin

text \<open>
  The first request of a client, which extend.c keeps to send it again over another connection: what
  \<open>client_data\<close> stores, and what \<open>refill\<close>, the first part of \<open>reconnect\<close>, puts back into the buffer.
\<close>

section \<open>The kept request\<close>

definition kept_request :: "proc \<Rightarrow> nat \<Rightarrow> mem" where
  "kept_request w v = (case e_sq_buff (items w v) of None \<Rightarrow> []
     | Some q \<Rightarrow> (case bufs w q of None \<Rightarrow> [] | Some y \<Rightarrow> take (nat (b_lock y)) (b_data y)))"

text \<open>The buffers all have the size that the options give.\<close>

definition one_size :: "proc \<Rightarrow> bool" where
  "one_size w \<longleftrightarrow> (\<forall>b x. bufs w b = Some x \<longrightarrow> b_size x = p_bfsize (params w))"

text \<open>
  The client has sent \<open>got\<close>, which lies in its buffer \<open>b\<close>; it is its first data, or the request so far is
  kept in another buffer.
\<close>

definition sending :: "proc \<Rightarrow> nat list \<Rightarrow> nat \<Rightarrow> nat \<Rightarrow> mem \<Rightarrow> bool" where
  "sending w bs v b got \<longleftrightarrow> stored w bs \<and> one_size w \<and> e_buff (items w v) = Some b \<and> b \<notin> set bs \<and> got \<noteq> [] \<and>
     (\<exists>x. bufs w b = Some x \<and> length got \<le> b_size x \<and> take (length got) (b_data x) = got) \<and>
     (case e_sq_buff (items w v) of
        None \<Rightarrow> e_recv_count (items w v) = int (length got)
      | Some q \<Rightarrow> q \<notin> set bs \<and> q \<noteq> b \<and> (\<exists>y. bufs w q = Some y \<and> 0 \<le> b_lock y))"

text \<open>Storing \<open>got\<close> behind what a buffer holds.\<close>

lemma store_behind:
  assumes "bufs w q = Some y" and "0 \<le> b_lock y" and "length (b_data y) = b_size y" and "b_lock y + int (length got) < int (b_size y)"
  defines "y' \<equiv> y\<lparr>b_lock := b_lock y + int (length got)\<rparr>"
  shows "\<exists>new. put_bytes (b_data y') (b_lock y' - int (length got)) got = Some new \<and> length new = length (b_data y) \<and>
    take (nat (b_lock y')) new = take (nat (b_lock y)) (b_data y) @ got"
proof -
  have len: "nat (b_lock y) + length got \<le> length (b_data y)" using assms(2-4) by linarith
  have n: "nat (b_lock y + int (length got)) = nat (b_lock y) + length got" using assms(2) by (simp add: nat_add_distrib)
  have "put_bytes (b_data y') (b_lock y' - int (length got)) got =
      Some (take (nat (b_lock y)) (b_data y) @ got @ drop (nat (b_lock y) + length got) (b_data y))"
    using assms(2) len by (simp add: put_bytes_def memcpy_inside y'_def)
  then show ?thesis using len n by (simp add: y'_def)
qed

lemma append_request:
  assumes "bufs w b = Some x" and "e_sq_buff (items w v) = Some q" and "bufs w q = Some y" and "0 \<le> b_lock y"
    and "length (b_data y) = b_size y" and "length got \<le> length (b_data x)" and "take (length got) (b_data x) = got"
    and "b_lock y + int (length got) < int (b_size y)" and "p_auto_reconnect (params w)" and "q \<noteq> b"
  shows "\<exists>y'. client_data v b (int (length got)) w = Some (False, w\<lparr>bufs := (bufs w)(q \<mapsto> y')\<rparr>) \<and>
    b_size y' = b_size y \<and> length (b_data y') = b_size y \<and> b_lock y' = b_lock y + int (length got) \<and>
    take (nat (b_lock y')) (b_data y') = take (nat (b_lock y)) (b_data y) @ got"
proof -
  obtain new where new: "put_bytes (b_data y) (b_lock y) got = Some new" "length new = length (b_data y)"
    "take (nat (b_lock y + int (length got))) new = take (nat (b_lock y)) (b_data y) @ got"
    using store_behind [OF assms(3-5,8)] by auto
  have "slice (b_data x) 0 (length got) = Some got" using assms(6,7) by (simp add: slice_inside)
  then have "client_data v b (int (length got)) w = Some (False, w\<lparr>bufs := (bufs w)(q \<mapsto> y\<lparr>b_lock := b_lock y + int (length got), b_data := new\<rparr>)\<rparr>)"
    using assms(1-3,8-10) new(1) by (simp add: client_data_def upd_buf_def)
  then show ?thesis using new assms(5) by (intro exI [of _ "y\<lparr>b_lock := b_lock y + int (length got), b_data := new\<rparr>"]) simp
qed


section \<open>The kept request and the pool of buffers\<close>

text \<open>The request is kept in \<open>q\<close>, which is not free.\<close>

definition keeps_request :: "proc \<Rightarrow> nat list \<Rightarrow> nat \<Rightarrow> nat \<Rightarrow> bool" where
  "keeps_request w bs v q \<longleftrightarrow> stored w bs \<and> one_size w \<and> e_sq_buff (items w v) = Some q \<and> q \<notin> set bs \<and>
     (\<exists>y. bufs w q = Some y \<and> 0 \<le> b_lock y \<and> b_lock y \<le> int (b_size y))"

lemma one_size_same:
  assumes "one_size w" and "same_size w w'" and "unmoved w w'"
  shows "one_size w'"
  using assms unfolding one_size_def same_size_def unmoved_def by metis

lemma one_size_upd_ev [simp]: "one_size (upd_ev v f w) = one_size w"
  by (simp add: one_size_def upd_ev_def)

lemma stored_write:
  assumes "stored w bs" and "bufs w q = Some y" and "q \<notin> set bs" and "b_size y' = b_size y" and "length (b_data y') = b_size y"
  shows "stored (w\<lparr>bufs := (bufs w)(q \<mapsto> y')\<rparr>) bs"
proof -
  have "chain ((bufs w)(q \<mapsto> y')) b_next (root_buff w) bs \<longleftrightarrow> chain (bufs w) b_next (root_buff w) bs"
    using assms(3) by (intro chain_cong) auto
  then show ?thesis using assms by (auto simp: stored_def free_bufs_def)
qed

lemma keeps_push:
  assumes "keeps_request w bs v q" and "bufs w b = Some x" and "b \<notin> set bs" and "b \<noteq> q"
  shows "\<exists>w' cs. buff_push (Some b) w = Some w' \<and> keeps_request w' cs v q \<and> kept_request w' v = kept_request w v \<and> unmoved w w'"
proof -
  have st: "stored w bs" "one_size w" using assms(1) by (simp_all add: keeps_request_def)
  obtain w' cs where 1: "buff_push (Some b) w = Some w'" "stored w' cs" "set cs \<subseteq> insert b (set bs)" "unmoved w w'" "same_size w w'"
    "\<And>c. c \<noteq> b \<Longrightarrow> bufs w' c = bufs w c"
    using give_stored [OF st(1) assms(2,3)] by metis
  have q: "bufs w' q = bufs w q" using 1(6) assms(4) by simp
  have "keeps_request w' cs v q"
    using assms(1,4) 1(2,3,4) one_size_same [OF st(2) 1(5,4)] q by (auto simp: keeps_request_def unmoved_def)
  moreover have "kept_request w' v = kept_request w v"
    using assms(1) 1(4) q by (simp add: keeps_request_def kept_request_def unmoved_def)
  ultimately show ?thesis using 1(1,4) by blast
qed

text \<open>Putting the request into a buffer that the client has.\<close>

lemma refill_into:
  assumes "keeps_request w bs v q" and "e_buff (items w v) = Some b" and "bufs w b = Some z" and "b \<noteq> q"
  shows "\<exists>w'. refill v w = Some w' \<and> pend w' v = kept_request w v \<and> kept_request w' v = kept_request w v \<and> unmoved w w'"
proof -
  obtain y where y: "bufs w q = Some y" "0 \<le> b_lock y" "b_lock y \<le> int (b_size y)" and eq: "e_sq_buff (items w v) = Some q"
    using assms(1) by (auto simp: keeps_request_def)
  have len: "length (b_data y) = b_size y" "length (b_data z) = b_size z" "b_size z = b_size y"
    using assms(1,3) y(1) by (auto simp: keeps_request_def stored_def one_size_def)
  define kept where "kept = take (nat (b_lock y)) (b_data y)"
  have n: "length kept = nat (b_lock y)" using y(3) len by (simp add: kept_def)
  have "slice (b_data y) 0 (nat (b_lock y)) = Some kept" using y(3) len by (simp add: slice_inside kept_def)
  moreover have "memcpy (b_data z) 0 kept = Some (kept @ drop (length kept) (b_data z))"
    using y(3) len n by (simp add: memcpy_inside)
  ultimately have "refill v w = Some (w\<lparr>bufs := (bufs w)(b \<mapsto> z\<lparr>b_lock := b_lock y, b_data := kept @ drop (length kept) (b_data z), b_offset := 0\<rparr>)\<rparr>)"
    using assms(2,3,4) y eq by (simp add: refill_def upd_buf_def)
  moreover have "kept_request w v = kept" using eq y(1) by (simp add: kept_request_def kept_def)
  ultimately show ?thesis
    using assms(2,4) eq y(1) n by (simp add: pend_def kept_request_def unmoved_def kept_def)
qed

text \<open>The same when the client has none: one is taken from the pool.\<close>

lemma refill_new:
  assumes "keeps_request w bs v q" and "e_buff (items w v) = None" and "gives_memory (kernel w)"
  shows "\<exists>w'. refill v w = Some w' \<and> pend w' v = kept_request w v \<and> kept_request w' v = kept_request w v"
proof -
  obtain y where y: "bufs w q = Some y" "0 \<le> b_lock y" "b_lock y \<le> int (b_size y)" and eq: "e_sq_buff (items w v) = Some q"
    and q: "q \<notin> set bs" and st: "stored w bs" "one_size w"
    using assms(1) by (auto simp: keeps_request_def)
  obtain b w1 where 1: "buff_pop (p_bfsize (params w)) w = Some (Some b, w1)" "stored w1 (tl bs)" "unmoved w w1" "same_size w w1"
    "\<And>c. live_buf w c \<Longrightarrow> bufs w1 c = bufs w c \<and> (c \<notin> set bs \<longrightarrow> Some b \<noteq> Some c)" "empty_buf w1 b"
    using take_stored [OF st(1)] assms(3) by (metis option.exhaust)
  define w2 where "w2 = upd_ev v (\<lambda>e. e\<lparr>e_buff := Some b\<rparr>) w1"
  have q1: "bufs w1 q = Some y" "b \<noteq> q" "q \<notin> set (tl bs)" using 1(5) [of q] y q by (auto; cases bs; auto)+
  have it: "items w1 = items w" using 1(3) by (simp add: unmoved_def)
  have k: "keeps_request w2 (tl bs) v q"
    using 1(2) one_size_same [OF st(2) 1(4,3)] q1 eq y by (simp add: keeps_request_def w2_def it) (simp add: upd_ev_def it)
  obtain z where z: "bufs w2 b = Some z" using 1(6) by (auto simp: empty_buf_def w2_def upd_ev_def)
  have eb: "e_buff (items w2 v) = Some b" by (simp add: w2_def upd_ev_def)
  obtain w' where w': "refill v w2 = Some w'" "pend w' v = kept_request w2 v" "kept_request w' v = kept_request w2 v"
    using refill_into [OF k eb z] q1(2) by auto
  have "b_size y = p_bfsize (params w)" using st(2) y(1) by (simp add: one_size_def)
  then have "refill v w = refill v w2"
    using 1(1) assms(2) eq y(1) it eb q1(1) by (simp add: refill_def) (simp add: w2_def upd_ev_def)
  moreover have "kept_request w2 v = kept_request w v"
    using eq y(1) q1(1) it by (simp add: kept_request_def w2_def upd_ev_def)
  ultimately show ?thesis using w' by simp
qed


section \<open>The request is kept and sent again\<close>

lemma client_data_keeps:
  assumes "sending w bs v b got" and "gives_memory (kernel w)" and "p_auto_reconnect (params w)"
    and "length (kept_request w v) + length got < p_bfsize (params w)"
  shows "\<exists>w' cs q. client_data v b (int (length got)) w = Some (False, w') \<and> keeps_request w' cs v q \<and> q \<noteq> b \<and> b \<notin> set cs \<and>
    bufs w' b = bufs w b \<and> e_buff (items w' v) = Some b \<and> kernel w' = kernel w \<and> kept_request w' v = kept_request w v @ got"
proof -
  obtain x where x: "bufs w b = Some x" "length got \<le> b_size x" "take (length got) (b_data x) = got"
    and s: "stored w bs" "one_size w" "e_buff (items w v) = Some b" "b \<notin> set bs" "got \<noteq> []"
    using assms(1) by (auto simp: sending_def)
  have lx: "b_size x = p_bfsize (params w)" "length got \<le> length (b_data x)" using x(1,2) s(1,2) by (auto simp: one_size_def stored_def)
  have append: ?thesis
    if w1: "stored w1 cs" "one_size w1" "e_sq_buff (items w1 v) = Some q" "bufs w1 q = Some y" "0 \<le> b_lock y" "q \<noteq> b" "q \<notin> set cs"
      "b \<notin> set cs" "bufs w1 b = Some x" "params w1 = params w" "kernel w1 = kernel w" "e_buff (items w1 v) = Some b"
      and same: "client_data v b (int (length got)) w = client_data v b (int (length got)) w1" and kept: "kept_request w1 v = kept_request w v"
    for w1 cs q y
  proof -
    have ly: "b_size y = p_bfsize (params w)" "length (b_data y) = b_size y" using w1(1,2,4,10) by (auto simp: one_size_def stored_def)
    have k: "kept_request w v = take (nat (b_lock y)) (b_data y)" using kept w1(3,4) by (simp add: kept_request_def)
    have room: "b_lock y + int (length got) < int (b_size y)" using assms(4) ly w1(5) by (simp add: k min_def split: if_splits)
    obtain y' where y': "client_data v b (int (length got)) w1 = Some (False, w1\<lparr>bufs := (bufs w1)(q \<mapsto> y')\<rparr>)" "b_size y' = b_size y"
      "length (b_data y') = b_size y" "b_lock y' = b_lock y + int (length got)" "take (nat (b_lock y')) (b_data y') = kept_request w v @ got"
      using append_request [OF w1(9,3,4,5) ly(2) lx(2) x(3) room] assms(3) w1(6,10) k by auto
    have "stored (w1\<lparr>bufs := (bufs w1)(q \<mapsto> y')\<rparr>) cs" by (rule stored_write [OF w1(1,4,7) y'(2,3)])
    then have "keeps_request (w1\<lparr>bufs := (bufs w1)(q \<mapsto> y')\<rparr>) cs v q"
      using w1(2,3,4,5,7) y'(2,4) room by (auto simp: keeps_request_def one_size_def)
    then show ?thesis
      using y'(1,5) same w1(3,6,8,9,11,12) x(1)
      by (intro exI [of _ "w1\<lparr>bufs := (bufs w1)(q \<mapsto> y')\<rparr>"] exI [of _ cs] exI [of _ q]) (simp add: kept_request_def)
  qed
  show ?thesis
  proof (cases "e_sq_buff (items w v)")
    case (Some q)
    then obtain y where "q \<notin> set bs" "q \<noteq> b" "bufs w q = Some y" "0 \<le> b_lock y" using assms(1) by (auto simp: sending_def)
    then show ?thesis using append [of w bs q y] s x(1) Some by simp
  next
    case None
    then have first: "e_recv_count (items w v) = int (length got)" using assms(1) by (simp add: sending_def)
    obtain q w1 where 1: "buff_pop (p_bfsize (params w)) w = Some (Some q, w1)" "stored w1 (tl bs)" "unmoved w w1" "same_size w w1"
      "\<And>c. live_buf w c \<Longrightarrow> bufs w1 c = bufs w c \<and> (c \<notin> set bs \<longrightarrow> Some q \<noteq> Some c)" "q \<notin> set (tl bs)" "empty_buf w1 q"
      using take_stored [OF s(1)] assms(2) by (metis option.exhaust)
    define w2 where "w2 = upd_ev v (\<lambda>e. e\<lparr>e_sq_buff := Some q\<rparr>) w1"
    have it: "items w1 = items w" "params w1 = params w" "kernel w1 = kernel w" using 1(3) by (simp_all add: unmoved_def)
    have b: "bufs w1 b = Some x" "q \<noteq> b" "b \<notin> set (tl bs)" using 1(5) [of b] x(1) s(4) by (auto; cases bs; auto)+
    obtain y where y: "bufs w1 q = Some y" "b_lock y = 0" using 1(7) by (auto simp: empty_buf_def)
    have i2: "e_sq_buff (items w2 v) = Some q" "e_buff (items w2 v) = Some b" "bufs w2 = bufs w1" "params w2 = params w" "kernel w2 = kernel w"
      using s(3) it by (simp_all add: w2_def upd_ev_def)
    have "client_data v b (int (length got)) w = client_data v b (int (length got)) w2"
      using 1(1) None first assms(3) x(1) b(1) lx(1) i2 by (simp add: client_data_def w2_def)
    moreover have "kept_request w2 v = kept_request w v" using None y i2 by (simp add: kept_request_def)
    moreover have "one_size w2" "stored w2 (tl bs)" using one_size_same [OF s(2) 1(4,3)] 1(2) by (simp_all add: w2_def)
    ultimately show ?thesis using append [of w2 "tl bs" q y] 1(6) b y i2 by simp
  qed
qed

text \<open>
  C8: The first request of a client is kept and can be sent again. Let the option that asks for it be
  on (\<open>p_auto_reconnect\<close>), memory be given, a piece of at least one byte have arrived that is the first or follows
  pieces that are kept (\<open>sending\<close>), all buffers have the one size \<open>p_bfsize\<close>, and what is kept and what has arrived
  together be shorter than this size. Then \<open>client_data\<close> stores the received piece behind the earlier ones, in a
  buffer of its own; \<open>refill\<close>, with which \<open>reconnect\<close> begins, puts the whole request back in front of the new
  connection, whether the client still has its buffer or has given it back to the pool, and still keeps it
  for the next attempt. (A request that fills the buffer is given up instead.)
\<close>

theorem first_request_replayed:
  assumes "sending w bs v b got" and "gives_memory (kernel w)" and "p_auto_reconnect (params w)"
    and "length (kept_request w v) + length got < p_bfsize (params w)"
  shows "\<exists>w1. client_data v b (int (length got)) w = Some (False, w1) \<and> kept_request w1 v = kept_request w v @ got \<and>
    (\<exists>u. refill v w1 = Some u \<and> pend u v = kept_request w v @ got \<and> kept_request u v = kept_request w v @ got) \<and>
    (\<exists>w2 u. buff_push (Some b) w1 = Some w2 \<and> refill v (upd_ev v (\<lambda>e. e\<lparr>e_buff := None\<rparr>) w2) = Some u \<and>
       pend u v = kept_request w v @ got \<and> kept_request u v = kept_request w v @ got)"
proof -
  obtain w1 cs q where 1: "client_data v b (int (length got)) w = Some (False, w1)" "keeps_request w1 cs v q" "q \<noteq> b" "b \<notin> set cs"
    "bufs w1 b = bufs w b" "e_buff (items w1 v) = Some b" "kernel w1 = kernel w" "kept_request w1 v = kept_request w v @ got"
    using client_data_keeps [OF assms] by metis
  obtain x where x: "bufs w1 b = Some x" using assms(1) 1(5) by (auto simp: sending_def)
  obtain w2 ds where 2: "buff_push (Some b) w1 = Some w2" "keeps_request w2 ds v q" "kept_request w2 v = kept_request w1 v" "unmoved w1 w2"
    using keeps_push [OF 1(2) x 1(4)] 1(3) by metis
  let ?w3 = "upd_ev v (\<lambda>e. e\<lparr>e_buff := None\<rparr>) w2"
  have 3: "keeps_request ?w3 ds v q" "kept_request ?w3 v = kept_request w2 v" "e_buff (items ?w3 v) = None" "kernel ?w3 = kernel w"
    using 2(2,4) 1(7) stored_upd_ev [of v "\<lambda>e. e\<lparr>e_buff := None\<rparr>" w2 ds] one_size_upd_ev [of v "\<lambda>e. e\<lparr>e_buff := None\<rparr>" w2]
    by (simp_all add: keeps_request_def kept_request_def upd_ev_def unmoved_def)
  show ?thesis
    using 1(1,8) 2(1,3) 3(2) refill_into [OF 1(2,6) x] 1(3) refill_new [OF 3(1,3)] assms(2) 3(4) by auto
qed

text \<open>A client that has sent three bytes, and its buffer.\<close>

definition asking :: proc where
  "asking = (fresh calm)\<lparr>
     items := (\<lambda>_. zero_eval\<lparr>e_fd := 9, e_buff := Some 50, e_recv_count := 3\<rparr>),
     bufs := [50 \<mapsto> \<lparr>b_size = 8, b_offset = 0, b_lock = 0, b_next = None, b_data = [65, 66, 67, 0, 0, 0, 0, 0]\<rparr>],
     params := zero_params\<lparr>p_bfsize := 8, p_auto_reconnect := True\<rparr>\<rparr>"

theorem first_request_replayed_witness:
  "\<exists>w1 w2 u. client_data 1 50 3 asking = Some (False, w1) \<and> buff_push (Some 50) w1 = Some w2 \<and>
     refill 1 (upd_ev 1 (\<lambda>e. e\<lparr>e_buff := None\<rparr>) w2) = Some u \<and> pend u 1 = [65, 66, 67]"
proof -
  have "stored asking []" by (simp add: stored_def free_bufs_def asking_def fresh_def zero_params_def)
  then have "sending asking [] 1 50 [65, 66, 67]"
    by (simp add: sending_def one_size_def asking_def fresh_def zero_eval_def zero_params_def)
  moreover have "gives_memory (kernel asking)" by (simp add: gives_memory_def asking_def samples)
  moreover have "kept_request asking 1 = []" "params asking = zero_params\<lparr>p_bfsize := 8, p_auto_reconnect := True\<rparr>"
    by (simp_all add: kept_request_def asking_def zero_eval_def)
  ultimately show ?thesis using first_request_replayed [of asking "[]" 1 50 "[65, 66, 67]"] by auto
qed

end
