(* ===== verification/Trigger_Props.thy ===== *)
theory Trigger_Props
  imports Groups_Props
begin

text \<open>
  The group that \<open>on_trigger\<close> of extend.c goes to next. The code walks the list once with two
  masks; what it finds is described here with the list of groups alone.
\<close>

section \<open>The reference\<close>

text \<open>A group that was tried, and a group that a trigger may go to.\<close>

definition tried :: "proc \<Rightarrow> 64 word \<Rightarrow> nat \<Rightarrow> bool" where
  "tried w m d \<longleftrightarrow> d_bit (groups w d) AND m \<noteq> 0"

definition answers :: "proc \<Rightarrow> nat \<Rightarrow> bool \<Rightarrow> 64 word \<Rightarrow> nat \<Rightarrow> bool" where
  "answers w type can_reconn m d \<longleftrightarrow> \<not> tried w m d \<and>
     (d_detect (groups w d) = 0 \<or> d_detect (groups w d) AND type \<noteq> 0) \<and>
     (d_auto_level (groups w d) AND AUTO_ONRECONN = 0 \<or> can_reconn)"

text \<open>
  The search ends without a group at a group without triggers when no group from there on was
  tried; otherwise it takes the first group that answers. The second part of the result are the
  groups it passed.
\<close>

fun choice :: "proc \<Rightarrow> nat \<Rightarrow> bool \<Rightarrow> 64 word \<Rightarrow> nat list \<Rightarrow> nat option \<times> nat list" where
  "choice w type can_reconn m [] = (None, [])"
| "choice w type can_reconn m (d # ds) =
     (if d_detect (groups w d) = 0 \<and> (\<forall>e\<in>set (d # ds). \<not> tried w m e) then (None, [])
      else if answers w type can_reconn m d then (Some d, [])
      else (let (n, ps) = choice w type can_reconn m ds in (n, d # ps)))"

lemma choice_answers:
  "choice w type cr m ds = (Some n, ps) \<Longrightarrow>
   n \<in> set ds \<and> answers w type cr m n \<and> (\<exists>zs. ds = ps @ n # zs) \<and> (\<forall>d\<in>set ps. \<not> answers w type cr m d)"
proof (induction ds arbitrary: ps)
  case (Cons d ds)
  then show ?case by (auto split: if_splits prod.splits simp: Cons_eq_append_conv)
qed simp

section \<open>Masks of disjoint groups\<close>

lemma bits_and_0: "bits w ds AND m = 0 \<longleftrightarrow> (\<forall>d\<in>set ds. \<not> tried w m d)"
proof (induction ds)
  case (Cons d ds)
  then show ?case by (simp add: tried_def bit.conj_disj_distrib2 or_eq_0_iff)
qed simp

lemma split_mask:
  fixes m p x :: "64 word"
  assumes "m OR (p OR x) = p OR x" and "p AND x = 0"
  shows "m AND NOT p = x AND m"
proof (rule bit_word_eqI)
  fix n assume "n < LENGTH(64)"
  have "bit (m OR (p OR x)) n = bit (p OR x) n" and "bit (p AND x) n = bit (0 :: 64 word) n"
    using assms by simp_all
  then show "bit (m AND NOT p) n = bit (x AND m) n"
    using \<open>n < _\<close> by (auto simp: bit_simps)
qed

section \<open>The walk\<close>

lemma next_group_walk:
  assumes "linked (\<lambda>d. d_next (groups w d)) pv p xs None"
    and "\<forall>d\<in>set (pre @ xs). \<forall>e\<in>set (pre @ xs). d \<noteq> e \<longrightarrow> d_bit (groups w d) AND d_bit (groups w e) = 0"
    and "distinct (pre @ xs)" and "m OR bits w (pre @ xs) = bits w (pre @ xs)"
  shows "next_group type cr (first_of xs None) (m AND NOT (bits w pre)) (m OR bits w pre) w =
    (case choice w type cr m xs of (n, ps) \<Rightarrow> Some (n, m AND NOT (bits w (pre @ ps)), m OR bits w (pre @ ps)))"
  using assms
proof (induction xs arbitrary: p pre)
  case Nil
  then show ?case by (simp add: next_group.simps)
next
  case (Cons d xs)
  have apart: "d_bit (groups w e) AND bits w pre = 0" if "e \<in> set (d # xs)" for e
  proof -
    have "x \<noteq> e" if "x \<in> set pre" for x using Cons.prems(3) that \<open>e \<in> _\<close> by auto
    then have "\<forall>x\<in>set pre. \<not> tried w (d_bit (groups w e)) x"
      unfolding tried_def using Cons.prems(2) that by (metis UnCI set_append)
    then show ?thesis using bits_and_0 [of w pre "d_bit (groups w e)"] by (simp add: and.commute)
  qed
  then have "bits w (d # xs) AND bits w pre = 0" using bits_and_0 [of w "d # xs" "bits w pre"] by (simp add: tried_def)
  then have "m AND NOT (bits w pre) = bits w (d # xs) AND m"
    using split_mask [of m "bits w pre" "bits w (d # xs)"] Cons.prems(4) by (simp add: and.commute)
  then have unch: "m AND NOT (bits w pre) = 0 \<longleftrightarrow> (\<forall>e\<in>set (d # xs). \<not> tried w m e)"
    using bits_and_0 [of w "d # xs" m] by (simp only:)
  have msk: "d_bit (groups w d) AND (m OR bits w pre) = 0 \<longleftrightarrow> \<not> tried w m d"
    using apart [of d] by (simp add: tried_def bit.conj_disj_distrib or_eq_0_iff)
  have nxt: "d_next (groups w d) = first_of xs None" using Cons.prems(1) by simp
  have step: "(m AND NOT (bits w pre)) AND NOT (d_bit (groups w d)) = m AND NOT (bits w (pre @ [d]))"
      "(m OR bits w pre) OR d_bit (groups w d) = m OR bits w (pre @ [d])"
    by (simp_all add: and.assoc or.assoc bit.de_Morgan_disj)
  have IH: "next_group type cr (first_of xs None) (m AND NOT (bits w (pre @ [d]))) (m OR bits w (pre @ [d])) w =
    (case choice w type cr m xs of (n, ps) \<Rightarrow> Some (n, m AND NOT (bits w ((pre @ [d]) @ ps)), m OR bits w ((pre @ [d]) @ ps)))"
    by (rule Cons.IH) (use Cons.prems in auto)
  have go: "next_group type cr (first_of (d # xs) None) (m AND NOT (bits w pre)) (m OR bits w pre) w =
      (if d_detect (groups w d) = 0 \<and> (\<forall>e\<in>set (d # xs). \<not> tried w m e)
       then Some (None, m AND NOT (bits w pre), m OR bits w pre)
       else if answers w type cr m d then Some (Some d, m AND NOT (bits w pre), m OR bits w pre)
       else next_group type cr (first_of xs None) (m AND NOT (bits w (pre @ [d]))) (m OR bits w (pre @ [d])) w)"
    unfolding first_of_simps(2)
    by (subst next_group.simps) (simp only: option.case Let_def unch msk nxt step answers_def conj_commute)
  show ?case
    unfolding go IH by (simp split: prod.splits)
qed

section \<open>The choice\<close>

lemma next_group_walk_all:
  assumes "groups_ok w ds" and "m OR p_dp_full_mask (params w) = p_dp_full_mask (params w)" and "choice w type cr m ds = (n, ps)"
  shows "next_group type cr (p_dp (params w)) m m w = Some (n, m AND NOT (bits w ps), m OR bits w ps)"
  using next_group_walk [of w "\<lambda>d. d_prev (groups w d)" None ds "[]" m type cr] assms by (simp add: groups_ok_def)

lemma choice_none:
  "choice w type cr m ds = (None, ps) \<Longrightarrow> (\<forall>d\<in>set ps. \<not> answers w type cr m d) \<and>
   (\<exists>zs. ds = ps @ zs \<and> (zs = [] \<or> d_detect (groups w (hd zs)) = 0 \<and> (\<forall>e\<in>set zs. \<not> tried w m e)))"
proof (induction ds arbitrary: ps)
  case (Cons d ds)
  then show ?case by (auto split: if_splits prod.splits)
qed simp

text \<open>
  C12: The search for the next group, the loop \<open>next_group\<close> of \<open>on_trigger\<close>, on the group list that
  \<open>parse_args\<close> leaves, with a mask of tried groups among the bits of the list. It always ends, with or without a
  group. With a group: that is the first one of the list that was not tried, has no triggers or this one, and is
  not bound to connections that can be made again (\<open>AUTO_ONRECONN\<close>) unless this one can; none of the groups passed
  is such, and the group found is not among the marked ones. Without a group: none was such up to the
  end of the list, or up to a group without triggers from which on no group was tried, where the search
  stops even if that group or a later one could be used. In both cases exactly the groups passed are
  added to the mask.
\<close>

theorem next_group_choice:
  assumes "groups_ok w ds" and "m OR p_dp_full_mask (params w) = p_dp_full_mask (params w)"
    and "choice w type can_reconn m ds = (n, ps)"
  shows "next_group type can_reconn (p_dp (params w)) m m w = Some (n, m AND NOT (bits w ps), m OR bits w ps) \<and>
    (\<forall>d\<in>set ps. \<not> answers w type can_reconn m d) \<and>
    (case n of
       Some d \<Rightarrow> (\<exists>zs. ds = ps @ d # zs) \<and> answers w type can_reconn m d \<and> d_bit (groups w d) AND (m OR bits w ps) = 0
     | None \<Rightarrow> \<exists>zs. ds = ps @ zs \<and> (zs = [] \<or> d_detect (groups w (hd zs)) = 0 \<and> (\<forall>e\<in>set zs. \<not> tried w m e)))"
proof (cases n)
  case None
  then show ?thesis using next_group_walk_all [OF assms] choice_none [of w type can_reconn m ds ps] assms(3) by simp
next
  case (Some d)
  from choice_answers [OF assms(3) [unfolded this]] obtain zs where
    d: "answers w type can_reconn m d" "ds = ps @ d # zs" "\<forall>d\<in>set ps. \<not> answers w type can_reconn m d" by blast
  have "\<forall>x\<in>set ps. \<not> tried w (d_bit (groups w d)) x"
    using assms(1) d(2) by (auto simp: groups_ok_def tried_def)
  then have "d_bit (groups w d) AND bits w ps = 0"
    using bits_and_0 [of w ps "d_bit (groups w d)"] by (simp add: and.commute)
  then have "d_bit (groups w d) AND (m OR bits w ps) = 0"
    using d(1) by (simp add: answers_def tried_def bit.conj_disj_distrib or_eq_0_iff)
  then show ?thesis using next_group_walk_all [OF assms] Some d by simp
qed

text \<open>After a failed connection with the last of three groups tried, the second is left.\<close>

theorem next_group_choice_witness:
  "next_group DETECT_CONNECT True (Some 100) 4 4 three_groups = Some (Some 101, 4, 5)"
proof -
  have c: "choice three_groups DETECT_CONNECT True 4 [100, 101, 102] = (Some 101, [100])"
    by (simp add: three_groups_def answers_def tried_def zero_dp_def DETECT_CONNECT_def DETECT_TORST_def)
  have "p_dp (params three_groups) = Some 100" "4 OR p_dp_full_mask (params three_groups) = p_dp_full_mask (params three_groups)"
    "bits three_groups [100] = 1"
    by (simp_all add: three_groups_def)
  then show ?thesis using next_group_choice [OF three_groups_ok _ c] by simp
qed

end
