(* ===== verification/Retry_Props.thy ===== *)
theory Retry_Props
  imports Trigger_Props Events
begin

text \<open>
  How often a connection is tried again. After a failure \<open>on_trigger\<close> of extend.c marks the client's
  group as tried, looks for another, stores the choice in the cache, may sort the groups, and calls
  \<open>reconnect\<close>, which calls \<open>connect_hook\<close> and this \<open>find_dp\<close>. Here it is shown that all of them together
  use up a group with every attempt.
\<close>

section \<open>What leaves the choice alone\<close>

definition same_choice :: "nat \<Rightarrow> proc \<Rightarrow> proc \<Rightarrow> bool" where
  "same_choice c w w' \<longleftrightarrow> e_dp (items w' c) = e_dp (items w c) \<and> e_dp_mask (items w' c) = e_dp_mask (items w c) \<and>
     groups w' = groups w \<and> p_dp (params w') = p_dp (params w) \<and> p_dp_full_mask (params w') = p_dp_full_mask (params w)"

text \<open>Neither the choice of the client \<open>c\<close> nor the places of the pool of events change.\<close>

definition aside :: "nat \<Rightarrow> proc \<Rightarrow> proc \<Rightarrow> bool" where
  "aside c w w' \<longleftrightarrow> same_choice c w w' \<and> pl_count w' = pl_count w \<and> pl_links w' = pl_links w"

lemma same_choice_refl [simp]: "same_choice c w w"
  by (simp add: same_choice_def)

lemma same_choice_trans: "same_choice c w w1 \<Longrightarrow> same_choice c w1 w2 \<Longrightarrow> same_choice c w w2"
  by (simp add: same_choice_def)

lemma aside_refl [simp]: "aside c w w"
  by (simp add: aside_def)

lemma aside_trans: "aside c w w1 \<Longrightarrow> aside c w1 w2 \<Longrightarrow> aside c w w2"
  by (auto simp: aside_def intro: same_choice_trans)

lemma aside_sys: "aside c w0 w \<Longrightarrow> aside c w0 (snd (sys x w))"
  by (simp add: aside_def same_choice_def sys_def Let_def)

lemma aside_call: "aside c w0 w \<Longrightarrow> aside c w0 (snd (call x w))"
  using aside_sys [of c w0 w x] by (simp add: call_def Let_def split_def)

lemma aside_alloc: "aside c w0 w \<Longrightarrow> aside c w0 (snd (alloc n w))"
  using aside_call [of c w0 w "Malloc n"] by (auto simp: alloc_def Let_def split_def aside_def same_choice_def)

lemma aside_upd_ev:
  "aside c w0 w \<Longrightarrow> v \<noteq> c \<or> e_dp (f (items w v)) = e_dp (items w v) \<and> e_dp_mask (f (items w v)) = e_dp_mask (items w v) \<Longrightarrow>
   aside c w0 (upd_ev v f w)"
  by (auto simp: aside_def same_choice_def upd_ev_def)

lemma aside_stores:
  "aside c w0 (w\<lparr>bufs := b\<rparr>) = aside c w0 w" "aside c w0 (w\<lparr>cache := k\<rparr>) = aside c w0 w"
  "aside c w0 (w\<lparr>root_buff := r\<rparr>) = aside c w0 w" "aside c w0 (w\<lparr>buff_count := m\<rparr>) = aside c w0 w"
  "aside c w0 (w\<lparr>next_addr := a\<rparr>) = aside c w0 w" "aside c w0 (upd_cache x g w) = aside c w0 w"
  "aside c w0 (set_mempool h w) = aside c w0 w"
  by (simp_all add: aside_def same_choice_def upd_cache_def set_mempool_def)

lemmas asides = aside_call aside_sys aside_alloc aside_refl aside_stores

lemma aside_buff_pop: "buff_pop n w = Some (r, w') \<Longrightarrow> aside c w w'"
  by (auto simp: buff_pop_def Let_def split_def bind_eq_Some_conv asides split: option.splits if_splits)

lemma aside_upd_buf: "upd_buf b f w = Some w' \<Longrightarrow> aside c w w'"
  by (auto simp: upd_buf_def asides split: option.splits)

lemma aside_setsockopt: "aside c w0 w \<Longrightarrow> aside c w0 (snd (setsockopt fd opt v w))"
  by (simp add: setsockopt_def aside_call)

lemma aside_send: "aside c w0 w \<Longrightarrow> aside c w0 (snd (send fd bs w))"
  by (simp add: send_def aside_call)

lemma aside_close_fd: "aside c w0 w \<Longrightarrow> aside c w0 (close_fd fd w)"
  by (simp add: close_fd_def aside_call)

lemma aside_close_on_error: "aside c w0 w \<Longrightarrow> aside c w0 (snd (close_on_error fd b w))"
  by (simp add: close_on_error_def aside_close_fd)

lemma aside_resp_error: "aside c w0 w \<Longrightarrow> aside c w0 (snd (resp_error fd e flag w))"
  by (simp add: resp_error_def resp_s5_error_def aside_send aside_setsockopt split_def Let_def)

lemma aside_nb_socket: "aside c w0 w \<Longrightarrow> aside c w0 (snd (nb_socket fam type w))"
  by (simp add: nb_socket_def android_protect_def aside_call split_def Let_def)

lemma aside_socket_mod: "aside c w0 w \<Longrightarrow> aside c w0 (snd (socket_mod fd w))"
  by (simp add: socket_mod_def android_protect_def setttl_def aside_call aside_setsockopt split_def Let_def)

lemma aside_conn_options: "aside c w0 w \<Longrightarrow> aside c w0 (snd (conn_options fd w))"
  by (simp add: conn_options_def aside_close_on_error aside_setsockopt split_def Let_def)

lemma aside_remote_sock: "aside c w0 w \<Longrightarrow> aside c w0 (snd (snd (remote_sock dst type w)))"
  by (simp add: remote_sock_def aside_close_on_error aside_setsockopt aside_call aside_socket_mod aside_nb_socket split_def Let_def)

lemmas connect_asides = aside_resp_error aside_conn_options aside_remote_sock aside_close_fd aside_call aside_refl


lemma aside_cache_add:
  assumes "cache_add dst l w = Some (r, w')"
  shows "aside c w w'"
  using assms
  by (fastforce simp: cache_add_def Let_def split_def bind_eq_Some_conv asides intro: aside_upd_ev split: option.splits if_splits)

lemma aside_refill:
  assumes "refill c w = Some w'"
  shows "aside c w w'"
proof (cases "e_sq_buff (items w c)")
  case None
  then show ?thesis using assms by (simp add: refill_def)
next
  case (Some q)
  obtain w1 b f where 1: "(if e_buff (items w c) = None
      then \<exists>n r w0. buff_pop n w = Some (r, w0) \<and> w1 = upd_ev c (\<lambda>e. e\<lparr>e_buff := r\<rparr>) w0 else w1 = w)" "upd_buf b f w1 = Some w'"
    using assms Some by (auto simp: refill_def bind_eq_Some_conv split: if_splits; metis)
  have "aside c w w1" using 1(1) by (auto split: if_splits dest!: aside_buff_pop [of _ _ _ _ c] intro!: aside_upd_ev)
  then show ?thesis using aside_upd_buf [OF 1(2)] by (rule aside_trans)
qed

section \<open>Adding and deleting another event\<close>

text \<open>The event \<open>c\<close> is not one of the free ones.\<close>

definition event_used :: "nat \<Rightarrow> proc \<Rightarrow> bool" where
  "event_used c w \<longleftrightarrow> (\<forall>i\<ge>pl_count w. pl_links w i \<noteq> c)"

lemma event_used_aside: "aside c w w' \<Longrightarrow> event_used c w' = event_used c w"
  by (simp add: aside_def event_used_def)

lemma same_choice_add_event:
  assumes "add_event cb fd e w = Some (r, w')" and "event_used c w"
  shows "same_choice c w w'"
proof -
  let ?v = "pl_links w (pl_count w)"
  have "?v \<noteq> c" using assms(2) by (simp add: event_used_def)
  then show ?thesis
    using assms(1) by (auto simp: add_event_def Let_def bind_eq_Some_conv call_def sys_def same_choice_def upd_ev_def split: if_splits)
qed

lemma timer_fields [simp]:
  "e_pair (set_next n x it c) = e_pair (it c)" "e_pair (set_prev n x it c) = e_pair (it c)"
  "e_dp (set_next n x it c) = e_dp (it c)" "e_dp_mask (set_next n x it c) = e_dp_mask (it c)"
  "e_dp (set_prev n x it c) = e_dp (it c)" "e_dp_mask (set_prev n x it c) = e_dp_mask (it c)"
  by (simp_all add: set_next_def set_prev_def split: option.split)

lemma aside_remove_timer: "aside c w (remove_timer v w) \<and> e_pair (items (remove_timer v w) u) = e_pair (items w u)"
  by (simp add: aside_def same_choice_def remove_timer_def Let_def)

lemma buff_push_aside: "buff_push r w = Some w' \<Longrightarrow> aside c w w' \<and> items w' = items w"
  by (auto simp: buff_push_def bind_eq_Some_conv asides split: option.splits if_splits)

lemma aside_drop_buffers:
  assumes "drop_buffers v w = Some w'"
  shows "aside c w w' \<and> e_pair (items w' u) = e_pair (items w u)"
proof -
  obtain w1 w2 where 1: "buff_push (e_buff (items w v)) w = Some w1"
    "buff_push (e_sq_buff (items w1 v)) (upd_ev v (\<lambda>e. e\<lparr>e_buff := None\<rparr>) w1) = Some w2" "w' = upd_ev v (\<lambda>e. e\<lparr>e_sq_buff := None\<rparr>) w2"
    using assms by (auto simp: drop_buffers_eq bind_eq_Some_conv upd_ev_def)
  note p = buff_push_aside [OF 1(1), of c] buff_push_aside [OF 1(2), of c]
  have "aside c w (upd_ev v (\<lambda>e. e\<lparr>e_buff := None\<rparr>) w1)" using p by (intro aside_upd_ev) auto
  then have "aside c w w2" using p aside_trans by blast
  then have "aside c w w'" unfolding 1(3) by (intro aside_upd_ev) auto
  then show ?thesis using p by (auto simp: 1(3) upd_ev_def)
qed

lemma aside_drop_memory: "aside c w (drop_memory v w) \<and> e_pair (items (drop_memory v w) u) = e_pair (items w u)"
proof -
  obtain tr e where "drop_memory v w =
      w\<lparr>trace := tr, errno := e, items := (items w)(v := (items w v)\<lparr>e_restore_fake := None, e_host := None\<rparr>)\<rparr>"
    using drop_memory_eq by blast
  then show ?thesis by (simp add: aside_def same_choice_def)
qed

lemma same_choice_unlink: "unlink_event v w = Some w' \<Longrightarrow> same_choice c w w' \<and> e_pair (items w' u) = e_pair (items w u)"
  by (auto simp: unlink_event_def Let_def same_choice_def upd_ev_def split: if_splits)

lemma same_choice_close:
  assumes "close_event v w = Some w'" and "v \<noteq> c"
  shows "same_choice c w w' \<and> e_pair (items w' v) = e_pair (items w v)"
proof -
  let ?w0 = "snd (call (Epoll_ctl_del (pl_efd w) (e_fd (items w v))) w)"
  obtain w1 w2 where 1: "drop_buffers v ?w0 = Some w1"
    "w2 = (if e_fd (items w v) \<noteq> server_fd (drop_memory v w1) \<and> e_fd (items w v) > 0
       then close_fd (e_fd (items w v)) (drop_memory v w1) else drop_memory v w1)"
    "unlink_event v (remove_timer v (upd_ev v (\<lambda>e. e\<lparr>e_fd := - 1, e_mod_iter := pl_iters w2\<rparr>) w2)) = Some w'"
    using assms(1) by (auto simp: close_event_def bind_eq_Some_conv Let_def)
  have sys: "items (snd (call x u)) = items u" for x u by (simp add: call_def sys_def Let_def)
  have "aside c w ?w0" by (simp add: asides)
  then have "aside c w w1" "e_pair (items w1 v) = e_pair (items w v)"
    using aside_drop_buffers [OF 1(1), of c v] aside_trans by (auto simp: sys)
  moreover have "aside c w1 w2" "e_pair (items w2 v) = e_pair (items w1 v)"
    using aside_drop_memory [of c w1 v v] 1(2) by (auto simp: aside_close_fd aside_call sys close_fd_def)
  moreover have "aside c w2 (remove_timer v (upd_ev v (\<lambda>e. e\<lparr>e_fd := - 1, e_mod_iter := pl_iters w2\<rparr>) w2))"
    using aside_trans [OF aside_upd_ev [OF aside_refl] conjunct1 [OF aside_remove_timer]] by simp
  moreover have "e_pair (items (remove_timer v (upd_ev v (\<lambda>e. e\<lparr>e_fd := - 1, e_mod_iter := pl_iters w2\<rparr>) w2)) v) = e_pair (items w2 v)"
    using conjunct2 [OF aside_remove_timer] by (simp add: upd_ev_def)
  ultimately show ?thesis
    using same_choice_unlink [OF 1(3), of c v] unfolding aside_def by (auto intro: same_choice_trans)
qed

lemma same_choice_del:
  assumes "del_event v w = Some w'" and "e_pair (items w v) = None" and "v \<noteq> c"
  shows "same_choice c w w'"
  using assms same_choice_close [OF _ assms(3)]
  by (subst (asm) del_event.simps) (auto simp: bind_eq_Some_conv split: if_splits)

section \<open>Connecting again\<close>

lemma same_choice_create:
  assumes "create_conn c dst next w = Some (r, w')" and "event_used c w"
  shows "same_choice c w w'"
proof -
  obtain fd addr w1 where 1: "remote_sock dst SOCK_STREAM w = (fd, addr, w1)" by (cases "remote_sock dst SOCK_STREAM w") auto
  obtain fd2 w2 where 2: "conn_options fd w1 = (fd2, w2)" by (cases "conn_options fd w1") auto
  obtain st w3 where 3: "call (Connect fd2 addr) w2 = (st, w3)" by (cases "call (Connect fd2 addr) w2") auto
  have a: "aside c w w1" "aside c w w2" "aside c w w3"
    using aside_remote_sock [OF aside_refl [of c w], of dst SOCK_STREAM] aside_conn_options [of c w w1 fd]
      aside_call [of c w w2 "Connect fd2 addr"] 1 2 3 by simp_all
  have cl: "same_choice c u (close_fd fd2 u)" for u using aside_close_fd [OF aside_refl] by (simp add: aside_def)
  have u: "event_used c w3" using a(3) assms(2) by (simp add: event_used_aside)
  have early: ?thesis if "w' = w1 \<or> w' = w2 \<or> w' = close_fd fd2 w3"
    using that a aside_close_fd [OF a(3)] by (auto simp: aside_def)
  show ?thesis
  proof (cases "fd < 0 \<or> fd2 < 0 \<or> st < 0 \<and> get_e w3 \<noteq> EINPROGRESS \<and> get_e w3 \<noteq> EAGAIN")
    case True
    then show ?thesis using assms(1) by (intro early) (auto simp: create_conn_def 1 2 3 split: if_splits)
  next
    case False
    then obtain q w4 where 4: "add_event next fd2 POLLOUT w3 = Some (q, w4)"
      "(case q of None \<Rightarrow> w' = close_fd fd2 w4
        | Some p \<Rightarrow> \<exists>k w5. mod_etype c 0 w4 = Some (k, w5) \<and> (w' = w5 \<or>
            w' = upd_ev c (\<lambda>e. e\<lparr>e_cb := Some On_ignore\<rparr>) (upd_ev p (\<lambda>e. e\<lparr>e_pair := Some c, e_addr := dst, e_flag := FLAG_CONN\<rparr>)
                   (upd_ev c (\<lambda>e. e\<lparr>e_pair := Some p\<rparr>) w5))))"
      using assms(1) by (fastforce simp: create_conn_def 1 2 3 bind_eq_Some_conv split: if_splits option.splits)
    have w4: "same_choice c w w4"
      using same_choice_add_event [OF 4(1) u] a(3) by (auto simp: aside_def intro: same_choice_trans)
    show ?thesis
    proof (cases q)
      case None
      then show ?thesis using 4(2) w4 cl by (auto intro: same_choice_trans)
    next
      case (Some p)
      then obtain k w5 where 5: "mod_etype c 0 w4 = Some (k, w5)" "w' = w5 \<or>
            w' = upd_ev c (\<lambda>e. e\<lparr>e_cb := Some On_ignore\<rparr>) (upd_ev p (\<lambda>e. e\<lparr>e_pair := Some c, e_addr := dst, e_flag := FLAG_CONN\<rparr>)
                   (upd_ev c (\<lambda>e. e\<lparr>e_pair := Some p\<rparr>) w5))"
        using 4(2) by auto
      have "aside c w4 w5"
        using 5(1) aside_call [OF aside_refl, of c w4 "Epoll_ctl_mod (pl_efd w4) (e_fd (items w4 c)) 0 c"]
        by (auto simp: mod_etype_def bind_eq_Some_conv)
      then have "aside c w4 w'" using 5(2) by (auto intro!: aside_upd_ev)
      then show ?thesis using w4 by (auto simp: aside_def intro: same_choice_trans)
    qed
  qed
qed


section \<open>The groups that are left\<close>

text \<open>A client with a group, and the groups that were not tried for it and are not its own.\<close>

definition choice_ok :: "proc \<Rightarrow> nat \<Rightarrow> nat list \<Rightarrow> bool" where
  "choice_ok w c ds \<longleftrightarrow> groups_ok w ds \<and> e_dp (items w c) \<in> Some ` set ds \<and>
     e_dp_mask (items w c) OR p_dp_full_mask (params w) = p_dp_full_mask (params w)"

definition groups_left :: "proc \<Rightarrow> nat \<Rightarrow> nat list \<Rightarrow> nat set" where
  "groups_left w c ds = {x \<in> set ds. \<not> tried w (e_dp_mask (items w c)) x \<and> e_dp (items w c) \<noteq> Some x}"

lemma groups_ok_same:
  assumes "groups w' = groups w" and "p_dp (params w') = p_dp (params w)" and "p_dp_full_mask (params w') = p_dp_full_mask (params w)"
  shows "groups_ok w' ds \<longleftrightarrow> groups_ok w ds"
  using assms by (simp add: groups_ok_def bits_def)

lemma groups_ok_upd_dp:
  assumes "\<And>g. d_bit (f g) = d_bit g \<and> d_next (f g) = d_next g \<and> d_prev (f g) = d_prev g"
  shows "groups_ok (upd_dp d f w) ds \<longleftrightarrow> groups_ok w ds"
proof -
  have "d_bit (groups (upd_dp d f w) x) = d_bit (groups w x)" "d_next (groups (upd_dp d f w) x) = d_next (groups w x)"
    "d_prev (groups (upd_dp d f w) x) = d_prev (groups w x)" for x
    using assms by (simp_all add: upd_dp_def)
  moreover have "params (upd_dp d f w) = params w" by (simp add: upd_dp_def)
  ultimately show ?thesis by (simp add: groups_ok_def bits_def)
qed

lemma groups_ok_updates [simp]:
  "groups_ok (upd_ev v h w) ds = groups_ok w ds" "groups_ok (upd_cache a k w) ds = groups_ok w ds"
  by (rule groups_ok_same; simp add: upd_ev_def upd_cache_def)+

lemma choice_ok_same: "same_choice c w w' \<Longrightarrow> choice_ok w' c ds = choice_ok w c ds"
  using groups_ok_same [of w' w ds] by (simp add: choice_ok_def same_choice_def)

lemma tried_mono: "tried w m x \<Longrightarrow> m' OR m = m' \<Longrightarrow> tried w m' x"
  unfolding tried_def by (metis bit.conj_disj_distrib or_eq_0_iff)

lemma tried_or: "tried w m x \<Longrightarrow> tried w (m OR s) x"
  by (simp add: tried_def bit.conj_disj_distrib or_eq_0_iff)

lemma groups_left_less:
  assumes "groups_ok w ds" and "e_dp (items w c) = Some d" and "d \<in> set ds" and "set ds' = set ds"
    and "\<And>x. d_bit (groups w' x) = d_bit (groups w x)" and "m' = e_dp_mask (items w' c)" and "m' OR e_dp_mask (items w c) = m'"
    and "m' OR d_bit (groups w d) = m'" and "e_dp (items w' c) = Some d'" and "d' \<in> set ds" and "\<not> tried w m' d'"
  shows "groups_left w' c ds' \<subset> groups_left w c ds"
proof -
  have t: "tried w' m' x = tried w m' x" for x by (simp add: tried_def assms(5))
  have "d_bit (groups w d) \<noteq> 0" using assms(1,3) by (simp add: groups_ok_def)
  then have "tried w m' d" unfolding tried_def using assms(8) by (metis sub_mask)
  then have "\<not> tried w m' x \<Longrightarrow> \<not> tried w (e_dp_mask (items w c)) x \<and> x \<noteq> d" for x
    using tried_mono [OF _ assms(7)] by blast
  then show ?thesis
    using assms(2,4,9,10,11) unfolding groups_left_def assms(6) [symmetric] t by auto
qed

section \<open>The search\<close>

lemma linked_next_in: "linked nx pv p xs None \<Longrightarrow> x \<in> set xs \<Longrightarrow> nx x = None \<or> nx x \<in> Some ` set xs"
proof (induction xs arbitrary: p)
  case (Cons y ys)
  then show ?case by (cases "x = y"; cases ys) auto
qed simp

lemma and_or_sub:
  fixes a b :: "64 word"
  assumes "a AND b = a"
  shows "a OR b = b"
  by (subst assms [symmetric]) (simp add: word_ao_absorbs)

lemma loop_step:
  assumes "(let dp = if n then a else b in if c then s else dp \<bind> (\<lambda>d. f d \<bind> (\<lambda>ok. g d ok))) = Some y" and "\<not> c"
  obtains d ok where "(if n then a else b) = Some d" and "f d = Some ok" and "g d ok = Some y"
  using assms by (cases "if n then a else b"; cases "f (the (if n then a else b))") (auto simp: Let_def)

lemma tried_own:
  assumes "d_bit (groups w d) \<noteq> 0"
  shows "tried w (m OR (d_bit (groups w d) OR x)) d"
proof -
  have "d_bit (groups w d) AND (m OR (d_bit (groups w d) OR x)) = d_bit (groups w d)"
    by (metis or.commute or.left_commute word_ao_absorbs(1) or.assoc)
  then show ?thesis using assms by (simp add: tried_def)
qed

lemma find_dp_loop_picks:
  assumes "find_dp_loop c init dp buff dst w = Some (r, w')" and "groups_ok w ds" and "dp = None \<or> dp \<in> Some ` set ds"
    and "e_dp_mask (items w c) OR p_dp_full_mask (params w) = p_dp_full_mask (params w)"
  shows "\<exists>x. w' = add_mask c x w \<and> (e_dp_mask (items w c) OR x) OR p_dp_full_mask (params w) = p_dp_full_mask (params w) \<and>
    (\<forall>d. r = Some d \<longrightarrow> d \<in> set ds \<and> \<not> tried w (e_dp_mask (items w c) OR x) d \<and>
       (dp = None \<or> dp = Some d \<or> tried w (e_dp_mask (items w c) OR x) (the dp)))"
proof -
  let ?P = "\<lambda>c dp w y. groups_ok w ds \<longrightarrow> (dp = None \<or> dp \<in> Some ` set ds) \<longrightarrow>
      e_dp_mask (items w c) OR p_dp_full_mask (params w) = p_dp_full_mask (params w) \<longrightarrow>
      (\<exists>x. snd y = add_mask c x w \<and> (e_dp_mask (items w c) OR x) OR p_dp_full_mask (params w) = p_dp_full_mask (params w) \<and>
        (\<forall>d. fst y = Some d \<longrightarrow> d \<in> set ds \<and> \<not> tried w (e_dp_mask (items w c) OR x) d \<and>
           (dp = None \<or> dp = Some d \<or> tried w (e_dp_mask (items w c) OR x) (the dp))))"
  have "?P c dp w (r, w')"
    using assms(1)
  proof (rule find_dp_loop.raw_induct [rotated])
    fix loop c init dp buff dst w y
    assume IH: "\<And>c init dp buff dst w y. loop c init dp buff dst w = Some y \<Longrightarrow> ?P c dp w y"
      and y: "(let dp = if dp = None then p_dp (params w) else dp
        in if e_dp_mask (items w c) = p_dp_full_mask (params w) then Some (None, w)
           else dp \<bind> (\<lambda>d. dp_fits d init (items w c) buff dst w \<bind>
             (\<lambda>ok. if ok then Some (Some d, w)
                   else loop c init (d_next (groups w d)) buff dst
                          (upd_ev c (\<lambda>e. e\<lparr>e_dp_mask := e_dp_mask e OR d_bit (groups w d)\<rparr>) w)))) = Some y"
    show "?P c dp w y"
    proof (intro impI)
      assume g: "groups_ok w ds" and dp: "dp = None \<or> dp \<in> Some ` set ds"
        and m: "e_dp_mask (items w c) OR p_dp_full_mask (params w) = p_dp_full_mask (params w)"
      have here: "add_mask c 0 w = w" by (simp add: add_mask_0)
      show "\<exists>x. snd y = add_mask c x w \<and> (e_dp_mask (items w c) OR x) OR p_dp_full_mask (params w) = p_dp_full_mask (params w) \<and>
        (\<forall>d. fst y = Some d \<longrightarrow> d \<in> set ds \<and> \<not> tried w (e_dp_mask (items w c) OR x) d \<and>
           (dp = None \<or> dp = Some d \<or> tried w (e_dp_mask (items w c) OR x) (the dp)))"
      proof (cases "e_dp_mask (items w c) = p_dp_full_mask (params w)")
        case True
        then have "y = (None, w)" using y by (simp add: Let_def)
        then show ?thesis using here by (intro exI [of _ 0]) (simp add: m)
      next
        case False
        obtain d ok where d: "(if dp = None then p_dp (params w) else dp) = Some d" "dp_fits d init (items w c) buff dst w = Some ok"
          "(if ok then Some (Some d, w) else loop c init (d_next (groups w d)) buff dst
              (upd_ev c (\<lambda>e. e\<lparr>e_dp_mask := e_dp_mask e OR d_bit (groups w d)\<rparr>) w)) = Some y"
          by (rule loop_step [OF y False])
        note go = d(3) [folded add_mask_def]
        have "p_dp (params w) = first_of ds None" using g by (simp only: groups_ok_def)
        then have dd: "d \<in> set ds" using d(1) dp first_of_in [of ds None d] by (cases dp) auto
        show ?thesis
        proof (cases ok)
          case True
          then have "\<not> tried w (e_dp_mask (items w c)) d" using d(2) dp_fits_tried unfolding tried_def by fastforce
          then show ?thesis using go True here dd d(1) by (intro exI [of _ 0]) (auto simp: m split: if_splits)
        next
          case False
          let ?b = "d_bit (groups w d)" and ?w = "add_mask c (d_bit (groups w d)) w"
          have l: "linked (\<lambda>d. d_next (groups w d)) (\<lambda>d. d_prev (groups w d)) None ds None" "p_dp_full_mask (params w) = bits w ds"
            using g by (simp_all only: groups_ok_def)
          note nx = linked_next_in [OF l(1) dd]
          have b: "?b OR p_dp_full_mask (params w) = p_dp_full_mask (params w)"
            unfolding l(2) by (rule and_or_sub [OF in_bits [OF dd]])
          have "groups_ok ?w ds" using g groups_ok_same [of ?w w ds] by simp
          then obtain x where "snd y = add_mask c x ?w"
            "(e_dp_mask (items ?w c) OR x) OR p_dp_full_mask (params w) = p_dp_full_mask (params w)"
            "\<forall>d. fst y = Some d \<longrightarrow> d \<in> set ds \<and> \<not> tried w (e_dp_mask (items ?w c) OR x) d"
            using IH [of c init "d_next (groups w d)" buff dst ?w y] go False nx m b by (auto simp: or.assoc tried_def)
          moreover have "dp = None \<or> tried w (e_dp_mask (items w c) OR (?b OR x)) (the dp)"
            using d(1) dd g tried_own [of w d "e_dp_mask (items w c)" x] by (cases dp) (auto simp: groups_ok_def)
          ultimately show ?thesis by (intro exI [of _ "?b OR x"]) (auto simp: or.assoc)
        qed
      qed
    qed
  qed
  then show ?thesis using assms(2-4) by simp
qed


text \<open>A client with a group connects again: it gets another group that was not tried.\<close>

lemma find_dp_picks:
  assumes "find_dp c buff dst w = Some (Some d, w')" and "choice_ok w c ds"
  shows "\<exists>x. w' = add_mask c x w \<and> (e_dp_mask (items w c) OR x) OR p_dp_full_mask (params w) = p_dp_full_mask (params w) \<and>
    d \<in> set ds \<and> \<not> tried w (e_dp_mask (items w c) OR x) d \<and>
    (e_dp (items w c) = Some d \<or> tried w (e_dp_mask (items w c) OR x) (the (e_dp (items w c))))"
proof -
  obtain b where "find_dp_loop c (e_dp (items w c)) (e_dp (items w c)) b dst w = Some (Some d, w')"
    using assms(1) by (auto simp: find_dp_def bind_eq_Some_conv)
  from find_dp_loop_picks [OF this] assms(2) show ?thesis by (auto simp: choice_ok_def)
qed

definition moved_on :: "nat \<Rightarrow> nat list \<Rightarrow> proc \<Rightarrow> proc \<Rightarrow> bool" where
  "moved_on c ds w w' \<longleftrightarrow> groups w' = groups w \<and> choice_ok w' c ds \<and> e_dp_mask (items w' c) OR e_dp_mask (items w c) = e_dp_mask (items w' c) \<and>
     (\<exists>d. e_dp (items w' c) = Some d \<and> d \<in> set ds \<and> \<not> tried w (e_dp_mask (items w' c)) d)"

lemma moved_on_same: "moved_on c ds w w1 \<Longrightarrow> same_choice c w1 w' \<Longrightarrow> moved_on c ds w w'"
  using choice_ok_same [of c w1 w' ds] by (simp add: moved_on_def same_choice_def)

lemma moved_on_picks:
  assumes "find_dp c buff dst w = Some (Some d, w')" and "choice_ok w c ds"
  shows "moved_on c ds w (upd_ev c (\<lambda>e. e\<lparr>e_dp := Some d\<rparr>) w')"
proof -
  obtain x where x: "w' = add_mask c x w" "(e_dp_mask (items w c) OR x) OR p_dp_full_mask (params w) = p_dp_full_mask (params w)"
    "d \<in> set ds" "\<not> tried w (e_dp_mask (items w c) OR x) d"
    using find_dp_picks [OF assms] by blast
  let ?u = "upd_ev c (\<lambda>e. e\<lparr>e_dp := Some d\<rparr>) w'"
  have u: "groups ?u = groups w" "params ?u = params w" "e_dp (items ?u c) = Some d" "e_dp_mask (items ?u c) = e_dp_mask (items w c) OR x"
    using x(1) by (simp_all add: upd_ev_def add_mask_def)
  have "groups_ok ?u ds" using groups_ok_same [of ?u w ds] u assms(2) by (simp add: choice_ok_def)
  then show ?thesis using x(2-4) u by (simp add: moved_on_def choice_ok_def or.assoc or.commute or.left_commute)
qed

text \<open>\<open>connect_hook\<close> for a client that has a group, after the search.\<close>

lemma connect_hook_found:
  assumes "connect_hook c dst next w = Some (0, w')" and "e_dp (items w c) = Some old" and pick: "find_dp c None dst w = Some (Some d, w1)"
  defines "w2 \<equiv> upd_ev c (\<lambda>e. e\<lparr>e_dp := Some d\<rparr>) w1" and "g \<equiv> groups (upd_ev c (\<lambda>e. e\<lparr>e_dp := Some d\<rparr>) w1) d"
  shows "(if (d_hosts g \<noteq> None \<or> d_proto g \<noteq> 0) \<and> e_buff (items w2 c) = None \<and> p_delay_conn (params w2)
     then (let (r, w) = resp_error (e_fd (items w2 c)) 0 (e_flag (items w2 c)) w2
       in if r < 0 then Some (- 1, w) else Some (0, upd_ev c (\<lambda>e. e\<lparr>e_cb := Some Recv_and_connect, e_addr := dst\<rparr>) w))
     else if d_out_type g \<noteq> 0
     then do {
       (r, w) \<leftarrow> create_conn c (d_out_addr g) (if d_out_type g = MODE_SOCKS5 then On_socks_conn else next) w2;
       (if r = 0
        then do { p \<leftarrow> e_pair (items w c); Some (r, upd_ev p (\<lambda>e. e\<lparr>e_after_conn_cb := Some next, e_addr := dst\<rparr>) w) }
        else Some (r, w)) }
     else create_conn c dst next w2) = Some (0, w')"
    using assms(1) unfolding w2_def g_def by (simp add: connect_hook_def assms(2) pick Let_def cong: if_cong split del: if_split)

lemma same_choice_found:
  assumes "connect_hook c dst next w = Some (0, w')" and "e_dp (items w c) = Some old" and pick: "find_dp c None dst w = Some (Some d, w1)"
    and "event_used c w1"
  shows "same_choice c (upd_ev c (\<lambda>e. e\<lparr>e_dp := Some d\<rparr>) w1) w'"
proof -
  define w2 where "w2 = upd_ev c (\<lambda>e. e\<lparr>e_dp := Some d\<rparr>) w1"
  let ?g = "groups w2 d"
  note hook = connect_hook_found [OF assms(1-3), folded w2_def]
  have u: "event_used c w2" using assms(4) by (simp add: w2_def event_used_def upd_ev_def)
  have "same_choice c w2 w'"
  proof (cases "(d_hosts ?g \<noteq> None \<or> d_proto ?g \<noteq> 0) \<and> e_buff (items w2 c) = None \<and> p_delay_conn (params w2)")
    case True
    obtain r w3 where r: "resp_error (e_fd (items w2 c)) 0 (e_flag (items w2 c)) w2 = (r, w3)"
      by (cases "resp_error (e_fd (items w2 c)) 0 (e_flag (items w2 c)) w2")
    then have w': "w' = upd_ev c (\<lambda>e. e\<lparr>e_cb := Some Recv_and_connect, e_addr := dst\<rparr>) w3"
      using hook True by (auto split: if_splits)
    have "aside c w2 w3" using aside_resp_error [OF aside_refl [of c w2], of "e_fd (items w2 c)" 0 "e_flag (items w2 c)"] r by simp
    then have "aside c w2 w'" unfolding w' by (rule aside_upd_ev) simp
    then show ?thesis by (simp add: aside_def)
  next
    case no: False
    show ?thesis
    proof (cases "d_out_type ?g = 0")
      case True
      have "create_conn c dst next w2 = Some (0, w')" using hook no True by (simp only: if_False simp_thms)
      then show ?thesis by (rule same_choice_create [OF _ u])
    next
      case False
      let ?cb = "if d_out_type ?g = MODE_SOCKS5 then On_socks_conn else next"
      have "create_conn c (d_out_addr ?g) ?cb w2 \<bind> (\<lambda>(r, w). if r = 0
          then do { p \<leftarrow> e_pair (items w c); Some (r, upd_ev p (\<lambda>e. e\<lparr>e_after_conn_cb := Some next, e_addr := dst\<rparr>) w) }
          else Some (r, w)) = Some (0, w')"
        using hook no False by (simp only: if_False if_True simp_thms)
      then obtain r w3 where 3: "create_conn c (d_out_addr ?g) ?cb w2 = Some (r, w3)"
        "(if r = 0 then do { p \<leftarrow> e_pair (items w3 c); Some (r, upd_ev p (\<lambda>e. e\<lparr>e_after_conn_cb := Some next, e_addr := dst\<rparr>) w3) }
          else Some (r, w3)) = Some (0, w')"
        by (cases "create_conn c (d_out_addr ?g) ?cb w2") auto
      then have "aside c w3 w'" by (auto simp: bind_eq_Some_conv intro!: aside_upd_ev split: if_splits)
      then show ?thesis using same_choice_create [OF 3(1) u] by (auto simp: aside_def intro: same_choice_trans)
    qed
  qed
  then show ?thesis by (simp only: w2_def)
qed

lemma moved_on_connect:
  assumes "connect_hook c dst next w = Some (0, w')" and "choice_ok w c ds" and "event_used c w"
  shows "moved_on c ds w w'"
proof -
  obtain old where old: "e_dp (items w c) = Some old" using assms(2) by (auto simp: choice_ok_def)
  obtain dp w1 where f: "find_dp c None dst w = Some (dp, w1)"
    using assms(1) by (cases "find_dp c None dst w") (auto simp: connect_hook_def old)
  obtain d where d: "dp = Some d" using assms(1) f by (cases dp) (simp_all add: connect_hook_def old)
  have pick: "find_dp c None dst w = Some (Some d, w1)" using f d by simp
  define w2 where "w2 = upd_ev c (\<lambda>e. e\<lparr>e_dp := Some d\<rparr>) w1"
  have m: "moved_on c ds w w2" unfolding w2_def by (rule moved_on_picks [OF pick assms(2)])
  have "event_used c w1" using find_dp_picks [OF pick assms(2)] assms(3) by (auto simp: event_used_def upd_ev_def add_mask_def)
  then have "same_choice c w2 w'" using same_choice_found [OF assms(1) old pick] by (simp add: w2_def)
  with m show ?thesis by (rule moved_on_same)
qed

lemma moved_on_reconnect:
  assumes "reconnect v w = Some (0, w')" and "e_pair (items w v) = Some c" and "v \<noteq> c" and "choice_ok w c ds" and "event_used c w"
  shows "moved_on c ds w w'"
proof -
  obtain w1 w2 w3 where 1: "refill c w = Some w1" "w2 = upd_ev c (\<lambda>e. e\<lparr>e_round_sent := 0, e_part_sent := 0\<rparr>) w1"
    "connect_hook c (e_addr (items w2 v)) On_connect w2 = Some (0, w3)" "del_event v (upd_ev v (\<lambda>e. e\<lparr>e_pair := None\<rparr>) w3) = Some w'"
    using assms(1,2) by (auto simp: reconnect_def bind_eq_Some_conv Let_def split: if_splits)
  have a: "aside c w w2" unfolding 1(2) by (rule aside_upd_ev [OF aside_refill [OF 1(1)]]) simp
  then have "choice_ok w2 c ds" "event_used c w2" using assms(4,5) choice_ok_same by (auto simp: aside_def event_used_def)
  then have "moved_on c ds w2 w3" by (rule moved_on_connect [OF 1(3)])
  then have m: "moved_on c ds w w3" using a by (auto simp: moved_on_def aside_def same_choice_def tried_def)
  have "aside c w3 (upd_ev v (\<lambda>e. e\<lparr>e_pair := None\<rparr>) w3)" using assms(3) by (intro aside_upd_ev) auto
  moreover have "same_choice c (upd_ev v (\<lambda>e. e\<lparr>e_pair := None\<rparr>) w3) w'"
    by (rule same_choice_del [OF 1(4) _ assms(3)]) (simp add: upd_ev_def)
  ultimately have "same_choice c w3 w'" unfolding aside_def by (blast intro: same_choice_trans)
  with m show ?thesis by (rule moved_on_same)
qed


section \<open>A failure\<close>

lemma group_updates [simp]:
  "items (upd_dp d f w) = items w" "pl_count (upd_dp d f w) = pl_count w" "pl_links (upd_dp d f w) = pl_links w"
  "items (follow p f w) = items w" "pl_count (follow p f w) = pl_count w" "pl_links (follow p f w) = pl_links w"
  by (simp_all add: upd_dp_def follow_def split: option.split)

lemma swop_groups_frame:
  "swop_groups c n w = Some w' \<Longrightarrow> items w' = items w \<and> pl_count w' = pl_count w \<and> pl_links w' = pl_links w \<and>
     p_dp_full_mask (params w') = p_dp_full_mask (params w)"
  by (auto simp: swop_groups_def Let_def bind_eq_Some_conv split: if_splits)

text \<open>The order of the groups is changed only when the failed one lies before the next one.\<close>

lemma sorted_groups:
  assumes "groups_ok w ds" and "d \<in> set ds" and "choice w type cr m ds = (Some n, ps)" and "m OR d_bit (groups w d) = m"
    and "d_bit (groups w d) AND (m AND NOT (bits w ps)) = 0" and "swop_groups d n w = Some w'"
  shows "\<exists>ds'. groups_ok w' ds' \<and> set ds' = set ds \<and> (\<forall>x. d_bit (groups w' x) = d_bit (groups w x))"
proof -
  obtain zs where zs: "ds = ps @ n # zs" using choice_answers [OF assms(3)] by blast
  have nz: "d_bit (groups w d) \<noteq> 0" using assms(1,2) by (simp add: groups_ok_def)
  have "d \<in> set ps"
  proof (rule ccontr)
    assume "d \<notin> set ps"
    moreover have "\<forall>x\<in>set ds. \<forall>e\<in>set ds. x \<noteq> e \<longrightarrow> d_bit (groups w x) AND d_bit (groups w e) = 0"
      using assms(1) unfolding groups_ok_def by blast
    moreover have "x \<in> set ds" if "x \<in> set ps" for x using that zs by simp
    ultimately have "\<forall>x\<in>set ps. d_bit (groups w x) AND d_bit (groups w d) = 0" using assms(2) by metis
    then have 0: "d_bit (groups w d) AND bits w ps = 0" using bits_and_0 [of w ps "d_bit (groups w d)"] by (simp add: tried_def and.commute)
    have "d_bit (groups w d) AND m = d_bit (groups w d)" using assms(4) by (rule sub_mask)
    then have "d_bit (groups w d) AND NOT (bits w ps) = 0" using assms(5) by (metis and.assoc)
    then have "d_bit (groups w d) = 0" using 0 by (metis bit.conj_disj_distrib bit.disj_cancel_right word_and_max or.right_neutral)
    then show False using nz by simp
  qed
  then obtain as bs where "ps = as @ d # bs" by (auto dest: split_list)
  then have "groups_ok w (as @ d # bs @ n # zs)" using assms(1) zs by simp
  from swop_groups_list [OF this] obtain v where
    v: "swop_groups d n w = Some v" "groups_ok v (as @ n # bs @ d # zs)" "\<forall>x. settings (groups v x) = settings (groups w x)"
    by blast
  have "set (as @ n # bs @ d # zs) = set ds" using zs \<open>ps = _\<close> by auto
  moreover have "v = w'" using v(1) assms(6) by simp
  ultimately show ?thesis using v(2,3) settings_bit by blast
qed

lemma item_updates:
  "items (snd (call x w)) = items w" "items (snd (alloc n w)) = items w" "items (upd_cache a f w) = items w"
  "items (set_mempool h w) = items w" "u \<noteq> l \<Longrightarrow> items (upd_ev l g w) u = items w u"
  by (simp_all add: call_def sys_def alloc_def Let_def split_def upd_cache_def set_mempool_def upd_ev_def)

lemma cache_add_items: "cache_add dst l w = Some (r, w') \<Longrightarrow> u \<noteq> l \<Longrightarrow> items w' u = items w u"
  by (fastforce simp: cache_add_def Let_def split_def bind_eq_Some_conv item_updates split: option.splits if_splits)


text \<open>The parts of \<open>on_trigger\<close> when it connects again.\<close>

lemma on_trigger_parts:
  assumes "on_trigger type v alive w = Some (0, w')" and "e_pair (items w v) = Some c" and "v \<noteq> c"
    and "e_dp (items w c) = Some d"
  shows "\<exists>a w1 w3 cr n unch msk w5. cache_add (e_addr (items w v)) c w = Some (Some a, w1) \<and>
    w3 = upd_ev c (\<lambda>e. e\<lparr>e_dp_mask := e_dp_mask e OR d_bit (groups w d), e_detect := type\<rparr>)
           (upd_dp d (\<lambda>g. g\<lparr>d_fail_count := d_fail_count g + 1\<rparr>) w1) \<and>
    next_group type cr (p_dp (params w3)) (e_dp_mask (items w3 c)) (e_dp_mask (items w3 c)) w3 = Some (Some n, unch, msk) \<and>
    (let w4 = upd_ev c (\<lambda>e. e\<lparr>e_dp_mask := msk\<rparr>) w3 in
      w5 = w4 \<or> w5 = upd_dp d (\<lambda>g. g\<lparr>d_pri := d_pri g + 1\<rparr>) w4 \<or>
      (\<exists>u. d_bit (groups w d) AND unch = 0 \<and> swop_groups d n w4 = Some u \<and> w5 = upd_dp d (\<lambda>g. g\<lparr>d_pri := d_pri g + 1\<rparr>) u)) \<and>
    (\<exists>f. reconnect v (upd_cache a f w5) = Some (0, w'))"
proof -
  define cr where "cr = ((e_sq_buff (items w c) \<noteq> None \<or> e_recv_count (items w c) = 0 \<and> e_recv_count (items w v) = 0) \<and> alive)"
  obtain r w1 where c: "cache_add (e_addr (items w v)) c w = Some (r, w1)"
    using assms(1,2) by (cases "cache_add (e_addr (items w v)) c w") (auto simp: on_trigger_def)
  obtain a where a: "r = Some a" using assms(1,2) c by (cases r) (auto simp: on_trigger_def)
  have aside: "aside c w w1" by (rule aside_cache_add [OF c])
  then have dp: "e_dp (items w1 c) = Some d" "groups w1 = groups w" using assms(4) by (simp_all add: aside_def same_choice_def)
  define w2 where "w2 = upd_dp d (\<lambda>g. g\<lparr>d_fail_count := d_fail_count g + 1\<rparr>) w1"
  define w3 where "w3 = upd_ev c (\<lambda>e. e\<lparr>e_dp_mask := e_dp_mask e OR d_bit (groups w2 d), e_detect := type\<rparr>) w2"
  have bit: "d_bit (groups w2 d) = d_bit (groups w d)" "groups w3 = groups w2" using dp(2) by (simp_all add: w2_def w3_def upd_dp_def upd_ev_def)
  obtain n unch msk where ng: "next_group type cr (p_dp (params w3)) (e_dp_mask (items w3 c)) (e_dp_mask (items w3 c)) w3 = Some (n, unch, msk)"
    using assms(1,2) c a dp
    by (cases "next_group type cr (p_dp (params w3)) (e_dp_mask (items w3 c)) (e_dp_mask (items w3 c)) w3")
      (auto simp: on_trigger_def cr_def w3_def w2_def Let_def upd_dp_def)
  define w4 where "w4 = upd_ev c (\<lambda>e. e\<lparr>e_dp_mask := msk\<rparr>) w3"
  have hook: "do {
      w \<leftarrow> (if d_bit (groups w4 d) AND c_dp_mask (cache w4 a) = 0
           then do {
             w \<leftarrow> (case n of None \<Rightarrow> Some w4
                  | Some n \<Rightarrow> if d_auto_level (groups w4 n) AND AUTO_SORT \<noteq> 0 \<and> d_pri (groups w4 d) > d_pri (groups w4 n) \<and>
                        d_bit (groups w4 d) AND unch = 0 then swop_groups d n w4 else Some w4);
             Some (upd_dp d (\<lambda>g. g\<lparr>d_pri := d_pri g + 1\<rparr>) w) }
           else Some w4);
      (case n of None \<Rightarrow> Some (- 1, upd_cache a (\<lambda>x. x\<lparr>c_dp_mask := 0, c_detect := 0, c_dp := p_dp (params w)\<rparr>) w)
       | Some n \<Rightarrow> do {
           let w = upd_cache a (\<lambda>x. x\<lparr>c_dp_mask := c_dp_mask x OR e_dp_mask (items w c), c_detect := e_detect (items w c), c_dp := Some n\<rparr>) w;
           if d_auto_level (groups w n) AND AUTO_NORECONN = 0 \<and> cr then reconnect v w else Some (- 1, w) }) } = Some (0, w')"
    using assms(1,2) c a dp ng unfolding w4_def w3_def w2_def cr_def on_trigger_def
    by (simp add: Let_def cong: if_cong split del: if_split del: not_None_eq disj_not1)
  obtain m where m: "n = Some m" using hook by (cases n) (auto simp: bind_eq_Some_conv)
  have bit4: "d_bit (groups w4 d) = d_bit (groups w d)" using bit by (simp add: w4_def upd_ev_def)
  obtain w5 f where "w5 = w4 \<or> w5 = upd_dp d (\<lambda>g. g\<lparr>d_pri := d_pri g + 1\<rparr>) w4 \<or>
      (\<exists>u. d_bit (groups w d) AND unch = 0 \<and> swop_groups d m w4 = Some u \<and> w5 = upd_dp d (\<lambda>g. g\<lparr>d_pri := d_pri g + 1\<rparr>) u)"
    "reconnect v (upd_cache a f w5) = Some (0, w')"
    using hook unfolding m option.case bit4 by (fastforce simp: bind_eq_Some_conv Let_def split: if_splits)
  then show ?thesis
    using c a ng unfolding m w4_def
    by (intro exI [of _ a] exI [of _ w1] exI [of _ w3] exI [of _ cr] exI [of _ m] exI [of _ unch] exI [of _ msk] exI [of _ w5])
      (auto simp: w3_def bit Let_def w2_def dp(2))
qed


lemma or_sub:
  fixes m s t :: "64 word"
  shows "m OR s = m \<Longrightarrow> s OR t = s \<Longrightarrow> m OR t = m"
  by (metis or.assoc)

lemma choice_same:
  assumes "groups w' = groups w"
  shows "choice w' type cr m ds = choice w type cr m ds"
proof -
  have "tried w' = tried w" "answers w' = answers w" using assms by (simp_all add: tried_def answers_def fun_eq_iff)
  then show ?thesis by (induction ds) (simp_all only: choice.simps assms)
qed

text \<open>Counting the failure, and perhaps sorting the groups.\<close>

lemma counted_groups:
  assumes "groups_ok w ds" and "d \<in> set ds" and "choice w type cr m ds = (Some n, ps)" and "m OR d_bit (groups w d) = m"
    and "unch = m AND NOT (bits w ps)"
    and "w' = w \<or> w' = upd_dp d (\<lambda>g. g\<lparr>d_pri := d_pri g + 1\<rparr>) w \<or>
      (\<exists>u. d_bit (groups w d) AND unch = 0 \<and> swop_groups d n w = Some u \<and> w' = upd_dp d (\<lambda>g. g\<lparr>d_pri := d_pri g + 1\<rparr>) u)"
  shows "\<exists>ds'. groups_ok w' ds' \<and> set ds' = set ds \<and> (\<forall>x. d_bit (groups w' x) = d_bit (groups w x)) \<and> items w' = items w \<and>
      pl_count w' = pl_count w \<and> pl_links w' = pl_links w \<and> p_dp_full_mask (params w') = p_dp_full_mask (params w)"
  using assms(6)
proof (elim disjE exE conjE)
  assume "w' = w"
  then show ?thesis using assms(1) by auto
next
  assume "w' = upd_dp d (\<lambda>g. g\<lparr>d_pri := d_pri g + 1\<rparr>) w"
  then show ?thesis using assms(1) groups_ok_upd_dp [of "\<lambda>g. g\<lparr>d_pri := d_pri g + 1\<rparr>" d w] by (intro exI [of _ ds]) simp
next
  fix u assume u: "d_bit (groups w d) AND unch = 0" "swop_groups d n w = Some u" "w' = upd_dp d (\<lambda>g. g\<lparr>d_pri := d_pri g + 1\<rparr>) u"
  show ?thesis
    using sorted_groups [OF assms(1-4) u(1) [unfolded assms(5)] u(2)] swop_groups_frame [OF u(2)]
      groups_ok_upd_dp [of "\<lambda>g. g\<lparr>d_pri := d_pri g + 1\<rparr>" d u]
    by (auto simp: u(3))
qed

text \<open>The state in which \<open>on_trigger\<close> connects again: the failed group is marked.\<close>

lemma trigger_marks:
  assumes "choice_ok w c ds" and "event_used c w" and "e_pair (items w v) = Some c" and "v \<noteq> c" and d: "e_dp (items w c) = Some d"
    and "on_trigger type v alive w = Some (0, w')"
  shows "\<exists>u ds'. reconnect v u = Some (0, w') \<and> choice_ok u c ds' \<and> set ds' = set ds \<and> event_used c u \<and> e_pair (items u v) = Some c \<and>
    (\<forall>x. d_bit (groups u x) = d_bit (groups w x)) \<and>
    e_dp_mask (items u c) OR (e_dp_mask (items w c) OR d_bit (groups w d)) = e_dp_mask (items u c)"
proof -
  have g: "groups_ok w ds" "d \<in> set ds" and full: "e_dp_mask (items w c) OR p_dp_full_mask (params w) = p_dp_full_mask (params w)"
    using assms(1) d by (auto simp: choice_ok_def)
  obtain a w1 w3 cr n unch msk w5 f where 1: "cache_add (e_addr (items w v)) c w = Some (Some a, w1)"
    and w3: "w3 = upd_ev c (\<lambda>e. e\<lparr>e_dp_mask := e_dp_mask e OR d_bit (groups w d), e_detect := type\<rparr>)
        (upd_dp d (\<lambda>g. g\<lparr>d_fail_count := d_fail_count g + 1\<rparr>) w1)"
    and ng: "next_group type cr (p_dp (params w3)) (e_dp_mask (items w3 c)) (e_dp_mask (items w3 c)) w3 = Some (Some n, unch, msk)"
    and w5: "let w4 = upd_ev c (\<lambda>e. e\<lparr>e_dp_mask := msk\<rparr>) w3 in
      w5 = w4 \<or> w5 = upd_dp d (\<lambda>g. g\<lparr>d_pri := d_pri g + 1\<rparr>) w4 \<or>
      (\<exists>u. d_bit (groups w d) AND unch = 0 \<and> swop_groups d n w4 = Some u \<and> w5 = upd_dp d (\<lambda>g. g\<lparr>d_pri := d_pri g + 1\<rparr>) u)"
    and rec: "reconnect v (upd_cache a f w5) = Some (0, w')"
    using on_trigger_parts [OF assms(6,3,4) d] by blast
  let ?m = "e_dp_mask (items w c) OR d_bit (groups w d)"
  have a1: "aside c w w1" "items w1 v = items w v" using aside_cache_add [OF 1] cache_add_items [OF 1 assms(4)] by simp_all
  have p3: "params w3 = params w1" "e_dp_mask (items w3 c) = ?m" "e_dp (items w3 c) = Some d" "e_pair (items w3 v) = Some c"
    "pl_count w3 = pl_count w" "pl_links w3 = pl_links w"
    using a1 d assms(3,4) by (simp_all add: w3 aside_def same_choice_def) (simp_all add: upd_ev_def)
  have "groups_ok w1 ds" using g(1) a1(1) groups_ok_same [of w1 w ds] by (simp add: aside_def same_choice_def)
  then have g3: "groups_ok w3 ds" unfolding w3 by (simp add: groups_ok_upd_dp)
  have bits3: "d_bit (groups w3 x) = d_bit (groups w x)" for x using a1(1) by (simp add: w3 aside_def same_choice_def) (simp add: upd_ev_def)
  have fm: "p_dp_full_mask (params w3) = p_dp_full_mask (params w)" using a1(1) p3(1) by (simp add: aside_def same_choice_def)
  have l: "p_dp_full_mask (params w) = bits w ds" using g(1) unfolding groups_ok_def by blast
  have "d_bit (groups w d) OR p_dp_full_mask (params w) = p_dp_full_mask (params w)"
    unfolding l by (rule and_or_sub [OF in_bits [OF g(2)]])
  then have mf: "?m OR p_dp_full_mask (params w3) = p_dp_full_mask (params w3)" using full by (simp add: fm or.assoc)
  obtain n0 ps where ch: "choice w3 type cr ?m ds = (n0, ps)" by (cases "choice w3 type cr ?m ds")
  have n: "n0 = Some n" "unch = ?m AND NOT (bits w3 ps)" "msk = ?m OR bits w3 ps"
    using next_group_walk_all [OF g3 mf ch] ng p3(2) by simp_all
  note ch = ch [unfolded n(1)]
  obtain zs where zs: "ds = ps @ n # zs" using choice_answers [OF ch] by blast
  have "p_dp_full_mask (params w3) = bits w3 ds" using g3 unfolding groups_ok_def by blast
  then have "bits w3 ps OR p_dp_full_mask (params w3) = p_dp_full_mask (params w3)" unfolding zs by simp
  then have msk: "msk OR p_dp_full_mask (params w) = p_dp_full_mask (params w)" using mf n(3) by (simp add: fm or.assoc or.left_commute)
  define w4 where "w4 = upd_ev c (\<lambda>e. e\<lparr>e_dp_mask := msk\<rparr>) w3"
  have p4: "e_dp_mask (items w4 c) = msk" "e_dp (items w4 c) = Some d" "e_pair (items w4 v) = Some c" "pl_count w4 = pl_count w" "pl_links w4 = pl_links w"
    "groups w4 = groups w3" "params w4 = params w3"
    using p3 assms(4) by (simp_all add: w4_def upd_ev_def)
  have g4: "groups_ok w4 ds" using g3 by (simp add: w4_def)
  have c4: "choice w4 type cr ?m ds = (Some n, ps)" using ch choice_same [OF p4(6)] by simp
  have m4: "?m OR d_bit (groups w4 d) = ?m" "unch = ?m AND NOT (bits w4 ps)" using bits3 n(2) by (simp_all add: p4(6) or.assoc bits_def)
  have "w5 = w4 \<or> w5 = upd_dp d (\<lambda>g. g\<lparr>d_pri := d_pri g + 1\<rparr>) w4 \<or>
      (\<exists>u. d_bit (groups w4 d) AND unch = 0 \<and> swop_groups d n w4 = Some u \<and> w5 = upd_dp d (\<lambda>g. g\<lparr>d_pri := d_pri g + 1\<rparr>) u)"
    using w5 bits3 by (simp add: w4_def [symmetric] p4(6))
  from counted_groups [OF g4 g(2) c4 m4 this] obtain ds5 where 5: "groups_ok w5 ds5" "set ds5 = set ds" "\<And>x. d_bit (groups w5 x) = d_bit (groups w4 x)" "items w5 = items w4"
      "pl_count w5 = pl_count w4" "pl_links w5 = pl_links w4" "p_dp_full_mask (params w5) = p_dp_full_mask (params w4)"
    by blast
  have "choice_ok (upd_cache a f w5) c ds5" using 5 p4 msk g(2) fm by (simp add: choice_ok_def) (simp add: upd_cache_def)
  then show ?thesis
    using rec 5 p4 bits3 assms(2) n(3)
    by (intro exI [of _ "upd_cache a f w5"] exI [of _ ds5]) (simp add: event_used_def upd_cache_def or.assoc or.commute or.left_commute)
qed

text \<open>One failure that ends with another attempt.\<close>

lemma attempt:
  assumes "choice_ok w c ds" and "event_used c w" and "e_pair (items w v) = Some c" and "v \<noteq> c"
    and "on_trigger type v alive w = Some (0, w')"
  shows "\<exists>ds'. choice_ok w' c ds' \<and> set ds' = set ds \<and> groups_left w' c ds' \<subset> groups_left w c ds"
proof -
  obtain d where d: "e_dp (items w c) = Some d" "d \<in> set ds" and g: "groups_ok w ds" using assms(1) by (auto simp: choice_ok_def)
  let ?m = "e_dp_mask (items w c)" and ?m' = "e_dp_mask (items w' c)"
  obtain u ds' where u: "reconnect v u = Some (0, w')" "choice_ok u c ds'" "set ds' = set ds" "event_used c u" "e_pair (items u v) = Some c"
    "\<And>x. d_bit (groups u x) = d_bit (groups w x)" "e_dp_mask (items u c) OR (?m OR d_bit (groups w d)) = e_dp_mask (items u c)"
    using trigger_marks [OF assms(1-4) d(1) assms(5)] by blast
  have m: "moved_on c ds' u w'" by (rule moved_on_reconnect [OF u(1,5) assms(4) u(2,4)])
  have bw: "d_bit (groups w' x) = d_bit (groups w x)" for x using m u(6) by (simp add: moved_on_def)
  obtain d' where d': "e_dp (items w' c) = Some d'" "d' \<in> set ds" "\<not> tried w ?m' d'"
    using m u(3,6) by (auto simp: moved_on_def tried_def)
  have grow: "?m' OR (?m OR d_bit (groups w d)) = ?m'" using or_sub [OF _ u(7)] m by (simp add: moved_on_def)
  have "?m' OR ?m = ?m'" "?m' OR d_bit (groups w d) = ?m'"
    by (rule or_sub [OF grow]; simp add: or.assoc or.commute or.left_commute)+
  then have "groups_left w' c ds' \<subset> groups_left w c ds"
    by (intro groups_left_less [OF g d u(3) bw refl _ _ d'])
  then show ?thesis using m u(3) by (auto simp: moved_on_def)
qed

section \<open>All attempts for a client\<close>

text \<open>Something else happens: other clients' failures may sort the groups, but the choice for \<open>c\<close> stays.\<close>

definition undisturbed :: "nat \<Rightarrow> proc \<Rightarrow> proc \<Rightarrow> bool" where
  "undisturbed c w w' \<longleftrightarrow> e_dp (items w' c) = e_dp (items w c) \<and> e_dp_mask (items w' c) = e_dp_mask (items w c) \<and>
     p_dp_full_mask (params w') = p_dp_full_mask (params w) \<and> (\<forall>x. d_bit (groups w' x) = d_bit (groups w x)) \<and>
     (\<forall>ds. groups_ok w ds \<longrightarrow> (\<exists>ds'. groups_ok w' ds' \<and> set ds' = set ds))"

text \<open>
  \<open>attempts c w n w'\<close>: from \<open>w\<close> on the connection of the client \<open>c\<close> was tried again \<open>n\<close> times. In between
  its data may lead to another group (\<open>setup_conn\<close> and \<open>connect_hook\<close>), and a response to the mark
  that \<open>on_response\<close> sets.
\<close>

inductive attempts :: "nat \<Rightarrow> proc \<Rightarrow> nat \<Rightarrow> proc \<Rightarrow> bool" for c :: nat and w :: proc where
  start: "attempts c w 0 w"
| meanwhile: "attempts c w n u \<Longrightarrow> undisturbed c u u' \<Longrightarrow> attempts c w n u'"
| regroup: "attempts c w n u \<Longrightarrow> find_dp c buff dst u = Some (Some d, u') \<Longrightarrow>
    attempts c w n (upd_ev c (\<lambda>e. e\<lparr>e_dp := Some d\<rparr>) u')"
| noted: "attempts c w n u \<Longrightarrow> e_dp (items u c) = Some d \<Longrightarrow>
    attempts c w n (upd_ev c (\<lambda>e. e\<lparr>e_dp_mask := e_dp_mask e OR d_bit (groups u d)\<rparr>) u)"
| again: "attempts c w n u \<Longrightarrow> event_used c u \<Longrightarrow> e_pair (items u v) = Some c \<Longrightarrow> v \<noteq> c \<Longrightarrow>
    on_trigger type v alive u = Some (0, u') \<Longrightarrow> attempts c w (Suc n) u'"

lemma groups_left_finite [simp]: "finite (groups_left w c ds)"
  by (simp add: groups_left_def)

lemma undisturbed_choice:
  assumes "undisturbed c w w'" and "choice_ok w c ds"
  shows "\<exists>ds'. choice_ok w' c ds' \<and> set ds' = set ds \<and> groups_left w' c ds' = groups_left w c ds"
proof -
  obtain ds' where "groups_ok w' ds'" "set ds' = set ds" using assms by (auto simp: undisturbed_def choice_ok_def)
  then show ?thesis
    using assms by (intro exI [of _ ds']) (auto simp: undisturbed_def choice_ok_def groups_left_def tried_def)
qed

lemma regroup_choice:
  assumes "find_dp c buff dst w = Some (Some d, w')" and "choice_ok w c ds"
  shows "choice_ok (upd_ev c (\<lambda>e. e\<lparr>e_dp := Some d\<rparr>) w') c ds \<and>
    groups_left (upd_ev c (\<lambda>e. e\<lparr>e_dp := Some d\<rparr>) w') c ds \<subseteq> groups_left w c ds"
proof -
  let ?u = "upd_ev c (\<lambda>e. e\<lparr>e_dp := Some d\<rparr>) w'"
  obtain x where x: "w' = add_mask c x w" "e_dp (items w c) = Some d \<or> tried w (e_dp_mask (items w c) OR x) (the (e_dp (items w c)))"
    using find_dp_picks [OF assms] by blast
  have u: "e_dp (items ?u c) = Some d" "e_dp_mask (items ?u c) = e_dp_mask (items w c) OR x" "tried ?u = tried w"
    using x(1) by (auto simp: upd_ev_def add_mask_def tried_def fun_eq_iff)
  have "tried w (e_dp_mask (items w c)) y \<Longrightarrow> tried w (e_dp_mask (items w c) OR x) y" for y
    by (rule tried_or)
  then have "groups_left ?u c ds \<subseteq> groups_left w c ds"
    using x(2) by (auto simp: groups_left_def u)
  then show ?thesis using moved_on_picks [OF assms] by (simp add: moved_on_def)
qed

lemma noted_choice:
  assumes "e_dp (items w c) = Some d" and "choice_ok w c ds"
  defines "u \<equiv> upd_ev c (\<lambda>e. e\<lparr>e_dp_mask := e_dp_mask e OR d_bit (groups w d)\<rparr>) w"
  shows "choice_ok u c ds \<and> groups_left u c ds \<subseteq> groups_left w c ds"
proof -
  have u: "e_dp (items u c) = Some d" "e_dp_mask (items u c) = e_dp_mask (items w c) OR d_bit (groups w d)" "tried u = tried w"
    "params u = params w" "groups_ok u ds"
    using assms(1,2) by (simp_all add: u_def choice_ok_def) (simp_all add: upd_ev_def tried_def fun_eq_iff)
  have d: "d \<in> set ds" "p_dp_full_mask (params w) = bits w ds" using assms(1,2) by (auto simp: choice_ok_def groups_ok_def)
  have "d_bit (groups w d) OR p_dp_full_mask (params w) = p_dp_full_mask (params w)"
    unfolding d(2) by (rule and_or_sub [OF in_bits [OF d(1)]])
  moreover have "tried w (e_dp_mask (items w c)) y \<Longrightarrow> tried w (e_dp_mask (items w c) OR d_bit (groups w d)) y" for y
    by (rule tried_or)
  ultimately show ?thesis using assms(1,2) u by (auto simp: choice_ok_def groups_left_def or.assoc)
qed

lemma attempts_left:
  assumes "attempts c w n w'" and "choice_ok w c ds"
  shows "\<exists>ds'. choice_ok w' c ds' \<and> set ds' = set ds \<and> n + card (groups_left w' c ds') \<le> card (groups_left w c ds)"
  using assms
proof induction
  case (meanwhile n u u')
  then show ?case using undisturbed_choice by metis
next
  case (regroup n u buff dst d u')
  then show ?case using regroup_choice [OF regroup.hyps(2)] card_mono [OF groups_left_finite] by (meson add_left_mono order_trans)
next
  case (noted n u d)
  then show ?case using noted_choice [OF noted.hyps(2)] card_mono [OF groups_left_finite] by (meson add_left_mono order_trans)
next
  case (again n u v type alive u')
  then obtain ds1 where 1: "choice_ok u c ds1" "set ds1 = set ds" "n + card (groups_left u c ds1) \<le> card (groups_left w c ds)" by blast
  then obtain ds2 where 2: "choice_ok u' c ds2" "set ds2 = set ds1" "groups_left u' c ds2 \<subset> groups_left u c ds1"
    using attempt [OF 1(1) again.hyps(2-5)] by blast
  then have "card (groups_left u' c ds2) < card (groups_left u c ds1)" by (intro psubset_card_mono) simp_all
  then show ?case using 1 2 by (intro exI [of _ ds2]) simp
qed auto

text \<open>
  C3: A connection is not tried for ever. Each time a failure makes \<open>on_trigger\<close> connect again, the
  client gets a group that it has not had and that was not passed over, whatever the trigger is, however the
  groups were sorted meanwhile and whatever the filters skip: with \<open>k\<close> groups there are at most \<open>k - 1\<close> further
  attempts.
\<close>

theorem attempts_bounded:
  assumes "attempts c w n w'" and "choice_ok w c ds"
  shows "n < length ds"
proof -
  obtain d where "e_dp (items w c) = Some d" "d \<in> set ds" using assms(2) by (auto simp: choice_ok_def)
  then have "groups_left w c ds \<subset> set ds" by (auto simp: groups_left_def)
  then have "card (groups_left w c ds) < card (set ds)" by (intro psubset_card_mono) simp_all
  then show ?thesis using attempts_left [OF assms] card_length [of ds] by fastforce
qed

text \<open>The connection of the client 1 fails; it used the last of three groups.\<close>

definition failing :: proc where
  "failing = three_groups\<lparr>
     items := (\<lambda>v. if v = 1 then zero_eval\<lparr>e_fd := 9, e_index := 1, e_pair := Some 2, e_dp := Some 102\<rparr>
       else if v = 2 then zero_eval\<lparr>e_fd := 10, e_index := 2, e_pair := Some 1, e_flag := FLAG_CONN, e_addr := zero_addr\<lparr>sa_family := AF_INET\<rparr>\<rparr>
       else zero_eval\<lparr>e_fd := - 1\<rparr>),
     params := (params three_groups)\<lparr>p_mempool := Some (mem_pool False True CMP_BITS), p_delay_conn := True\<rparr>,
     pl_count := 3\<rparr>"

theorem attempts_bounded_witness:
  "\<exists>w'. attempts 1 failing 1 w' \<and> e_dp (items w' 1) = Some 101 \<and> 1 < length [100, 101, 102 :: nat]"
proof -
  have "groups_ok failing [100, 101, 102]"
    using three_groups_ok groups_ok_same [of failing three_groups "[100, 101, 102]"] by (simp add: failing_def)
  then have ok: "choice_ok failing 1 [100, 101, 102]"
    by (simp add: choice_ok_def failing_def three_groups_def zero_eval_def)
  have "map_option (\<lambda>(r, w). (r, e_dp (items w 1))) (on_trigger DETECT_CONNECT 2 True failing) = Some (0, Some 101)"
    by code_simp
  then obtain w' where w': "on_trigger DETECT_CONNECT 2 True failing = Some (0, w')" "e_dp (items w' 1) = Some 101" by auto
  have "event_used 1 failing" by (simp add: event_used_def failing_def three_groups_def fresh_def)
  moreover have "e_pair (items failing 2) = Some 1" by (simp add: failing_def)
  ultimately have "attempts 1 failing (Suc 0) w'" using again [OF start _ _ _ w'(1)] by simp
  then show ?thesis using attempts_bounded [OF _ ok] w'(2) by (intro exI [of _ w']) auto
qed

end
