(* ===== verification/Memory_Props.thy ===== *)
theory Memory_Props
  imports Retry_Props Address_Props Lists_Props
begin

text \<open>
  What the cache of extend.c is for: the group that \<open>on_trigger\<close> stores for an address is the one that the
  next client for this address begins with.
\<close>

section \<open>The key of an address\<close>

lemma serialize_addr_length:
  assumes "addr_ok dst" and "serialize_addr dst = (ck, n)"
  shows "length ck = 20" and "n = 8 \<or> n = 20"
  using assms by (auto simp: serialize_addr_def le16_bytes_def addr_ok_def key_offset_def Let_def split: if_splits)

text \<open>An element that covers a key is the one that a search for this key returns.\<close>

lemma get_covering:
  assumes "pool_inv ok_bits sg CMP_BITS hdr" and "v \<in> pool_elems hdr" and "ok_bits (temp_elem hdr str len)"
    and "prefix (key_bits v) (key_bits (temp_elem hdr str len))"
  shows "mem_get sg hdr str len = Some v"
proof -
  let ?q = "temp_elem hdr str len"
  have t: "tree_ok ok_bits (scmp sg) (mp_root hdr)" using assms(1) by (simp add: pool_inv_def)
  note G = bits.get_cases [OF assms(1,3)]
  obtain u where u: "mem_get sg hdr str len = Some u" "u \<in> pool_elems hdr" "related key_bits ?q u"
    using G assms(2,4) by (auto simp: related_def split: option.splits)
  have "prefix (key_bits u) (key_bits v) \<or> prefix (key_bits v) (key_bits u)"
    using u(3) assms(4) prefix_same_cases prefix_order.trans unfolding related_def by metis
  then have "u = v" using bits.antichain [OF t] u(2) assms(2) unfolding pool_elems_def by metis
  then show ?thesis using u(1) by simp
qed

lemma key_cut:
  assumes "nat len \<le> 8 * n"
  shows "key_bits (temp_elem hdr str len) = key_bits (new_elem hdr a (take n str) len)"
proof -
  have "byte_bits str = byte_bits (take n str) @ byte_bits (drop n str)" by (metis byte_bits_append append_take_drop_id)
  then have "take (nat len) (byte_bits str) = take (nat len) (byte_bits (take n str))"
    using assms by (cases "n \<le> length str") simp_all
  then show ?thesis by (simp add: key_bits_def temp_elem_def new_elem_def)
qed

section \<open>Adding and finding\<close>

lemma alloc_some:
  assumes "gives_memory (kernel w)"
  shows "\<exists>w'. alloc n w = (Some (next_addr w), w') \<and> next_addr w' = next_addr w + 1 \<and> kernel w' = kernel w \<and> char_signed w' = char_signed w \<and>
    groups w' = groups w \<and> items w' = items w \<and> params w' = params w"
  using assms by (simp add: alloc_def call_def sys_def Let_def gives_memory_def not_le [symmetric])


lemma char_signed_updates [simp]:
  "char_signed (snd (call x w)) = char_signed w" "char_signed (upd_cache a f w) = char_signed w" "char_signed (set_mempool h w) = char_signed w"
  "char_signed (upd_ev v g w) = char_signed w"
  by (simp_all add: call_def sys_def Let_def upd_cache_def set_mempool_def upd_ev_def)

text \<open>
  \<open>cache_add\<close> without merging of addresses: the pool then has an element that covers the whole key, and the
  entry has the time.
\<close>

lemma cache_add_stores:
  assumes "p_mempool (params w) = Some pool" and "pool_inv ok_bits (char_signed w) CMP_BITS pool" and "pool_room pool"
    and "\<forall>e\<in>pool_elems pool. el_addr e < next_addr w" and "gives_memory (kernel w)"
    and "addr_ok dst" and "serialize_addr dst = (ck, n)" and "p_cache_pre (params w) = 0"
  shows "\<exists>w' pool' e. cache_add dst l w = Some (Some (el_addr e), w') \<and> p_mempool (params w') = Some pool' \<and>
    pool_inv ok_bits (char_signed w) CMP_BITS pool' \<and> e \<in> pool_elems pool' \<and>
    prefix (key_bits e) (key_bits (temp_elem pool' ck (n * 8))) \<and>
    c_time (cache w' (el_addr e)) = a_ret (kernel w (trace w) Time) \<and> kernel w' = kernel w \<and> char_signed w' = char_signed w \<and>
    groups w' = groups w \<and> params w' = (params w)\<lparr>p_mempool := Some pool'\<rparr> \<and> (\<forall>u. u \<noteq> l \<longrightarrow> items w' u = items w u)"
proof -
  note ck = serialize_addr_length [OF assms(6,7)]
  obtain t w1 where t: "call Time w = (t, w1)" by (cases "call Time w")
  then have t1: "t = a_ret (kernel w (trace w) Time)" "kernel w1 = kernel w" "params w1 = params w" "next_addr w1 = next_addr w"
    "char_signed w1 = char_signed w" "groups w1 = groups w" "items w1 = items w"
    by (auto simp: call_def sys_def Let_def)
  obtain w2 where 2: "alloc (nat n) w1 = (Some (next_addr w), w2)" "next_addr w2 = next_addr w + 1" "kernel w2 = kernel w"
    "char_signed w2 = char_signed w" "groups w2 = groups w" "items w2 = items w" "params w2 = params w"
    using alloc_some [of w1 "nat n"] assms(5) t1 by auto
  obtain w3 where 3: "alloc 96 w2 = (Some (next_addr w + 1), w3)" "kernel w3 = kernel w"
    "char_signed w3 = char_signed w" "groups w3 = groups w" "items w3 = items w" "params w3 = params w"
    using alloc_some [of w2 96] assms(5) 2 by auto
  let ?a = "next_addr w + 1" and ?e = "new_elem pool (next_addr w + 1) (take (nat n) ck) (n * 8)"
  have ok: "ok_bits ?e" using assms(2) ck by (auto simp: ok_bits_def new_elem_def pool_inv_def)
  have fresh: "?a \<notin> el_addr ` pool_elems pool" using assms(4) by auto
  obtain pool' v fr where m: "mem_add (char_signed w) pool (Some ?a) (take (nat n) ck) (n * 8) = Some (pool', Some v, fr)"
    "pool_inv ok_bits (char_signed w) CMP_BITS pool'" "v \<in> pool_elems pool'" "prefix (key_bits v) (key_bits ?e)"
    using bits.add_cases [OF assms(2,3) ok fresh] by (fastforce split: if_splits)
  have "key_bits (temp_elem pool' ck (n * 8)) = key_bits (new_elem pool' ?a (take (nat n) ck) (n * 8))" using ck(2) by (intro key_cut) auto
  then have pre: "prefix (key_bits v) (key_bits (temp_elem pool' ck (n * 8)))" using m(4) by (simp add: key_bits_def new_elem_def)
  define w4 where "w4 = upd_cache (el_addr v) (\<lambda>x. x\<lparr>c_time := t\<rparr>) (set_mempool pool' (upd_cache ?a (\<lambda>_. zero_cache) w3))"
  define w5 where "w5 = (if c_extra (cache w4 (el_addr v)) = None \<and> e_host (items w4 l) \<noteq> None
      then upd_ev l (\<lambda>e. e\<lparr>e_host := None\<rparr>) (upd_cache (el_addr v) (\<lambda>x. x\<lparr>c_extra := e_host (items w4 l),
         c_extra_len := nat (e_host_len (items w4 l) mod 2 ^ 32)\<rparr>) w4) else w4)"
  have "cache_bits dst ck n pool w1 = Some (n * 8)" using assms(8) t1 by (simp add: cache_bits_def)
  then have "cache_add dst l w = Some (Some (el_addr v), w5)"
    using assms(1,7) t t1 2 3 m(1) by (simp add: cache_add_def w5_def w4_def Let_def cong: if_cong)
  moreover have "c_time (cache w4 (el_addr v)) = t" "params w4 = (params w)\<lparr>p_mempool := Some pool'\<rparr>" "kernel w4 = kernel w" "char_signed w4 = char_signed w"
    "groups w4 = groups w" "items w4 = items w"
    using 3 by (simp_all add: w4_def upd_cache_def set_mempool_def)
  moreover have "c_time (cache w5 (el_addr v)) = c_time (cache w4 (el_addr v))" "params w5 = params w4" "kernel w5 = kernel w4"
    "char_signed w5 = char_signed w4" "groups w5 = groups w4" "\<forall>u. u \<noteq> l \<longrightarrow> items w5 u = items w4 u"
    by (simp_all add: w5_def upd_cache_def upd_ev_def)
  ultimately show ?thesis using m(2,3) pre t1(1) by (intro exI [of _ w5] exI [of _ pool'] exI [of _ v]) simp
qed


text \<open>What the entry says is found again, until it is too old.\<close>

lemma cache_get_stored:
  assumes "p_mempool (params u) = Some pool" and "pool_inv ok_bits (char_signed u) CMP_BITS pool" and "e \<in> pool_elems pool"
    and "addr_ok dst" and "serialize_addr dst = (ck, n)" and "prefix (key_bits e) (key_bits (temp_elem pool ck (n * 8)))"
    and "c_dp (cache u (el_addr e)) = Some d"
    and "d_cache_ttl (groups u d) = 0 \<or> a_ret (kernel u (trace u) Time) \<le> c_time (cache u (el_addr e)) + d_cache_ttl (groups u d)"
  shows "cache_get dst u = Some (Some (el_addr e), snd (call Time u))"
proof -
  note ck = serialize_addr_length [OF assms(4,5)]
  have "ok_bits (temp_elem pool ck (n * 8))" using assms(2) ck by (auto simp: ok_bits_def temp_elem_def pool_inv_def)
  then have "mem_get (char_signed u) pool ck (n * 8) = Some e" using get_covering [OF assms(2,3) _ assms(6)] by blast
  moreover obtain w1 where "call Time u = (a_ret (kernel u (trace u) Time), w1)" by (simp add: call_def sys_def Let_def)
  ultimately show ?thesis using assms(1,5,7,8) by (auto simp: cache_get_def)
qed

text \<open>A client without data whose group fits the address keeps this group.\<close>

lemma find_dp_own:
  assumes "e_dp (items w c) = Some d" and "e_buff (items w c) = None" and "d_bit (groups w d) AND e_dp_mask (items w c) = 0"
    and "check_l34 (groups w d) SOCK_STREAM dst w" and "e_dp_mask (items w c) \<noteq> p_dp_full_mask (params w)"
  shows "find_dp c None dst w = Some (Some d, w)"
proof -
  have "dp_fits d (Some d) (items w c) None dst w = Some True" using assms(3,4) by (simp add: dp_fits_def)
  then have "find_dp_loop c (Some d) (Some d) None dst w = Some (Some d, w)"
    using assms(5) by (subst find_dp_loop.simps) simp
  then show ?thesis using assms(1,2) by (simp add: find_dp_def)
qed

text \<open>\<open>connect_hook\<close> of a client without a group takes over what the cache has for the address.\<close>

definition take_over :: "nat \<Rightarrow> 64 word \<Rightarrow> nat \<Rightarrow> nat \<Rightarrow> proc \<Rightarrow> proc" where
  "take_over v m type d w = upd_ev v (\<lambda>e. e\<lparr>e_dp_mask := m, e_detect := type, e_dp := Some d\<rparr>) w"

lemma connect_hook_takes:
  assumes "e_dp (items u v) = None" and "cache_get dst u = Some (Some a, w)"
    and "c_dp_mask (cache w a) = m" "c_detect (cache w a) = type" "c_dp (cache w a) = Some d"
  shows "connect_hook v dst next u = connect_hook v dst next (take_over v m type d w)"
proof -
  have "e_dp (items (take_over v m type d w) v) = Some d" by (simp add: take_over_def upd_ev_def)
  then show ?thesis using assms by (simp add: connect_hook_def take_over_def)
qed

text \<open>
  C7: A choice is remembered for the address, when addresses are not merged
  (\<open>p_cache_pre = 0\<close>). The pool of the cache is well formed and not full, its elements are older objects
  than those to come, memory is given, and the groups are those \<open>parse_args\<close> leaves. When \<open>cache_add\<close>, as \<open>on_trigger\<close> calls
  it for a client \<open>l\<close>, has made or found the entry for an address and the group \<open>d\<close> and the mask \<open>m\<close> of
  failed groups without \<open>d\<close> are written to it, then \<open>connect_hook\<close> of another client for this
  address, which is in the pool of events and has no group and no buffered data yet, goes on exactly as if it had this
  mask and this group, provided the group has no age limit or the clock never shows the entry as
  too old. If moreover the group's filters fit the address, the search for the client's group ends with this group
  at once, and when the connection is begun the client has the group and the mask.
\<close>

theorem choice_remembered:
  assumes "p_mempool (params w) = Some pool" and "pool_inv ok_bits (char_signed w) CMP_BITS pool" and "pool_room pool"
    and "\<forall>e\<in>pool_elems pool. el_addr e < next_addr w" and "gives_memory (kernel w)"
    and "addr_ok dst" and "p_cache_pre (params w) = 0"
    and "groups_ok w ds" and "d \<in> set ds" and "d_bit (groups w d) AND m = 0"
    and "d_cache_ttl (groups w d) = 0 \<or>
      (\<forall>tr. a_ret (kernel w tr Time) \<le> a_ret (kernel w (trace w) Time) + d_cache_ttl (groups w d))"
    and "v \<noteq> l" and "e_dp (items w v) = None" and "e_buff (items w v) = None" and "event_used v w"
  shows "\<exists>a w1 w3. cache_add dst l w = Some (Some a, w1) \<and>
    (let u = upd_cache a (\<lambda>x. x\<lparr>c_dp_mask := m, c_detect := type, c_dp := Some d\<rparr>) w1 in
      w3 = take_over v m type d (snd (call Time u)) \<and> connect_hook v dst next u = connect_hook v dst next w3 \<and>
      (check_l34 (groups w d) SOCK_STREAM dst w \<longrightarrow> find_dp v None dst w3 = Some (Some d, w3) \<and>
        (\<forall>w'. connect_hook v dst next u = Some (0, w') \<longrightarrow> e_dp (items w' v) = Some d \<and> e_dp_mask (items w' v) = m)))"
proof -
  obtain ck n where ck: "serialize_addr dst = (ck, n)" by (cases "serialize_addr dst")
  obtain w1 pool' e where 1: "cache_add dst l w = Some (Some (el_addr e), w1)" "p_mempool (params w1) = Some pool'"
    "pool_inv ok_bits (char_signed w) CMP_BITS pool'" "e \<in> pool_elems pool'" "prefix (key_bits e) (key_bits (temp_elem pool' ck (n * 8)))"
    "c_time (cache w1 (el_addr e)) = a_ret (kernel w (trace w) Time)" "kernel w1 = kernel w" "char_signed w1 = char_signed w"
    "groups w1 = groups w" "params w1 = (params w)\<lparr>p_mempool := Some pool'\<rparr>" "\<And>u. u \<noteq> l \<Longrightarrow> items w1 u = items w u"
    using cache_add_stores [OF assms(1-6) ck assms(7)] by blast
  have used1: "event_used v w1" using aside_cache_add [OF 1(1)] assms(15) event_used_aside by blast
  let ?a = "el_addr e"
  define u where "u = upd_cache ?a (\<lambda>x. x\<lparr>c_dp_mask := m, c_detect := type, c_dp := Some d\<rparr>) w1"
  have u: "params u = params w1" "char_signed u = char_signed w" "groups u = groups w" "kernel u = kernel w" "items u v = items w v"
    "c_dp (cache u ?a) = Some d" "c_dp_mask (cache u ?a) = m" "c_detect (cache u ?a) = type" "c_time (cache u ?a) = a_ret (kernel w (trace w) Time)"
    using 1(6-9) 1(11) [OF assms(12)] by (simp_all add: u_def upd_cache_def)
  define w2 where "w2 = snd (call Time u)"
  have get: "cache_get dst u = Some (Some ?a, w2)"
    unfolding w2_def by (rule cache_get_stored [of u pool' e dst ck n d]) (use 1 u ck assms(6,11) in auto)
  have w2: "cache w2 = cache u" "params w2 = params u" "groups w2 = groups u" "items w2 = items u" "char_signed w2 = char_signed u"
    by (simp_all add: w2_def call_def sys_def Let_def)
  define w3 where "w3 = take_over v m type d w2"
  have "d_bit (groups w d) \<noteq> 0" "p_dp_full_mask (params w) = bits w ds" using assms(8,9) by (auto simp: groups_ok_def)
  then have full: "m \<noteq> p_dp_full_mask (params w)" using in_bits [OF assms(9), of w] assms(10) by auto
  have found: "find_dp v None dst w3 = Some (Some d, w3)" if fits: "check_l34 (groups w d) SOCK_STREAM dst w"
  proof (rule find_dp_own)
    have "check_l34 (groups w d) SOCK_STREAM dst w3 = check_l34 (groups w d) SOCK_STREAM dst w"
      using u(2) w2(5) by (simp add: check_l34_def check_ip_def w3_def take_over_def split: option.split)
    then show "check_l34 (groups w3 d) SOCK_STREAM dst w3" using fits u(3) w2(3) by (simp add: w3_def take_over_def) (simp add: upd_ev_def)
  qed (use u w2 assms(10,14) full 1(10) in \<open>simp_all add: w3_def take_over_def upd_ev_def\<close>)
  have hook: "connect_hook v dst next u = connect_hook v dst next w3"
    unfolding w3_def by (rule connect_hook_takes [OF _ get]) (use u w2(1) assms(13) in simp_all)
  have "e_dp (items w' v) = Some d \<and> e_dp_mask (items w' v) = m" if "connect_hook v dst next u = Some (0, w')" and fits: "check_l34 (groups w d) SOCK_STREAM dst w" for w'
  proof -
    have "event_used v w3" using used1 by (simp add: w3_def take_over_def w2_def u_def event_used_def call_def sys_def upd_ev_def upd_cache_def Let_def)
    moreover have "e_dp (items w3 v) = Some d" "e_dp_mask (items w3 v) = m" by (simp_all add: w3_def take_over_def upd_ev_def)
    ultimately show ?thesis using same_choice_found [OF that(1) [unfolded hook] _ found [OF fits]] by (simp add: same_choice_def upd_ev_def)
  qed
  then have "cache_add dst l w = Some (Some ?a, w1) \<and> w3 = take_over v m type d (snd (call Time u)) \<and>
      connect_hook v dst next u = connect_hook v dst next w3 \<and>
      (check_l34 (groups w d) SOCK_STREAM dst w \<longrightarrow> find_dp v None dst w3 = Some (Some d, w3) \<and>
        (\<forall>w'. connect_hook v dst next u = Some (0, w') \<longrightarrow> e_dp (items w' v) = Some d \<and> e_dp_mask (items w' v) = m))"
    using 1(1) hook found w3_def [unfolded w2_def] by blast
  then show ?thesis unfolding u_def Let_def by blast
qed

text \<open>
  After the failure of the group 102 the cache has the group 101 for the address: the next client, 0, connects
  with it.
\<close>

theorem choice_remembered_witness:
  "\<exists>a w1 w3. cache_add (zero_addr\<lparr>sa_family := AF_INET\<rparr>) 1 failing = Some (Some a, w1) \<and>
    connect_hook 0 (zero_addr\<lparr>sa_family := AF_INET\<rparr>) On_connect
      (upd_cache a (\<lambda>x. x\<lparr>c_dp_mask := 5, c_detect := DETECT_CONNECT, c_dp := Some 101\<rparr>) w1) =
    connect_hook 0 (zero_addr\<lparr>sa_family := AF_INET\<rparr>) On_connect w3 \<and> e_dp (items w3 0) = Some 101 \<and>
    find_dp 0 None (zero_addr\<lparr>sa_family := AF_INET\<rparr>) w3 = Some (Some 101, w3)"
proof -
  let ?dst = "zero_addr\<lparr>sa_family := AF_INET\<rparr>" and ?pool = "mem_pool False True CMP_BITS"
  have g: "groups_ok failing [100, 101, 102]"
    using three_groups_ok groups_ok_same [of failing three_groups "[100, 101, 102]"] by (simp add: failing_def)
  have p: "pool_room ?pool" "\<forall>e\<in>pool_elems ?pool. el_addr e < next_addr failing"
    by (simp_all add: pool_room_def room_def mem_pool_def pool_elems_def)
  have k: "p_mempool (params failing) = Some ?pool" "gives_memory (kernel failing)" "addr_ok ?dst" "p_cache_pre (params failing) = 0"
    by (simp_all add: failing_def three_groups_def samples gives_memory_def addr_ok_def zero_addr_def zero_params_def)
  have f: "check_l34 (groups failing 101) SOCK_STREAM ?dst failing" by code_simp
  have b: "d_bit (groups failing 101) AND 5 = 0" "d_cache_ttl (groups failing 101) = 0" "e_buff (items failing 0) = None"
    "e_dp (items failing 0) = None" "event_used 0 failing"
    by (simp_all add: failing_def three_groups_def zero_dp_def zero_eval_def event_used_def fresh_def)
  have "(101 :: nat) \<in> set [100, 101, 102]" "(0 :: nat) \<noteq> 1" by simp_all
  from choice_remembered [OF k(1) bits.pool_inv_empty p k(2-4) g this(1) b(1) disjI1 [OF b(2)] this(2) b(4,3,5), of DETECT_CONNECT On_connect]
  obtain a w1 w3 where r: "cache_add ?dst 1 failing = Some (Some a, w1)"
    "w3 = take_over 0 5 DETECT_CONNECT 101 (snd (call Time
       (upd_cache a (\<lambda>x. x\<lparr>c_dp_mask := 5, c_detect := DETECT_CONNECT, c_dp := Some 101\<rparr>) w1)))"
    "connect_hook 0 ?dst On_connect (upd_cache a (\<lambda>x. x\<lparr>c_dp_mask := 5, c_detect := DETECT_CONNECT, c_dp := Some 101\<rparr>) w1) =
     connect_hook 0 ?dst On_connect w3" "find_dp 0 None ?dst w3 = Some (Some 101, w3)"
    using f unfolding Let_def by blast
  have "e_dp (items w3 0) = Some 101" unfolding r(2) by (simp add: take_over_def upd_ev_def)
  with r show ?thesis by blast
qed

text \<open>With a kernel that answers every call the connection is begun.\<close>

lemma remembered_connects:
  "(case cache_add (zero_addr\<lparr>sa_family := AF_INET\<rparr>) 1 failing of
      Some (Some a, w1) \<Rightarrow>
        map_option (\<lambda>(r, w). (r, e_dp (items w 0), e_dp_mask (items w 0)))
          (connect_hook 0 (zero_addr\<lparr>sa_family := AF_INET\<rparr>) On_connect
            (upd_cache a (\<lambda>x. x\<lparr>c_dp_mask := 5, c_detect := DETECT_CONNECT, c_dp := Some 101\<rparr>) w1))
    | _ \<Rightarrow> None) = Some (0, Some 101, 5)"
  by code_simp

end
