(* ===== verification/Stop_Props.thy ===== *)
theory Stop_Props
  imports Proxy Conev_Props
begin

text \<open>
  The end of the event loop: who closes the listening socket of proxy.c. The deletion of events in
  conev.c leaves \<open>server_fd\<close> alone so that \<open>start_event_loop\<close> can close it, but
  \<open>byedpi_stop\<close> has forgotten \<open>server_fd\<close> by then.
\<close>

section \<open>Stopping leaves the pool alone\<close>

lemma pool_flags [simp]:
  "events_ok (w\<lparr>trace := tr, errno := e, server_fd := s, pl_brk := b\<rparr>) vs bs \<longleftrightarrow> events_ok w vs bs"
  "events_ok (w\<lparr>ctrl_fds := p, server_fd := s\<rparr>) vs bs \<longleftrightarrow> events_ok w vs bs"
  "events_ok (w\<lparr>current_pool := c\<rparr>) vs bs \<longleftrightarrow> events_ok w vs bs"
  by (simp_all add: events_ok_def timers_def free_bufs_def links_ok_def pairs_ok_def bufs_ok_def live_def owns_def)

text \<open>What \<open>byedpi_stop\<close> changes: it closes nothing.\<close>

lemma byedpi_stop_state:
  assumes "0 < server_fd w"
  obtains tr e b where "byedpi_stop w = w\<lparr>trace := tr, errno := e, server_fd := - 1, pl_brk := b\<rparr>"
    "closes tr = closes (trace w)"
proof -
  obtain a e where 1: "snd (call (Shutdown (server_fd w)) w) = w\<lparr>trace := trace w @ [(Shutdown (server_fd w), a)], errno := e\<rparr>"
    by (rule call_cases [of "Shutdown (server_fd w)" w]) simp
  define w1 where "w1 = w\<lparr>trace := trace w @ [(Shutdown (server_fd w), a)], errno := e, server_fd := - 1, pl_brk := True\<rparr>"
  obtain a' e' where 2: "snd (call (Write (snd (ctrl_fds w)) [119]) w1) =
      w1\<lparr>trace := trace w1 @ [(Write (snd (ctrl_fds w)) [119], a')], errno := e'\<rparr>"
    by (rule call_cases [of "Write (snd (ctrl_fds w)) [119]" w1]) simp
  show ?thesis
  proof (cases "current_pool w")
    case False
    then show ?thesis
      by (intro that [of "pl_brk w" e "trace w @ [(Shutdown (server_fd w), a)]"])
        (simp_all add: byedpi_stop_def on_cancel_def assms 1)
  next
    case True
    have s: "byedpi_stop w = byedpi_wakeup w1"
      using True by (simp add: byedpi_stop_def on_cancel_def assms 1 w1_def)
    show ?thesis
    proof (cases "snd (ctrl_fds w) = - 1")
      case True
      then show ?thesis
        by (intro that [of True e "trace w @ [(Shutdown (server_fd w), a)]"]) (simp_all add: s byedpi_wakeup_def w1_def)
    next
      case False
      then have "byedpi_stop w = w1\<lparr>trace := trace w1 @ [(Write (snd (ctrl_fds w)) [119], a')], errno := e'\<rparr>"
        using 2 True by (simp add: s byedpi_wakeup_def) (simp add: w1_def)
      then show ?thesis
        by (intro that [of True e' "trace w1 @ [(Write (snd (ctrl_fds w)) [119], a')]"]) (simp_all add: w1_def)
    qed
  qed
qed

section \<open>The listening socket\<close>

text \<open>The listener is watched by one live event, and no other descriptor of the pool has its number.\<close>

definition listens :: "proc \<Rightarrow> nat \<Rightarrow> int \<Rightarrow> bool" where
  "listens w v fd \<longleftrightarrow> live w v \<and> e_fd (items w v) = fd \<and> (\<forall>u. live w u \<longrightarrow> e_fd (items w u) = fd \<longrightarrow> u = v) \<and>
     fst (ctrl_fds w) \<noteq> fd \<and> snd (ctrl_fds w) \<noteq> fd \<and> pl_efd w \<noteq> fd"

lemma listens_stop [simp]:
  "listens (w\<lparr>trace := tr, errno := e, server_fd := s, pl_brk := b\<rparr>) v fd \<longleftrightarrow> listens w v fd"
  by (simp add: listens_def live_def)

lemma count_filter: "count_list (filter P xs) x = (if P x then count_list xs x else 0)"
  by (induction xs) auto

lemma end_event_loop_closes:
  assumes "events_ok w vs bs" and "listens w v fd"
  shows "\<exists>w'. end_event_loop fd w = Some w' \<and>
    count_list (closes (trace w')) fd = count_list (closes (trace w)) fd + (if server_fd w = fd then 1 else 2)"
proof -
  let ?w = "w\<lparr>current_pool := False\<rparr>"
  have ok: "events_ok ?w vs bs" using assms(1) by simp
  obtain w1 ds where d: "destroy_pool ?w = Some w1" "distinct ds" "\<forall>u. u \<in> set ds \<longleftrightarrow> live ?w u"
    "closes (trace w1) = closes (trace ?w) @ (if fst (ctrl_fds ?w) \<noteq> - 1 then [fst (ctrl_fds ?w), snd (ctrl_fds ?w)] else []) @
        filter (\<lambda>fd. fd \<noteq> server_fd ?w) (map (\<lambda>u. e_fd (items ?w u)) ds) @ (if pl_efd ?w \<noteq> 0 then [pl_efd ?w] else [])"
    using destroy_pool_ok [OF ok] by blast
  have pos: "0 < fd" using live_eventD(1) [OF assms(1), of v] assms(2) by (auto simp: listens_def)
  have live: "live ?w u \<longleftrightarrow> live w u" for u by (simp add: live_def)
  have ds: "count_list (map (\<lambda>u. e_fd (items w u)) ds) fd = 1"
  proof -
    have v: "v \<in> set ds" using d(3) assms(2) live by (simp add: listens_def)
    have "u = v" if "u \<in> set ds" "e_fd (items w u) = fd" for u
      using that d(3) live assms(2) by (simp add: listens_def)
    then have "filter (\<lambda>u. fd = e_fd (items w u)) ds = filter (\<lambda>u. u = v) ds"
      using assms(2) by (intro filter_cong) (auto simp: listens_def)
    then show ?thesis
      using d(2) v by (simp add: count_list_eq_length_filter filter_map comp_def distinct_length_filter)
  qed
  obtain a e where c: "close_fd fd (w1\<lparr>server_fd := - 1\<rparr>) = (w1\<lparr>server_fd := - 1\<rparr>)\<lparr>trace := trace w1 @ [(Close fd, a)], errno := e\<rparr>"
    by (rule close_fd_cases [of fd "w1\<lparr>server_fd := - 1\<rparr>"]) simp
  have "count_list (filter (\<lambda>x. x \<noteq> server_fd w) (map (\<lambda>u. e_fd (items w u)) ds)) fd = (if server_fd w = fd then 0 else 1)"
    using ds by (simp add: count_filter)
  then show ?thesis
    using d(1,4) c pos assms(2)
    by (simp add: end_event_loop_def stop_server_def listens_def)
qed

text \<open>
  C39: The listening socket is closed exactly once when the event loop ends by itself, but twice when
  \<open>byedpi_stop\<close> ended it: that sets \<open>server_fd\<close> to -1, so the deletion of the listener's
  event closes the socket, and \<open>start_event_loop\<close> closes the same number again. In a process with
  other threads the second close can hit a descriptor that was opened in between.
\<close>

theorem stopped_listener_closed_twice:
  assumes "events_ok w vs bs" and "listens w v (server_fd w)"
  shows "\<exists>w1 w2. end_event_loop (server_fd w) w = Some w1 \<and>
    count_list (closes (trace w1)) (server_fd w) = count_list (closes (trace w)) (server_fd w) + 1 \<and>
    end_event_loop (server_fd w) (byedpi_stop w) = Some w2 \<and>
    count_list (closes (trace w2)) (server_fd w) = count_list (closes (trace w)) (server_fd w) + 2"
proof -
  have "0 < server_fd w" using live_eventD(1) [OF assms(1), of v] assms(2) by (auto simp: listens_def)
  then obtain tr e b where s: "byedpi_stop w = w\<lparr>trace := tr, errno := e, server_fd := - 1, pl_brk := b\<rparr>"
    "closes tr = closes (trace w)" by (rule byedpi_stop_state)
  have "events_ok (byedpi_stop w) vs bs" "listens (byedpi_stop w) v (server_fd w)"
    unfolding s(1) using assms by simp_all
  then obtain w2 where 2: "end_event_loop (server_fd w) (byedpi_stop w) = Some w2"
    "count_list (closes (trace w2)) (server_fd w) = count_list (closes (trace (byedpi_stop w))) (server_fd w) +
      (if server_fd (byedpi_stop w) = server_fd w then 1 else 2)"
    using end_event_loop_closes by blast
  obtain w1 where 1: "end_event_loop (server_fd w) w = Some w1"
    "count_list (closes (trace w1)) (server_fd w) = count_list (closes (trace w)) (server_fd w) + 1"
    using end_event_loop_closes [OF assms] by auto
  have "trace (byedpi_stop w) = tr" "server_fd (byedpi_stop w) = - 1" using s(1) by simp_all
  with 1 2 s(2) \<open>0 < server_fd w\<close> show ?thesis by simp
qed

text \<open>The pool of the instances with its event 0 as the listener.\<close>

definition serving :: proc where
  "serving = busy\<lparr>ctrl_fds := (12, 11), server_fd := 8\<rparr>"

theorem stopped_listener_closed_twice_witness:
  "\<exists>w2. end_event_loop 8 (byedpi_stop serving) = Some w2 \<and> count_list (closes (trace w2)) 8 = 2"
proof -
  have ok: "events_ok serving [1] [60]"
    using busy_ok by (simp add: serving_def)
  have fds: "e_fd (items serving u) = (if u = 0 then 8 else if u = 1 then 9 else if u = 2 then 10 else - 1)" for u
    by (simp add: serving_def busy_def zero_eval_def)
  have live: "live serving u \<longleftrightarrow> u < 3" for u
    using busy_live by (simp add: serving_def live_def)
  have eight: "server_fd serving = 8" "trace serving = []" "ctrl_fds serving = (12, 11)" "pl_efd serving = 5"
    by (simp_all add: serving_def busy_def samples)
  have "listens serving 0 (server_fd serving)"
    unfolding listens_def live eight fds by simp
  from stopped_listener_closed_twice [OF ok this] show ?thesis
    unfolding eight by auto
qed

end
