(* ===== verification/Jni.thy ===== *)
theory Jni
  imports Args "HOL-Library.Multiset"
begin

text \<open>
  native-lib.cpp: how the Java side starts, stops and closes the proxy and the tunnel. Several
  threads are inside these functions at once; what a function does while it holds a mutex is one
  step, so a state is the process, the global variables of the file, and the calls that are under
  way, each at the point where it holds no mutex. The calls are the multiset \<open>j_calls\<close>.

  The Java machine and the tunnel library (a submodule) are not under the sources. Their answers
  are arguments. What \<open>byedpi_main\<close> does to the process while it runs is left open here, so
  that what holds of every execution holds of the real one; Args says what it does undisturbed.
\<close>

section \<open>The state\<close>

text \<open>
  A call is in \<open>byedpi_main\<close>, has told the proxy to stop and goes for the mutex, waits on the
  condition variable, or is in \<open>hev_socks5_tunnel_main\<close>.
\<close>

datatype jcall = In_main "mem list" | Told_to_stop | Waiting | In_tunnel

text \<open>\<open>j_forced\<close> is no variable of the program: it counts the closes that gave up waiting.\<close>

record jni =
  j_proc :: proc
  j_jvm :: bool
  j_proxy_running :: bool
  j_tunnel_running :: bool
  j_vpn_service :: "nat option"
  j_protect_method :: "nat option"
  j_calls :: "jcall multiset"
  j_forced :: nat

definition leave :: "jcall \<Rightarrow> jni \<Rightarrow> jni" where
  "leave c s = s\<lparr>j_calls := j_calls s - {#c#}\<rparr>"

definition enter :: "jcall \<Rightarrow> jni \<Rightarrow> jni" where
  "enter c s = s\<lparr>j_calls := add_mset c (j_calls s)\<rparr>"

section \<open>The VPN service\<close>

definition JNI_OnLoad :: "jni \<Rightarrow> jni" where
  "JNI_OnLoad s = s\<lparr>j_jvm := True\<rparr>"

text \<open>Whether the thread is known to the machine, and whether it can be attached; the result says
  whether it was attached.\<close>

definition get_jni_env :: "bool \<Rightarrow> bool \<Rightarrow> jni \<Rightarrow> bool option" where
  "get_jni_env known attach s =
     (if \<not> j_jvm s then None else if known then Some False else if attach then Some True else None)"

text \<open>\<open>protect\<close> calls the service: \<open>None\<close> when that throws.\<close>

definition android_protect_tunnel_socket ::
  "bool \<Rightarrow> bool \<Rightarrow> (nat \<Rightarrow> nat \<Rightarrow> int \<Rightarrow> bool option) \<Rightarrow> int \<Rightarrow> jni \<Rightarrow> int" where
  "android_protect_tunnel_socket known attach protect fd s =
     (if fd < 0 then - 1
      else
        (case get_jni_env known attach s of
           None \<Rightarrow> - 1
         | Some _ \<Rightarrow>
             (case (j_vpn_service s, j_protect_method s) of
                (Some v, Some m) \<Rightarrow> (if protect v m fd = Some True then 0 else - 1)
              | _ \<Rightarrow> 0)))"

text \<open>\<open>lookup\<close> finds \<open>protect\<close> in the class of the service.\<close>

definition jniSetVpnService :: "(nat \<Rightarrow> nat option) \<Rightarrow> nat option \<Rightarrow> jni \<Rightarrow> jni" where
  "jniSetVpnService lookup service s =
     (let s = s\<lparr>j_vpn_service := None, j_protect_method := None\<rparr> in
      case service of
        None \<Rightarrow> s
      | Some v \<Rightarrow> (if \<not> j_jvm s then s else s\<lparr>j_vpn_service := Some v, j_protect_method := lookup v\<rparr>))"

definition vpn_jniCleanup :: "jni \<Rightarrow> jni" where
  "vpn_jniCleanup s = s\<lparr>j_vpn_service := None, j_protect_method := None\<rparr>"

section \<open>The proxy\<close>

text \<open>The cleanups of \<open>StrategyTester\<close> and of \<open>ByeDpiProxy\<close> are the same.\<close>

definition jniCleanup :: "jni \<Rightarrow> jni option" where
  "jniCleanup s = do {
     w \<leftarrow> clear_params (j_proc s);
     Some (s\<lparr>j_proc := reset_params w\<rparr>) }"

text \<open>The strings of the Java array; an element that is null is left out.\<close>

definition arg_strings :: "mem option list \<Rightarrow> mem list" where
  "arg_strings args = List.map_filter id args"

text \<open>
  \<open>jniStartProxy\<close> up to the call of \<open>byedpi_main\<close>; a number is returned when it is not called.
\<close>

definition jniStartProxy :: "mem option list \<Rightarrow> jni \<Rightarrow> (int option \<times> jni) option" where
  "jniStartProxy args s =
     (if j_proxy_running s then Some (Some (- 1), s)
      else do {
        let s = s\<lparr>j_proxy_running := True\<rparr>;
        w \<leftarrow> clear_params (j_proc s);
        Some (None, enter (In_main (arg_strings args)) (s\<lparr>j_proc := reset_params w\<rparr>)) })"

text \<open>What it does when \<open>byedpi_main\<close> has returned.\<close>

definition end_proxy :: "mem list \<Rightarrow> jni \<Rightarrow> jni" where
  "end_proxy argv s =
     leave (In_main argv) (s\<lparr>j_proc := (j_proc s)\<lparr>server_fd := - 1\<rparr>, j_proxy_running := False\<rparr>)"

definition jniStopProxy :: "jni \<Rightarrow> jni" where
  "jniStopProxy s = s\<lparr>j_proc := byedpi_stop (j_proc s)\<rparr>"

text \<open>\<open>jniForceClose\<close> until it takes the mutex.\<close>

definition jniForceClose :: "jni \<Rightarrow> jni" where
  "jniForceClose s =
     (let w = byedpi_stop (j_proc s);
          w = (if server_fd w \<ge> 0 then snd (call (Shutdown (server_fd w)) w) else w)
      in enter Told_to_stop (s\<lparr>j_proc := w\<rparr>))"

text \<open>With the mutex: there is nothing to wait for, or the call waits, which releases it.\<close>

definition close_wait :: "jni \<Rightarrow> jni" where
  "close_wait s =
     (let s = leave Told_to_stop s in if j_proxy_running s then enter Waiting s else s)"

text \<open>The wait ends when the proxy does not run, or when two seconds are over.\<close>

definition close_end :: "bool \<Rightarrow> jni \<Rightarrow> jni" where
  "close_end timeout s =
     (if \<not> j_proxy_running s then leave Waiting s
      else if timeout then leave Waiting (s\<lparr>j_proxy_running := False, j_forced := j_forced s + 1\<rparr>)
      else s)"

section \<open>The tunnel\<close>

definition TProxyStartService :: "jni \<Rightarrow> int option \<times> jni" where
  "TProxyStartService s =
     (if j_tunnel_running s then (Some (- 1), s)
      else (None, enter In_tunnel (s\<lparr>j_tunnel_running := True\<rparr>)))"

definition end_tunnel :: "jni \<Rightarrow> jni" where
  "end_tunnel s = leave In_tunnel (s\<lparr>j_tunnel_running := False\<rparr>)"

text \<open>The counters are packets and bytes sent, packets and bytes received.\<close>

definition TProxyGetStats :: "nat \<times> nat \<times> nat \<times> nat \<Rightarrow> nat list" where
  "TProxyGetStats c = (case c of (tx_p, tx_b, rx_p, rx_b) \<Rightarrow> [rx_b, tx_b])"

section \<open>Executions\<close>

inductive jni_step :: "jni \<Rightarrow> jni \<Rightarrow> bool" where
  load: "jni_step s (JNI_OnLoad s)"
| set_service: "jni_step s (jniSetVpnService lookup service s)"
| drop_service: "jni_step s (vpn_jniCleanup s)"
| cleanup: "jniCleanup s = Some s' \<Longrightarrow> jni_step s s'"
| start: "jniStartProxy args s = Some (r, s') \<Longrightarrow> jni_step s s'"
| main_runs: "In_main argv \<in># j_calls s \<Longrightarrow> jni_step s (s\<lparr>j_proc := w\<rparr>)"
| main_ends: "In_main argv \<in># j_calls s \<Longrightarrow> jni_step s (end_proxy argv s)"
| stop: "jni_step s (jniStopProxy s)"
| close: "jni_step s (jniForceClose s)"
| close_locks: "Told_to_stop \<in># j_calls s \<Longrightarrow> jni_step s (close_wait s)"
| close_wakes: "Waiting \<in># j_calls s \<Longrightarrow> jni_step s (close_end timeout s)"
| start_tunnel: "TProxyStartService s = (r, s') \<Longrightarrow> jni_step s s'"
| tunnel_ends: "In_tunnel \<in># j_calls s \<Longrightarrow> jni_step s (end_tunnel s)"

definition jni_init :: "proc \<Rightarrow> jni" where
  "jni_init w =
     \<lparr>j_proc = w, j_jvm = False, j_proxy_running = False, j_tunnel_running = False, j_vpn_service = None,
      j_protect_method = None, j_calls = {#}, j_forced = 0\<rparr>"

inductive jni_reach :: "proc \<Rightarrow> jni \<Rightarrow> bool" for w where
  first: "jni_reach w (jni_init w)"
| more: "jni_reach w s \<Longrightarrow> jni_step s s' \<Longrightarrow> jni_reach w s'"

inductive_cases jni_stepE: "jni_step s s'"

end
