(* ===== verification/Jni_Props.thy ===== *)
theory Jni_Props
  imports Jni Samples
begin

text \<open>
  native-lib.cpp: how many times \<open>byedpi_main\<close> runs at once. Its state is that of one process,
  so a second run clears the parameters the first one uses.
\<close>

section \<open>Counting the calls\<close>

fun in_main :: "jcall \<Rightarrow> bool" where
  "in_main (In_main argv) = True"
| "in_main c = False"

definition runs :: "jni \<Rightarrow> nat" where
  "runs s = size (filter_mset in_main (j_calls s))"

definition tunnels :: "jni \<Rightarrow> nat" where
  "tunnels s = count (j_calls s) In_tunnel"

definition counted :: "jni \<Rightarrow> bool" where
  "counted s \<longleftrightarrow>
     runs s \<le> j_forced s + of_bool (j_proxy_running s) \<and>
     (j_proxy_running s \<longrightarrow> 0 < runs s) \<and>
     tunnels s = of_bool (j_tunnel_running s)"

lemma counted_cong:
  assumes "j_calls s' = j_calls s" "j_forced s' = j_forced s" "j_proxy_running s' = j_proxy_running s"
    "j_tunnel_running s' = j_tunnel_running s"
  shows "counted s' = counted s"
  using assms by (simp add: counted_def runs_def tunnels_def)

lemma runs_simps [simp]:
  "runs (enter c s) = runs s + of_bool (in_main c)"
  "c \<in># j_calls s \<Longrightarrow> runs (leave c s) = runs s - of_bool (in_main c)"
  "runs (s\<lparr>j_proc := w\<rparr>) = runs s"
  "runs (s\<lparr>j_proxy_running := b\<rparr>) = runs s"
  "runs (s\<lparr>j_tunnel_running := b\<rparr>) = runs s"
  "runs (s\<lparr>j_forced := n\<rparr>) = runs s"
  by (auto simp: runs_def enter_def leave_def size_Diff_singleton)

lemma tunnels_simps [simp]:
  "tunnels (enter c s) = tunnels s + of_bool (c = In_tunnel)"
  "tunnels (leave c s) = tunnels s - of_bool (c = In_tunnel)"
  "tunnels (s\<lparr>j_proc := w\<rparr>) = tunnels s"
  "tunnels (s\<lparr>j_proxy_running := b\<rparr>) = tunnels s"
  "tunnels (s\<lparr>j_tunnel_running := b\<rparr>) = tunnels s"
  "tunnels (s\<lparr>j_forced := n\<rparr>) = tunnels s"
  by (auto simp: tunnels_def enter_def leave_def)

lemma call_fields [simp]:
  "j_forced (enter c s) = j_forced s" "j_forced (leave c s) = j_forced s"
  "j_proxy_running (enter c s) = j_proxy_running s" "j_proxy_running (leave c s) = j_proxy_running s"
  "j_tunnel_running (enter c s) = j_tunnel_running s" "j_tunnel_running (leave c s) = j_tunnel_running s"
  "j_proc (enter c s) = j_proc s" "j_proc (leave c s) = j_proc s"
  "j_calls (enter c s) = add_mset c (j_calls s)" "j_calls (leave c s) = j_calls s - {#c#}"
  by (simp_all add: enter_def leave_def)

lemma runs_pos: "In_main argv \<in># j_calls s \<Longrightarrow> 0 < runs s"
  by (auto simp: runs_def size_eq_0_iff_empty gr0_conv_Suc filter_mset_eq_conv
      dest!: multi_member_split)

lemma tunnels_pos: "In_tunnel \<in># j_calls s \<Longrightarrow> 0 < tunnels s"
  by (simp add: tunnels_def)

section \<open>One step\<close>

lemmas one_step = counted_def jniStartProxy_def jniCleanup_def jniForceClose_def jniStopProxy_def end_proxy_def
  close_wait_def close_end_def TProxyStartService_def end_tunnel_def Let_def

lemma counted_step:
  assumes "jni_step s s'" "counted s"
  shows "counted s'"
  using assms
proof (induction rule: jni_step.induct)
  case (load s)
  then show ?case by (subst counted_cong [of _ s]) (simp_all add: JNI_OnLoad_def)
next
  case (set_service s lookup service)
  then show ?case
    by (subst counted_cong [of _ s]) (simp_all add: jniSetVpnService_def Let_def split: option.splits)
next
  case (drop_service s)
  then show ?case by (subst counted_cong [of _ s]) (simp_all add: vpn_jniCleanup_def)
next
  case (cleanup s s')
  then show ?case by (auto simp: one_step bind_eq_Some_conv)
next
  case (start args s r s')
  then show ?case by (auto simp: one_step bind_eq_Some_conv split: if_splits)
next
  case (main_runs argv s w)
  then show ?case by (simp add: counted_def)
next
  case (main_ends argv s)
  then show ?case using runs_pos [of argv s]
    by (cases "j_proxy_running s") (auto simp: one_step)
next
  case (stop s)
  then show ?case by (simp add: one_step)
next
  case (close s)
  then show ?case by (simp add: one_step)
next
  case (close_locks s)
  then show ?case by (auto simp: one_step)
next
  case (close_wakes s timeout)
  then show ?case by (auto simp: one_step)
next
  case (start_tunnel s r s')
  then show ?case by (auto simp: one_step split: if_splits)
next
  case (tunnel_ends s)
  then show ?case by (auto simp: one_step split: if_splits)
qed

text \<open>
  C19: However the threads of the application interleave, \<open>byedpi_main\<close> runs at most once,
  plus once for every forced close that gave up waiting; while the flag \<open>g_proxy_running\<close> is set it
  does run, and the tunnel runs exactly when \<open>g_tunnel_running\<close> is set.
\<close>

theorem proxy_runs_bounded:
  assumes "jni_reach w s"
  shows "runs s \<le> j_forced s + of_bool (j_proxy_running s) \<and>
    (j_proxy_running s \<longrightarrow> 0 < runs s) \<and> tunnels s = of_bool (j_tunnel_running s)"
  using assms
proof (fold counted_def, induction rule: jni_reach.induct)
  case first
  then show ?case by (simp add: counted_def runs_def tunnels_def jni_init_def)
next
  case (more s s')
  then show ?case by (blast intro: counted_step)
qed

section \<open>A forced close that gives up\<close>

text \<open>Parameters as \<open>reset_params\<close> leaves them: there is nothing to clear.\<close>

definition unset :: "proc \<Rightarrow> bool" where
  "unset w \<longleftrightarrow> p_pid_fd (params w) = 0 \<and> p_pid_file (params w) = None \<and> p_mempool (params w) = None \<and>
     p_need_free (params w) = [] \<and> p_dp (params w) = None"

lemma clear_unset: "unset w \<Longrightarrow> clear_params w = Some w"
  by (simp add: unset_def clear_params_def clear_groups.simps mem_destroy_def set_params_def)

lemma unset_reset: "unset (reset_params w)"
  by (simp add: unset_def reset_params_def zero_params_def)

lemma params_call [simp]: "params (snd (call c w)) = params w"
  by (simp add: call_def sys_def Let_def)

lemma params_stop [simp]: "params (byedpi_stop w) = params w"
  by (simp add: byedpi_stop_def on_cancel_def byedpi_wakeup_def Let_def)

text \<open>A start, a forced close that waits in vain, and another start.\<close>

definition started :: "proc \<Rightarrow> jni" where
  "started w = enter (In_main []) ((jni_init w)\<lparr>j_proxy_running := True, j_proc := reset_params w\<rparr>)"

definition given_up :: "proc \<Rightarrow> jni" where
  "given_up w = close_end True (close_wait (jniForceClose (started w)))"

lemma start_unset:
  "unset (j_proc s) \<Longrightarrow> \<not> j_proxy_running s \<Longrightarrow>
   jniStartProxy [] s =
     Some (None, enter (In_main []) (s\<lparr>j_proxy_running := True, j_proc := reset_params (j_proc s)\<rparr>))"
  by (simp add: jniStartProxy_def clear_unset arg_strings_def Let_def)

lemma started_reach: "unset w \<Longrightarrow> jni_reach w (started w)"
  using start_unset [of "jni_init w"]
  by (intro jni_reach.more [OF jni_reach.first] jni_step.start) (simp_all add: started_def jni_init_def)

lemma given_up_state:
  "j_calls (given_up w) = {#In_main []#}" "\<not> j_proxy_running (given_up w)" "j_forced (given_up w) = 1"
  "params (j_proc (given_up w)) = params (reset_params w)"
  by (auto simp: given_up_def close_end_def close_wait_def jniForceClose_def started_def jni_init_def Let_def)

lemma given_up_reach:
  assumes "unset w"
  shows "jni_reach w (given_up w)"
proof -
  have "jni_reach w (jniForceClose (started w))"
    using started_reach [OF assms] jni_step.close by (rule jni_reach.more)
  then have "jni_reach w (close_wait (jniForceClose (started w)))"
    by (rule jni_reach.more) (auto intro: jni_step.close_locks simp: jniForceClose_def Let_def)
  then show ?thesis
    unfolding given_up_def
    by (rule jni_reach.more)
      (auto intro!: jni_step.close_wakes simp: jniForceClose_def close_wait_def started_def Let_def)
qed

theorem proxy_runs_bounded_witness:
  "runs (given_up (fresh calm)) \<le> 1 \<and> tunnels (given_up (fresh calm)) = 0"
proof -
  have "unset (fresh calm)"
    by (simp add: unset_def samples zero_params_def)
  from proxy_runs_bounded [OF given_up_reach [OF this]] show ?thesis
    by (simp add: given_up_state tunnels_def)
qed

text \<open>
  A forced close that waits two seconds in vain clears \<open>g_proxy_running\<close> although
  \<open>byedpi_main\<close> still runs: the next start is not refused, clears the parameters of the process
  that the first run uses, and then two runs share it.
\<close>

theorem two_runs_after_giving_up:
  assumes "unset w"
  shows "\<exists>s s'. jni_reach w s \<and> runs s = 1 \<and> j_forced s = 1 \<and>
    jniStartProxy [] s = Some (None, s') \<and> jni_reach w s' \<and> runs s' = 2 \<and>
    j_proc s' = reset_params (j_proc s)"
proof -
  let ?s = "given_up w"
  have "unset (j_proc ?s)"
    using unset_reset by (simp add: unset_def given_up_state)
  from start_unset [OF this] obtain s' where s': "jniStartProxy [] ?s = Some (None, s')"
      "s' = enter (In_main []) (?s\<lparr>j_proxy_running := True, j_proc := reset_params (j_proc ?s)\<rparr>)"
    by (simp add: given_up_state)
  moreover have "runs ?s = 1"
    by (simp add: runs_def given_up_state)
  moreover have "jni_reach w s'"
    using given_up_reach [OF assms] jni_step.start [OF s'(1)] by (rule jni_reach.more)
  ultimately show ?thesis
    using given_up_reach [OF assms] given_up_state(3) by (intro exI [of _ ?s] exI [of _ s']) simp
qed

theorem two_runs_after_giving_up_witness:
  "\<exists>s. jni_reach (fresh calm) s \<and> runs s = 2"
  using two_runs_after_giving_up [of "fresh calm"] by (auto simp: unset_def samples zero_params_def)

end
