(* ===== verification/Spec2Isabelle.thy ===== *)
theory Spec2Isabelle
  imports Tls_Rewrite Packets_Http_Props Extend_Props Address_Types Ranges_Props Options_Props Tunnel_Props
    Request_Props Retry_Props Memory_Props Stop_Props Jni_Props
begin

text \<open>
  A model of the proxy in app/src/main/cpp: byedpi, a local SOCKS and HTTP proxy that sends the first
  bytes of a connection so that a filter on the path does not recognize them, and native-lib.cpp, which
  runs it inside an Android application. The paths below are relative to app/src/main/cpp/byedpi.

  How the parts work together. main.c turns the options into a list of groups, each a strategy with
  filters (protocol, hosts, addresses, ports) and triggers. proxy.c accepts clients and reads their
  requests, extend.c chooses the group for the address (from a cache that mpool.c keeps in the AVL tree
  of kavl.h, or the first group that fits), proxy.c connects, and the tunnel passes data both ways. What
  the client sends first goes through desync.c, which splits, reorders, fakes and rewrites it with the
  help of packets.c. When the connection fails in a way that a group has as its trigger, extend.c marks
  the group as tried, stores the next one in the cache and connects again with the request it kept. All
  of this are callbacks of the event loop in conev.c. native-lib.cpp starts the loop in a thread of the
  application and stops it from others.

  The theories of the model, each after the file it translates:

    Prelude             C memory, the C library's memory routines, shared lemmas
    Packets_Tls         packets.c: ClientHello and ServerHello, splitting records, replacing the server name
    Packets_Http        packets.c: requests, responses, redirects, the tricks of mod_http
    Fake_Data           packets.c: the built-in fake packets
    Kavl                kavl.h: insertion, deletion, lookup, iteration and freeing of the AVL tree
    Mpool, Cache_File   mpool.c: pools of keys, the file of the cache
    Process             params.h, conev.h, mpool.h, proxy.h: the structures, constants and system calls
    Conev               conev.c: events, timers, buffers, the loop (the build with epoll)
    Desync              desync.c: splitting, faking, tampering
    Address             proxy.c, extend.c: address formats, name resolution, sockets
    Extend              extend.c: cache, filters, choice of the group, triggers, hooks of the tunnel
    Proxy               proxy.c: accepting, requests, the tunnels, start and stop
    Lists, Args         main.c: values, lists, options, groups, start
    Jni                 native-lib.cpp: the functions the Java side calls

  How the code's state and operations appear. A structure is a record with a prefix for its fields, an
  enumeration a datatype, a function a definition of the same name; a large function is split where its
  blocks are, and a loop is a recursive function of its own, so that the definition of the function
  reads like its text. Memory is a list of bytes from a pointer to the end of its object. Pointers to
  events, buffers, groups and cache entries are addresses in stores of the process, so that sharing and
  links are those of the code. The state of the program is the record proc: these stores, the parameters,
  the pool, and a trace of all system calls with their answers. The kernel is a parameter, a function of
  the trace and the call, so a theorem holds whatever the kernel answers unless it asks for a promise
  of it; the C library's address conversions, strtof and getopt_long are the parameter libc. Two builds
  are covered by parameters: assertions on or off, and plain char signed or not.

  A result None is an access outside an object, a failed assertion, a call with undefined behaviour
  (also a conversion of scanf whose value does not fit its variable), or a loop that does not end. The
  one exception is the comparison scmp inside the tree, whose result is not specified when it would
  read outside a key. An error of the code is a value (a negative number, a NULL, an Inl). So
  that a function returns is always proved as a result Some. Loops that are bounded by their data are
  total functions. Loops that follow links or wait for the kernel are partial_function (option), and the
  theorems show that those of the tree, of a pool, of the timers, of deleting events, of waiting and of
  the two searches for a group end. Only merge_tls_records has fuel, because it does not always end;
  the callers that have a packet of n bytes pass (n + 2)^2. That is enough for every run that ends on a
  packet below 65536 bytes: a round with a record that is not empty lets the merged size grow, which can
  happen at most n times, and between two of them a round with an empty record moves what follows by
  five bytes, so that after n / 5 of these rounds nothing changes any more and the loop goes on for ever.

  The theories of proofs:

    Packets_Tls_Props   parsing stays inside, finds the name of every hello, splitting and merging
                        records are inverse; where merging does not end
    Tls_Rewrite         replacing a name gives the encoding of the hello with the other name (single
                        records without an encrypted hello, where no other extension has to give way)
    Packets_Http_Props  parsing stays inside, finds host and port; what the tricks change, exactly
    Kavl_Correct        balance, sizes and order of the tree through every rotation; its depth; the
                        iterator and its stack
    Key_Order           search trees over keys that may be prefixes of each other
    Mpool_Correct       the three orders of mpool.c as such keys, the pools as sets of them
    Pool_Props          hosts and address ranges: exactly the members match; adding and destroying
    Lists_Props         a text of host names without hyphens gives a pool that matches exactly its names
    Ranges_Props        a text of address ranges gives a pool that check_ip answers from; where families mix
    Cache_Props         a line of the cache file is read back when its host is one word; where it is not
    Linked, Timers      doubly linked lists; the timers are sorted, and fire when they are due
    Buffers, Events     the list of recycled buffers; the invariant of the pool of events
    Conev_Props         adding, deleting, waiting, destroying
    Desync_Props        a first call of a group that splits puts the request into the connection in
                        order; where the bytes do not arrive so; the calls for a datagram
    Address_Props, Address_Types   addresses of SOCKS 5 both ways, cut requests, the shape of addresses
    Extend_Props        the watch on TLS records does not depend on how the stream is cut
    Groups_Props        find_dp takes the first group that fits; swop_groups keeps the list
    Trigger_Props       the group the search of on_trigger finds, when it finds none, what it marks
    Retry_Props         a connection is tried again at most once for every other group
    Memory_Props        the next client for an address begins with the group stored for it
    Tunnel_State, Tunnel_Props     the invariant of a settled tunnel; bytes in are bytes out and those kept; where
                        a side that can be written waits
    Request_Props       the first request is kept whole and put back for another attempt
    Options_Kept, Options_Props    every successful parse_args leaves such a list of groups
    Stop_Props          who closes the listening socket
    Jni_Props           how many times byedpi_main runs at once
    Samples             the processes of the instances

  The interfaces are locales. search_order is what the tree of kavl.h needs of a comparison, key_order
  gives it from keys, pool_kind is what a pool of mpool.c needs of one; they are interpreted on the three
  comparisons of mpool.c (bits, blobs, hosts). timer_queue is an ordered queue, interpreted on set_timer
  and remove_timer (tq); recycler is a bounded store of reusable objects, interpreted on buff_pop and
  buff_push (rb).

  Bounds. Sizes are natural numbers and offsets integers, with casts to 16, 32 and 64 bits written out
  where the code casts; masks of groups are 64-bit words and bytes 8-bit words. The paths of
  insertion and deletion and the stack of the iterator in kavl.h have 64 entries: the tree is shown to fit
  them up to the number of elements that room_def in Key_Order gives.

  Not modelled: lwip and the other libraries under third-party names (vendored, only linked or called);
  hev-socks5-tunnel and getopt_long (not under src or of the C library; parameters); the branches for
  Windows, for NetBSD and for poll instead of epoll; log output and error.h, which only prints and, on
  other systems, translates error numbers; when the kernel delivers the signals whose handlers are on_cancel and on_hup; the Kotlin application. In native-lib.cpp what byedpi_main
  does to the process while it runs is left open, so that its theorems hold for every such run.
\<close>

end
